(* ===== verification/Prelude.thy ===== *)
theory Prelude
  imports Complex_Main "HOL-Library.AList" "HOL-Library.Char_ord" "HOL-Library.List_Lexorder"
begin

text \<open>
  Shared vocabulary of the development: Python exceptions as values, the bounded-list and
  keep-the-last-n idioms of the code, and the two generic locales every stateful component is
  an instance of (a machine with an invariant, and a machine whose state only grows).
\<close>

named_theorems step_inv_intros \<open>one-step preservation lemmas of the components\<close>
named_theorems raise_simps \<open>rewriting of exception values\<close>

section \<open>Exceptions\<close>

text \<open>
  A call that may raise returns \<open>exc + 'a\<close>: \<open>Inl\<close> for the exception (its class and its
  message), \<open>Inr\<close> for the returned value. The classes are those the modelled code raises,
  catches or lets through; \<open>issubclass\<close> is Python's class hierarchy restricted to them.
\<close>

datatype exc_class =
    ValueError | TypeError | KeyError | AttributeError | IndexError | OverflowError | ZeroDivisionError | OSError
  | FileNotFoundError | FileExistsError | PermissionError | RuntimeError | UnicodeDecodeError
  | JSONDecodeError | SqliteError | InvalidTag | InvalidSignature
  | LeaseLockError | HeartbeatError | PeerStoreError | PeerIntegrityError
  | ReceiptValidationError | CryptoReceiptError | EncryptedStoreError | EncIntegrityError
  | MeasurementError | ControlError | CommandTimeout | ManifestError | AdmissionError
  | ReplaySessionError | ModelGateError | ModelRunnerError | ModelRunManifestError | SecretStoreError

type_synonym exc = "exc_class \<times> string"

abbreviation raise :: "exc_class \<Rightarrow> string \<Rightarrow> exc + 'a" where
  "raise c msg \<equiv> Inl (c, msg)"

fun parent_class :: "exc_class \<Rightarrow> exc_class option" where
  "parent_class LeaseLockError = Some ValueError"
| "parent_class HeartbeatError = Some ValueError"
| "parent_class PeerStoreError = Some ValueError"
| "parent_class PeerIntegrityError = Some PeerStoreError"
| "parent_class ReceiptValidationError = Some PeerStoreError"
| "parent_class CryptoReceiptError = Some ValueError"
| "parent_class EncryptedStoreError = Some ValueError"
| "parent_class EncIntegrityError = Some EncryptedStoreError"
| "parent_class MeasurementError = Some RuntimeError"
| "parent_class ControlError = Some RuntimeError"
| "parent_class ManifestError = Some ValueError"
| "parent_class AdmissionError = Some ValueError"
| "parent_class ReplaySessionError = Some ValueError"
| "parent_class ModelGateError = Some ValueError"
| "parent_class ModelRunnerError = Some ValueError"
| "parent_class ModelRunManifestError = Some ValueError"
| "parent_class SecretStoreError = Some RuntimeError"
| "parent_class UnicodeDecodeError = Some ValueError"
| "parent_class JSONDecodeError = Some ValueError"
| "parent_class FileNotFoundError = Some OSError"
| "parent_class FileExistsError = Some OSError"
| "parent_class PermissionError = Some OSError"
| "parent_class _ = None"

text \<open>No class is more than two steps below its root, so two unfoldings decide \<open>issubclass\<close>.\<close>

definition issubclass :: "exc_class \<Rightarrow> exc_class \<Rightarrow> bool" where
  "issubclass c d \<longleftrightarrow> c = d \<or> parent_class c = Some d
     \<or> (case parent_class c of None \<Rightarrow> False | Some p \<Rightarrow> parent_class p = Some d)"

text \<open>\<open>type(exc).__name__\<close>\<close>

fun class_name :: "exc_class \<Rightarrow> string" where
  "class_name ValueError = ''ValueError''" | "class_name TypeError = ''TypeError''"
| "class_name KeyError = ''KeyError''" | "class_name AttributeError = ''AttributeError''"
| "class_name IndexError = ''IndexError''" | "class_name OverflowError = ''OverflowError''"
| "class_name ZeroDivisionError = ''ZeroDivisionError''" | "class_name OSError = ''OSError''"
| "class_name FileNotFoundError = ''FileNotFoundError''" | "class_name FileExistsError = ''FileExistsError''"
| "class_name PermissionError = ''PermissionError''" | "class_name RuntimeError = ''RuntimeError''"
| "class_name UnicodeDecodeError = ''UnicodeDecodeError''" | "class_name JSONDecodeError = ''JSONDecodeError''"
| "class_name SqliteError = ''OperationalError''" | "class_name InvalidTag = ''InvalidTag''"
| "class_name InvalidSignature = ''InvalidSignature''" | "class_name LeaseLockError = ''LeaseLockError''"
| "class_name HeartbeatError = ''HeartbeatError''" | "class_name PeerStoreError = ''PeerStoreError''"
| "class_name PeerIntegrityError = ''IntegrityError''" | "class_name ReceiptValidationError = ''ReceiptValidationError''"
| "class_name CryptoReceiptError = ''CryptoReceiptError''" | "class_name EncryptedStoreError = ''EncryptedStoreError''"
| "class_name EncIntegrityError = ''IntegrityError''" | "class_name MeasurementError = ''MeasurementError''"
| "class_name ControlError = ''ControlError''" | "class_name CommandTimeout = ''TimeoutExpired''"
| "class_name ManifestError = ''ManifestError''" | "class_name AdmissionError = ''AdmissionError''"
| "class_name ReplaySessionError = ''ReplaySessionError''" | "class_name ModelGateError = ''ModelGateError''"
| "class_name ModelRunnerError = ''ModelRunnerError''" | "class_name ModelRunManifestError = ''ModelRunManifestError''"
| "class_name SecretStoreError = ''SecretStoreError''"

definition caught_by :: "exc \<Rightarrow> exc_class list \<Rightarrow> bool" where
  "caught_by e cs \<longleftrightarrow> list_ex (issubclass (fst e)) cs"

text \<open>
  A call that raises ends its caller, which keeps the state reached so far: \<open>attempt s r f\<close> is
  \<open>f\<close> on the value of \<open>r\<close>, or \<open>s\<close> with the exception. \<open>and_then\<close> is the same without a state.
\<close>

fun attempt :: "'s \<Rightarrow> exc + 'a \<Rightarrow> ('a \<Rightarrow> 's \<times> (exc + 'b)) \<Rightarrow> 's \<times> (exc + 'b)" where
  "attempt s (Inl e) f = (s, Inl e)"
| "attempt s (Inr x) f = f x"

fun and_then :: "exc + 'a \<Rightarrow> ('a \<Rightarrow> exc + 'b) \<Rightarrow> exc + 'b" where
  "and_then (Inl e) f = Inl e"
| "and_then (Inr x) f = f x"

text \<open>\<open>then_call\<close> sequences two calls that both change the state.\<close>

fun then_call :: "'s \<times> (exc + 'a) \<Rightarrow> ('s \<Rightarrow> 'a \<Rightarrow> 's \<times> (exc + 'b)) \<Rightarrow> 's \<times> (exc + 'b)" where
  "then_call (s, Inl e) f = (s, Inl e)"
| "then_call (s, Inr x) f = f s x"

lemma then_call_cases:
  assumes "then_call r f = y"
  obtains (raised) s e where "r = (s, Inl e)" "y = (s, Inl e)" | (returned) s x where "r = (s, Inr x)" "f s x = y"
  using assms by (cases "(r, f)" rule: then_call.cases) auto

lemma then_call_Inr: "then_call r f = (t, Inr y) \<longleftrightarrow> (\<exists>s x. r = (s, Inr x) \<and> f s x = (t, Inr y))"
  by (cases "(r, f)" rule: then_call.cases) auto

lemma attempt_cases:
  assumes "attempt s r f = y"
  obtains (raised) e where "r = Inl e" "y = (s, Inl e)" | (returned) x where "r = Inr x" "f x = y"
  using assms by (cases r) auto

lemma and_then_Inr: "and_then r f = Inr y \<longleftrightarrow> (\<exists>x. r = Inr x \<and> f x = Inr y)"
  by (cases r) auto

lemma and_then_Inl: "and_then r f = Inl e \<longleftrightarrow> r = Inl e \<or> (\<exists>x. r = Inr x \<and> f x = Inl e)"
  by (cases r) auto

definition ensure :: "bool \<Rightarrow> exc_class \<Rightarrow> string \<Rightarrow> exc + unit" where
  "ensure b c msg = (if b then Inr () else raise c msg)"

lemma ensure_simps [simp]: "ensure b c msg = Inr u \<longleftrightarrow> b" "ensure b c msg = Inl e \<longleftrightarrow> \<not> b \<and> e = (c, msg)"
  "ensure True c msg = Inr ()" "ensure False c msg = Inl (c, msg)"
  by (auto simp: ensure_def)

lemma issubclass_refl [simp, raise_simps]: "issubclass c c"
  by (simp add: issubclass_def)

lemma caught_by_same [simp, raise_simps]: "c \<in> set cs \<Longrightarrow> caught_by (c, m) cs"
  by (auto simp: caught_by_def list_ex_iff intro: bexI [of _ c])

section \<open>Bounded lists\<close>

text \<open>\<open>xs[-n:]\<close> for a positive n, and \<open>collections.deque(maxlen=n).append\<close>.\<close>

definition last_n :: "nat \<Rightarrow> 'a list \<Rightarrow> 'a list" where
  "last_n n xs = drop (length xs - n) xs"

definition deque_append :: "nat \<Rightarrow> 'a list \<Rightarrow> 'a \<Rightarrow> 'a list" where
  "deque_append n xs x = last_n n (xs @ [x])"

lemma length_last_n [simp]: "length (last_n n xs) = min n (length xs)"
  by (simp add: last_n_def)

lemma set_last_n: "set (last_n n xs) \<subseteq> set xs"
  by (simp add: last_n_def set_drop_subset)

lemma last_n_all [simp]: "length xs \<le> n \<Longrightarrow> last_n n xs = xs"
  by (simp add: last_n_def)

lemma length_deque_append: "length (deque_append n xs x) = min n (Suc (length xs))"
  by (simp add: deque_append_def)

lemma set_deque_append: "set (deque_append n xs x) \<subseteq> insert x (set xs)"
  using set_last_n [of n "xs @ [x]"] by (auto simp: deque_append_def)

lemma last_deque_append: "0 < n \<Longrightarrow> last (deque_append n xs x) = x"
  by (cases "length xs < n") (auto simp: deque_append_def last_n_def last_drop)

section \<open>Machines\<close>

text \<open>
  A component with state is a step function over events. What every step keeps, every run
  keeps; what every step can only increase, every run can only increase.
\<close>

locale machine =
  fixes step :: "'e \<Rightarrow> 's \<Rightarrow> 's"
    and inv :: "'s \<Rightarrow> bool"
  assumes step_inv: "inv s \<Longrightarrow> inv (step e s)"
begin

lemma run_inv: "inv s \<Longrightarrow> inv (fold step es s)"
  by (induction es arbitrary: s) (simp_all add: step_inv)

end

locale growing_machine = machine step inv
  for step :: "'e \<Rightarrow> 's \<Rightarrow> 's" and inv :: "'s \<Rightarrow> bool" +
  fixes le :: "'s \<Rightarrow> 's \<Rightarrow> bool"
  assumes le_refl: "le s s"
    and le_trans: "le s t \<Longrightarrow> le t u \<Longrightarrow> le s u"
    and step_le: "inv s \<Longrightarrow> le s (step e s)"
begin

lemma run_le: "inv s \<Longrightarrow> le s (fold step es s)"
proof (induction es arbitrary: s)
  case Nil
  show ?case by (simp add: le_refl)
next
  case (Cons e es)
  then show ?case by (metis fold_simps(2) le_trans step_inv step_le)
qed

end

end
