(* ===== verification/PyFloat.thy ===== *)
theory PyFloat
  imports Prelude "HOL-Library.Log_Nat"
begin

text \<open>
  Python's numbers: unbounded integers and binary64 floats. A finite float is the rational it
  denotes, every arithmetic result is rounded to nearest, ties to even, with 53 significant bits,
  exponents not below -1074 and overflow at \<open>2 ^ 1024\<close>; the two zeros are one value. All of it
  computes, and rounding is proved monotone, odd and the identity on what it returns.
\<close>

section \<open>Powers of two and the binary exponent of a rational\<close>

definition pow2 :: "int \<Rightarrow> rat" where
  "pow2 e = (if 0 \<le> e then 2 ^ nat e else 1 / 2 ^ nat (- e))"

definition ilog2 :: "rat \<Rightarrow> int" where
  "ilog2 x = (let p = fst (quotient_of x); q = snd (quotient_of x); k = bitlen p - bitlen q in
     if pow2 k \<le> x then k else k - 1)"

text \<open>Round half to even, to an integer.\<close>

definition rhe :: "rat \<Rightarrow> int" where
  "rhe q = (let f = \<lfloor>q\<rfloor>; d = q - of_int f in
     if d < 1/2 then f else if 1/2 < d then f + 1 else if even f then f else f + 1)"

definition ulp_exp :: "rat \<Rightarrow> int" where
  "ulp_exp x = max (-1074) (ilog2 \<bar>x\<bar> - 52)"

definition rnd :: "rat \<Rightarrow> rat" where
  "rnd x = (if x = 0 then 0 else of_int (rhe (x / pow2 (ulp_exp x))) * pow2 (ulp_exp x))"

lemma pow2_powi: "pow2 e = 2 powi e"
  by (simp add: pow2_def power_int_def field_simps)

lemma pow2_pos [simp]: "0 < pow2 e"
  by (simp add: pow2_def)

lemma pow2_nonneg [simp]: "0 \<le> pow2 e"
  by (simp add: order_less_imp_le)

lemma pow2_neq_0 [simp]: "pow2 e \<noteq> 0"
  using pow2_pos [of e] by linarith

lemma pow2_add: "pow2 (a + b) = pow2 a * pow2 b"
  by (simp add: pow2_powi power_int_add)

lemma pow2_diff: "pow2 (a - b) = pow2 a / pow2 b"
  by (simp add: pow2_powi power_int_diff)

lemma pow2_mono: "a \<le> b \<Longrightarrow> pow2 a \<le> pow2 b"
  by (simp add: pow2_powi power_int_increasing)

lemma pow2_strict_mono: "a < b \<Longrightarrow> pow2 a < pow2 b"
  by (simp add: pow2_powi power_int_strict_increasing)

lemma pow2_less_iff [simp]: "pow2 a < pow2 b \<longleftrightarrow> a < b"
  by (metis linorder_neqE_linordered_idom order_less_asym pow2_strict_mono)

lemma pow2_Suc: "pow2 (e + 1) = 2 * pow2 e"
  unfolding pow2_add by (simp add: pow2_def)

lemma pow2_of_nat: "0 \<le> e \<Longrightarrow> pow2 e = of_int (2 ^ nat e)"
  by (simp add: pow2_def)

lemma ilog2_bounds:
  assumes "0 < x"
  shows "pow2 (ilog2 x) \<le> x" and "x < pow2 (ilog2 x + 1)"
proof -
  obtain p q where pq: "quotient_of x = (p, q)" by fastforce
  define bp where "bp = bitlen p"
  define bq where "bq = bitlen q"
  have q: "0 < q" using pq by (rule quotient_of_denom_pos)
  have x: "x = of_int p / of_int q" using pq by (rule quotient_of_div)
  have p: "0 < p" using assms q x by (simp add: zero_less_divide_iff)
  have bpos: "1 \<le> bp" "1 \<le> bq"
    using p q bitlen_eq_zero_iff bitlen_nonneg unfolding bp_def bq_def
    by (metis int_one_le_iff_zero_less linorder_not_less order_le_less)+
  have P: "pow2 (bp - 1) \<le> of_int p" "of_int p < pow2 bp"
    using bitlen_bounds [OF p] bpos by (simp_all add: pow2_of_nat bp_def)
  have Q: "pow2 (bq - 1) \<le> of_int q" "of_int q < pow2 bq"
    using bitlen_bounds [OF q] bpos by (simp_all add: pow2_of_nat bq_def)
  have q': "0 < rat_of_int q" using q by simp
  have up: "x < pow2 (bp - bq + 1)"
  proof -
    have "x < pow2 bp / of_int q" unfolding x using P(2) q' by (simp add: divide_strict_right_mono)
    also have "\<dots> \<le> pow2 bp / pow2 (bq - 1)"
      using Q(1) q' by (intro divide_left_mono mult_pos_pos) (simp_all only: pow2_nonneg pow2_pos)
    also have "\<dots> = pow2 (bp - (bq - 1))" by (simp only: pow2_diff)
    finally show ?thesis by (simp add: algebra_simps)
  qed
  have lo: "pow2 (bp - bq - 1) \<le> x"
  proof -
    have "pow2 (bp - 1 - bq) = pow2 (bp - 1) / pow2 bq" by (rule pow2_diff)
    also have "\<dots> \<le> pow2 (bp - 1) / of_int q"
      using Q(2) q' by (intro divide_left_mono mult_pos_pos) simp_all
    also have "\<dots> \<le> x" unfolding x using P(1) q' by (simp add: divide_right_mono)
    finally show ?thesis by (simp add: algebra_simps)
  qed
  have il: "ilog2 x = (if pow2 (bp - bq) \<le> x then bp - bq else bp - bq - 1)"
    by (simp add: ilog2_def Let_def pq bp_def bq_def)
  show "pow2 (ilog2 x) \<le> x" using lo il by simp
  show "x < pow2 (ilog2 x + 1)" using up il by simp
qed

lemma ilog2_unique: "pow2 k \<le> x \<Longrightarrow> x < pow2 (k + 1) \<Longrightarrow> ilog2 x = k"
proof -
  assume a: "pow2 k \<le> x" "x < pow2 (k + 1)"
  have "0 < x" using a(1) pow2_pos [of k] by linarith
  from ilog2_bounds [OF this] a have "pow2 (ilog2 x) < pow2 (k + 1)" "pow2 k < pow2 (ilog2 x + 1)"
    by linarith+
  then show ?thesis by simp
qed

lemma ilog2_less: "0 < x \<Longrightarrow> x < pow2 k \<Longrightarrow> ilog2 x < k"
  using ilog2_bounds(1) [of x] by (metis order_le_less_trans pow2_less_iff)

lemma ilog2_mono: "0 < x \<Longrightarrow> x \<le> y \<Longrightarrow> ilog2 x \<le> ilog2 y"
proof -
  assume a: "0 < x" "x \<le> y"
  then have "pow2 (ilog2 x) < pow2 (ilog2 y + 1)"
    using ilog2_bounds(1) [of x] ilog2_bounds(2) [of y] by linarith
  then show ?thesis by simp
qed

section \<open>Rounding\<close>

lemma rhe_of_int [simp]: "rhe (of_int n) = n"
  by (simp add: rhe_def Let_def)

lemma rhe_floor: "\<lfloor>q\<rfloor> \<le> rhe q \<and> rhe q \<le> \<lfloor>q\<rfloor> + 1"
  by (simp add: rhe_def Let_def)

lemma rhe_mono: "q \<le> r \<Longrightarrow> rhe q \<le> rhe r"
proof (cases "\<lfloor>q\<rfloor> = \<lfloor>r\<rfloor>")
  case True
  moreover assume "q \<le> r"
  ultimately show ?thesis by (auto simp: rhe_def Let_def)
next
  case False
  moreover assume "q \<le> r"
  then have "\<lfloor>q\<rfloor> \<le> \<lfloor>r\<rfloor>" by (rule floor_mono)
  ultimately show ?thesis using rhe_floor [of q] rhe_floor [of r] by linarith
qed

lemma rhe_minus: "rhe (- q) = - rhe q"
proof (cases "q = of_int \<lfloor>q\<rfloor>")
  case True
  then show ?thesis by (metis of_int_minus rhe_of_int)
next
  case False
  have "\<lfloor>- q\<rfloor> = - \<lfloor>q\<rfloor> - 1"
    using False by (intro floor_unique; use floor_correct [of q] in simp; linarith)
  then show ?thesis by (auto simp: rhe_def Let_def)
qed

lemma rnd_0 [simp]: "rnd 0 = 0"
  by (simp add: rnd_def)

lemma rnd_minus [simp]: "rnd (- x) = - rnd x"
  by (simp add: rnd_def ulp_exp_def rhe_minus)

lemma rhe_scaled_le: "x \<le> of_int n * pow2 e \<Longrightarrow> rhe (x / pow2 e) \<le> n"
  by (metis pow2_pos divide_le_eq rhe_mono rhe_of_int)

lemma rhe_scaled_ge: "of_int n * pow2 e \<le> x \<Longrightarrow> n \<le> rhe (x / pow2 e)"
  by (metis pow2_pos le_divide_eq rhe_mono rhe_of_int)

lemma rnd_nonneg: "0 \<le> x \<Longrightarrow> 0 \<le> rnd x"
  using rhe_scaled_ge [of 0 "ulp_exp x" x] by (auto simp: rnd_def)

lemma rnd_upper: "0 < x \<Longrightarrow> rnd x \<le> 2 ^ 53 * pow2 (ulp_exp x)"
proof -
  assume x: "0 < x"
  have "x < pow2 (ilog2 x + 1)" using x by (rule ilog2_bounds)
  also have "\<dots> \<le> pow2 (53 + ulp_exp x)" using x by (intro pow2_mono) (simp add: ulp_exp_def)
  also have "\<dots> = of_int (2 ^ 53) * pow2 (ulp_exp x)" by (simp add: pow2_add pow2_of_nat)
  finally have "rhe (x / pow2 (ulp_exp x)) \<le> 2 ^ 53" by (intro rhe_scaled_le) simp
  then have "rat_of_int (rhe (x / pow2 (ulp_exp x))) \<le> of_int (2 ^ 53)"
    by (simp only: of_int_le_iff)
  then show ?thesis using x by (simp add: rnd_def)
qed

lemma rnd_lower:
  assumes "0 < x" and "-1074 < ulp_exp x"
  shows "2 ^ 52 * pow2 (ulp_exp x) \<le> rnd x"
proof -
  have e: "ulp_exp x = ilog2 x - 52" using assms by (simp add: ulp_exp_def)
  have "of_int (2 ^ 52) * pow2 (ulp_exp x) = pow2 (52 + ulp_exp x)"
    by (simp add: pow2_add pow2_of_nat)
  also have "\<dots> \<le> x" using ilog2_bounds(1) [OF assms(1)] e by simp
  finally have "2 ^ 52 \<le> rhe (x / pow2 (ulp_exp x))" by (rule rhe_scaled_ge)
  then have "rat_of_int (2 ^ 52) \<le> of_int (rhe (x / pow2 (ulp_exp x)))"
    by (simp only: of_int_le_iff)
  then show ?thesis using assms(1) by (simp add: rnd_def)
qed

lemma rnd_mono_pos:
  assumes "0 < x" and "x \<le> y"
  shows "rnd x \<le> rnd y"
proof (cases "ulp_exp x = ulp_exp y")
  case True
  have "rhe (x / pow2 (ulp_exp y)) \<le> rhe (y / pow2 (ulp_exp y))"
    using assms by (intro rhe_mono divide_right_mono) (simp_all add: order_less_imp_le)
  then show ?thesis using assms True by (simp add: rnd_def)
next
  case False
  have "ilog2 x \<le> ilog2 y" using assms by (rule ilog2_mono)
  then have less: "ulp_exp x < ulp_exp y"
    using False assms by (auto simp: ulp_exp_def)
  have "rnd x \<le> 2 ^ 53 * pow2 (ulp_exp x)" using assms(1) by (rule rnd_upper)
  also have "\<dots> = 2 ^ 52 * pow2 (ulp_exp x + 1)" by (simp add: pow2_Suc)
  also have "\<dots> \<le> 2 ^ 52 * pow2 (ulp_exp y)"
    using less by (simp add: pow2_mono)
  also have "\<dots> \<le> rnd y"
    using assms less by (intro rnd_lower) (simp_all add: ulp_exp_def)
  finally show ?thesis .
qed

lemma rnd_mono: "x \<le> y \<Longrightarrow> rnd x \<le> rnd y"
proof -
  assume le: "x \<le> y"
  consider "0 < x" | "x \<le> 0" "0 \<le> y" | "y < 0" by linarith
  then show ?thesis
  proof cases
    case 1
    then show ?thesis using le by (rule rnd_mono_pos)
  next
    case 2
    then show ?thesis using rnd_nonneg [of "- x"] rnd_nonneg [of y] by simp
  next
    case 3
    then show ?thesis using rnd_mono_pos [of "- y" "- x"] le by simp
  qed
qed

text \<open>
  The values the format holds (the exponent not bounded above) are \<open>m * 2 ^ e\<close> with fewer than
  54 bits in m. Rounding returns one of them and fixes each of them.
\<close>

definition representable :: "rat \<Rightarrow> bool" where
  "representable r \<longleftrightarrow> (\<exists>m e. \<bar>m\<bar> < 2 ^ 53 \<and> -1074 \<le> e \<and> r = of_int m * pow2 e)"

lemma rnd_representable_pos:
  assumes "0 < r" and "\<bar>m\<bar> < 2 ^ 53" and "-1074 \<le> e" and r: "r = of_int m * pow2 e"
  shows "rnd r = r"
proof -
  have "r < of_int (2 ^ 53) * pow2 e" using assms by simp
  also have "\<dots> = pow2 (53 + e)" by (simp add: pow2_add pow2_of_nat)
  finally have "ilog2 r < 53 + e" by (rule ilog2_less [OF assms(1)])
  then have le: "ulp_exp r \<le> e" using assms by (simp add: ulp_exp_def)
  have "r / pow2 (ulp_exp r) = of_int m * pow2 (e - ulp_exp r)"
    by (simp add: r pow2_diff)
  also have "\<dots> = of_int (m * 2 ^ nat (e - ulp_exp r))" using le by (simp add: pow2_of_nat)
  finally have q: "r / pow2 (ulp_exp r) = of_int (m * 2 ^ nat (e - ulp_exp r))" .
  have "rnd r = r / pow2 (ulp_exp r) * pow2 (ulp_exp r)"
    unfolding q using assms(1) q by (simp only: rnd_def rhe_of_int) simp
  then show ?thesis by simp
qed

lemma representable_minus: "representable (- r) \<longleftrightarrow> representable r"
proof -
  have "representable (- r)" if "representable r" for r
    using that unfolding representable_def by (metis abs_minus mult_minus_left of_int_minus)
  from this [of r] this [of "- r"] show ?thesis by auto
qed

lemma rnd_representable: "representable r \<Longrightarrow> rnd r = r"
proof -
  assume rep: "representable r"
  have pos: "rnd s = s" if "0 < s" "representable s" for s
    using that rnd_representable_pos [of s] unfolding representable_def by blast
  consider "r = 0" | "0 < r" | "0 < - r" by linarith
  then show ?thesis
    using rep pos [of r] pos [of "- r"] by cases (simp_all add: representable_minus)
qed

lemma representable_0 [simp]: "representable 0"
  unfolding representable_def by (rule exI [of _ 0], rule exI [of _ 0]) simp

lemma representable_rnd_pos: "0 < x \<Longrightarrow> representable (rnd x)"
proof -
  assume x: "0 < x"
  define e where "e = ulp_exp x"
  define m where "m = rhe (x / pow2 e)"
  have r: "rnd x = of_int m * pow2 e" using x by (simp add: rnd_def e_def m_def)
  have e: "-1074 \<le> e" by (simp add: e_def ulp_exp_def)
  have m0: "0 \<le> m" using rhe_scaled_ge [of 0 e x] x by (simp add: m_def)
  have "rat_of_int m * pow2 e \<le> of_int (2 ^ 53) * pow2 e"
    using rnd_upper [OF x] r by (simp add: e_def)
  then have m: "m \<le> 2 ^ 53" by (simp only: mult_le_cancel_right_pos [OF pow2_pos] of_int_le_iff)
  show ?thesis
  proof (cases "m = 2 ^ 53")
    case True
    then have "rnd x = of_int (2 ^ 52) * pow2 (e + 1)" by (simp add: r pow2_Suc)
    then show ?thesis unfolding representable_def using e by (intro exI [of _ "2 ^ 52"] exI [of _ "e + 1"]) simp
  next
    case False
    then show ?thesis unfolding representable_def using e m m0 r by (intro exI [of _ m] exI [of _ e]) simp
  qed
qed

lemma representable_rnd [simp]: "representable (rnd x)"
proof -
  consider "x = 0" | "0 < x" | "0 < - x" by linarith
  then show ?thesis
    using representable_rnd_pos [of x] representable_rnd_pos [of "- x"]
    by cases (simp_all add: representable_minus)
qed

lemma rnd_rnd [simp]: "rnd (rnd x) = rnd x"
  by (rule rnd_representable) simp

lemma rnd_small_int: "\<bar>n\<bar> < 2 ^ 53 \<Longrightarrow> rnd (of_int n) = of_int n"
  by (rule rnd_representable, unfold representable_def, rule exI [of _ n], rule exI [of _ 0])
    (simp add: pow2_def)

lemma rnd_le_repr: "x \<le> y \<Longrightarrow> rnd y = y \<Longrightarrow> rnd x \<le> y"
  using rnd_mono [of x y] by simp

lemma rnd_ge_repr: "y \<le> x \<Longrightarrow> rnd y = y \<Longrightarrow> y \<le> rnd x"
  using rnd_mono [of y x] by simp

section \<open>Floats\<close>

datatype pyfloat = Fin rat | PosInf | NegInf | NaN

definition f_limit :: rat where
  "f_limit = 2 ^ 1024"

definition to_pf :: "rat \<Rightarrow> pyfloat" where
  "to_pf x = (let r = rnd x in
     if f_limit \<le> r then PosInf else if r \<le> - f_limit then NegInf else Fin r)"

fun wf_float :: "pyfloat \<Rightarrow> bool" where
  "wf_float (Fin r) \<longleftrightarrow> rnd r = r \<and> \<bar>r\<bar> < f_limit"
| "wf_float _ \<longleftrightarrow> True"

fun fisfinite :: "pyfloat \<Rightarrow> bool" where
  "fisfinite (Fin _) \<longleftrightarrow> True"
| "fisfinite _ \<longleftrightarrow> False"

text \<open>Ordered comparison is false as soon as a NaN takes part.\<close>

fun flt :: "pyfloat \<Rightarrow> pyfloat \<Rightarrow> bool" where
  "flt (Fin a) (Fin b) \<longleftrightarrow> a < b"
| "flt NaN _ \<longleftrightarrow> False"
| "flt _ NaN \<longleftrightarrow> False"
| "flt PosInf _ \<longleftrightarrow> False"
| "flt _ NegInf \<longleftrightarrow> False"
| "flt _ _ \<longleftrightarrow> True"

fun feq :: "pyfloat \<Rightarrow> pyfloat \<Rightarrow> bool" where
  "feq NaN _ \<longleftrightarrow> False"
| "feq x y \<longleftrightarrow> x = y"

definition fle :: "pyfloat \<Rightarrow> pyfloat \<Rightarrow> bool" where
  "fle x y \<longleftrightarrow> flt x y \<or> feq x y"

fun fneg :: "pyfloat \<Rightarrow> pyfloat" where
  "fneg (Fin a) = Fin (- a)"
| "fneg PosInf = NegInf"
| "fneg NegInf = PosInf"
| "fneg NaN = NaN"

fun fadd :: "pyfloat \<Rightarrow> pyfloat \<Rightarrow> pyfloat" where
  "fadd (Fin a) (Fin b) = to_pf (a + b)"
| "fadd NaN _ = NaN"
| "fadd _ NaN = NaN"
| "fadd PosInf NegInf = NaN"
| "fadd NegInf PosInf = NaN"
| "fadd PosInf _ = PosInf"
| "fadd NegInf _ = NegInf"
| "fadd (Fin _) y = y"

definition fsub :: "pyfloat \<Rightarrow> pyfloat \<Rightarrow> pyfloat" where
  "fsub x y = fadd x (fneg y)"

fun fmul :: "pyfloat \<Rightarrow> pyfloat \<Rightarrow> pyfloat" where
  "fmul (Fin a) (Fin b) = to_pf (a * b)"
| "fmul NaN _ = NaN"
| "fmul _ NaN = NaN"
| "fmul (Fin a) PosInf = (if a = 0 then NaN else if 0 < a then PosInf else NegInf)"
| "fmul (Fin a) NegInf = (if a = 0 then NaN else if 0 < a then NegInf else PosInf)"
| "fmul PosInf (Fin a) = (if a = 0 then NaN else if 0 < a then PosInf else NegInf)"
| "fmul NegInf (Fin a) = (if a = 0 then NaN else if 0 < a then NegInf else PosInf)"
| "fmul PosInf y = y"
| "fmul NegInf y = fneg y"

lemma wf_to_pf [simp]: "wf_float (to_pf x)"
  by (auto simp: to_pf_def Let_def)

lemma to_pf_Fin: "to_pf x = Fin r \<Longrightarrow> r = rnd x"
  by (auto simp: to_pf_def Let_def split: if_splits)

lemma to_pf_bounded: "\<bar>x\<bar> \<le> y \<Longrightarrow> wf_float (Fin y) \<Longrightarrow> to_pf x = Fin (rnd x)"
proof -
  assume a: "\<bar>x\<bar> \<le> y" "wf_float (Fin y)"
  then have "rnd x \<le> y" "- rnd x \<le> y"
    using rnd_le_repr [of x y] rnd_le_repr [of "- x" y] by simp_all
  with a show ?thesis by (auto simp: to_pf_def Let_def)
qed

lemma wf_fneg [simp]: "wf_float x \<Longrightarrow> wf_float (fneg x)"
  by (cases x) auto

lemma wf_fadd: "wf_float x \<Longrightarrow> wf_float y \<Longrightarrow> wf_float (fadd x y)"
  by (cases x; cases y) auto

lemma flt_irrefl [simp]: "\<not> flt x x"
  by (cases x) auto

lemma flt_trans: "flt x y \<Longrightarrow> flt y z \<Longrightarrow> flt x z"
  by (cases x; cases y; cases z) auto

lemma not_flt_fle: "x \<noteq> NaN \<Longrightarrow> y \<noteq> NaN \<Longrightarrow> \<not> flt x y \<longleftrightarrow> fle y x"
  by (cases x; cases y) (auto simp: fle_def)

lemma fle_flt_trans: "fle x y \<Longrightarrow> flt y z \<Longrightarrow> flt x z"
  by (cases x; cases y; cases z) (auto simp: fle_def)

lemma fle_trans: "fle x y \<Longrightarrow> fle y z \<Longrightarrow> fle x z"
  by (cases x; cases y; cases z) (auto simp: fle_def)

text \<open>Adding a positive amount never moves a clock value down; it can leave it where it is.\<close>

lemma fadd_pos_ge:
  assumes "wf_float x" and "x \<noteq> NaN" and "x \<noteq> NegInf" and "flt (Fin 0) d"
  shows "fle x (fadd x d)"
proof (cases x; cases d)
  fix a b
  assume x: "x = Fin a" and d: "d = Fin b"
  have "a \<le> rnd (a + b)" using assms x d by (intro rnd_ge_repr) auto
  then show ?thesis using assms x d by (auto simp: to_pf_def Let_def fle_def)
qed (use assms in \<open>auto simp: fle_def\<close>)

section \<open>Numbers\<close>

text \<open>
  \<open>int\<close> and \<open>float\<close> together. Comparison between the two is exact; arithmetic that mixes
  them converts the integer first, and the conversion raises OverflowError outside the range of
  the format. \<open>bool\<close> is an integer too, and is handled where the code excludes it.
\<close>

datatype pynum = NInt int | NFloat pyfloat

fun num_val :: "pynum \<Rightarrow> pyfloat" where
  "num_val (NInt i) = Fin (of_int i)"
| "num_val (NFloat f) = f"

definition num_lt :: "pynum \<Rightarrow> pynum \<Rightarrow> bool" where
  "num_lt a b \<longleftrightarrow> flt (num_val a) (num_val b)"

definition num_le :: "pynum \<Rightarrow> pynum \<Rightarrow> bool" where
  "num_le a b \<longleftrightarrow> fle (num_val a) (num_val b)"

definition num_eq :: "pynum \<Rightarrow> pynum \<Rightarrow> bool" where
  "num_eq a b \<longleftrightarrow> feq (num_val a) (num_val b)"

text \<open>\<open>float(x)\<close>\<close>

fun py_float :: "pynum \<Rightarrow> exc + pyfloat" where
  "py_float (NInt i) = (case to_pf (of_int i) of
      Fin r \<Rightarrow> Inr (Fin r)
    | _ \<Rightarrow> raise OverflowError ''int too large to convert to float'')"
| "py_float (NFloat f) = Inr f"

text \<open>\<open>math.isfinite(x)\<close>\<close>

definition py_isfinite :: "pynum \<Rightarrow> exc + bool" where
  "py_isfinite x = (case py_float x of Inl e \<Rightarrow> Inl e | Inr f \<Rightarrow> Inr (fisfinite f))"

fun num_add :: "pynum \<Rightarrow> pynum \<Rightarrow> exc + pynum" where
  "num_add (NInt a) (NInt b) = Inr (NInt (a + b))"
| "num_add a b = (case py_float a of Inl e \<Rightarrow> Inl e
    | Inr x \<Rightarrow> (case py_float b of Inl e \<Rightarrow> Inl e | Inr y \<Rightarrow> Inr (NFloat (fadd x y))))"

fun wf_num :: "pynum \<Rightarrow> bool" where
  "wf_num (NInt _) \<longleftrightarrow> True"
| "wf_num (NFloat f) \<longleftrightarrow> wf_float f"

lemma py_float_wf: "wf_num a \<Longrightarrow> py_float a = Inr f \<Longrightarrow> wf_float f"
proof (cases a)
  case (NInt i)
  moreover assume "py_float a = Inr f"
  ultimately have "to_pf (of_int i) = f" by (auto split: pyfloat.splits)
  then show ?thesis using wf_to_pf [of "of_int i"] by simp
qed auto

lemma f_limit_int: "f_limit = of_int (2 ^ 1024)"
  by (simp only: f_limit_def of_int_power of_int_numeral)

lemma rnd_f_limit: "rnd f_limit = f_limit"
proof -
  have "f_limit = of_int 1 * pow2 1024" by (simp add: f_limit_def pow2_def)
  then have "representable f_limit" unfolding representable_def by (intro exI [of _ 1] exI [of _ 1024]) simp
  then show ?thesis by (rule rnd_representable)
qed

lemma py_float_huge: "2 ^ 1024 \<le> i \<Longrightarrow> \<exists>m. py_float (NInt i) = Inl (OverflowError, m)"
proof -
  assume "2 ^ 1024 \<le> i"
  then have "f_limit \<le> of_int i" unfolding f_limit_int by (simp only: of_int_le_iff)
  then have "f_limit \<le> rnd (of_int i)" by (rule rnd_ge_repr) (rule rnd_f_limit)
  then show ?thesis by (simp add: to_pf_def Let_def)
qed

lemma py_float_small: "\<bar>i\<bar> < 2 ^ 53 \<Longrightarrow> py_float (NInt i) = Inr (Fin (of_int i))"
proof -
  assume i: "\<bar>i\<bar> < 2 ^ 53"
  have "(2::int) ^ 53 < 2 ^ 1024" by (rule power_strict_increasing) simp_all
  with i have "rat_of_int \<bar>i\<bar> < of_int (2 ^ 1024)" by (simp only: of_int_less_iff)
  then have "\<bar>rat_of_int i\<bar> < f_limit" unfolding f_limit_int by (simp only: of_int_abs)
  then show ?thesis using i by (auto simp: to_pf_def Let_def rnd_small_int)
qed

lemma num_lt_int [simp]: "num_lt (NInt a) (NInt b) \<longleftrightarrow> a < b"
  by (simp add: num_lt_def)

lemma num_le_int [simp]: "num_le (NInt a) (NInt b) \<longleftrightarrow> a \<le> b"
  by (auto simp: num_le_def fle_def)

lemma num_le_trans: "num_le a b \<Longrightarrow> num_le b c \<Longrightarrow> num_le a c"
  by (auto simp: num_le_def intro: fle_trans)

end
