(* ===== verification/PyVal.thy ===== *)
theory PyVal
  imports PyFloat
begin

text \<open>
  Python values as the code sees them: what \<open>json.loads\<close> returns, plus bytes and one constructor
  for any other object. Text is a list of code points below 256; a dictionary is an association
  list in insertion order with distinct keys.
\<close>

datatype pyval =
    PNone
  | PBool bool
  | PInt int
  | PFloat pyfloat
  | PStr string
  | PBytes string
  | PList "pyval list"
  | PDict "(string \<times> pyval) list"
  | POther nat

type_synonym pydict = "(string \<times> pyval) list"

section \<open>Type tests, truth, identity, equality\<close>

fun is_str :: "pyval \<Rightarrow> bool" where "is_str (PStr _) = True" | "is_str _ = False"
fun is_dict :: "pyval \<Rightarrow> bool" where "is_dict (PDict _) = True" | "is_dict _ = False"
fun is_list :: "pyval \<Rightarrow> bool" where "is_list (PList _) = True" | "is_list _ = False"
fun is_bytes :: "pyval \<Rightarrow> bool" where "is_bytes (PBytes _) = True" | "is_bytes _ = False"
fun is_bool :: "pyval \<Rightarrow> bool" where "is_bool (PBool _) = True" | "is_bool _ = False"

text \<open>\<open>isinstance(v, int) and not isinstance(v, bool)\<close>, and the same for \<open>(int, float)\<close>.\<close>

fun as_int :: "pyval \<Rightarrow> int option" where
  "as_int (PInt i) = Some i" | "as_int _ = None"

fun as_num :: "pyval \<Rightarrow> pynum option" where
  "as_num (PInt i) = Some (NInt i)"
| "as_num (PFloat f) = Some (NFloat f)"
| "as_num _ = None"

fun as_str :: "pyval \<Rightarrow> string option" where
  "as_str (PStr s) = Some s" | "as_str _ = None"

text \<open>\<open>bool(v)\<close>\<close>

fun truthy :: "pyval \<Rightarrow> bool" where
  "truthy PNone = False"
| "truthy (PBool b) = b"
| "truthy (PInt i) = (i \<noteq> 0)"
| "truthy (PFloat f) = (f \<noteq> Fin 0)"
| "truthy (PStr s) = (s \<noteq> [])"
| "truthy (PBytes s) = (s \<noteq> [])"
| "truthy (PList xs) = (xs \<noteq> [])"
| "truthy (PDict d) = (d \<noteq> [])"
| "truthy (POther _) = True"

text \<open>\<open>v == n\<close> for an integer n: \<open>True == 1\<close> and \<open>1.0 == 1\<close> hold in Python.\<close>

fun py_eq_int :: "pyval \<Rightarrow> int \<Rightarrow> bool" where
  "py_eq_int (PInt i) n = (i = n)"
| "py_eq_int (PBool b) n = (of_bool b = n)"
| "py_eq_int (PFloat (Fin r)) n = (r = of_int n)"
| "py_eq_int _ n = False"

lemma as_int_Some [simp]: "as_int v = Some i \<longleftrightarrow> v = PInt i"
  by (cases v) auto

lemma as_num_Some: "as_num v = Some n \<longleftrightarrow> (\<exists>i. v = PInt i \<and> n = NInt i) \<or> (\<exists>f. v = PFloat f \<and> n = NFloat f)"
  by (cases v) auto

lemma as_str_Some [simp]: "as_str v = Some s \<longleftrightarrow> v = PStr s"
  by (cases v) auto

section \<open>Strings\<close>

text \<open>\<open>str.isspace\<close> on one character below 256, \<open>str.strip()\<close>, and \<open>not s.strip()\<close>.\<close>

definition is_space :: "char \<Rightarrow> bool" where
  "is_space c \<longleftrightarrow> (of_char c :: nat) \<in> {9, 10, 11, 12, 13, 28, 29, 30, 31, 32, 133, 160}"

definition strip :: "string \<Rightarrow> string" where
  "strip s = rev (dropWhile is_space (rev (dropWhile is_space s)))"

definition blank :: "string \<Rightarrow> bool" where
  "blank s \<longleftrightarrow> list_all is_space s"

lemma strip_Nil_iff: "strip s = [] \<longleftrightarrow> blank s"
proof -
  have "strip s = [] \<longleftrightarrow> (\<forall>c \<in> set (dropWhile is_space s). is_space c)"
    by (simp add: strip_def dropWhile_eq_Nil_conv)
  also have "\<dots> \<longleftrightarrow> (\<forall>c \<in> set s. is_space c)"
  proof
    assume a: "\<forall>c \<in> set (dropWhile is_space s). is_space c"
    show "\<forall>c \<in> set s. is_space c"
    proof (cases "dropWhile is_space s")
      case Nil
      then show ?thesis by (simp add: dropWhile_eq_Nil_conv)
    next
      case (Cons x xs)
      then have "\<not> is_space x" by (metis dropWhile_eq_Cons_conv)
      with a Cons show ?thesis by simp
    qed
  next
    assume "\<forall>c \<in> set s. is_space c"
    then show "\<forall>c \<in> set (dropWhile is_space s). is_space c" by (auto dest: set_dropWhileD)
  qed
  finally show ?thesis by (simp add: blank_def list_all_iff)
qed

text \<open>\<open>isinstance(v, str) and v.strip()\<close>: the non-empty-string test the code uses everywhere.\<close>

fun nonblank_str :: "pyval \<Rightarrow> bool" where
  "nonblank_str (PStr s) = (\<not> blank s)"
| "nonblank_str _ = False"

text \<open>\<open>isinstance(v, str) and v\<close>\<close>

fun nonempty_str :: "pyval \<Rightarrow> bool" where
  "nonempty_str (PStr s) = (s \<noteq> [])"
| "nonempty_str _ = False"

lemma nonblank_str_iff: "nonblank_str v \<longleftrightarrow> (\<exists>s. v = PStr s \<and> \<not> blank s)"
  by (cases v) auto

lemma nonempty_str_iff: "nonempty_str v \<longleftrightarrow> (\<exists>s. v = PStr s \<and> s \<noteq> [])"
  by (cases v) auto

definition hex_digits :: string where "hex_digits = ''0123456789abcdef''"

definition is_lower_hex :: "string \<Rightarrow> bool" where
  "is_lower_hex s \<longleftrightarrow> list_all (\<lambda>c. c \<in> set hex_digits) s"

text \<open>\<open>^[0-9a-f]{64}$\<close> under \<open>fullmatch\<close>\<close>

definition is_sha256_hex :: "string \<Rightarrow> bool" where
  "is_sha256_hex s \<longleftrightarrow> length s = 64 \<and> is_lower_hex s"

definition is_ascii :: "string \<Rightarrow> bool" where
  "is_ascii s \<longleftrightarrow> list_all (\<lambda>c. (of_char c :: nat) < 128) s"

section \<open>Dictionaries\<close>

definition dget :: "pydict \<Rightarrow> string \<Rightarrow> pyval" where
  "dget d k = (case map_of d k of None \<Rightarrow> PNone | Some v \<Rightarrow> v)"

definition dhas :: "pydict \<Rightarrow> string \<Rightarrow> bool" where
  "dhas d k \<longleftrightarrow> map_of d k \<noteq> None"

definition dkeys :: "pydict \<Rightarrow> string list" where
  "dkeys d = List.map fst d"

definition dremove :: "string \<Rightarrow> pydict \<Rightarrow> pydict" where
  "dremove k d = List.filter (\<lambda>p. fst p \<noteq> k) d"

definition dset :: "string \<Rightarrow> pyval \<Rightarrow> pydict \<Rightarrow> pydict" where
  "dset k v d = AList.update k v d"

text \<open>\<open>isinstance(v, dict)\<close> then \<open>v.get(k)\<close>: the lookup in what may not be a dictionary.\<close>

fun get_in :: "pyval \<Rightarrow> string \<Rightarrow> pyval" where
  "get_in (PDict d) k = dget d k"
| "get_in _ k = PNone"

fun subvals :: "pyval \<Rightarrow> pyval list" where
  "subvals (PList vs) = vs"
| "subvals (PDict d) = List.map snd d"
| "subvals _ = []"

lemma dget_Nil [simp]: "dget [] k = PNone"
  by (simp add: dget_def)

lemma dget_Cons [simp]: "dget ((a, v) # d) k = (if k = a then v else dget d k)"
  by (simp add: dget_def)

lemma dhas_Nil [simp]: "\<not> dhas [] k"
  by (simp add: dhas_def)

lemma dhas_Cons [simp]: "dhas ((a, v) # d) k \<longleftrightarrow> k = a \<or> dhas d k"
  by (simp add: dhas_def)

lemma dhas_iff: "dhas d k \<longleftrightarrow> k \<in> set (dkeys d)"
  by (induction d) (auto simp: dkeys_def)

lemma dget_not_in: "\<not> dhas d k \<Longrightarrow> dget d k = PNone"
  by (simp add: dget_def dhas_def)

lemma dget_dset [simp]: "dget (dset k v d) k' = (if k' = k then v else dget d k')"
  by (simp add: dget_def dset_def update_conv)

lemma dhas_dset [simp]: "dhas (dset k v d) k' \<longleftrightarrow> k' = k \<or> dhas d k'"
  by (simp add: dhas_def dset_def update_conv)

lemma dget_dremove: "dget (dremove k d) k' = (if k' = k then PNone else dget d k')"
  by (induction d) (auto simp: dremove_def dget_def)

lemma dkeys_dremove [simp]: "dkeys (dremove k d) = List.filter (\<lambda>x. x \<noteq> k) (dkeys d)"
  by (induction d) (auto simp: dremove_def dkeys_def)

lemma dremove_dset: "\<not> dhas d k \<Longrightarrow> dremove k (dset k v d) = d"
  by (induction d) (auto simp: dremove_def dset_def)

lemma dset_new: "\<not> dhas d k \<Longrightarrow> dset k v d = d @ [(k, v)]"
  by (induction d) (auto simp: dset_def)

end
