(* ===== verification/LeaseLock.thy ===== *)
theory LeaseLock
  imports PyVal
begin

text \<open>
  \<open>controller/lease_lock.py\<close>: expiring leases with fencing tokens. The manager is a record of its
  two dictionaries; each method takes the clock reading it would obtain, and returns the manager
  after the call with the returned value or the exception. A run is a list of calls with their
  clock readings.
\<close>

section \<open>State and operations\<close>

record lease =
  lock_id :: string
  holder_id :: string
  fencing_token :: int
  expires_at :: pynum

record lease_manager =
  leases :: "string \<Rightarrow> lease option"
  last_token :: "string \<Rightarrow> int option"

definition is_expired :: "lease \<Rightarrow> pynum \<Rightarrow> bool" where
  "is_expired l now \<longleftrightarrow> num_le (expires_at l) now"

definition new_manager :: lease_manager where
  "new_manager = \<lparr> leases = Map.empty, last_token = Map.empty \<rparr>"

definition last_issued :: "lease_manager \<Rightarrow> string \<Rightarrow> int" where
  "last_issued m k = (case last_token m k of None \<Rightarrow> 0 | Some t \<Rightarrow> t)"

definition require_id :: "string \<Rightarrow> pyval \<Rightarrow> exc + string" where
  "require_id name v = (case v of
     PStr s \<Rightarrow> if blank s then raise LeaseLockError (name @ '' must be a non-empty string'') else Inr s
   | _ \<Rightarrow> raise LeaseLockError (name @ '' must be a non-empty string''))"

definition check_duration :: "pyval \<Rightarrow> exc + pynum" where
  "check_duration v = (case as_num v of
     None \<Rightarrow> raise LeaseLockError ''duration must be a positive number of seconds''
   | Some d \<Rightarrow> if num_le d (NInt 0) then raise LeaseLockError ''duration must be a positive number of seconds''
               else Inr d)"

definition acquire :: "pyval \<Rightarrow> pyval \<Rightarrow> pyval \<Rightarrow> pynum \<Rightarrow> lease_manager \<Rightarrow> lease_manager \<times> (exc + lease option)" where
  "acquire lock holder duration now m =
     attempt m (require_id ''lock_id'' lock) (\<lambda>k.
     attempt m (require_id ''holder_id'' holder) (\<lambda>h.
     attempt m (check_duration duration) (\<lambda>d.
       if (case leases m k of None \<Rightarrow> False | Some c \<Rightarrow> \<not> is_expired c now) then (m, Inr None)
       else let t = last_issued m k + 1;
                m' = m\<lparr>last_token := (last_token m)(k \<mapsto> t)\<rparr> in
         attempt m' (num_add now d) (\<lambda>x.
           let l = \<lparr> lock_id = k, holder_id = h, fencing_token = t, expires_at = x \<rparr> in
           (m'\<lparr>leases := (leases m')(k \<mapsto> l)\<rparr>, Inr (Some l))))))"

text \<open>The lease of \<open>k\<close>, if \<open>h\<close> holds it with token \<open>t\<close>: the check \<open>renew\<close> and \<open>validate_action\<close> share.\<close>

definition holds :: "lease_manager \<Rightarrow> string \<Rightarrow> string \<Rightarrow> int \<Rightarrow> lease option" where
  "holds m k h t = (case leases m k of None \<Rightarrow> None
     | Some l \<Rightarrow> if holder_id l \<noteq> h \<or> fencing_token l \<noteq> t then None else Some l)"

definition renew :: "pyval \<Rightarrow> pyval \<Rightarrow> int \<Rightarrow> pyval \<Rightarrow> pynum \<Rightarrow> lease_manager \<Rightarrow> lease_manager \<times> (exc + lease)" where
  "renew lock holder t duration now m =
     attempt m (require_id ''lock_id'' lock) (\<lambda>k.
     attempt m (require_id ''holder_id'' holder) (\<lambda>h.
     attempt m (check_duration duration) (\<lambda>d.
     case holds m k h t of
       None \<Rightarrow> (m, raise LeaseLockError ''only the current lease holder with the matching fencing token can renew'')
     | Some l \<Rightarrow>
         if is_expired l now then (m, raise LeaseLockError ''lease already expired; renew refused (fail-closed)'')
         else attempt m (num_add now d) (\<lambda>x.
           let r = \<lparr> lock_id = k, holder_id = h, fencing_token = t, expires_at = x \<rparr> in
           (m\<lparr>leases := (leases m)(k \<mapsto> r)\<rparr>, Inr r)))))"

definition release :: "pyval \<Rightarrow> pyval \<Rightarrow> int \<Rightarrow> lease_manager \<Rightarrow> lease_manager \<times> (exc + unit)" where
  "release lock holder t m =
     attempt m (require_id ''lock_id'' lock) (\<lambda>k.
     attempt m (require_id ''holder_id'' holder) (\<lambda>h.
     case leases m k of
       None \<Rightarrow> (m, raise LeaseLockError ''no lease held for this lock'')
     | Some l \<Rightarrow> if holder_id l \<noteq> h \<or> fencing_token l \<noteq> t
         then (m, raise LeaseLockError ''only the current lease holder with the matching fencing token can release'')
         else (m\<lparr>leases := (leases m)(k := None)\<rparr>, Inr ())))"

definition validate_action :: "lease_manager \<Rightarrow> string \<Rightarrow> string \<Rightarrow> int \<Rightarrow> pynum \<Rightarrow> bool" where
  "validate_action m k h t now = (case holds m k h t of None \<Rightarrow> False | Some l \<Rightarrow> \<not> is_expired l now)"

definition is_fenced :: "lease_manager \<Rightarrow> string \<Rightarrow> int \<Rightarrow> bool" where
  "is_fenced m k t \<longleftrightarrow> t < last_issued m k"

section \<open>Runs\<close>

datatype lease_call =
    Acquire pyval pyval pyval pynum
  | Renew pyval pyval int pyval pynum
  | Release pyval pyval int

fun lease_step :: "lease_call \<Rightarrow> lease_manager \<Rightarrow> lease_manager" where
  "lease_step (Acquire k h d now) m = fst (acquire k h d now m)"
| "lease_step (Renew k h t d now) m = fst (renew k h t d now m)"
| "lease_step (Release k h t) m = fst (release k h t m)"

abbreviation run_leases :: "lease_call list \<Rightarrow> lease_manager \<Rightarrow> lease_manager" where
  "run_leases cs m \<equiv> fold lease_step cs m"

text \<open>
  Every lease on the table carries a token that was issued for its lock: the last one, except when
  a later call took a token and then failed to compute the expiry.
\<close>

definition lease_inv :: "lease_manager \<Rightarrow> bool" where
  "lease_inv m \<longleftrightarrow> (\<forall>k l. leases m k = Some l \<longrightarrow> lock_id l = k \<and> 1 \<le> fencing_token l \<and> fencing_token l \<le> last_issued m k)
     \<and> (\<forall>k. 0 \<le> last_issued m k)"

definition token_le :: "lease_manager \<Rightarrow> lease_manager \<Rightarrow> bool" where
  "token_le m m' \<longleftrightarrow> (\<forall>k. last_issued m k \<le> last_issued m' k)"

lemma require_id_Inr: "require_id n v = Inr s \<longleftrightarrow> v = PStr s \<and> \<not> blank s"
  by (cases v) (auto simp: require_id_def)

lemma acquire_cases:
  obtains (refused) r where "acquire k h d now m = (m, r)" "\<And>l. r \<noteq> Inr (Some l)"
  | (overflow) s e where "k = PStr s" "acquire k h d now m = (m\<lparr>last_token := (last_token m)(s \<mapsto> last_issued m s + 1)\<rparr>, Inl e)"
      "\<And>c. leases m s = Some c \<Longrightarrow> is_expired c now"
  | (granted) s l where "k = PStr s" "acquire k h d now m =
        (m\<lparr>last_token := (last_token m)(s \<mapsto> last_issued m s + 1), leases := (leases m)(s \<mapsto> l)\<rparr>, Inr (Some l))"
      "lock_id l = s" "h = PStr (holder_id l)" "fencing_token l = last_issued m s + 1"
      "\<exists>x. as_num d = Some x \<and> \<not> num_le x (NInt 0) \<and> num_add now x = Inr (expires_at l)"
      "\<And>c. leases m s = Some c \<Longrightarrow> is_expired c now"
proof -
  obtain y where y: "acquire k h d now m = y" by blast
  show thesis
    using y [unfolded acquire_def]
  proof (elim attempt_cases)
    fix s h' x assume k: "require_id ''lock_id'' k = Inr s" and h: "require_id ''holder_id'' h = Inr h'"
      and d: "check_duration d = Inr x"
      and r: "(if case leases m s of None \<Rightarrow> False | Some c \<Rightarrow> \<not> is_expired c now then (m, Inr None)
        else let t = last_issued m s + 1; m' = m\<lparr>last_token := (last_token m)(s \<mapsto> t)\<rparr> in
          attempt m' (num_add now x) (\<lambda>x. let l = \<lparr>lock_id = s, holder_id = h', fencing_token = t, expires_at = x\<rparr>
            in (m'\<lparr>leases := (leases m')(s \<mapsto> l)\<rparr>, Inr (Some l)))) = y"
    have kh: "k = PStr s" "h = PStr h'" using k h by (simp_all add: require_id_Inr)
    have dx: "as_num d = Some x \<and> \<not> num_le x (NInt 0)"
      using d by (auto simp: check_duration_def split: option.splits if_splits)
    show thesis
    proof (cases "case leases m s of None \<Rightarrow> False | Some c \<Rightarrow> \<not> is_expired c now")
      case True
      then show thesis using r y by (intro refused [of "Inr None"]) simp_all
    next
      case False
      then have e: "is_expired c now" if "leases m s = Some c" for c using that by simp
      show thesis
      proof (cases "num_add now x")
        case (Inl x')
        then show thesis using r False y e by (intro overflow [OF kh(1), of x']) (simp_all add: Let_def)
      next
        case (Inr z)
        then show thesis using r False y kh dx e
          by (intro granted [OF kh(1), of "\<lparr>lock_id = s, holder_id = h', fencing_token = last_issued m s + 1, expires_at = z\<rparr>"])
            (simp_all add: Let_def)
      qed
    qed
  qed (use y refused in \<open>blast+\<close>)
qed

lemma renew_cases:
  obtains (refused) e where "renew k h t d now m = (m, Inl e)"
  | (renewed) s l l0 where "k = PStr s" "renew k h t d now m = (m\<lparr>leases := (leases m)(s \<mapsto> l)\<rparr>, Inr l)"
      "lock_id l = s" "h = PStr (holder_id l)" "fencing_token l = t" "leases m s = Some l0" "fencing_token l0 = t"
      "holder_id l0 = holder_id l" "\<not> is_expired l0 now"
proof -
  obtain y where y: "renew k h t d now m = y" by blast
  show thesis
    using y [unfolded renew_def]
  proof (elim attempt_cases)
    fix s h' x assume k: "require_id ''lock_id'' k = Inr s" and h: "require_id ''holder_id'' h = Inr h'"
      and r: "(case holds m s h' t of
       None \<Rightarrow> (m, raise LeaseLockError ''only the current lease holder with the matching fencing token can renew'')
     | Some l \<Rightarrow> if is_expired l now then (m, raise LeaseLockError ''lease already expired; renew refused (fail-closed)'')
         else attempt m (num_add now x) (\<lambda>x. let r = \<lparr> lock_id = s, holder_id = h', fencing_token = t, expires_at = x \<rparr> in
           (m\<lparr>leases := (leases m)(s \<mapsto> r)\<rparr>, Inr r))) = y"
    have kh: "k = PStr s" "h = PStr h'" using k h by (simp_all add: require_id_Inr)
    show thesis
    proof (cases "holds m s h' t")
      case None
      then show thesis using r y
        refused [of "(LeaseLockError, ''only the current lease holder with the matching fencing token can renew'')"]
        by simp
    next
      case (Some l)
      then have l: "leases m s = Some l" "fencing_token l = t" "holder_id l = h'"
        by (auto simp: holds_def split: option.splits if_splits)
      show thesis
      proof (cases "is_expired l now")
        case True
        then show thesis using r y Some
          refused [of "(LeaseLockError, ''lease already expired; renew refused (fail-closed)'')"] by simp
      next
        case False
        with r Some have r': "attempt m (num_add now x) (\<lambda>x.
           let r = \<lparr> lock_id = s, holder_id = h', fencing_token = t, expires_at = x \<rparr> in
           (m\<lparr>leases := (leases m)(s \<mapsto> r)\<rparr>, Inr r)) = y" by simp
        show thesis
          using r'
        proof (cases rule: attempt_cases)
          case (raised e)
          then show thesis using y by (intro refused) simp
        next
          case (returned z)
          then show thesis using y kh l False
            by (intro renewed [OF kh(1), of "\<lparr> lock_id = s, holder_id = h', fencing_token = t, expires_at = z \<rparr>" l])
              (simp_all add: Let_def)
        qed
      qed
    qed
  qed (use y refused in \<open>blast+\<close>)
qed

lemma release_cases:
  obtains (refused) e where "release k h t m = (m, Inl e)"
  | (released) s l0 where "k = PStr s" "release k h t m = (m\<lparr>leases := (leases m)(s := None)\<rparr>, Inr ())"
     "leases m s = Some l0" "fencing_token l0 = t" "h = PStr (holder_id l0)"
proof -
  obtain y where y: "release k h t m = y" by blast
  show thesis
    using y [unfolded release_def]
    by (elim attempt_cases)
      (use refused [unfolded y] released [unfolded y] in \<open>auto simp: require_id_Inr split: option.splits if_splits\<close>)
qed

lemma last_issued_upd [simp]:
  "last_issued (m\<lparr>last_token := (last_token m)(s \<mapsto> t)\<rparr>) k = (if k = s then t else last_issued m k)"
  "last_issued (m\<lparr>last_token := (last_token m)(s \<mapsto> t), leases := f\<rparr>) k = (if k = s then t else last_issued m k)"
  "last_issued (m\<lparr>leases := f\<rparr>) k = last_issued m k"
  by (simp_all add: last_issued_def)

lemma lease_invI:
  "lease_inv m \<Longrightarrow> (\<And>k. last_issued m k \<le> last_issued m' k) \<Longrightarrow>
   (\<And>k l. leases m' k = Some l \<Longrightarrow> leases m k = Some l \<or>
      (lock_id l = k \<and> 1 \<le> fencing_token l \<and> fencing_token l \<le> last_issued m' k)) \<Longrightarrow> lease_inv m'"
  unfolding lease_inv_def by (meson order_trans)

lemma lease_invD: "lease_inv m \<Longrightarrow> leases m k = Some l \<Longrightarrow>
    lock_id l = k \<and> 1 \<le> fencing_token l \<and> fencing_token l \<le> last_issued m k"
  and lease_inv_nonneg: "lease_inv m \<Longrightarrow> 0 \<le> last_issued m k"
  by (simp_all add: lease_inv_def)

lemma acquire_inv [step_inv_intros]: "lease_inv m \<Longrightarrow> lease_inv (fst (acquire k h d now m))"
proof (cases rule: acquire_cases [of k h d now m])
  case overflow
  assume "lease_inv m"
  then show ?thesis unfolding overflow(2) by (rule lease_invI) simp_all
next
  case (granted s l)
  assume i: "lease_inv m"
  show ?thesis unfolding granted(2) using granted(3,5)
    by (intro lease_invI [OF i]) (auto simp: lease_inv_nonneg [OF i] split: if_splits)
qed simp

lemma renew_inv [step_inv_intros]: "lease_inv m \<Longrightarrow> lease_inv (fst (renew k h t d now m))"
proof (cases rule: renew_cases [of k h t d now m])
  case (renewed s l l0)
  assume i: "lease_inv m"
  show ?thesis unfolding renewed(2) using lease_invD [OF i renewed(6)] renewed(3,5,7)
    by (intro lease_invI [OF i]) (auto split: if_splits)
qed simp

lemma release_inv [step_inv_intros]: "lease_inv m \<Longrightarrow> lease_inv (fst (release k h t m))"
proof (cases rule: release_cases [of k h t m])
  case (released s l0)
  assume "lease_inv m"
  then show ?thesis unfolding released(2) by (rule lease_invI) (auto split: if_splits)
qed simp

lemma new_manager_inv: "lease_inv new_manager"
  by (simp add: lease_inv_def new_manager_def last_issued_def)

lemma acquire_token_le: "token_le m (fst (acquire k h d now m))"
  by (cases rule: acquire_cases [of k h d now m]) (auto simp: token_le_def)

lemma renew_token_le: "token_le m (fst (renew k h t d now m))"
  by (cases rule: renew_cases [of k h t d now m]) (auto simp: token_le_def)

lemma release_token_le: "token_le m (fst (release k h t m))"
  by (cases rule: release_cases [of k h t m]) (auto simp: token_le_def)

interpretation lease_runs: growing_machine lease_step lease_inv token_le
proof unfold_locales
  fix s :: lease_manager and c
  assume "lease_inv s"
  then show "lease_inv (lease_step c s)" by (cases c) (auto intro: step_inv_intros)
  show "token_le s (lease_step c s)"
    by (cases c) (simp_all add: acquire_token_le renew_token_le release_token_le)
qed (simp_all add: token_le_def, meson order_trans)

lemma granted_token:
  assumes "acquire (PStr k) h d now m = (m', Inr (Some l))"
  shows "fencing_token l = last_issued m k + 1 \<and> last_issued m' k = fencing_token l \<and> leases m' k = Some l
    \<and> lock_id l = k \<and> h = PStr (holder_id l)"
  using assms by (cases rule: acquire_cases [of "PStr k" h d now m]) auto

text \<open>A token below the last issued one never validates again once its lease has been replaced.\<close>

definition superseded :: "lease_manager \<Rightarrow> string \<Rightarrow> int \<Rightarrow> bool" where
  "superseded m k t \<longleftrightarrow> t < last_issued m k \<and> (\<forall>l. leases m k = Some l \<longrightarrow> t < fencing_token l)"

lemma superseded_step: "lease_inv m \<and> superseded m k t \<Longrightarrow> superseded (lease_step c m) k t"
proof (cases c)
  case (Acquire k' h d now)
  moreover assume "lease_inv m \<and> superseded m k t"
  ultimately show ?thesis
    by (cases rule: acquire_cases [of k' h d now m]) (auto simp: superseded_def)
next
  case (Renew k' h t' d now)
  moreover assume "lease_inv m \<and> superseded m k t"
  ultimately show ?thesis
    by (cases rule: renew_cases [of k' h t' d now m]) (auto simp: superseded_def)
next
  case (Release k' h t')
  moreover assume "lease_inv m \<and> superseded m k t"
  ultimately show ?thesis
    by (cases rule: release_cases [of k' h t' m]) (auto simp: superseded_def)
qed

interpretation superseded_runs: machine lease_step "\<lambda>m. lease_inv m \<and> superseded m k t" for k t
  by unfold_locales (metis superseded_step lease_runs.step_inv)

section \<open>Properties\<close>

text \<open>
  C11: when a lock is acquired twice in a run from an empty manager, whatever calls happen in
  between (expiry, release, failed calls), the second fencing token is strictly larger; from
  then on the first token is fenced and validates no action of any holder at any clock reading,
  after any further calls.
\<close>

theorem stale_holder_fenced_forever:
  assumes "acquire (PStr k) h d now (run_leases cs new_manager) = (m1, Inr (Some l1))"
    and "acquire (PStr k) h' d' now' (run_leases cs' m1) = (m2, Inr (Some l2))"
  shows "fencing_token l1 < fencing_token l2 \<and> is_fenced (run_leases cs'' m2) k (fencing_token l1)
    \<and> \<not> validate_action (run_leases cs'' m2) k holder (fencing_token l1) time"
proof -
  have i1: "lease_inv m1"
    using acquire_inv [OF lease_runs.run_inv [OF new_manager_inv], of "PStr k" h d now cs] assms(1) by simp
  have i2: "lease_inv m2"
    using acquire_inv [OF lease_runs.run_inv [OF i1], of "PStr k" h' d' now' cs'] assms(2) by simp
  have "last_issued m1 k \<le> last_issued (run_leases cs' m1) k"
    using lease_runs.run_le [OF i1, of cs'] by (simp add: token_le_def)
  then have lt: "fencing_token l1 < fencing_token l2" and "superseded m2 k (fencing_token l1)"
    using granted_token [OF assms(1)] granted_token [OF assms(2)] by (simp_all add: superseded_def)
  then have "superseded (run_leases cs'' m2) k (fencing_token l1)"
    using superseded_runs.run_inv [of m2 k "fencing_token l1" cs''] i2 by simp
  then show ?thesis using lt
    by (auto simp: superseded_def is_fenced_def validate_action_def holds_def split: option.split)
qed

lemma two_acquisitions:
  "acquire (PStr ''job'') (PStr ''a'') (PInt 5) (NInt 0) (run_leases [] new_manager) =
     (\<lparr> leases = [''job'' \<mapsto> \<lparr> lock_id = ''job'', holder_id = ''a'', fencing_token = 1, expires_at = NInt 5 \<rparr>],
        last_token = [''job'' \<mapsto> 1] \<rparr>,
      Inr (Some \<lparr> lock_id = ''job'', holder_id = ''a'', fencing_token = 1, expires_at = NInt 5 \<rparr>))"
  "acquire (PStr ''job'') (PStr ''b'') (PInt 5) (NInt 5) (run_leases []
     \<lparr> leases = [''job'' \<mapsto> \<lparr> lock_id = ''job'', holder_id = ''a'', fencing_token = 1, expires_at = NInt 5 \<rparr>],
        last_token = [''job'' \<mapsto> 1] \<rparr>) =
     (\<lparr> leases = [''job'' \<mapsto> \<lparr> lock_id = ''job'', holder_id = ''b'', fencing_token = 2, expires_at = NInt 10 \<rparr>],
        last_token = [''job'' \<mapsto> 2] \<rparr>,
      Inr (Some \<lparr> lock_id = ''job'', holder_id = ''b'', fencing_token = 2, expires_at = NInt 10 \<rparr>))"
  by (simp_all add: acquire_def require_id_def check_duration_def blank_def is_space_def new_manager_def
      last_issued_def is_expired_def Let_def)

theorem stale_holder_fenced_forever_witness:
  "is_fenced (run_leases [Release (PStr ''job'') (PStr ''b'') 2]
     \<lparr> leases = [''job'' \<mapsto> \<lparr> lock_id = ''job'', holder_id = ''b'', fencing_token = 2, expires_at = NInt 10 \<rparr>],
       last_token = [''job'' \<mapsto> 2] \<rparr>) ''job'' 1"
  using stale_holder_fenced_forever [OF two_acquisitions, of "[Release (PStr ''job'') (PStr ''b'') 2]"] by simp

text \<open>Calls that do not present the lease's own holder and token, made before it expires.\<close>

fun foreign_call :: "lease \<Rightarrow> lease_call \<Rightarrow> bool" where
  "foreign_call l (Acquire k h d now) = (\<not> is_expired l now)"
| "foreign_call l (Renew k h t d now) = (\<not> (k = PStr (lock_id l) \<and> h = PStr (holder_id l) \<and> t = fencing_token l))"
| "foreign_call l (Release k h t) = (\<not> (k = PStr (lock_id l) \<and> h = PStr (holder_id l) \<and> t = fencing_token l))"

lemma foreign_step:
  assumes l: "leases m (lock_id l) = Some l" and f: "foreign_call l c"
  shows "leases (lease_step c m) (lock_id l) = Some l"
proof (cases c)
  case (Acquire k h d now)
  show ?thesis unfolding Acquire using l f Acquire
    by (cases rule: acquire_cases [of k h d now m]) auto
next
  case (Renew k h t d now)
  show ?thesis unfolding Renew using l f Renew
    by (cases rule: renew_cases [of k h t d now m]) auto
next
  case (Release k h t)
  show ?thesis unfolding Release using l f Release
    by (cases rule: release_cases [of k h t m]) auto
qed

text \<open>
  C14: a granted lease cannot be taken, renewed or released by anybody else while it lives: after
  any sequence of calls made at clock readings before its expiry and not presenting its own
  holder and token, its holder still passes the guard and every other holder or token fails it.
\<close>

theorem live_lease_is_exclusive:
  assumes "acquire (PStr k) (PStr h) d now m = (m1, Inr (Some l))"
    and "\<forall>c \<in> set cs. foreign_call l c" and "\<not> is_expired l time"
  shows "validate_action (run_leases cs m1) k h' t time \<longleftrightarrow> h' = h \<and> t = fencing_token l"
proof -
  have g: "leases m1 k = Some l" "lock_id l = k" "holder_id l = h"
    using granted_token [OF assms(1)] by auto
  have "leases (run_leases cs m') (lock_id l) = Some l" if "leases m' (lock_id l) = Some l" for m'
    using assms(2) that by (induction cs arbitrary: m') (simp_all add: foreign_step)
  then have "leases (run_leases cs m1) k = Some l" using g by simp
  then show ?thesis using g assms(3) by (auto simp: validate_action_def holds_def)
qed

theorem live_lease_is_exclusive_witness:
  "validate_action (run_leases [Acquire (PStr ''job'') (PStr ''b'') (PInt 5) (NInt 4), Release (PStr ''job'') (PStr ''b'') 1]
     \<lparr> leases = [''job'' \<mapsto> \<lparr> lock_id = ''job'', holder_id = ''a'', fencing_token = 1, expires_at = NInt 5 \<rparr>],
        last_token = [''job'' \<mapsto> 1] \<rparr>) ''job'' ''a'' 1 (NInt 4)"
  using live_lease_is_exclusive [OF two_acquisitions(1),
      of "[Acquire (PStr ''job'') (PStr ''b'') (PInt 5) (NInt 4), Release (PStr ''job'') (PStr ''b'') 1]" "NInt 4" "''a''" 1]
  by (simp add: is_expired_def)

lemma fadd_one_moves_clock:
  assumes a: "\<bar>a\<bar> < 2 ^ 52" and d: "fle (Fin 1) f" "wf_float f"
  shows "\<not> fle (fadd (Fin a) f) (Fin a)"
proof (cases f)
  case (Fin b)
  then have b: "1 \<le> b" using d by (auto simp: fle_def)
  let ?n = "floor a + 1"
  have n: "a < of_int ?n" "of_int ?n \<le> a + 1" by linarith+
  have "of_int ?n < rat_of_int (2 ^ 53)" "- rat_of_int (2 ^ 53) < of_int ?n"
    using a n by (auto simp: abs_less_iff)
  then have "?n < 2 ^ 53" "- (2 ^ 53) < ?n" by (simp_all only: of_int_less_iff of_int_minus [symmetric])
  then have "\<bar>?n\<bar> < 2 ^ 53" by (simp only: abs_less_iff minus_less_iff)
  then have "of_int ?n \<le> rnd (a + b)" using n b by (intro rnd_ge_repr rnd_small_int) linarith+
  then have "a < rnd (a + b)" using n by linarith
  moreover have "- f_limit < a"
    using a by (simp add: f_limit_def abs_less_iff)
  ultimately show ?thesis using Fin by (auto simp: to_pf_def Let_def fle_def)
qed (use d in \<open>auto simp: fle_def\<close>)

text \<open>
  acquiring a free or expired lock for a second or more succeeds and the lease is live at
  the very clock reading it was granted at: binary64 rounding of the expiry cannot swallow the
  duration while the clock reads less than 2^52 seconds.
\<close>

theorem acquired_lease_is_live:
  assumes "\<not> blank k" "\<not> blank h" and free: "\<And>c. leases m k = Some c \<Longrightarrow> is_expired c (NFloat (Fin a))"
    and "\<bar>a\<bar> < 2 ^ 52" "fle (Fin 1) f" "wf_float f"
  shows "\<exists>m' l. acquire (PStr k) (PStr h) (PFloat f) (NFloat (Fin a)) m = (m', Inr (Some l))
    \<and> validate_action m' k h (fencing_token l) (NFloat (Fin a))"
proof -
  have "\<not> num_le (NFloat f) (NInt 0)" using assms(5) by (cases f) (auto simp: num_le_def fle_def)
  then have d: "check_duration (PFloat f) = Inr (NFloat f)" by (simp add: check_duration_def)
  have nf: "\<not> (case leases m k of None \<Rightarrow> False | Some c \<Rightarrow> \<not> is_expired c (NFloat (Fin a)))"
    using free by (simp split: option.split)
  have live: "\<not> num_le (NFloat (fadd (Fin a) f)) (NFloat (Fin a))"
    using fadd_one_moves_clock [OF assms(4-6)] by (simp add: num_le_def)
  have ids: "require_id ''lock_id'' (PStr k) = Inr k" "require_id ''holder_id'' (PStr h) = Inr h"
    using assms(1,2) by (simp_all add: require_id_Inr)
  show ?thesis
    using nf live by (simp add: acquire_def ids d Let_def validate_action_def holds_def is_expired_def del: fadd.simps)
qed

theorem acquired_lease_is_live_witness:
  "\<exists>m' l. acquire (PStr ''job'') (PStr ''a'') (PFloat (Fin 1)) (NFloat (Fin (1/2))) new_manager = (m', Inr (Some l))
    \<and> validate_action m' ''job'' ''a'' (fencing_token l) (NFloat (Fin (1/2)))"
proof -
  have "rnd 1 = 1" using rnd_small_int [of 1] by simp
  then show ?thesis
    by (intro acquired_lease_is_live)
      (simp_all add: blank_def is_space_def new_manager_def fle_def f_limit_def)
qed

text \<open>
  the duration check accepts NaN, which is neither positive nor comparable: the lease granted
  for it passes the guard at every clock reading, and every later acquisition of the lock by
  anybody, at any clock reading, is refused.
\<close>

theorem nan_duration_never_expires:
  assumes "\<not> blank k" "\<not> blank h" "leases m k = None" and now: "now = NFloat c"
  shows "\<exists>m' l. acquire (PStr k) (PStr h) (PFloat NaN) now m = (m', Inr (Some l))
    \<and> validate_action m' k h (fencing_token l) time
    \<and> (\<forall>h' d. fst (acquire (PStr k) h' d time m') = m')"
proof -
  have ids: "require_id ''lock_id'' (PStr k) = Inr k" "require_id ''holder_id'' (PStr h) = Inr h"
    using assms(1,2) by (simp_all add: require_id_Inr)
  have d: "check_duration (PFloat NaN) = Inr (NFloat NaN)"
    by (simp add: check_duration_def num_le_def fle_def)
  let ?l = "\<lparr> lock_id = k, holder_id = h, fencing_token = last_issued m k + 1, expires_at = NFloat NaN \<rparr>"
  let ?m = "m\<lparr>last_token := (last_token m)(k \<mapsto> last_issued m k + 1), leases := (leases m)(k \<mapsto> ?l)\<rparr>"
  have a: "acquire (PStr k) (PStr h) (PFloat NaN) now m = (?m, Inr (Some ?l))"
    using assms(3) now by (cases c) (simp_all add: acquire_def ids d Let_def)
  have e: "\<not> is_expired ?l t" for t
    by (simp add: is_expired_def num_le_def fle_def)
  have "fst (acquire (PStr k) h' d time ?m) = ?m" for h' d
    using e by (cases rule: acquire_cases [of "PStr k" h' d time ?m]) (auto simp: acquire_def)
  then show ?thesis using a e by (simp add: validate_action_def holds_def)
qed

theorem nan_duration_never_expires_witness:
  "\<exists>m' l. acquire (PStr ''job'') (PStr ''a'') (PFloat NaN) (NFloat (Fin 0)) new_manager = (m', Inr (Some l))
    \<and> validate_action m' ''job'' ''a'' (fencing_token l) (NInt (10 ^ 30))
    \<and> (\<forall>h' d. fst (acquire (PStr ''job'') h' d (NInt (10 ^ 30)) m') = m')"
  by (rule nan_duration_never_expires) (simp_all add: blank_def is_space_def new_manager_def)

end
