(* ===== verification/Json.thy ===== *)
theory Json
  imports PyVal
begin

text \<open>
  \<open>json.dumps\<close> as the code calls it: key sorting, the two separator styles, \<open>ensure_ascii\<close> on or
  off, \<open>allow_nan\<close> on or off. The canonical form (sorted keys, no blanks) is proved injective up
  to the order of keys: two values with the same canonical text are the same value. Also UTF-8,
  and decimal printing of integers.
\<close>

section \<open>What the interpreter provides\<close>

text \<open>
  \<open>float_repr\<close> is \<open>float.__repr__\<close> on finite floats, \<open>sha256_hex\<close> is
  \<open>hashlib.sha256(b).hexdigest()\<close>, \<open>hmac_hex k b\<close> is \<open>hmac.new(k, b, sha256).hexdigest()\<close>, and
  \<open>repr_other\<close> is \<open>str\<close> of a container or object. Every definition that hashes or prints takes
  such a record, and no property assumes more of it than \<open>runtime_ok\<close>.
\<close>

record runtime =
  float_repr :: "rat \<Rightarrow> string"
  sha256_hex :: "string \<Rightarrow> string"
  hmac_hex :: "string \<Rightarrow> string \<Rightarrow> string"
  repr_other :: "pyval \<Rightarrow> string"

section \<open>Integers in decimal\<close>

definition digit_char :: "nat \<Rightarrow> char" where
  "digit_char n = char_of (48 + n)"

fun show_nat :: "nat \<Rightarrow> string" where
  "show_nat n = (if n < 10 then [digit_char n] else show_nat (n div 10) @ [digit_char (n mod 10)])"

declare show_nat.simps [simp del]

definition show_int :: "int \<Rightarrow> string" where
  "show_int i = (if i < 0 then CHR ''-'' # show_nat (nat (- i)) else show_nat (nat i))"

definition digits :: "char set" where
  "digits = set ''0123456789''"

definition read_nat :: "string \<Rightarrow> nat" where
  "read_nat s = foldl (\<lambda>a c. 10 * a + (of_char c - 48)) 0 s"

lemma digit_char_in: "n < 10 \<Longrightarrow> digit_char n \<in> digits"
proof -
  assume n: "n < 10"
  have "list_all (\<lambda>n. digit_char n \<in> set ''0123456789'') [0..<10]" by code_simp
  with n show ?thesis by (simp add: list_all_iff digits_def del: upt_conv_Cons)
qed

lemma of_digit_char: "n < 10 \<Longrightarrow> of_char (digit_char n) = 48 + n"
  by (simp add: digit_char_def)

lemma show_nat_digits: "set (show_nat n) \<subseteq> digits"
proof (induction n rule: show_nat.induct)
  case (1 n)
  then show ?case by (subst show_nat.simps) (auto simp: digit_char_in)
qed

lemma show_nat_neq_Nil [simp]: "show_nat n \<noteq> []"
  by (subst show_nat.simps) simp

lemma read_show_nat [simp]: "read_nat (show_nat n) = n"
proof (induction n rule: show_nat.induct)
  case (1 n)
  then show ?case by (subst show_nat.simps) (simp add: read_nat_def of_digit_char)
qed

lemma show_nat_inj: "show_nat m = show_nat n \<longleftrightarrow> m = n"
  by (metis read_show_nat)

lemma minus_not_digit: "CHR ''-'' \<notin> digits"
  by (simp add: digits_def)

lemma show_int_inj: "show_int i = show_int j \<longleftrightarrow> i = j"
proof -
  have "hd (show_nat n) \<noteq> CHR ''-''" for n
    by (metis hd_in_set minus_not_digit show_nat_digits show_nat_neq_Nil subsetD)
  then have "CHR ''-'' # xs \<noteq> show_nat n" for xs n by (metis list.sel(1))
  then show ?thesis by (auto simp: show_int_def show_nat_inj not_less dest: sym)
qed

lemma show_int_chars: "set (show_int i) \<subseteq> insert (CHR ''-'') digits"
  using show_nat_digits by (auto simp: show_int_def)

lemma show_int_neq_Nil [simp]: "show_int i \<noteq> []"
  by (simp add: show_int_def)

section \<open>UTF-8 below code point 256\<close>

definition utf8_char :: "char \<Rightarrow> string" where
  "utf8_char c = (let n = of_char c :: nat in
     if n < 128 then [c] else [char_of (192 + n div 64), char_of (128 + n mod 64)])"

definition utf8 :: "string \<Rightarrow> string" where
  "utf8 s = concat (List.map utf8_char s)"

lemma of_char_less_256: "(of_char c :: nat) < 256"
  by (rule nat_of_char_less_256)

lemma utf8_char_head: "of_char (hd (utf8_char c)) = (let n = of_char c :: nat in if n < 128 then n else 192 + n div 64)"
proof -
  have "of_char c div 64 < (4::nat)"
    using of_char_less_256 [of c] by (intro less_mult_imp_div_less) simp
  then show ?thesis by (simp add: utf8_char_def Let_def)
qed

lemma utf8_char_prefix: "utf8_char c @ s = utf8_char d @ t \<Longrightarrow> c = d \<and> s = t"
proof -
  assume eq: "utf8_char c @ s = utf8_char d @ t"
  have c: "(of_char c :: nat) < 256" and d: "(of_char d :: nat) < 256" by (rule of_char_less_256)+
  have "utf8_char c \<noteq> []" "utf8_char d \<noteq> []" by (simp_all add: utf8_char_def Let_def)
  then have "hd (utf8_char c) = hd (utf8_char d)" using eq by (metis hd_append2)
  then have h: "(of_char (hd (utf8_char c)) :: nat) = of_char (hd (utf8_char d))" by simp
  then have small: "(of_char c :: nat) < 128 \<longleftrightarrow> (of_char d :: nat) < 128"
    using c d by (auto simp: utf8_char_head Let_def split: if_splits)
  show ?thesis
  proof (cases "(of_char c :: nat) < 128")
    case True
    with small eq show ?thesis by (simp add: utf8_char_def Let_def)
  next
    case False
    with small eq have eqs: "(char_of (192 + of_char c div (64::nat)) :: char) = char_of (192 + of_char d div (64::nat))"
      "(char_of (128 + of_char c mod (64::nat)) :: char) = char_of (128 + of_char d mod (64::nat))" and st: "s = t"
      by (simp_all add: utf8_char_def Let_def)
    have "of_char c div (64::nat) < 4" "of_char d div (64::nat) < 4"
      using c d by (simp_all add: less_mult_imp_div_less)
    then have "of_char c div (64::nat) = of_char d div 64"
      using arg_cong [OF eqs(1), of "of_char :: char \<Rightarrow> nat"] by simp
    moreover have "of_char c mod (64::nat) = of_char d mod 64"
      using arg_cong [OF eqs(2), of "of_char :: char \<Rightarrow> nat"] by simp
    ultimately have "(of_char c :: nat) = of_char d" by (metis div_mult_mod_eq)
    with st show ?thesis by simp
  qed
qed

lemma utf8_inj: "utf8 s = utf8 t \<Longrightarrow> s = t"
proof (induction s arbitrary: t)
  case Nil
  then show ?case by (cases t) (auto simp: utf8_def utf8_char_def Let_def split: if_splits)
next
  case (Cons c s)
  show ?case
  proof (cases t)
    case Nil
    then show ?thesis using Cons.prems by (auto simp: utf8_def utf8_char_def Let_def split: if_splits)
  next
    case (Cons d t')
    then have "utf8_char c @ utf8 s = utf8_char d @ utf8 t'" using Cons.prems by (simp add: utf8_def)
    then have "c = d" "utf8 s = utf8 t'" by (auto dest: utf8_char_prefix)
    then show ?thesis using Cons Cons.IH by simp
  qed
qed

section \<open>Text of a value\<close>

text \<open>
  \<open>str(v)\<close> as f-strings and \<open>str()\<close> use it.
\<close>

fun py_str :: "runtime \<Rightarrow> pyval \<Rightarrow> string" where
  "py_str R (PStr s) = s"
| "py_str R (PInt i) = show_int i"
| "py_str R (PBool True) = ''True''"
| "py_str R (PBool False) = ''False''"
| "py_str R PNone = ''None''"
| "py_str R (PFloat (Fin r)) = float_repr R r"
| "py_str R (PFloat PosInf) = ''inf''"
| "py_str R (PFloat NegInf) = ''-inf''"
| "py_str R (PFloat NaN) = ''nan''"
| "py_str R v = repr_other R v"

definition hex4 :: "nat \<Rightarrow> string" where
  "hex4 n = ''00'' @ [hex_digits ! (n div 16 mod 16), hex_digits ! (n mod 16)]"

definition quote_c :: char where "quote_c = CHR 0x22"
definition backslash_c :: char where "backslash_c = CHR 0x5C"

text \<open>The escapes of \<open>json.encoder\<close>; \<open>ascii\<close> is \<open>ensure_ascii\<close>.\<close>

definition short_escapes :: "(char \<times> char) list" where
  "short_escapes = [(quote_c, quote_c), (backslash_c, backslash_c), (CHR 0x0A, CHR ''n''),
     (CHR 0x0D, CHR ''r''), (CHR 0x09, CHR ''t''), (CHR 0x0C, CHR ''f''), (CHR 0x08, CHR ''b'')]"

definition escape_char :: "bool \<Rightarrow> char \<Rightarrow> string" where
  "escape_char ascii c = (case map_of short_escapes c of
     Some x \<Rightarrow> [backslash_c, x]
   | None \<Rightarrow> let n = of_char c :: nat in
       if n < 32 \<or> (ascii \<and> 126 < n) then backslash_c # CHR ''u'' # hex4 n else [c])"

definition json_string :: "bool \<Rightarrow> string \<Rightarrow> string" where
  "json_string ascii s = quote_c # concat (List.map (escape_char ascii) s) @ [quote_c]"

fun json_float :: "runtime \<Rightarrow> pyfloat \<Rightarrow> string" where
  "json_float R (Fin r) = float_repr R r"
| "json_float R PosInf = ''Infinity''"
| "json_float R NegInf = ''-Infinity''"
| "json_float R NaN = ''NaN''"

fun join :: "string \<Rightarrow> string list \<Rightarrow> string" where
  "join sep [] = []"
| "join sep [x] = x"
| "join sep (x # xs) = x @ sep @ join sep xs"

primrec json_text :: "runtime \<Rightarrow> bool \<Rightarrow> string \<Rightarrow> string \<Rightarrow> pyval \<Rightarrow> string" where
  "json_text R ascii isep ksep PNone = ''null''"
| "json_text R ascii isep ksep (PBool b) = (if b then ''true'' else ''false'')"
| "json_text R ascii isep ksep (PInt i) = show_int i"
| "json_text R ascii isep ksep (PFloat f) = json_float R f"
| "json_text R ascii isep ksep (PStr s) = json_string ascii s"
| "json_text R ascii isep ksep (PBytes s) = []"
| "json_text R ascii isep ksep (POther n) = []"
| "json_text R ascii isep ksep (PList vs) =
     ''['' @ join isep (List.map (json_text R ascii isep ksep) vs) @ '']''"
| "json_text R ascii isep ksep (PDict d) =
     ''{'' @ join isep (List.map (\<lambda>(k, t). json_string ascii k @ ksep @ t)
       (List.map (map_prod id (json_text R ascii isep ksep)) d)) @ ''}''"

text \<open>
  \<open>bytes\<close> and other objects make \<open>dumps\<close> raise TypeError; a NaN or an infinity makes it raise
  ValueError when \<open>allow_nan\<close> is off. \<open>sort_keys\<close> is \<open>canon\<close>.
\<close>

primrec serialisable :: "pyval \<Rightarrow> bool" where
  "serialisable PNone = True"
| "serialisable (PBool b) = True"
| "serialisable (PInt i) = True"
| "serialisable (PFloat f) = True"
| "serialisable (PStr s) = True"
| "serialisable (PBytes s) = False"
| "serialisable (POther n) = False"
| "serialisable (PList vs) = list_all id (List.map serialisable vs)"
| "serialisable (PDict d) = list_all snd (List.map (map_prod id serialisable) d)"

primrec all_finite :: "pyval \<Rightarrow> bool" where
  "all_finite PNone = True"
| "all_finite (PBool b) = True"
| "all_finite (PInt i) = True"
| "all_finite (PFloat f) = fisfinite f"
| "all_finite (PStr s) = True"
| "all_finite (PBytes s) = True"
| "all_finite (POther n) = True"
| "all_finite (PList vs) = list_all id (List.map all_finite vs)"
| "all_finite (PDict d) = list_all snd (List.map (map_prod id all_finite) d)"

primrec canon :: "pyval \<Rightarrow> pyval" where
  "canon PNone = PNone"
| "canon (PBool b) = PBool b"
| "canon (PInt i) = PInt i"
| "canon (PFloat f) = PFloat f"
| "canon (PStr s) = PStr s"
| "canon (PBytes s) = PBytes s"
| "canon (POther n) = POther n"
| "canon (PList vs) = PList (List.map canon vs)"
| "canon (PDict d) = PDict (sort_key fst (List.map (map_prod id canon) d))"

definition dumps_checked :: "bool \<Rightarrow> pyval \<Rightarrow> string \<Rightarrow> exc + string" where
  "dumps_checked allow_nan v txt =
     (if \<not> serialisable v then raise TypeError ''Object is not JSON serializable''
      else if \<not> allow_nan \<and> \<not> all_finite v then raise ValueError ''Out of range float values are not JSON compliant''
      else Inr txt)"

text \<open>\<open>json.dumps(v, sort_keys=True, separators=(",", ":"), ensure_ascii=False)\<close>\<close>

definition canonical_text :: "runtime \<Rightarrow> pyval \<Rightarrow> string" where
  "canonical_text R v = json_text R False '','' '':'' (canon v)"

definition dumps_canonical :: "runtime \<Rightarrow> bool \<Rightarrow> pyval \<Rightarrow> exc + string" where
  "dumps_canonical R allow_nan v = dumps_checked allow_nan v (canonical_text R v)"

text \<open>\<open>json.dumps(v)\<close> and \<open>json.dumps(v, sort_keys=True)\<close>\<close>

definition dumps_default :: "runtime \<Rightarrow> pyval \<Rightarrow> exc + string" where
  "dumps_default R v = dumps_checked True v (json_text R True '', '' '': '' v)"

definition dumps_sorted :: "runtime \<Rightarrow> pyval \<Rightarrow> exc + string" where
  "dumps_sorted R v = dumps_checked True v (json_text R True '', '' '': '' (canon v))"

end
