(* ===== verification/JsonCanon.thy ===== *)
theory JsonCanon
  imports Json "HOL-Library.Multiset"
begin

text \<open>
  Canonical JSON text determines the value. Every token is self-delimiting or ends at one of
  \<open>, ] }\<close>, so two texts that agree up to such a character agree value by value. Also: outside
  its string literals a canonical text contains no backslash and no vertical bar, so a text that
  is preceded by \<open>|\<close> has only one such reading.
\<close>

section \<open>Assumptions on the printer of floats\<close>

definition number_chars :: "char set" where
  "number_chars = set ''0123456789+-.e''"

text \<open>
  \<open>repr\<close> of finite floats: digits, sign, point and exponent only; starts with a digit or a minus;
  never reads as an integer; tells floats apart.
\<close>

definition float_repr_ok :: "(rat \<Rightarrow> string) \<Rightarrow> bool" where
  "float_repr_ok fr \<longleftrightarrow> (\<forall>r. rnd r = r \<longrightarrow>
     fr r \<noteq> [] \<and> set (fr r) \<subseteq> number_chars \<and> hd (fr r) \<in> insert (CHR ''-'') digits
     \<and> (CHR ''.'' \<in> set (fr r) \<or> CHR ''e'' \<in> set (fr r))
     \<and> (\<forall>r'. rnd r' = r' \<longrightarrow> fr r = fr r' \<longrightarrow> r = r'))"

definition runtime_ok :: "runtime \<Rightarrow> bool" where
  "runtime_ok R \<longleftrightarrow> float_repr_ok (float_repr R)
     \<and> (\<forall>b. is_sha256_hex (sha256_hex R b))
     \<and> (\<forall>k b. is_sha256_hex (hmac_hex R k b))"

section \<open>Well-formed values\<close>

primrec wf_val :: "pyval \<Rightarrow> bool" where
  "wf_val PNone = True"
| "wf_val (PBool b) = True"
| "wf_val (PInt i) = True"
| "wf_val (PFloat f) = wf_float f"
| "wf_val (PStr s) = True"
| "wf_val (PBytes s) = True"
| "wf_val (POther n) = True"
| "wf_val (PList vs) = list_all id (List.map wf_val vs)"
| "wf_val (PDict d) = (distinct (List.map fst d) \<and> list_all snd (List.map (map_prod id wf_val) d))"

definition json_ok :: "pyval \<Rightarrow> bool" where
  "json_ok v \<longleftrightarrow> serialisable v \<and> wf_val v"

lemma json_ok_simps [simp]:
  "json_ok PNone" "json_ok (PBool b)" "json_ok (PInt i)" "json_ok (PStr s)"
  "json_ok (PFloat f) \<longleftrightarrow> wf_float f"
  "\<not> json_ok (PBytes s)" "\<not> json_ok (POther n)"
  "json_ok (PList vs) \<longleftrightarrow> (\<forall>v \<in> set vs. json_ok v)"
  "json_ok (PDict d) \<longleftrightarrow> distinct (List.map fst d) \<and> (\<forall>p \<in> set d. json_ok (snd p))"
  by (auto simp: json_ok_def list_all_iff)

section \<open>Strings\<close>

lemma escape_head:
  "\<exists>x xs. escape_char a c = x # xs \<and> x \<noteq> quote_c"
proof (cases "map_of short_escapes c")
  case None
  then have "c \<noteq> quote_c" by (auto simp: short_escapes_def)
  then show ?thesis using None by (simp add: escape_char_def Let_def quote_c_def backslash_c_def)
next
  case (Some x)
  then show ?thesis by (simp add: escape_char_def quote_c_def backslash_c_def)
qed

lemma escape_neq_Nil [simp]: "escape_char a c \<noteq> []"
  using escape_head [of a c] by auto

text \<open>Escapes are prefix-free, because one reader takes them all back.\<close>

definition hex_val :: "char \<Rightarrow> nat" where
  "hex_val c = length (takeWhile (\<lambda>x. x \<noteq> c) hex_digits)"

definition unescape :: "string \<Rightarrow> char \<times> string" where
  "unescape s = (if hd s \<noteq> backslash_c then (hd s, tl s)
     else case map_of (List.map prod.swap short_escapes) (hd (tl s)) of
       Some c \<Rightarrow> (c, tl (tl s))
     | None \<Rightarrow> let ys = tl (tl s) in (char_of (16 * hex_val (ys ! 2) + hex_val (ys ! 3)), drop 4 ys))"

lemma hex_val_digit: "i < 16 \<Longrightarrow> hex_val (hex_digits ! i) = i"
proof -
  assume i: "i < 16"
  have "list_all (\<lambda>i. hex_val (hex_digits ! i) = i) [0..<16]" by code_simp
  with i show ?thesis by (simp only: list_all_iff set_upt) simp
qed

lemma short_escapes_inverse:
  assumes "map_of short_escapes c = Some x"
  shows "map_of (List.map prod.swap short_escapes) x = Some c"
proof -
  have "list_all (\<lambda>(c, x). map_of (List.map prod.swap short_escapes) x = Some c) short_escapes"
    by code_simp
  then have "\<forall>p \<in> set short_escapes. case p of (c, x) \<Rightarrow> map_of (List.map prod.swap short_escapes) x = Some c"
    by (simp only: list_all_iff)
  from bspec [OF this map_of_SomeD [OF assms]] show ?thesis unfolding prod.case .
qed

lemma unescape_hex4: "n < 32 \<Longrightarrow> unescape (backslash_c # CHR ''u'' # hex4 n @ s) = (char_of n, s)"
proof -
  assume "n < 32"
  then have n: "n div 16 < 16" by (simp add: less_mult_imp_div_less)
  have u: "map_of (List.map prod.swap short_escapes) (CHR ''u'') = None" by code_simp
  show ?thesis using n by (simp add: unescape_def u hex4_def hex_val_digit)
qed

lemma unescape_escape: "unescape (escape_char False c @ s) = (c, s)"
proof (cases "map_of short_escapes c")
  case (Some x)
  then show ?thesis by (simp add: escape_char_def unescape_def short_escapes_inverse)
next
  case None
  then have "c \<noteq> backslash_c" by (auto simp: short_escapes_def quote_c_def backslash_c_def)
  then show ?thesis using None by (simp add: escape_char_def unescape_hex4 Let_def) (simp add: unescape_def)
qed

lemma escape_prefix: "escape_char False c @ s = escape_char False d @ t \<Longrightarrow> c = d \<and> s = t"
  by (metis Pair_inject unescape_escape)

lemma json_string_prefix:
  "json_string False a @ s = json_string False b @ t \<Longrightarrow> a = b \<and> s = t"
proof -
  have gen: "concat (List.map (escape_char False) a) @ quote_c # s
      = concat (List.map (escape_char False) b) @ quote_c # t \<Longrightarrow> a = b \<and> s = t"
  proof (induction a arbitrary: b)
    case Nil
    then show ?case using escape_head [of False "hd b"] by (cases b) auto
  next
    case (Cons c a)
    show ?case
    proof (cases b)
      case Nil
      then show ?thesis using Cons.prems escape_head [of False c] by auto
    next
      case (Cons d b')
      with Cons.prems have "c = d \<and> concat (List.map (escape_char False) a) @ quote_c # s
          = concat (List.map (escape_char False) b') @ quote_c # t"
        by (intro escape_prefix) simp
      then show ?thesis using Cons Cons.IH by blast
    qed
  qed
  assume "json_string False a @ s = json_string False b @ t"
  then show ?thesis by (intro gen) (simp add: json_string_def)
qed

section \<open>Numbers\<close>

definition delim :: "char \<Rightarrow> bool" where
  "delim c \<longleftrightarrow> c = CHR '','' \<or> c = CHR '']'' \<or> c = CHR ''}''"

definition at_delim :: "string \<Rightarrow> bool" where
  "at_delim s \<longleftrightarrow> s = [] \<or> delim (hd s)"

lemma token_split:
  assumes "\<forall>c \<in> set a. \<not> delim c" "\<forall>c \<in> set b. \<not> delim c" "at_delim s" "at_delim t" "a @ s = b @ t"
  shows "a = b \<and> s = t"
proof -
  have "takeWhile (\<lambda>c. \<not> delim c) (x @ y) = x" if "\<forall>c \<in> set x. \<not> delim c" "at_delim y" for x y
    using that by (cases y) (auto simp: at_delim_def takeWhile_append2)
  from this [of a s] this [of b t] assms have "a = b" by simp
  with assms show ?thesis by simp
qed

lemma number_chars_not_delim: "c \<in> number_chars \<Longrightarrow> \<not> delim c"
proof -
  have "list_all (\<lambda>c. \<not> delim c) ''0123456789+-.e''" by code_simp
  then show "c \<in> number_chars \<Longrightarrow> \<not> delim c" by (simp add: list_all_iff number_chars_def del: list.set)
qed

lemma digits_number_chars: "insert (CHR ''-'') digits \<subseteq> number_chars"
  by (auto simp: digits_def number_chars_def)

lemma int_not_delim: "\<forall>c \<in> set (show_int i). \<not> delim c"
  using show_int_chars [of i] digits_number_chars number_chars_not_delim by blast

lemma float_not_delim:
  assumes "float_repr_ok (float_repr R)" "wf_float f"
  shows "\<forall>c \<in> set (json_float R f). \<not> delim c"
  using assms number_chars_not_delim
  by (cases f) (auto simp: float_repr_ok_def delim_def)

lemma int_float_neq:
  assumes "float_repr_ok (float_repr R)" "wf_float f"
  shows "show_int i \<noteq> json_float R f"
proof
  assume eq: "show_int i = json_float R f"
  have "c \<notin> set (show_int i)" if "c \<notin> insert (CHR ''-'') digits" for c
    using show_int_chars [of i] that by blast
  then have "CHR ''.'' \<notin> set (show_int i)" "CHR ''e'' \<notin> set (show_int i)"
    "CHR ''N'' \<notin> set (show_int i)" "CHR ''y'' \<notin> set (show_int i)"
    by (simp_all add: digits_def)
  with eq assms show False by (cases f) (auto simp: float_repr_ok_def)
qed

lemma float_text_inj:
  assumes ok: "float_repr_ok (float_repr R)" and wf: "wf_float f" "wf_float g"
    and eq: "json_float R f = json_float R g"
  shows "f = g"
proof -
  have special: "CHR ''N'' \<notin> number_chars" "CHR ''y'' \<notin> number_chars"
    by (simp_all add: number_chars_def)
  have fin: "set (float_repr R r) \<subseteq> number_chars" if "rnd r = r" for r
    using ok that by (simp add: float_repr_ok_def)
  have chars: "CHR ''N'' \<notin> set (float_repr R r)" "CHR ''y'' \<notin> set (float_repr R r)" if "rnd r = r" for r
    using fin [OF that] special by blast+
  have neq: "float_repr R r \<noteq> ''NaN''" "float_repr R r \<noteq> ''Infinity''" "float_repr R r \<noteq> ''-Infinity''"
    if "rnd r = r" for r using chars [OF that] by auto
  have inj: "float_repr R r = float_repr R r' \<longleftrightarrow> r = r'" if "rnd r = r" "rnd r' = r'" for r r'
    using ok that unfolding float_repr_ok_def by blast
  from wf eq show ?thesis by (cases f; cases g) (simp_all add: neq neq [THEN not_sym] inj)
qed

section \<open>Values\<close>

abbreviation ctext :: "runtime \<Rightarrow> pyval \<Rightarrow> string" where
  "ctext R v \<equiv> json_text R False '','' '':'' v"

definition token_class :: "char \<Rightarrow> nat" where
  "token_class c = (if c = CHR ''n'' then 1 else if c = CHR ''t'' then 2 else if c = CHR ''f'' then 3
     else if c = quote_c then 4 else if c = CHR ''['' then 5 else if c = CHR ''{'' then 6
     else if delim c then 7 else 0)"

primrec value_class :: "pyval \<Rightarrow> nat" where
  "value_class PNone = 1"
| "value_class (PBool b) = (if b then 2 else 3)"
| "value_class (PInt i) = 0"
| "value_class (PFloat f) = 0"
| "value_class (PStr s) = 4"
| "value_class (PBytes s) = 8"
| "value_class (POther n) = 8"
| "value_class (PList vs) = 5"
| "value_class (PDict d) = 6"

lemma number_class: "c \<in> insert (CHR ''-'') digits \<Longrightarrow> token_class c = 0"
proof -
  have "list_all (\<lambda>c. token_class c = 0) ''-0123456789''" by code_simp
  then show "c \<in> insert (CHR ''-'') digits \<Longrightarrow> token_class c = 0"
    by (simp only: list_all_iff digits_def list.set)
qed

lemma token_classes [simp]:
  "token_class (CHR ''n'') = 1" "token_class (CHR ''t'') = 2" "token_class (CHR ''f'') = 3"
  "token_class quote_c = 4" "token_class (CHR ''['') = 5" "token_class (CHR ''{'') = 6"
  "token_class (CHR ''N'') = 0" "token_class (CHR ''I'') = 0" "token_class (CHR ''-'') = 0"
  by (simp_all add: token_class_def quote_c_def delim_def)

lemma text_class:
  assumes "runtime_ok R" "json_ok v"
  shows "ctext R v \<noteq> [] \<and> token_class (hd (ctext R v)) = value_class v"
proof (cases v)
  case (PInt i)
  have "hd (show_int i) \<in> insert (CHR ''-'') digits"
    using show_int_chars [of i] hd_in_set [OF show_int_neq_Nil [of i]] by blast
  then show ?thesis using PInt by (simp add: number_class del: insert_iff)
next
  case (PFloat f)
  then show ?thesis using assms
    by (cases f) (simp_all add: runtime_ok_def float_repr_ok_def number_class del: insert_iff)
qed (use assms in \<open>simp_all add: json_string_def\<close>)

lemma value_class_not_7: "value_class v \<noteq> 7"
  by (cases v) auto

lemma token_delim: "delim c \<Longrightarrow> token_class c = 7"
  by (auto simp: token_class_def delim_def quote_c_def)

text \<open>Sequences: if every element text ends where the value does, so does the whole sequence.\<close>

lemma join_Cons: "join sep (x # xs) = x @ (if xs = [] then [] else sep @ join sep xs)"
  by (cases xs) auto

definition unambiguous :: "('a \<Rightarrow> string) \<Rightarrow> ('a \<Rightarrow> bool) \<Rightarrow> 'a \<Rightarrow> bool" where
  "unambiguous f ok x \<longleftrightarrow> (\<forall>y s t. ok y \<longrightarrow> at_delim s \<longrightarrow> at_delim t \<longrightarrow> f x @ s = f y @ t \<longrightarrow> x = y \<and> s = t)"

lemma unambiguousD:
  "unambiguous f ok x \<Longrightarrow> ok y \<Longrightarrow> at_delim s \<Longrightarrow> at_delim t \<Longrightarrow> f x @ s = f y @ t \<Longrightarrow> x = y \<and> s = t"
  unfolding unambiguous_def by blast

lemma join_head: "f x \<noteq> [] \<Longrightarrow> hd (join '','' (List.map f (x # xs)) @ s) = hd (f x)"
  by (simp add: join_Cons)

lemma join_prefix:
  assumes close: "delim cl" "cl \<noteq> CHR '',''"
    and elem: "\<forall>x \<in> set xs. unambiguous f ok x"
    and start: "\<And>x. ok x \<Longrightarrow> f x \<noteq> [] \<and> \<not> delim (hd (f x))"
    and ok: "\<forall>x \<in> set xs. ok x" "\<forall>y \<in> set ys. ok y"
    and eq: "join '','' (List.map f xs) @ cl # s = join '','' (List.map f ys) @ cl # t"
  shows "xs = ys \<and> s = t"
  using elem ok eq
proof (induction xs arbitrary: ys)
  case Nil
  show ?case
  proof (cases ys)
    case (Cons y ys')
    then have y: "f y \<noteq> []" "\<not> delim (hd (f y))" using start Nil.prems by auto
    have "cl = hd (f y)"
      using arg_cong [OF Nil.prems(4), of hd] join_head [where f = f, OF y(1)] Cons by simp
    then show ?thesis using close y by simp
  qed (use Nil.prems in simp)
next
  case (Cons x xs)
  have x: "f x \<noteq> []" "\<not> delim (hd (f x))" using start Cons.prems(2) by auto
  show ?case
  proof (cases ys)
    case Nil
    have "hd (f x) = cl"
      using arg_cong [OF Cons.prems(4), of hd] join_head [where f = f, OF x(1)] Nil by simp
    then show ?thesis using close x by simp
  next
    case (Cons y ys')
    define rx where "rx = (if xs = [] then cl # s else CHR '','' # join '','' (List.map f xs) @ cl # s)"
    define ry where "ry = (if ys' = [] then cl # t else CHR '','' # join '','' (List.map f ys') @ cl # t)"
    have split_x: "join '','' (List.map f (x # xs)) @ cl # s = f x @ rx"
      and split_y: "join '','' (List.map f (y # ys')) @ cl # t = f y @ ry"
      by (simp_all add: join_Cons rx_def ry_def)
    have dl: "at_delim rx" "at_delim ry" using close by (simp_all add: at_delim_def rx_def ry_def delim_def)
    have fxy: "f x @ rx = f y @ ry" using Cons.prems(4) Cons split_x split_y by simp
    have un: "unambiguous f ok x" "ok y" using Cons.prems Cons by simp_all
    have xy: "x = y" "rx = ry" using unambiguousD [OF un dl fxy] by simp_all
    consider (both) "xs \<noteq> []" "ys' \<noteq> []" | (none) "xs = []" "ys' = []"
      | (left) "xs = []" "ys' \<noteq> []" | (right) "xs \<noteq> []" "ys' = []"
      by blast
    then show ?thesis
    proof cases
      case both
      then have "join '','' (List.map f xs) @ cl # s = join '','' (List.map f ys') @ cl # t"
        using xy by (simp add: rx_def ry_def)
      moreover have "\<forall>x \<in> set xs. unambiguous f ok x" "\<forall>x \<in> set xs. ok x" "\<forall>y \<in> set ys'. ok y"
        using Cons.prems Cons by simp_all
      ultimately have "xs = ys' \<and> s = t" by (rule Cons.IH [rotated -1])
      then show ?thesis using xy Cons by simp
    next
      case none
      then have "s = t" using xy(2) by (simp add: rx_def ry_def)
      then show ?thesis using none xy(1) Cons by simp
    next
      case left
      then have "cl = CHR '',''" using xy(2) by (simp add: rx_def ry_def)
      then show ?thesis using close by simp
    next
      case right
      then have "CHR '','' = cl" using xy(2) by (simp add: rx_def ry_def)
      then show ?thesis using close by simp
    qed
  qed
qed

section \<open>The canonical text determines the value\<close>

lemma class_neq:
  assumes "runtime_ok R" "json_ok v" "json_ok w" "ctext R v @ s = ctext R w @ t"
  shows "value_class v = value_class w"
  using text_class [OF assms(1,2)] text_class [OF assms(1,3)] assms(4) by (metis hd_append2)

lemma number_unambiguous:
  assumes R: "runtime_ok R" and v: "value_class v = 0" "json_ok v"
  shows "unambiguous (ctext R) json_ok v"
  unfolding unambiguous_def
proof (intro allI impI)
  fix w s t
  assume w: "json_ok w" and dl: "at_delim s" "at_delim t" and eq: "ctext R v @ s = ctext R w @ t"
  have fr: "float_repr_ok (float_repr R)" using R by (simp add: runtime_ok_def)
  have w0: "value_class w = 0" using class_neq [OF R v(2) w eq] v(1) by simp
  have tok: "\<forall>c \<in> set (ctext R u). \<not> delim c" if "value_class u = 0" "json_ok u" for u
    using that int_not_delim float_not_delim [OF fr] by (cases u) (auto split: if_splits)
  have "ctext R v = ctext R w \<and> s = t" using token_split [OF tok [OF v] tok [OF w0 w] dl eq] .
  then show "v = w \<and> s = t"
    using v w w0 int_float_neq [OF fr] int_float_neq [OF fr, THEN not_sym] float_text_inj [OF fr]
    by (cases v; cases w) (simp_all add: show_int_inj split: if_splits)
qed

definition entry_text :: "runtime \<Rightarrow> string \<times> pyval \<Rightarrow> string" where
  "entry_text R p = json_string False (fst p) @ '':'' @ ctext R (snd p)"

lemma ctext_dict: "ctext R (PDict d) = ''{'' @ join '','' (List.map (entry_text R) d) @ ''}''"
proof -
  have "entry_text R = (\<lambda>p. json_string False (fst p) @ '':'' @ ctext R (snd p))"
    by (rule ext) (rule entry_text_def)
  then show ?thesis by (simp add: split_def comp_def)
qed

lemma entry_unambiguous:
  assumes "unambiguous (ctext R) json_ok (snd p)"
  shows "unambiguous (entry_text R) (\<lambda>q. json_ok (snd q)) p"
  unfolding unambiguous_def
proof (intro allI impI)
  fix q s t
  assume q: "json_ok (snd q)" and dl: "at_delim s" "at_delim t"
    and eq: "entry_text R p @ s = entry_text R q @ t"
  from eq have "fst p = fst q \<and> '':'' @ ctext R (snd p) @ s = '':'' @ ctext R (snd q) @ t"
    by (intro json_string_prefix) (simp add: entry_text_def)
  then show "p = q \<and> s = t" using unambiguousD [OF assms q dl] by (simp add: prod_eq_iff)
qed

lemma entry_start: "entry_text R p \<noteq> [] \<and> \<not> delim (hd (entry_text R p))"
  by (simp add: entry_text_def json_string_def delim_def quote_c_def)

lemma value_start: "runtime_ok R \<Longrightarrow> json_ok v \<Longrightarrow> ctext R v \<noteq> [] \<and> \<not> delim (hd (ctext R v))"
  using text_class [of R v] value_class_not_7 [of v] token_delim by metis

lemma ctext_unambiguous:
  assumes R: "runtime_ok R"
  shows "json_ok v \<Longrightarrow> unambiguous (ctext R) json_ok v"
proof (induction v)
  case (PList vs)
  have el: "\<forall>v \<in> set vs. unambiguous (ctext R) json_ok v" using PList by simp
  have ok: "\<forall>v \<in> set vs. json_ok v" using PList.prems by simp
  show ?case unfolding unambiguous_def
  proof (intro allI impI)
    fix w s t
    assume w: "json_ok w" and eq: "ctext R (PList vs) @ s = ctext R w @ t"
    have "value_class w = 5" using class_neq [OF R PList.prems w eq] by simp
    then obtain ws where ws: "w = PList ws" by (cases w) (auto split: if_splits)
    have "vs = ws \<and> s = t"
      using w eq ws by (intro join_prefix [OF _ _ el value_start [OF R] ok, of "CHR '']''"]) (simp_all add: delim_def)
    then show "PList vs = w \<and> s = t" using ws by simp
  qed
next
  case (PDict d)
  have el: "\<forall>p \<in> set d. unambiguous (entry_text R) (\<lambda>q. json_ok (snd q)) p"
    using PDict by (auto intro!: entry_unambiguous)
  have ok: "\<forall>p \<in> set d. json_ok (snd p)" using PDict.prems by simp
  show ?case unfolding unambiguous_def
  proof (intro allI impI)
    fix w s t
    assume w: "json_ok w" and eq: "ctext R (PDict d) @ s = ctext R w @ t"
    have "value_class w = 6" using class_neq [OF R PDict.prems w eq] by simp
    then obtain e where e: "w = PDict e" by (cases w) (auto split: if_splits)
    have "join '','' (List.map (entry_text R) d) @ CHR ''}'' # s = join '','' (List.map (entry_text R) e) @ CHR ''}'' # t"
      using eq e by (simp only: ctext_dict append_assoc append_Cons append_Nil list.inject)
    then have "d = e \<and> s = t"
      using w e by (intro join_prefix [OF _ _ el entry_start ok]) (simp_all add: delim_def)
    then show "PDict d = w \<and> s = t" using e by simp
  qed
next
  case (PStr a)
  show ?case unfolding unambiguous_def
  proof (intro allI impI)
    fix w s t
    assume w: "json_ok w" and eq: "ctext R (PStr a) @ s = ctext R w @ t"
    have "value_class w = 4" using class_neq [OF R PStr w eq] by simp
    then obtain b where "w = PStr b" by (cases w) (auto split: if_splits)
    then show "PStr a = w \<and> s = t" using eq json_string_prefix [of a s b t] by simp
  qed
next
  case PNone
  show ?case unfolding unambiguous_def
  proof (intro allI impI)
    fix w s t
    assume w: "json_ok w" and eq: "ctext R PNone @ s = ctext R w @ t"
    have "value_class w = 1" using class_neq [OF R PNone w eq] by simp
    then show "PNone = w \<and> s = t" using eq by (cases w) (auto split: if_splits)
  qed
next
  case (PBool b)
  show ?case unfolding unambiguous_def
  proof (intro allI impI)
    fix w s t
    assume w: "json_ok w" and eq: "ctext R (PBool b) @ s = ctext R w @ t"
    have "value_class w = (if b then 2 else 3)" using class_neq [OF R PBool w eq] by simp
    then show "PBool b = w \<and> s = t" using eq by (cases w) (auto split: if_splits)
  qed
next
  case (PInt i)
  then show ?case by (intro number_unambiguous [OF R]) simp_all
next
  case (PFloat f)
  then show ?case by (intro number_unambiguous [OF R]) simp_all
qed simp_all

section \<open>Sorting the keys\<close>

lemma json_ok_canon: "json_ok v \<Longrightarrow> json_ok (canon v)"
proof (induction v)
  case (PDict d)
  let ?d = "List.map (map_prod id canon) d"
  have fst: "List.map fst ?d = List.map fst d" by simp
  have "mset (List.map fst (sort_key fst ?d)) = mset (List.map fst ?d)" by (simp only: mset_map mset_sort)
  then have "distinct (List.map fst (sort_key fst ?d)) = distinct (List.map fst ?d)"
    by (rule mset_eq_imp_distinct_iff)
  then have "distinct (List.map fst (sort_key fst ?d))" using PDict.prems fst by simp
  moreover have "\<forall>p \<in> set (sort_key fst ?d). json_ok (snd p)" using PDict by auto
  ultimately show ?case by simp
qed auto

theorem canonical_text_inj:
  assumes "runtime_ok R" "json_ok v" "json_ok w" "canonical_text R v = canonical_text R w"
  shows "canon v = canon w"
  using unambiguousD [OF ctext_unambiguous [OF assms(1) json_ok_canon [OF assms(2)]] json_ok_canon [OF assms(3)],
    of "[]" "[]"] assms(4)
  by (simp add: canonical_text_def at_delim_def)

lemma dget_canon:
  assumes "distinct (List.map fst d)" "canon (PDict d) = PDict d'"
  shows "dget d' k = canon (dget d k) \<and> dhas d' k = dhas d k"
proof -
  let ?e = "List.map (map_prod id canon) d"
  have fst: "List.map fst ?e = List.map fst d" by simp
  have "mset (List.map fst (sort_key fst ?e)) = mset (List.map fst ?e)" by (simp only: mset_map mset_sort)
  then have "distinct (List.map fst (sort_key fst ?e))"
    using assms(1) fst by (metis mset_eq_imp_distinct_iff)
  moreover have "distinct (List.map fst ?e)" using assms(1) fst by metis
  ultimately have "map_of (sort_key fst ?e) = map_of ?e"
    by (rule map_of_inject_set [THEN iffD2]) (rule set_sort)
  then have "map_of (sort_key fst ?e) k = map_of ?e k" by (rule fun_cong)
  also have "map_of ?e k = map_option canon (map_of d k)"
    by (induction d) auto
  finally show ?thesis using assms(2) by (auto simp: dget_def dhas_def split: option.split)
qed

lemma sort_key_sorted: "sorted (List.map f xs) \<Longrightarrow> sort_key f xs = xs"
  by (induction xs) (auto simp: insort_is_Cons)

lemma canon_idem [simp]: "canon (canon v) = canon v"
proof (induction v)
  case (PDict d)
  let ?e = "sort_key fst (List.map (map_prod id canon) d)"
  have "map_prod id canon p = p" if "p \<in> set ?e" for p
  proof -
    have "p \<in> map_prod id canon ` set d" using that by simp
    then obtain k v where kv: "(k, v) \<in> set d" "p = (k, canon v)" by auto
    then have "canon (canon v) = canon v" by (intro PDict [of "(k, v)" v]) auto
    then show ?thesis using kv by simp
  qed
  then have "List.map (map_prod id canon) ?e = ?e" by (rule map_idI)
  then show ?case by (simp add: sort_key_sorted del: list.map)
qed simp_all

lemma canonical_text_canon [simp]: "canonical_text R (canon v) = canonical_text R v"
  by (simp add: canonical_text_def)

lemma serialisable_canon [simp]: "serialisable (canon v) = serialisable v"
  by (induction v) (auto simp: list_all_iff)

lemma all_finite_canon [simp]: "all_finite (canon v) = all_finite v"
  by (induction v) (auto simp: list_all_iff)

text \<open>Dictionaries that \<open>json.dumps(..., allow_nan=False)\<close> accepts\<close>

definition dumpable :: "pydict \<Rightarrow> bool" where
  "dumpable d \<longleftrightarrow> list_all (\<lambda>p. serialisable (snd p) \<and> all_finite (snd p)) d"

lemma dumpable_simps [simp]:
  "dumpable []" "dumpable ((k, v) # d) \<longleftrightarrow> serialisable v \<and> all_finite v \<and> dumpable d"
  "dumpable (d @ e) \<longleftrightarrow> dumpable d \<and> dumpable e"
  by (auto simp: dumpable_def)

lemma dumpable_dict: "serialisable (PDict d) \<and> all_finite (PDict d) \<longleftrightarrow> dumpable d"
  by (auto simp: dumpable_def list_all_iff)

lemma json_ok_dget: "json_ok (PDict d) \<Longrightarrow> dhas d k \<Longrightarrow> json_ok (dget d k)"
  by (auto simp: dget_def dhas_def dest: map_of_SomeD split: option.splits)

lemma float_repr_chars: "float_repr_ok fr \<Longrightarrow> rnd r = r \<Longrightarrow> set (fr r) \<subseteq> number_chars"
  unfolding float_repr_ok_def by blast

section \<open>No vertical bar outside string literals\<close>

datatype quote_state = Out | In | Esc

fun quote_step :: "quote_state \<Rightarrow> char \<Rightarrow> quote_state option" where
  "quote_step Out c = (if c = quote_c then Some In else if c = CHR ''|'' \<or> c = backslash_c then None else Some Out)"
| "quote_step In c = (if c = quote_c then Some Out else if c = backslash_c then Some Esc else Some In)"
| "quote_step Esc c = Some In"

fun scan :: "quote_state \<Rightarrow> string \<Rightarrow> quote_state option" where
  "scan q [] = Some q"
| "scan q (c # s) = (case quote_step q c of None \<Rightarrow> None | Some q' \<Rightarrow> scan q' s)"

lemma scan_append: "scan q (s @ t) = (case scan q s of None \<Rightarrow> None | Some q' \<Rightarrow> scan q' t)"
  by (induction q s rule: scan.induct) (simp_all split: option.split)

lemma scan_escape: "scan In (escape_char a c) = Some In"
proof (cases "map_of short_escapes c")
  case None
  have h: "hex_digits ! i \<noteq> quote_c \<and> hex_digits ! i \<noteq> backslash_c" if "i < 16" for i
  proof -
    have "list_all (\<lambda>i. hex_digits ! i \<noteq> quote_c \<and> hex_digits ! i \<noteq> backslash_c) [0..<16]" by code_simp
    with that show ?thesis by (simp only: list_all_iff set_upt) simp
  qed
  have "c \<noteq> quote_c" "c \<noteq> backslash_c" using None by (auto simp: short_escapes_def quote_c_def backslash_c_def)
  then show ?thesis using None h
    by (simp add: escape_char_def Let_def hex4_def) (simp add: quote_c_def backslash_c_def)
next
  case (Some x)
  then show ?thesis by (simp add: escape_char_def) (simp add: quote_c_def backslash_c_def)
qed

lemma scan_json_string: "scan Out (json_string a s) = Some Out"
proof -
  have "scan In (concat (List.map (escape_char a) s) @ [quote_c]) = Some Out"
    by (induction s) (simp_all add: scan_append scan_escape)
  then show ?thesis by (simp add: json_string_def)
qed

definition plain :: "char \<Rightarrow> bool" where
  "plain c \<longleftrightarrow> c \<noteq> quote_c \<and> c \<noteq> backslash_c \<and> c \<noteq> CHR ''|''"

lemma scan_plain: "\<forall>c \<in> set s. plain c \<Longrightarrow> scan Out s = Some Out"
  by (induction s) (simp_all add: plain_def)

lemma plain_numbers: "c \<in> number_chars \<Longrightarrow> plain c"
proof -
  have "list_all plain ''0123456789+-.e''" by code_simp
  then show "c \<in> number_chars \<Longrightarrow> plain c" by (simp only: list_all_iff number_chars_def)
qed

lemma scan_words:
  "scan Out ''null'' = Some Out" "scan Out ''true'' = Some Out" "scan Out ''false'' = Some Out"
  "scan Out ''Infinity'' = Some Out" "scan Out ''-Infinity'' = Some Out" "scan Out ''NaN'' = Some Out"
  by code_simp+

lemma scan_join:
  "scan Out sep = Some Out \<Longrightarrow> \<forall>x \<in> set xs. scan Out x = Some Out \<Longrightarrow> scan Out (join sep xs) = Some Out"
  by (induction xs) (simp_all add: join_Cons scan_append)

lemma scan_sep:
  "scan Out '','' = Some Out" "scan Out '':'' = Some Out" "scan Out ''['' = Some Out" "scan Out '']'' = Some Out"
  "scan Out ''{'' = Some Out" "scan Out ''}'' = Some Out"
  by code_simp+

lemma scan_ctext:
  assumes R: "runtime_ok R"
  shows "json_ok v \<Longrightarrow> scan Out (ctext R v) = Some Out"
proof (induction v)
  case (PInt i)
  have "\<forall>c \<in> set (show_int i). plain c"
    using show_int_chars [of i] digits_number_chars plain_numbers by blast
  then show ?case by (simp add: scan_plain)
next
  case (PFloat f)
  show ?case
  proof (cases f)
    case (Fin r)
    then have "set (float_repr R r) \<subseteq> number_chars"
      using R PFloat by (simp add: runtime_ok_def float_repr_ok_def)
    then have "\<forall>c \<in> set (float_repr R r). plain c" using plain_numbers by blast
    then show ?thesis using Fin by (simp add: scan_plain)
  qed (simp_all add: scan_words del: scan.simps)
next
  case (PList vs)
  then have "scan Out (join '','' (List.map (ctext R) vs)) = Some Out"
    by (intro scan_join scan_sep) simp
  then show ?case by (simp only: json_text.simps scan_append scan_sep option.case)
next
  case (PDict d)
  have "scan Out (entry_text R p) = Some Out" if "p \<in> set d" for p
    using PDict that
    by (simp add: entry_text_def scan_append scan_json_string scan_sep prod_set_simps del: scan.simps append_Cons append_Nil)
      (metis scan_append scan_sep(2) option.case(2) snds.intros)
  then have "scan Out (join '','' (List.map (entry_text R) d)) = Some Out"
    by (intro scan_join scan_sep) simp
  then show ?case by (simp only: ctext_dict scan_append scan_sep option.case)
qed (simp_all add: scan_json_string scan_words del: scan.simps)

lemma scan_complement:
  "scan Out s = Some p \<Longrightarrow> scan In s = Some q \<Longrightarrow> (p = Out \<and> q = In) \<or> (p = In \<and> q = Out)"
  "scan In s = Some p \<Longrightarrow> scan Out s = Some q \<Longrightarrow> (p = Out \<and> q = In) \<or> (p = In \<and> q = Out)"
  by (induction s arbitrary: p q) (auto split: if_splits)

lemma no_bar_suffix:
  assumes "scan Out b = Some Out" "scan Out (u @ CHR ''|'' # b) = Some Out"
  shows False
proof -
  have bar: "CHR ''|'' \<noteq> quote_c" "CHR ''|'' \<noteq> backslash_c" by (simp_all add: quote_c_def backslash_c_def)
  obtain q where "scan Out u = Some q" using assms(2) by (auto simp: scan_append split: option.splits)
  then have "scan In b = Some Out" using assms(2) bar by (cases q) (simp_all add: scan_append)
  then show False using scan_complement(1) [OF assms(1)] by blast
qed

theorem bar_split_unique:
  assumes R: "runtime_ok R" and ok: "json_ok v" "json_ok w"
    and eq: "s @ CHR ''|'' # canonical_text R v = t @ CHR ''|'' # canonical_text R w"
  shows "s = t \<and> canon v = canon w"
proof -
  have sc: "scan Out (canonical_text R u) = Some Out" if "json_ok u" for u
    using scan_ctext [OF R json_ok_canon [OF that]] by (simp add: canonical_text_def)
  from eq obtain us where us: "s = t @ us \<and> us @ CHR ''|'' # canonical_text R v = CHR ''|'' # canonical_text R w
      \<or> s @ us = t \<and> CHR ''|'' # canonical_text R v = us @ CHR ''|'' # canonical_text R w"
    unfolding append_eq_append_conv2 by blast
  have "us = []"
  proof (cases us)
    case (Cons c cs)
    then have "canonical_text R w = cs @ CHR ''|'' # canonical_text R v
        \<or> canonical_text R v = cs @ CHR ''|'' # canonical_text R w"
      using us by (metis append_Cons list.inject)
    then show ?thesis using no_bar_suffix sc ok by metis
  qed
  then have "s = t" "canonical_text R v = canonical_text R w" using us by auto
  then show ?thesis using canonical_text_inj [OF R ok] by simp
qed

lemma sha256_hex_is_ascii: "is_sha256_hex s \<Longrightarrow> is_ascii s"
proof -
  have "list_all (\<lambda>c. (of_char c :: nat) < 128) hex_digits" by code_simp
  then have "\<forall>c \<in> set hex_digits. (of_char c :: nat) < 128" by (simp only: list_all_iff)
  then show "is_sha256_hex s \<Longrightarrow> is_ascii s"
    by (auto simp: is_sha256_hex_def is_lower_hex_def is_ascii_def list_all_iff)
qed

section \<open>A runtime that meets the assumptions\<close>

definition sample_repr :: "rat \<Rightarrow> string" where
  "sample_repr r = show_int (fst (quotient_of r)) @ ''e'' @ show_int (snd (quotient_of r))"

definition sample_hash :: "string \<Rightarrow> string" where
  "sample_hash s = (let n = show_nat (sum_list (List.map of_char s) mod 10 ^ 9) in replicate (64 - length n) (CHR ''0'') @ n)"

definition sample_runtime :: runtime where
  "sample_runtime = \<lparr> float_repr = sample_repr, sha256_hex = sample_hash,
     hmac_hex = (\<lambda>k b. sample_hash (k @ b)), repr_other = (\<lambda>v. ''?'') \<rparr>"

lemma takeWhile_split: "x \<notin> set a \<Longrightarrow> takeWhile (\<lambda>c. c \<noteq> x) (a @ x # b) = a"
  by (induction a) auto

lemma length_show_nat: "n < 10 ^ Suc k \<Longrightarrow> length (show_nat n) \<le> Suc k"
proof (induction k arbitrary: n)
  case 0
  then show ?case by (simp add: show_nat.simps [of n])
next
  case (Suc k)
  then have "n div 10 < 10 ^ Suc k" by (simp add: less_mult_imp_div_less)
  then show ?case using Suc.IH [of "n div 10"] by (subst show_nat.simps) simp
qed

lemma sample_hash_ok: "is_sha256_hex (sample_hash s)"
proof -
  have len: "length (show_nat (m mod 10 ^ 9)) \<le> 64" for m
    using length_show_nat [of "m mod 10 ^ 9" 8] by simp
  have "digits \<subseteq> set hex_digits" by (simp add: digits_def hex_digits_def) 
  then have dig: "\<forall>c \<in> set (show_nat m). c \<in> set hex_digits" for m using show_nat_digits by blast
  have "CHR ''0'' \<in> set hex_digits" by (simp add: hex_digits_def)
  with len dig show ?thesis
    by (auto simp: sample_hash_def is_sha256_hex_def is_lower_hex_def list_all_iff Let_def)
qed

lemma sample_repr_ok: "float_repr_ok sample_repr"
  unfolding float_repr_ok_def
proof (intro allI impI conjI)
  fix r :: rat
  show "sample_repr r \<noteq> []" by (simp add: sample_repr_def)
  show "set (sample_repr r) \<subseteq> number_chars"
    using show_int_chars digits_number_chars by (fastforce simp: sample_repr_def number_chars_def)
  show "hd (sample_repr r) \<in> insert (CHR ''-'') digits"
  proof -
    let ?i = "fst (quotient_of r)"
    have "hd (show_int ?i) \<in> insert (CHR ''-'') digits"
      by (rule subsetD [OF show_int_chars hd_in_set [OF show_int_neq_Nil]])
    then show ?thesis by (simp add: sample_repr_def del: insert_iff)
  qed
  show "CHR ''.'' \<in> set (sample_repr r) \<or> CHR ''e'' \<in> set (sample_repr r)" by (simp add: sample_repr_def)
next
  fix r r' :: rat
  assume eq: "sample_repr r = sample_repr r'"
  have "CHR ''e'' \<notin> set (show_int i)" for i using show_int_chars [of i] by (auto simp: digits_def)
  then have tw: "takeWhile (\<lambda>c. c \<noteq> CHR ''e'') (sample_repr q) = show_int (fst (quotient_of q))" for q
    by (simp add: sample_repr_def takeWhile_split)
  have "fst (quotient_of r) = fst (quotient_of r')" using tw eq show_int_inj by metis
  moreover from this eq have "snd (quotient_of r) = snd (quotient_of r')" by (simp add: sample_repr_def show_int_inj)
  ultimately show "r = r'" by (metis prod_eq_iff quotient_of_inject_eq)
qed

lemma sample_runtime_ok: "runtime_ok sample_runtime"
  by (simp add: runtime_ok_def sample_runtime_def sample_repr_ok sample_hash_ok)

end
