(* ===== verification/HashChain.thy ===== *)
theory HashChain
  imports JsonCanon
begin

text \<open>
  Hash-linked logs. A log is a list of entries; each entry is hashed together with the hash of
  the entry before it. The locale states what the code's digest input must guarantee (it can be
  read back); its theorem is tamper evidence: two logs with the same last hash have the same
  entries, or their own digest inputs exhibit a collision of the hash function, or one of them
  hashes to the genesis constant. \<open>Ledger\<close> and \<open>Measurement\<close> interpret it.
\<close>

definition genesis :: string where
  "genesis = replicate 64 (CHR ''0'')"

fun links :: "(string \<Rightarrow> string) \<Rightarrow> (string \<Rightarrow> 'b \<Rightarrow> string) \<Rightarrow> string \<Rightarrow> 'b list \<Rightarrow> string list" where
  "links H enc h [] = []"
| "links H enc h (b # bs) = enc h b # links H enc (H (enc h b)) bs"

fun chain_head :: "(string \<Rightarrow> string) \<Rightarrow> (string \<Rightarrow> 'b \<Rightarrow> string) \<Rightarrow> string \<Rightarrow> 'b list \<Rightarrow> string" where
  "chain_head H enc h [] = h"
| "chain_head H enc h (b # bs) = chain_head H enc (H (enc h b)) bs"

fun numbered :: "(nat \<Rightarrow> 'b \<Rightarrow> bool) \<Rightarrow> nat \<Rightarrow> 'b list \<Rightarrow> bool" where
  "numbered ok n [] \<longleftrightarrow> True"
| "numbered ok n (b # bs) \<longleftrightarrow> ok n b \<and> numbered ok (Suc n) bs"

text \<open>Two digest inputs, one from each list, that differ and hash alike.\<close>

definition clash :: "(string \<Rightarrow> string) \<Rightarrow> string list \<Rightarrow> string list \<Rightarrow> bool" where
  "clash H xs ys \<longleftrightarrow> list_ex (\<lambda>x. list_ex (\<lambda>y. x \<noteq> y \<and> H x = H y) ys) xs"

definition hits :: "(string \<Rightarrow> string) \<Rightarrow> string \<Rightarrow> string list \<Rightarrow> bool" where
  "hits H g xs \<longleftrightarrow> list_ex (\<lambda>x. H x = g) xs"

lemma links_snoc: "links H enc h (bs @ [b]) = links H enc h bs @ [enc (chain_head H enc h bs) b]"
  by (induction bs arbitrary: h) simp_all

lemma chain_head_snoc [simp]: "chain_head H enc h (bs @ [b]) = H (enc (chain_head H enc h bs) b)"
  by (induction bs arbitrary: h) simp_all

lemma numbered_snoc: "numbered ok n (bs @ [b]) \<longleftrightarrow> numbered ok n bs \<and> ok (n + length bs) b"
  by (induction bs arbitrary: n) auto

lemma clash_iff: "clash H xs ys \<longleftrightarrow> (\<exists>x \<in> set xs. \<exists>y \<in> set ys. x \<noteq> y \<and> H x = H y)"
  by (auto simp: clash_def list_ex_iff)

lemma hits_iff: "hits H g xs \<longleftrightarrow> (\<exists>x \<in> set xs. H x = g)"
  by (auto simp: hits_def list_ex_iff)

lemma genesis_hex: "is_sha256_hex genesis"
  by (simp add: genesis_def is_sha256_hex_def is_lower_hex_def hex_digits_def list_all_iff)

locale hash_chain =
  fixes H :: "string \<Rightarrow> string"
    and enc :: "string \<Rightarrow> 'b \<Rightarrow> string"
    and ok :: "nat \<Rightarrow> 'b \<Rightarrow> bool"
    and same :: "'b \<Rightarrow> 'b \<Rightarrow> bool"
    and hash_ok :: "string \<Rightarrow> bool"
  assumes H_ok: "hash_ok (H x)"
    and enc_inj: "ok n b \<Longrightarrow> ok m c \<Longrightarrow> hash_ok h \<Longrightarrow> hash_ok k \<Longrightarrow> enc h b = enc k c
      \<Longrightarrow> h = k \<and> n = m \<and> same b c"
begin

lemma head_ok: "hash_ok g \<Longrightarrow> hash_ok (chain_head H enc g bs)"
  by (cases bs rule: rev_cases) (simp_all add: H_ok)

lemma head_from_empty: "bs \<noteq> [] \<Longrightarrow> chain_head H enc g bs = g' \<Longrightarrow> hits H g' (links H enc g bs)"
  by (cases bs rule: rev_cases) (auto simp: hits_iff links_snoc)

theorem same_head_same_log:
  assumes "numbered ok n bs" "numbered ok n cs" "hash_ok g"
    and "chain_head H enc g bs = chain_head H enc g cs"
  shows "list_all2 same bs cs \<or> clash H (links H enc g bs) (links H enc g cs)
    \<or> hits H g (links H enc g bs @ links H enc g cs)"
  using assms
proof (induction bs arbitrary: cs rule: rev_induct)
  case Nil
  then show ?case using head_from_empty [of cs g g] by (cases "cs = []") (auto simp: hits_iff)
next
  case (snoc b bs)
  show ?case
  proof (cases cs rule: rev_cases)
    case Nil
    then show ?thesis using snoc.prems head_from_empty [of "bs @ [b]" g g] by (auto simp: hits_iff)
  next
    case (snoc cs' c)
    let ?x = "enc (chain_head H enc g bs) b" and ?y = "enc (chain_head H enc g cs') c"
    have hd: "H ?x = H ?y" using snoc.prems snoc by simp
    show ?thesis
    proof (cases "?x = ?y")
      case True
      have o: "ok (n + length bs) b" "ok (n + length cs') c" "numbered ok n bs" "numbered ok n cs'"
        using snoc.prems snoc by (simp_all add: numbered_snoc)
      have eq: "chain_head H enc g bs = chain_head H enc g cs'" "n + length bs = n + length cs'" "same b c"
        using enc_inj [OF o(1,2) head_ok head_ok True] snoc.prems(3) by simp_all
      then show ?thesis
        using snoc.IH [OF o(3,4) snoc.prems(3) eq(1)] snoc
        by (auto simp: links_snoc clash_iff hits_iff list_all2_append)
    next
      case False
      then have "clash H (links H enc g (bs @ [b])) (links H enc g cs)"
        using hd snoc by (auto simp: links_snoc clash_iff)
      then show ?thesis by simp
    qed
  qed
qed

end

end
