(* ===== verification/TextFile.thy ===== *)
theory TextFile
  imports JsonCanon
begin

text \<open>
  JSON Lines files as the code reads them: the list of the lines, each one blank, not JSON, or the
  value it parses to.
\<close>

datatype file_line = Blank | Garbage | Parsed pyval

text \<open>A file that is not UTF-8 makes the iteration over its lines raise.\<close>

datatype text_file = Absent | NotUtf8 | Lines "file_line list"

fun parsed_ok :: "file_line \<Rightarrow> bool" where
  "parsed_ok (Parsed v) \<longleftrightarrow> json_ok v"
| "parsed_ok _ \<longleftrightarrow> True"

fun file_lines :: "text_file \<Rightarrow> file_line list" where
  "file_lines (Lines ls) = ls"
| "file_lines _ = []"

section \<open>Writing a line that may be cut\<close>

text \<open>
  A file ends in a newline, in a line without one, or inside a character: the bytes of a line that do not
  all arrive, when the disk is full or the process is killed, leave one of the last two.
\<close>

datatype line_end = Newline | Open_end | Split_char

text \<open>A text below code point 256 is cut inside a character exactly when its last byte leads one of two bytes.\<close>

definition splits_char :: "string \<Rightarrow> bool" where
  "splits_char b \<longleftrightarrow> b \<noteq> [] \<and> 192 \<le> (of_char (last b) :: nat)"

text \<open>
  The first n bytes of \<open>text @ newline\<close> are appended, where \<open>text\<close> is a JSON object and parses to
  \<open>v\<close>. A proper part of it is not JSON, and neither is a text that continues an open line, since that is
  not empty.
\<close>

definition write_line :: "string \<Rightarrow> file_line \<Rightarrow> nat \<Rightarrow> file_line list \<times> line_end \<Rightarrow> file_line list \<times> line_end" where
  "write_line text v n f = (case f of (ls, e) \<Rightarrow>
     if n = 0 then (ls, e)
     else (if e = Newline then ls @ [if n < length text then Garbage else v] else butlast ls @ [Garbage],
           if e = Split_char then Split_char else if length text < n then Newline
           else if n < length text \<and> splits_char (take n text) then Split_char else Open_end))"

lemma write_line_none [simp]: "write_line text v 0 f = f"
  by (cases f) (simp add: write_line_def)

lemma write_line_whole [simp]: "write_line text v (Suc (length text)) (ls, Newline) = (ls @ [v], Newline)"
  by (simp add: write_line_def)

text \<open>The canonical value of a dictionary after removing a key\<close>

lemma canon_dremove: "canon (PDict d) = PDict d' \<Longrightarrow> canon (PDict (dremove k d)) = PDict (dremove k d')"
proof -
  assume "canon (PDict d) = PDict d'"
  then have d': "d' = sort_key fst (List.map (map_prod id canon) d)" by simp
  have "List.filter (\<lambda>p. fst p \<noteq> k) (List.map (map_prod id canon) d) = List.map (map_prod id canon) (dremove k d)"
    by (simp add: dremove_def filter_map comp_def)
  then show ?thesis by (simp add: d' dremove_def filter_sort)
qed

section \<open>Reading a record\<close>

text \<open>\<open>rec[k]\<close> on a parsed value\<close>

definition item :: "pyval \<Rightarrow> string \<Rightarrow> exc + pyval" where
  "item v k = (case v of
     PDict d \<Rightarrow> (case map_of d k of None \<Rightarrow> raise KeyError k | Some x \<Rightarrow> Inr x)
   | _ \<Rightarrow> raise TypeError ''not subscriptable with a string'')"

text \<open>\<open>hmac.compare_digest(s, v)\<close> for a string s: both must be ASCII strings.\<close>

definition compare_digest :: "string \<Rightarrow> pyval \<Rightarrow> exc + bool" where
  "compare_digest s v = (case v of
     PStr t \<Rightarrow> if is_ascii s \<and> is_ascii t then Inr (s = t)
               else raise TypeError ''comparing strings with non-ASCII characters is not supported''
   | _ \<Rightarrow> raise TypeError ''unsupported operand types'')"

end
