(* ===== verification/Ledger.thy ===== *)
theory Ledger
  imports HashChain TextFile
begin

text \<open>
  \<open>controller/ledger.py\<close>: the append-only JSON Lines ledger. A file is the list of its lines, each
  one blank, not JSON, or the value it parses to; \<open>verify_chain\<close> is translated line by line with
  the errors it collects and the exceptions its handler catches. \<open>chain_ok\<close> is the declarative
  contract it implements.
\<close>

section \<open>Hashing and verification\<close>

definition ledger_text :: "runtime \<Rightarrow> pyval \<Rightarrow> pyval \<Rightarrow> pyval \<Rightarrow> string \<Rightarrow> string" where
  "ledger_text R prev seq ts body = py_str R prev @ ''|'' @ py_str R seq @ ''|'' @ py_str R ts @ ''|'' @ body"

definition compute_hash :: "runtime \<Rightarrow> pyval \<Rightarrow> pyval \<Rightarrow> pyval \<Rightarrow> pyval \<Rightarrow> exc + string" where
  "compute_hash R prev seq ts payload = and_then (dumps_canonical R True payload) (\<lambda>body.
     Inr (sha256_hex R (utf8 (ledger_text R prev seq ts body))))"

text \<open>
  One pass of the loop body over a parsed line: the errors it appends, and the new \<open>prev\<close> or the
  exception that leaves the body.
\<close>

definition check_record :: "runtime \<Rightarrow> string \<Rightarrow> pyval \<Rightarrow> nat \<Rightarrow> pyval \<Rightarrow> string list \<times> (exc + pyval)" where
  "check_record R line prev expected rec =
     attempt [] (item rec ''seq'') (\<lambda>sq.
     let e1 = (if py_eq_int sq (int expected) then [] else [line @ '': SEQ_MISMATCH'']) in
     attempt e1 (item rec ''prev_hash'') (\<lambda>ph.
     attempt e1 (compare_digest (py_str R ph) prev) (\<lambda>linked.
     let e2 = (if linked then e1 else e1 @ [line @ '': CHAIN_BROKEN'']) in
     attempt e2 (item rec ''timestamp'') (\<lambda>ts.
     attempt e2 (item rec ''payload'') (\<lambda>payload.
     attempt e2 (compute_hash R ph sq ts payload) (\<lambda>calc.
     attempt e2 (item rec ''hash'') (\<lambda>h.
     attempt e2 (compare_digest (py_str R h) (PStr calc)) (\<lambda>same.
       (if same then e2 else e2 @ [line @ '': HASH_MISMATCH''], Inr h)))))))))"

record chain_report =
  records_checked :: nat
  chain_valid :: bool
  errors :: "string list"

definition line_name :: "nat \<Rightarrow> string" where
  "line_name n = ''line '' @ show_nat n"

fun verify_lines :: "runtime \<Rightarrow> nat \<Rightarrow> nat \<Rightarrow> pyval \<Rightarrow> file_line list \<Rightarrow> exc + (nat \<times> string list)" where
  "verify_lines R line_no checked prev [] = Inr (checked, [])"
| "verify_lines R line_no checked prev (Blank # ls) = verify_lines R (Suc line_no) checked prev ls"
| "verify_lines R line_no checked prev (Garbage # ls) = Inr (Suc checked, [line_name line_no @ '': MALFORMED''])"
| "verify_lines R line_no checked prev (Parsed rec # ls) =
     (case check_record R (line_name line_no) prev checked rec of
        (es, Inr prev') \<Rightarrow> and_then (verify_lines R (Suc line_no) (Suc checked) prev' ls) (\<lambda>(n, es'). Inr (n, es @ es'))
      | (es, Inl e) \<Rightarrow>
          if caught_by e [ValueError, KeyError, TypeError]
          then Inr (Suc checked, es @ [line_name line_no @ '': MALFORMED'']) else Inl e)"

definition verify_chain :: "runtime \<Rightarrow> text_file \<Rightarrow> exc + chain_report" where
  "verify_chain R f = (case f of
     Absent \<Rightarrow> Inr \<lparr> records_checked = 0, chain_valid = True, errors = [] \<rparr>
   | NotUtf8 \<Rightarrow> raise UnicodeDecodeError ''invalid start byte''
   | Lines ls \<Rightarrow> and_then (verify_lines R 1 0 (PStr genesis) ls) (\<lambda>(n, es).
       Inr \<lparr> records_checked = n, chain_valid = (es = []), errors = es \<rparr>))"

section \<open>The ledger object\<close>

record ledger =
  log_file :: text_file
  log_seq :: nat
  log_head :: pyval

text \<open>\<open>_read_head\<close>, which parses every line again.\<close>

fun read_head :: "pyval \<Rightarrow> file_line list \<Rightarrow> exc + pyval" where
  "read_head h [] = Inr h"
| "read_head h (Blank # ls) = read_head h ls"
| "read_head h (Garbage # ls) = raise JSONDecodeError ''Expecting value''"
| "read_head h (Parsed v # ls) = and_then (item v ''hash'') (\<lambda>h'. read_head h' ls)"

definition open_ledger :: "runtime \<Rightarrow> text_file \<Rightarrow> exc + ledger" where
  "open_ledger R f = and_then (verify_chain R f) (\<lambda>r.
     and_then (ensure (chain_valid r) ValueError (''ledger integrity violation: '' @ join '', '' (take 3 (errors r)))) (\<lambda>_.
     and_then (read_head (PStr genesis) (file_lines f)) (\<lambda>h.
       Inr \<lparr> log_file = f, log_seq = records_checked r, log_head = h \<rparr>)))"

definition ledger_record :: "nat \<Rightarrow> string \<Rightarrow> pyval \<Rightarrow> pyval \<Rightarrow> string \<Rightarrow> pydict" where
  "ledger_record n ts prev payload digest =
     [(''seq'', PInt (int n)), (''timestamp'', PStr ts), (''prev_hash'', prev), (''payload'', payload), (''hash'', PStr digest)]"

text \<open>
  The line written is the sorted rendering of the record; what a later read gets back is its
  canonical value.
\<close>

definition append_entry :: "runtime \<Rightarrow> pyval \<Rightarrow> string \<Rightarrow> ledger \<Rightarrow> ledger \<times> (exc + pydict)" where
  "append_entry R payload ts s =
     attempt s (compute_hash R (log_head s) (PInt (int (log_seq s))) (PStr ts) payload) (\<lambda>digest.
     let r = ledger_record (log_seq s) ts (log_head s) payload digest in
     attempt s (dumps_sorted R (PDict r)) (\<lambda>_.
       (s\<lparr>log_file := Lines (file_lines (log_file s) @ [Parsed (canon (PDict r))]),
          log_seq := Suc (log_seq s), log_head := PStr digest\<rparr>, Inr r)))"

section \<open>The contract\<close>

text \<open>
  A chain from the hash \<open>p\<close> and position \<open>n\<close>: blank lines aside, every line is a record that has
  the five keys, carries its position, links to the hash before it and hashes to its own hash.
\<close>

definition record_ok :: "runtime \<Rightarrow> pyval \<Rightarrow> nat \<Rightarrow> pydict \<Rightarrow> bool" where
  "record_ok R prev n d \<longleftrightarrow>
     list_all (dhas d) [''seq'', ''prev_hash'', ''timestamp'', ''payload'', ''hash'']
     \<and> py_eq_int (dget d ''seq'') (int n)
     \<and> prev = PStr (py_str R (dget d ''prev_hash'')) \<and> is_ascii (py_str R (dget d ''prev_hash''))
     \<and> compute_hash R (dget d ''prev_hash'') (dget d ''seq'') (dget d ''timestamp'') (dget d ''payload'')
        = Inr (py_str R (dget d ''hash''))"

fun chain_ok :: "runtime \<Rightarrow> pyval \<Rightarrow> nat \<Rightarrow> file_line list \<Rightarrow> bool" where
  "chain_ok R prev n [] \<longleftrightarrow> True"
| "chain_ok R prev n (Blank # ls) \<longleftrightarrow> chain_ok R prev n ls"
| "chain_ok R prev n (Parsed (PDict d) # ls) \<longleftrightarrow>
     record_ok R prev n d \<and> chain_ok R (dget d ''hash'') (Suc n) ls"
| "chain_ok R prev n (_ # ls) \<longleftrightarrow> False"

fun records :: "file_line list \<Rightarrow> pydict list" where
  "records [] = []"
| "records (Parsed (PDict d) # ls) = d # records ls"
| "records (_ # ls) = records ls"

lemma sha_ascii: "runtime_ok R \<Longrightarrow> is_ascii (sha256_hex R x)"
  by (rule sha256_hex_is_ascii) (simp add: runtime_ok_def)

lemma compute_hash_ascii: "runtime_ok R \<Longrightarrow> compute_hash R p s t b = Inr h \<Longrightarrow> is_ascii h"
  by (auto simp: compute_hash_def and_then_Inr sha_ascii)

lemma compute_hash_json_ok: "json_ok b \<Longrightarrow>
    compute_hash R p s t b = Inr (sha256_hex R (utf8 (ledger_text R p s t (canonical_text R b))))"
  by (simp add: compute_hash_def dumps_canonical_def dumps_checked_def json_ok_def)

lemma check_record_good:
  assumes "runtime_ok R" "record_ok R prev n d"
  shows "check_record R l prev n (PDict d) = ([], Inr (dget d ''hash''))"
proof -
  have i: "item (PDict d) k = Inr (dget d k)" if "dhas d k" for k
    using that by (auto simp: item_def dhas_def dget_def)
  have h: "dhas d ''seq''" "dhas d ''prev_hash''" "dhas d ''timestamp''" "dhas d ''payload''" "dhas d ''hash''"
    using assms(2) by (simp_all add: record_ok_def)
  have a: "is_ascii (py_str R (dget d ''hash''))"
    using assms by (intro compute_hash_ascii [OF assms(1)]) (auto simp: record_ok_def)
  show ?thesis using assms(2) a
    by (auto simp: check_record_def i [OF h(1)] i [OF h(2)] i [OF h(3)] i [OF h(4)] i [OF h(5)]
        record_ok_def compare_digest_def)
qed

lemma check_record_clean:
  assumes "check_record R l prev n v = ([], Inr h)"
  shows "\<exists>d. v = PDict d \<and> record_ok R prev n d \<and> h = dget d ''hash''"
proof -
  have cd: "compare_digest s p = Inr True \<Longrightarrow> p = PStr s \<and> is_ascii s" for s p
    by (cases p) (auto simp: compare_digest_def split: if_splits)
  have it: "item v k = Inr x \<Longrightarrow> \<exists>d. v = PDict d \<and> dhas d k \<and> dget d k = x" for k x
    by (cases v) (auto simp: item_def dhas_def dget_def split: option.splits)
  from assms obtain sq ph ts b c where g: "item v ''seq'' = Inr sq" "py_eq_int sq (int n)"
    "item v ''prev_hash'' = Inr ph" "compare_digest (py_str R ph) prev = Inr True"
    "item v ''timestamp'' = Inr ts" "item v ''payload'' = Inr b" "compute_hash R ph sq ts b = Inr c"
    "item v ''hash'' = Inr h" "compare_digest (py_str R h) (PStr c) = Inr True"
    unfolding check_record_def Let_def by (elim attempt_cases) (auto split: if_splits)
  then show ?thesis using it [OF g(1)] it [OF g(3)] it [OF g(5)] it [OF g(6)] it [OF g(8)] cd [OF g(4)] cd [OF g(9)]
    by (auto simp: record_ok_def)
qed

lemma check_record_caught:
  "check_record R l prev n v = (es, Inl e) \<Longrightarrow> caught_by e [ValueError, KeyError, TypeError]"
proof -
  have it: "item v k = Inl e \<Longrightarrow> caught_by e [ValueError, KeyError, TypeError]" for k e
    by (cases v) (auto simp: item_def split: option.splits)
  have cd: "compare_digest s p = Inl e \<Longrightarrow> caught_by e [ValueError, KeyError, TypeError]" for s p e
    by (cases p) (auto simp: compare_digest_def split: if_splits)
  have ch: "compute_hash R p s t b = Inl e \<Longrightarrow> caught_by e [ValueError, KeyError, TypeError]" for p s t b e
    by (auto simp: compute_hash_def and_then_Inl dumps_canonical_def dumps_checked_def split: if_splits)
  assume "check_record R l prev n v = (es, Inl e)"
  then show ?thesis unfolding check_record_def Let_def
    by (elim attempt_cases) (auto dest: it cd ch split: if_splits)
qed

lemma verify_lines_total: "\<exists>n es. verify_lines R l c prev ls = Inr (n, es)"
proof (induction ls arbitrary: l c prev)
  case (Cons x ls)
  show ?case
  proof (cases x)
    case (Parsed v)
    obtain es r where cr: "check_record R (line_name l) prev c v = (es, r)" by (rule prod.exhaust)
    show ?thesis
    proof (cases r)
      case (Inl e)
      then show ?thesis using Parsed cr check_record_caught [of R "line_name l" prev c v es e] by simp
    next
      case (Inr h)
      obtain n es' where "verify_lines R (Suc l) (Suc c) h ls = Inr (n, es')" using Cons by blast
      then show ?thesis using Parsed cr Inr by simp
    qed
  qed (use Cons in simp_all)
qed simp

lemma verify_lines_iff:
  assumes R: "runtime_ok R"
  shows "verify_lines R l c prev ls = Inr (n, []) \<longleftrightarrow> chain_ok R prev c ls \<and> n = c + length (records ls)"
proof (induction ls arbitrary: l c prev)
  case (Cons x ls)
  show ?case
  proof (cases x)
    case (Parsed v)
    obtain es r where cr: "check_record R (line_name l) prev c v = (es, r)" by (rule prod.exhaust)
    show ?thesis
    proof (cases "\<exists>d. v = PDict d \<and> record_ok R prev c d")
      case True
      then obtain d where d: "v = PDict d" "record_ok R prev c d" by blast
      then show ?thesis using Parsed Cons check_record_good [OF R d(2)]
        by (auto simp: and_then_Inr split: prod.splits)
    next
      case False
      then have "\<not> chain_ok R prev c (x # ls)" using Parsed by (cases v) auto
      moreover have "\<not> (es = [] \<and> (\<exists>h. r = Inr h))" using False cr check_record_clean by fastforce
      ultimately show ?thesis using Parsed cr
        by (cases r) (auto simp: and_then_Inr split: prod.splits if_splits)
    qed
  qed (use Cons in simp_all)
qed auto

section \<open>Appending\<close>

fun last_hash :: "pyval \<Rightarrow> file_line list \<Rightarrow> pyval" where
  "last_hash h [] = h"
| "last_hash h (Parsed v # ls) = last_hash (get_in v ''hash'') ls"
| "last_hash h (_ # ls) = last_hash h ls"

lemma read_head_chain: "chain_ok R p n ls \<Longrightarrow> read_head h ls = Inr (last_hash h ls)"
  by (induction R p n ls arbitrary: h rule: chain_ok.induct)
    (auto simp: record_ok_def item_def dhas_def dget_def)

lemma chain_ok_snoc:
  "chain_ok R p n (ls @ [Parsed (PDict d)]) \<longleftrightarrow>
     chain_ok R p n ls \<and> record_ok R (last_hash p ls) (n + length (records ls)) d"
  by (induction R p n ls rule: chain_ok.induct) auto

lemma records_append: "records (ls @ ls') = records ls @ records ls'"
  by (induction ls rule: records.induct) auto

lemma last_hash_snoc: "last_hash p (ls @ [Parsed v]) = get_in v ''hash''"
  by (induction p ls rule: last_hash.induct) auto

definition ledger_inv :: "runtime \<Rightarrow> ledger \<Rightarrow> bool" where
  "ledger_inv R s \<longleftrightarrow> runtime_ok R \<and> log_file s \<noteq> NotUtf8
     \<and> chain_ok R (PStr genesis) 0 (file_lines (log_file s))
     \<and> log_seq s = length (records (file_lines (log_file s)))
     \<and> log_head s = last_hash (PStr genesis) (file_lines (log_file s))
     \<and> (case log_head s of PStr h \<Rightarrow> is_ascii h | _ \<Rightarrow> False)"

lemma verify_chain_Lines:
  assumes "runtime_ok R"
  shows "\<exists>n es. verify_chain R (Lines ls) = Inr \<lparr> records_checked = n, chain_valid = (es = []), errors = es \<rparr>
    \<and> (es = [] \<longleftrightarrow> chain_ok R (PStr genesis) 0 ls) \<and> (es = [] \<longrightarrow> n = length (records ls))"
proof -
  obtain n es where v: "verify_lines R 1 0 (PStr genesis) ls = Inr (n, es)"
    using verify_lines_total [of R 1 0 "PStr genesis" ls] by auto
  have "es = [] \<longrightarrow> chain_ok R (PStr genesis) 0 ls \<and> n = length (records ls)"
    using v verify_lines_iff [OF assms, of 1 0 "PStr genesis" ls n] by auto
  moreover have "chain_ok R (PStr genesis) 0 ls \<longrightarrow> es = []"
    using v verify_lines_iff [OF assms, of 1 0 "PStr genesis" ls "length (records ls)"] by auto
  ultimately show ?thesis using v by (auto simp: verify_chain_def)
qed

lemma verify_ledger_inv:
  "ledger_inv R s \<Longrightarrow> verify_chain R (log_file s) = Inr \<lparr> records_checked = log_seq s, chain_valid = True, errors = [] \<rparr>"
  using verify_chain_Lines [of R "file_lines (log_file s)"]
  by (cases "log_file s") (auto simp: ledger_inv_def verify_chain_def)

lemma reopen_ledger_inv: "ledger_inv R s \<Longrightarrow> open_ledger R (log_file s) = Inr s"
  using verify_ledger_inv [of R s]
  by (auto simp: open_ledger_def ledger_inv_def read_head_chain)

lemma open_ledger_inv:
  assumes "runtime_ok R" "open_ledger R f = Inr s" "log_head s = PStr h" "is_ascii h"
  shows "ledger_inv R s \<and> log_file s = f"
proof (cases f)
  case Absent
  then show ?thesis using assms by (auto simp: open_ledger_def verify_chain_def ledger_inv_def)
next
  case NotUtf8
  then show ?thesis using assms by (simp add: open_ledger_def verify_chain_def)
next
  case (Lines ls)
  obtain n es where v: "verify_chain R (Lines ls) = Inr \<lparr> records_checked = n, chain_valid = (es = []), errors = es \<rparr>"
    "es = [] \<longleftrightarrow> chain_ok R (PStr genesis) 0 ls" "es = [] \<longrightarrow> n = length (records ls)"
    using verify_chain_Lines [OF assms(1), of ls] by blast
  have es: "es = []" using assms(2) Lines v(1) by (auto simp: open_ledger_def and_then_Inr)
  then have "s = \<lparr> log_file = Lines ls, log_seq = n, log_head = last_hash (PStr genesis) ls \<rparr>"
    using assms(2) Lines v by (auto simp: open_ledger_def and_then_Inr read_head_chain)
  then show ?thesis using assms Lines v es by (auto simp: ledger_inv_def)
qed

lemma compute_hash_canon [simp]: "compute_hash R p q t (canon v) = compute_hash R p q t v"
  by (simp add: compute_hash_def dumps_canonical_def dumps_checked_def)

lemma append_entry_cases:
  obtains (refused) e where "append_entry R payload ts s = (s, Inl e)"
  | (added) r digest d where "append_entry R payload ts s =
       (s\<lparr>log_file := Lines (file_lines (log_file s) @ [Parsed (PDict d)]), log_seq := Suc (log_seq s), log_head := PStr digest\<rparr>, Inr r)"
     "r = ledger_record (log_seq s) ts (log_head s) payload digest" "canon (PDict r) = PDict d"
     "compute_hash R (log_head s) (PInt (int (log_seq s))) (PStr ts) payload = Inr digest"
proof -
  obtain y where y: "append_entry R payload ts s = y" by blast
  show thesis
    using y [unfolded append_entry_def Let_def]
    by (elim attempt_cases) (use refused [unfolded y] added [unfolded y] in auto)
qed

lemma append_record_ok:
  assumes R: "runtime_ok R" and h: "log_head s = PStr h" "is_ascii h"
    and c: "compute_hash R (log_head s) (PInt (int (log_seq s))) (PStr ts) payload = Inr digest"
    and d: "canon (PDict (ledger_record (log_seq s) ts (log_head s) payload digest)) = PDict d"
  shows "record_ok R (log_head s) (log_seq s) d \<and> dget d ''hash'' = PStr digest"
proof -
  have "distinct (List.map fst (ledger_record (log_seq s) ts (log_head s) payload digest))"
    by (simp add: ledger_record_def)
  note k = dget_canon [OF this d]
  have g: "dget d ''seq'' = PInt (int (log_seq s))" "dget d ''prev_hash'' = PStr h" "dget d ''timestamp'' = PStr ts"
    "dget d ''payload'' = canon payload" "dget d ''hash'' = PStr digest"
    using k [of "''seq''"] k [of "''prev_hash''"] k [of "''timestamp''"] k [of "''payload''"] k [of "''hash''"] h(1)
    by (simp_all add: ledger_record_def)
  have "list_all (dhas d) [''seq'', ''prev_hash'', ''timestamp'', ''payload'', ''hash'']"
    using k by (simp add: ledger_record_def)
  then show ?thesis using g h c by (simp add: record_ok_def)
qed

lemma append_entry_inv [step_inv_intros]: "ledger_inv R s \<Longrightarrow> ledger_inv R (fst (append_entry R payload ts s))"
proof (cases rule: append_entry_cases [of R payload ts s])
  case (added r digest d)
  assume i: "ledger_inv R s"
  then obtain h where h: "log_head s = PStr h" "is_ascii h"
    by (auto simp: ledger_inv_def split: pyval.splits)
  have R: "runtime_ok R" using i by (simp add: ledger_inv_def)
  have r: "record_ok R (log_head s) (log_seq s) d \<and> dget d ''hash'' = PStr digest"
    using append_record_ok [OF R h added(4)] added(2,3) by simp
  show ?thesis unfolding added(1)
    using i r compute_hash_ascii [OF R added(4)]
    by (simp add: ledger_inv_def chain_ok_snoc records_append last_hash_snoc)
qed simp

definition extends_log :: "ledger \<Rightarrow> ledger \<Rightarrow> bool" where
  "extends_log s t \<longleftrightarrow> take (length (file_lines (log_file s))) (file_lines (log_file t)) = file_lines (log_file s)"

lemma append_entry_extends: "extends_log s (fst (append_entry R payload ts s))"
  by (cases rule: append_entry_cases [of R payload ts s]) (simp_all add: extends_log_def)

lemma extends_log_trans: "extends_log s t \<Longrightarrow> extends_log t u \<Longrightarrow> extends_log s u"
  unfolding extends_log_def
  by (metis append_take_drop_id append_eq_conv_conj append.assoc)

definition append_step :: "runtime \<Rightarrow> pyval \<times> string \<Rightarrow> ledger \<Rightarrow> ledger" where
  "append_step R e s = fst (append_entry R (fst e) (snd e) s)"

interpretation ledger_runs: growing_machine "append_step R" "ledger_inv R" extends_log for R
  by unfold_locales
    (auto simp: append_step_def extends_log_def append_entry_extends [unfolded extends_log_def]
      intro: append_entry_inv extends_log_trans [unfolded extends_log_def])

section \<open>Tamper evidence\<close>

definition ledger_link :: "runtime \<Rightarrow> string \<Rightarrow> pydict \<Rightarrow> string" where
  "ledger_link R h d = utf8 (ledger_text R (PStr h) (dget d ''seq'') (dget d ''timestamp'') (canonical_text R (dget d ''payload'')))"

definition ledger_entry_ok :: "runtime \<Rightarrow> nat \<Rightarrow> pydict \<Rightarrow> bool" where
  "ledger_entry_ok R n d \<longleftrightarrow> runtime_ok R \<and> json_ok (PDict d) \<and> list_all (dhas d) [''seq'', ''payload'']
     \<and> py_eq_int (dget d ''seq'') (int n)"

text \<open>Same position, same printed timestamp, same payload up to the order of keys.\<close>

definition same_entry :: "runtime \<Rightarrow> pydict \<Rightarrow> pydict \<Rightarrow> bool" where
  "same_entry R d e \<longleftrightarrow> py_str R (dget d ''seq'') = py_str R (dget e ''seq'')
     \<and> py_str R (dget d ''timestamp'') = py_str R (dget e ''timestamp'')
     \<and> canon (dget d ''payload'') = canon (dget e ''payload'')"

lemma ledger_entry_okD:
  assumes "ledger_entry_ok R n d"
  shows "json_ok (dget d ''seq'')" "py_eq_int (dget d ''seq'') (int n)" "json_ok (dget d ''payload'')"
proof -
  have "json_ok (PDict d)" "dhas d ''seq''" "dhas d ''payload''" and n: "py_eq_int (dget d ''seq'') (int n)"
    using assms by (simp_all add: ledger_entry_ok_def del: json_ok_simps)
  then show "json_ok (dget d ''seq'')" "json_ok (dget d ''payload'')" by (blast intro: json_ok_dget)+
  show "py_eq_int (dget d ''seq'') (int n)" by (rule n)
qed

text \<open>How \<open>str\<close> prints what compares equal to an integer\<close>

lemma num_text_chars:
  assumes "runtime_ok R" "json_ok v" "py_eq_int v n"
  shows "CHR ''|'' \<notin> set (py_str R v)"
proof -
  have n: "CHR ''|'' \<notin> number_chars" by (simp add: number_chars_def)
  show ?thesis
  proof (cases v)
    case (PInt i)
    then show ?thesis using n show_int_chars [of i] digits_number_chars by auto
  next
    case (PFloat f)
    then obtain r where "f = Fin r" using assms(3) by (cases f) auto
    then show ?thesis using PFloat n assms by (auto simp: runtime_ok_def float_repr_ok_def)
  next
    case (PBool b)
    then show ?thesis by (cases b) auto
  qed (use assms in auto)
qed

lemma num_text_inj:
  assumes R: "runtime_ok R" and v: "json_ok v" "py_eq_int v n" and w: "json_ok w" "py_eq_int w m"
    and eq: "py_str R v = py_str R w"
  shows "n = m"
proof -
  have fr: "float_repr_ok (float_repr R)" using R by (simp add: runtime_ok_def)
  have tok: "set (py_str R u) \<subseteq> number_chars" if u: "json_ok u" "py_eq_int u k" "\<not> is_bool u" for u k
  proof (cases u)
    case (PInt i)
    then show ?thesis using show_int_chars [of i] digits_number_chars by auto
  next
    case (PFloat f)
    then obtain r where r: "f = Fin r" using u by (cases f) auto
    then have "rnd r = r" using u PFloat by simp
    then show ?thesis using PFloat r float_repr_chars [OF fr] by simp
  qed (use u in auto)
  have T: "CHR ''T'' \<notin> number_chars" "CHR ''F'' \<notin> number_chars" by (simp_all add: number_chars_def)
  have boolv: "py_str R (PBool b) = (if b then ''True'' else ''False'')" for b by simp
  have nb: "is_bool v \<longleftrightarrow> is_bool w"
  proof -
    have "is_bool a \<longrightarrow> is_bool b" if "py_str R a = py_str R b" "json_ok b" "py_eq_int b k" for a b k
    proof (rule ccontr)
      assume c: "\<not> (is_bool a \<longrightarrow> is_bool b)"
      then obtain x where "a = PBool x" by (cases a) auto
      then have "set (if x then ''True'' else ''False'') \<subseteq> number_chars"
        using that tok [OF that(2,3)] c boolv [of x] by simp
      then show False using T by (cases x) auto
    qed
    from this [of v w m] this [of w v n] show ?thesis using v w eq by auto
  qed
  show ?thesis
  proof (cases "is_bool v")
    case True
    then obtain a b where "v = PBool a" "w = PBool b" using nb by (cases v; cases w) auto
    then show ?thesis using v w eq by (cases a; cases b) auto
  next
    case False
    then have nbw: "\<not> is_bool w" using nb by simp
    have num: "(\<exists>i. u = PInt i) \<or> (\<exists>f. u = PFloat f \<and> wf_float f \<and> fisfinite f)"
      if "json_ok u" "py_eq_int u k" "\<not> is_bool u" for u k
      using that by (cases u) (auto elim!: py_eq_int.elims)
    have text_eq: "py_str R (PFloat f) = json_float R f" if "fisfinite f" for f using that by (cases f) simp_all
    from num [OF v False] num [OF w nbw] show ?thesis
    proof (elim disjE exE conjE)
      fix i j assume "v = PInt i" "w = PInt j"
      then show ?thesis using v w eq by (simp add: show_int_inj)
    next
      fix i f assume "v = PInt i" "w = PFloat f" "wf_float f" "fisfinite f"
      then show ?thesis using eq int_float_neq [OF fr, of f i] text_eq by simp
    next
      fix i f assume "w = PInt i" "v = PFloat f" "wf_float f" "fisfinite f"
      then show ?thesis using eq int_float_neq [OF fr, of f i] text_eq by simp
    next
      fix f g assume "v = PFloat f" "w = PFloat g" "wf_float f" "fisfinite f" "wf_float g" "fisfinite g"
      moreover from this have "f = g" using eq text_eq by (intro float_text_inj [OF fr]) simp_all
      ultimately show ?thesis using v w by (cases f) auto
    qed
  qed
qed

lemma append_mark_inj:
  "x \<notin> set a \<Longrightarrow> x \<notin> set b \<Longrightarrow> a @ x # s = b @ x # t \<Longrightarrow> a = b \<and> s = t"
proof (induction a arbitrary: b)
  case Nil
  then show ?case by (cases b) auto
next
  case (Cons y a)
  then show ?case by (cases b) auto
qed

lemma ledger_link_inj:
  assumes d: "ledger_entry_ok R n d" and e: "ledger_entry_ok R m e"
    and h: "runtime_ok R \<longrightarrow> is_sha256_hex h" "runtime_ok R \<longrightarrow> is_sha256_hex k"
    and eq: "ledger_link R h d = ledger_link R k e"
  shows "h = k \<and> n = m \<and> same_entry R d e"
proof -
  have R: "runtime_ok R" using d by (simp add: ledger_entry_ok_def)
  note sd = ledger_entry_okD [OF d] and se = ledger_entry_okD [OF e]
  have "ledger_text R (PStr h) (dget d ''seq'') (dget d ''timestamp'') (canonical_text R (dget d ''payload''))
      = ledger_text R (PStr k) (dget e ''seq'') (dget e ''timestamp'') (canonical_text R (dget e ''payload''))"
    using eq unfolding ledger_link_def by (rule utf8_inj)
  then have "h = k \<and> CHR ''|'' # py_str R (dget d ''seq'') @ CHR ''|'' # py_str R (dget d ''timestamp'') @ CHR ''|'' # canonical_text R (dget d ''payload'')
      = CHR ''|'' # py_str R (dget e ''seq'') @ CHR ''|'' # py_str R (dget e ''timestamp'') @ CHR ''|'' # canonical_text R (dget e ''payload'')"
    using h R by (intro append_eq_append_conv [THEN iffD1]) (simp_all add: ledger_text_def is_sha256_hex_def)
  then have hk: "h = k" and rest: "py_str R (dget d ''seq'') @ CHR ''|'' # py_str R (dget d ''timestamp'') @ CHR ''|'' # canonical_text R (dget d ''payload'')
      = py_str R (dget e ''seq'') @ CHR ''|'' # py_str R (dget e ''timestamp'') @ CHR ''|'' # canonical_text R (dget e ''payload'')"
    by simp_all
  note sq = append_mark_inj [OF num_text_chars [OF R sd(1,2)] num_text_chars [OF R se(1,2)] rest]
  then have "py_str R (dget d ''timestamp'') = py_str R (dget e ''timestamp'') \<and> canon (dget d ''payload'') = canon (dget e ''payload'')"
    by (intro bar_split_unique [OF R sd(3) se(3)]) simp
  moreover have "int n = int m" using num_text_inj [OF R sd(1,2) se(1,2)] sq by simp
  ultimately show ?thesis using hk sq by (simp add: same_entry_def)
qed

interpretation ledger_chain: hash_chain "sha256_hex R" "ledger_link R" "ledger_entry_ok R" "same_entry R"
  "\<lambda>h. runtime_ok R \<longrightarrow> is_sha256_hex h" for R
  by unfold_locales (simp add: runtime_ok_def, rule ledger_link_inj)

lemma chain_ok_numbered:
  "runtime_ok R \<Longrightarrow> chain_ok R prev n ls \<Longrightarrow> list_all parsed_ok ls \<Longrightarrow> py_str R prev = p \<Longrightarrow>
    numbered (ledger_entry_ok R) n (records ls)
    \<and> py_str R (last_hash prev ls) = chain_head (sha256_hex R) (ledger_link R) p (records ls)"
proof (induction R prev n ls arbitrary: p rule: chain_ok.induct)
  case (3 R prev n d ls)
  have r: "record_ok R prev n d" and j: "json_ok (PDict d)" using "3.prems" by simp_all
  have hd: "dhas d ''payload''" using r by (simp add: record_ok_def)
  have prev: "py_str R (dget d ''prev_hash'') = p" using r "3.prems"(4) by (auto simp: record_ok_def)
  have "py_str R (dget d ''hash'') = sha256_hex R (ledger_link R p d)"
    using r compute_hash_json_ok [OF json_ok_dget [OF j hd], of R]
    by (simp add: record_ok_def ledger_link_def ledger_text_def prev)
  note ih = "3.IH" [OF "3.prems"(1) _ _ this]
  have "chain_ok R (dget d ''hash'') (Suc n) ls" "list_all parsed_ok ls" using "3.prems" by simp_all
  then show ?case using ih r j "3.prems"(1) by (simp add: ledger_entry_ok_def record_ok_def)
qed simp_all

section \<open>Properties\<close>

text \<open>
  C1: \<open>verify_chain\<close> decides the chain contract. On any UTF-8 file it returns a report, whatever
  the lines hold, and the report is valid exactly when every non-blank line is a record in
  sequence, linked to the hash before it and hashing to its own; it then counts the records.
\<close>

theorem verify_chain_decides_contract:
  assumes "runtime_ok R"
  shows "\<exists>r. verify_chain R (Lines ls) = Inr r \<and> (chain_valid r \<longleftrightarrow> chain_ok R (PStr genesis) 0 ls)
    \<and> (chain_valid r \<longrightarrow> records_checked r = length (records ls))"
  using verify_chain_Lines [OF assms, of ls] by auto

theorem verify_chain_decides_contract_witness:
  "\<exists>r. verify_chain sample_runtime (Lines [Blank, Garbage, Parsed PNone]) = Inr r \<and> \<not> chain_valid r"
  using verify_chain_decides_contract [OF sample_runtime_ok, of "[Blank, Garbage, Parsed PNone]"] by auto

text \<open>
  C2: appending keeps a ledger valid and only adds to it. After any sequence of appends to an
  opened ledger, failed ones included, the file still verifies, the lines it had before are
  untouched, and opening it again restores exactly the same counter and head.
\<close>

theorem appends_keep_ledger_valid:
  assumes "runtime_ok R" "open_ledger R f = Inr s0" "log_head s0 = PStr h" "is_ascii h"
    and s: "s = fold (append_step R) entries s0"
  shows "verify_chain R (log_file s) = Inr \<lparr> records_checked = log_seq s, chain_valid = True, errors = [] \<rparr>
    \<and> open_ledger R (log_file s) = Inr s
    \<and> take (length (file_lines f)) (file_lines (log_file s)) = file_lines f"
proof -
  have i0: "ledger_inv R s0" and f: "log_file s0 = f" using open_ledger_inv [OF assms(1-4)] by simp_all
  have "ledger_inv R s" unfolding s by (rule ledger_runs.run_inv [OF i0])
  moreover have "extends_log s0 s" unfolding s by (rule ledger_runs.run_le [OF i0])
  ultimately show ?thesis using verify_ledger_inv reopen_ledger_inv f by (simp add: extends_log_def)
qed

lemma sample_open: "open_ledger sample_runtime Absent = Inr \<lparr> log_file = Absent, log_seq = 0, log_head = PStr genesis \<rparr>"
  by (simp add: open_ledger_def verify_chain_def)

theorem appends_keep_ledger_valid_witness:
  "open_ledger sample_runtime (log_file (fold (append_step sample_runtime)
      [(PDict [(''b'', PInt 1), (''a'', PNone)], ''t0''), (PBytes ''x'', ''t1'')]
      \<lparr> log_file = Absent, log_seq = 0, log_head = PStr genesis \<rparr>))
   = Inr (fold (append_step sample_runtime)
      [(PDict [(''b'', PInt 1), (''a'', PNone)], ''t0''), (PBytes ''x'', ''t1'')]
      \<lparr> log_file = Absent, log_seq = 0, log_head = PStr genesis \<rparr>)"
  by (rule appends_keep_ledger_valid [OF sample_runtime_ok sample_open _ _ refl, THEN conjunct2, THEN conjunct1])
    (simp, simp add: genesis_def is_ascii_def list_all_iff)

text \<open>
  C3: tamper evidence. Two files that both verify and end in the same hash hold, record by
  record, the same position, the same printed timestamp and the same payload up to the order of
  keys, unless two different digest inputs of these very files collide under SHA-256 or one of
  them hashes to the genesis constant. In particular nothing was removed, reordered or edited.
\<close>

theorem same_head_same_records:
  assumes R: "runtime_ok R" and p: "list_all parsed_ok ls" "list_all parsed_ok ls'"
    and v: "verify_chain R (Lines ls) = Inr r" "chain_valid r"
      "verify_chain R (Lines ls') = Inr r'" "chain_valid r'"
    and h: "py_str R (last_hash (PStr genesis) ls) = py_str R (last_hash (PStr genesis) ls')"
  shows "list_all2 (same_entry R) (records ls) (records ls')
    \<or> clash (sha256_hex R) (links (sha256_hex R) (ledger_link R) genesis (records ls))
        (links (sha256_hex R) (ledger_link R) genesis (records ls'))
    \<or> hits (sha256_hex R) genesis (links (sha256_hex R) (ledger_link R) genesis (records ls)
        @ links (sha256_hex R) (ledger_link R) genesis (records ls'))"
proof -
  have c: "chain_ok R (PStr genesis) 0 ls" "chain_ok R (PStr genesis) 0 ls'"
    using v verify_chain_Lines [OF R, of ls] verify_chain_Lines [OF R, of ls'] by auto
  note n = chain_ok_numbered [OF R c(1) p(1) py_str.simps(1)]
  note n' = chain_ok_numbered [OF R c(2) p(2) py_str.simps(1)]
  show ?thesis
    using n n' h genesis_hex by (intro ledger_chain.same_head_same_log [of R 0]) simp_all
qed

definition sample_lines :: "file_line list" where
  "sample_lines = (let r = ledger_record 0 ''t0'' (PStr genesis) (PDict [(''b'', PInt 1)])
     (sample_hash (utf8 (genesis @ ''|0|t0|{'' @ [quote_c] @ ''b'' @ [quote_c] @ '':1}''))) in [Parsed (canon (PDict r))])"

lemma sample_lines_ok: "chain_ok sample_runtime (PStr genesis) 0 sample_lines" "list_all parsed_ok sample_lines"
proof -
  have i: "ledger_inv sample_runtime \<lparr> log_file = Absent, log_seq = 0, log_head = PStr genesis \<rparr>"
    by (simp add: ledger_inv_def sample_runtime_ok) (simp add: genesis_def is_ascii_def list_all_iff)
  have one: "show_int 1 = ''1''" "show_int 0 = ''0''" by code_simp+
  have c: "compute_hash sample_runtime (PStr genesis) (PInt 0) (PStr ''t0'') (PDict [(''b'', PInt 1)])
      = Inr (sample_hash (utf8 (genesis @ ''|0|t0|{'' @ [quote_c] @ ''b'' @ [quote_c] @ '':1}'')))"
    by (simp add: compute_hash_json_ok canonical_text_def ledger_text_def one json_string_def escape_char_def
        short_escapes_def quote_c_def backslash_c_def sample_runtime_def)
  have "file_lines (log_file (append_step sample_runtime (PDict [(''b'', PInt 1)], ''t0'')
      \<lparr> log_file = Absent, log_seq = 0, log_head = PStr genesis \<rparr>)) = sample_lines"
    by (simp add: append_step_def append_entry_def c Let_def dumps_sorted_def dumps_checked_def ledger_record_def sample_lines_def)
  then show "chain_ok sample_runtime (PStr genesis) 0 sample_lines"
    using ledger_runs.step_inv [OF i] unfolding ledger_inv_def by metis
  show "list_all parsed_ok sample_lines"
    by (simp add: sample_lines_def Let_def ledger_record_def json_ok_canon del: canon.simps)
qed

theorem same_head_same_records_witness:
  "list_all2 (same_entry sample_runtime) (records (Blank # sample_lines)) (records sample_lines)
    \<or> clash (sha256_hex sample_runtime) (links (sha256_hex sample_runtime) (ledger_link sample_runtime) genesis (records (Blank # sample_lines)))
        (links (sha256_hex sample_runtime) (ledger_link sample_runtime) genesis (records sample_lines))
    \<or> hits (sha256_hex sample_runtime) genesis
        (links (sha256_hex sample_runtime) (ledger_link sample_runtime) genesis (records (Blank # sample_lines))
        @ links (sha256_hex sample_runtime) (ledger_link sample_runtime) genesis (records sample_lines))"
proof -
  obtain r r' where v: "verify_chain sample_runtime (Lines (Blank # sample_lines)) = Inr r" "chain_valid r"
    "verify_chain sample_runtime (Lines sample_lines) = Inr r'" "chain_valid r'"
    using verify_chain_Lines [OF sample_runtime_ok, of "Blank # sample_lines"]
      verify_chain_Lines [OF sample_runtime_ok, of sample_lines] sample_lines_ok by auto
  show ?thesis
    by (rule same_head_same_records [OF sample_runtime_ok _ sample_lines_ok(2) v]) (simp_all add: sample_lines_ok)
qed

end
