(* ===== verification/PyText.thy ===== *)
theory PyText
  imports TextFile
begin

text \<open>
  The string and number conversions of Python's standard library the components use:
  \<open>str.lower\<close>, \<open>str.split\<close>, \<open>str.splitlines\<close>, \<open>str.isalnum\<close>, \<open>float(text)\<close>, \<open>round\<close>, fixed-point
  formatting and \<open>max\<close> of a list of floats.
\<close>

section \<open>Characters and strings\<close>

abbreviation code :: "char \<Rightarrow> nat" where
  "code c \<equiv> of_char c"

definition lower_char :: "char \<Rightarrow> char" where
  "lower_char c = (let n = code c in
     if (65 \<le> n \<and> n \<le> 90) \<or> (192 \<le> n \<and> n \<le> 222 \<and> n \<noteq> 215) then char_of (n + 32) else c)"

definition lower :: "string \<Rightarrow> string" where
  "lower s = List.map lower_char s"

definition is_alnum :: "char \<Rightarrow> bool" where
  "is_alnum c \<longleftrightarrow> (let n = code c in
     (48 \<le> n \<and> n \<le> 57) \<or> (65 \<le> n \<and> n \<le> 90) \<or> (97 \<le> n \<and> n \<le> 122)
     \<or> n \<in> {170, 178, 179, 181, 185, 186, 188, 189, 190} \<or> (192 \<le> n \<and> n \<le> 255 \<and> n \<noteq> 215 \<and> n \<noteq> 247))"

text \<open>\<open>s.split(sep)\<close> for a one-character separator: never empty.\<close>

fun split_on :: "char \<Rightarrow> string \<Rightarrow> string list" where
  "split_on c [] = [[]]"
| "split_on c (x # s) = (if x = c then [] # split_on c s
     else case split_on c s of [] \<Rightarrow> [[x]] | w # ws \<Rightarrow> (x # w) # ws)"

text \<open>\<open>s.splitlines()\<close>: a final line break adds no empty line.\<close>

definition line_break :: "char \<Rightarrow> bool" where
  "line_break c \<longleftrightarrow> code c \<in> {10, 11, 12, 13, 28, 29, 30, 133}"

fun splitlines :: "string \<Rightarrow> string list" where
  "splitlines [] = []"
| "splitlines (x # s) =
     (if x = CHR 0x0D \<and> s \<noteq> [] \<and> hd s = CHR 0x0A then splitlines s
      else if line_break x then [] # splitlines s
      else case s of [] \<Rightarrow> [[x]]
        | _ # _ \<Rightarrow> (case splitlines s of [] \<Rightarrow> [[x]] | w # ws \<Rightarrow> (x # w) # ws))"

definition lstrip_char :: "char \<Rightarrow> string \<Rightarrow> string" where
  "lstrip_char c s = dropWhile (\<lambda>x. x = c) s"

definition starts_with :: "string \<Rightarrow> string \<Rightarrow> bool" where
  "starts_with p s \<longleftrightarrow> take (length p) s = p"

definition ends_with :: "string \<Rightarrow> string \<Rightarrow> bool" where
  "ends_with p s \<longleftrightarrow> length p \<le> length s \<and> drop (length s - length p) s = p"

text \<open>\<open>needle in s\<close>\<close>

fun contains :: "string \<Rightarrow> string \<Rightarrow> bool" where
  "contains p [] \<longleftrightarrow> p = []"
| "contains p (c # s) \<longleftrightarrow> starts_with p (c # s) \<or> contains p s"

text \<open>\<open>a or b\<close> on values\<close>

definition por :: "pyval \<Rightarrow> pyval \<Rightarrow> pyval" where
  "por a b = (if truthy a then a else b)"

text \<open>\<open>d.update(e)\<close> and \<open>d.get(k, default)\<close>\<close>

definition dupdate :: "pydict \<Rightarrow> pydict \<Rightarrow> pydict" where
  "dupdate d e = fold (\<lambda>(k, v) acc. dset k v acc) e d"

definition dget_or :: "pydict \<Rightarrow> string \<Rightarrow> pyval \<Rightarrow> pyval" where
  "dget_or d k x = (case map_of d k of None \<Rightarrow> x | Some v \<Rightarrow> v)"

lemma dget_dupdate_notin: "k \<notin> set (dkeys e) \<Longrightarrow> dget (dupdate d e) k = dget d k"
  unfolding dupdate_def by (induction e arbitrary: d) (auto simp: dkeys_def)

text \<open>\<open>str\<close> of a list of plain strings\<close>

definition quoted_list :: "string list \<Rightarrow> string" where
  "quoted_list xs = ''['' @ join '', '' (List.map (\<lambda>x. [CHR 0x27] @ x @ [CHR 0x27]) xs) @ '']''"

text \<open>\<open>s.split()\<close>: the words between runs of white space.\<close>

fun words_acc :: "string \<Rightarrow> string \<Rightarrow> string list" where
  "words_acc w [] = (if w = [] then [] else [w])"
| "words_acc w (c # s) = (if is_space c then (if w = [] then words_acc [] s else w # words_acc [] s)
     else words_acc (w @ [c]) s)"

definition split_words :: "string \<Rightarrow> string list" where
  "split_words s = words_acc [] s"

section \<open>Numbers from text\<close>

fun take_digits :: "bool \<Rightarrow> string \<Rightarrow> string \<times> string" where
  "take_digits prev [] = ([], [])"
| "take_digits prev (c # s) =
     (if c \<in> digits then (let (ds, r) = take_digits True s in (c # ds, r))
      else if c = CHR ''_'' \<and> prev \<and> s \<noteq> [] \<and> hd s \<in> digits then take_digits False s
      else ([], c # s))"

definition pow10 :: "int \<Rightarrow> rat" where
  "pow10 e = (if 0 \<le> e then 10 ^ nat e else 1 / 10 ^ nat (- e))"

text \<open>An optional sign, then what follows it.\<close>

definition take_sign :: "string \<Rightarrow> bool \<times> string" where
  "take_sign s = (case s of
     c # r \<Rightarrow> if c = CHR ''-'' then (True, r) else if c = CHR ''+'' then (False, r) else (False, s)
   | [] \<Rightarrow> (False, []))"

definition read_exponent :: "string \<Rightarrow> int option" where
  "read_exponent s = (case s of [] \<Rightarrow> Some 0
   | c # r \<Rightarrow> if c = CHR ''e'' \<or> c = CHR ''E''
       then (let (neg, t) = take_sign r; (ds, rest) = take_digits False t in
             if ds = [] \<or> rest \<noteq> [] then None else Some (if neg then - int (read_nat ds) else int (read_nat ds)))
       else None)"

definition read_decimal :: "string \<Rightarrow> rat option" where
  "read_decimal s = (let (i, r) = take_digits False s;
      (f, r') = (if r \<noteq> [] \<and> hd r = CHR ''.'' then take_digits False (tl r) else ([], r)) in
     if i @ f = [] then None
     else case read_exponent r' of None \<Rightarrow> None
       | Some e \<Rightarrow> Some (of_nat (read_nat (i @ f)) * pow10 (e - int (length f))))"

text \<open>\<open>float(text)\<close>: \<open>None\<close> is the ValueError. A literal too large for the format is infinite.\<close>

definition float_of_text :: "string \<Rightarrow> pyfloat option" where
  "float_of_text txt0 = (let (neg, s) = take_sign (strip txt0); sgn = (\<lambda>x. if neg then fneg x else x) in
     if lower s = ''inf'' \<or> lower s = ''infinity'' then Some (sgn PosInf)
     else if lower s = ''nan'' then Some NaN
     else map_option (\<lambda>q. sgn (to_pf q)) (read_decimal s))"

text \<open>\<open>int(text)\<close>: \<open>None\<close> is the ValueError.\<close>

definition int_of_text :: "string \<Rightarrow> int option" where
  "int_of_text s = (let (neg, t) = take_sign (strip s); (ds, rest) = take_digits False t in
     if ds = [] \<or> rest \<noteq> [] then None else Some (if neg then - int (read_nat ds) else int (read_nat ds)))"

lemma float_of_text_wf: "float_of_text s = Some f \<Longrightarrow> wf_float f"
  by (auto simp: float_of_text_def Let_def split: prod.splits if_splits)

text \<open>\<open>round(x, n)\<close>: the nearest decimal with n digits, ties to even, read back as a float.\<close>

definition py_round :: "nat \<Rightarrow> pyfloat \<Rightarrow> pyfloat" where
  "py_round n x = (case x of Fin r \<Rightarrow> to_pf (of_int (rhe (r * 10 ^ n)) / 10 ^ n) | _ \<Rightarrow> x)"

text \<open>The n digits of \<open>format(x, '.nf')\<close>, zero padded\<close>

definition pad_digits :: "nat \<Rightarrow> nat \<Rightarrow> string" where
  "pad_digits n k = (let d = show_nat k in replicate (n - length d) (CHR ''0'') @ d)"

definition fixed_text :: "nat \<Rightarrow> pyfloat \<Rightarrow> string" where
  "fixed_text n x = (case x of
     Fin r \<Rightarrow> (let k = nat (rhe (\<bar>r\<bar> * 10 ^ n)) in
       (if r < 0 then ''-'' else []) @ show_nat (k div 10 ^ n)
       @ (if n = 0 then [] else CHR ''.'' # pad_digits n (k mod 10 ^ n)))
   | PosInf \<Rightarrow> ''inf'' | NegInf \<Rightarrow> ''-inf'' | NaN \<Rightarrow> ''nan'')"

lemma to_pf_small_int: "\<bar>i\<bar> < 2 ^ 53 \<Longrightarrow> to_pf (of_int i) = Fin (of_int i)"
  using py_float_small [of i] by (auto split: pyfloat.splits)

lemma to_pf_numeral [simp]: "(numeral k :: int) < 2 ^ 53 \<Longrightarrow> to_pf (numeral k) = Fin (numeral k)"
  using to_pf_small_int [of "numeral k"] by simp

lemma to_pf_0_1 [simp]: "to_pf 0 = Fin 0" "to_pf 1 = Fin 1"
  using to_pf_small_int [of 0] to_pf_small_int [of 1] by simp_all

section \<open>max and min\<close>

text \<open>\<open>max(xs)\<close> keeps the first of equal elements and replaces the best only by a greater one.\<close>

definition fmax :: "pyfloat \<Rightarrow> pyfloat \<Rightarrow> pyfloat" where
  "fmax a b = (if flt a b then b else a)"

definition fmin :: "pyfloat \<Rightarrow> pyfloat \<Rightarrow> pyfloat" where
  "fmin a b = (if flt b a then b else a)"

definition fmax_list :: "pyfloat list \<Rightarrow> pyfloat" where
  "fmax_list xs = foldl fmax (hd xs) (tl xs)"

lemma fle_refl: "x \<noteq> NaN \<Longrightarrow> fle x x"
  by (cases x) (auto simp: fle_def)

lemma flt_imp_fle: "flt x y \<Longrightarrow> fle x y"
  by (simp add: fle_def)

lemma foldl_fmax_in: "foldl fmax a xs \<in> insert a (set xs)"
  by (induction xs arbitrary: a) (auto simp: fmax_def)

lemma fmax_list_in: "xs \<noteq> [] \<Longrightarrow> fmax_list xs \<in> set xs"
  using foldl_fmax_in [of "hd xs" "tl xs"] by (cases xs) (auto simp: fmax_list_def)

lemma foldl_fmax_ge: "NaN \<notin> insert a (set xs) \<Longrightarrow> x \<in> insert a (set xs) \<Longrightarrow> fle x (foldl fmax a xs)"
proof (induction xs arbitrary: a x)
  case (Cons y ys)
  have ge: "fle a (fmax a y)" "fle y (fmax a y)"
    using Cons.prems(1) by (auto simp: fmax_def fle_refl flt_imp_fle not_flt_fle)
  have "NaN \<notin> insert (fmax a y) (set ys)" using Cons.prems(1) by (auto simp: fmax_def)
  note IH = Cons.IH [OF this]
  show ?case
  proof (cases "x \<in> set ys")
    case False
    then have "fle x (fmax a y)" using Cons.prems ge by auto
    then show ?thesis using IH [of "fmax a y"] by (auto intro: fle_trans)
  qed (simp add: IH)
qed (auto simp: fle_refl)

lemma fmax_list_ge: "NaN \<notin> set xs \<Longrightarrow> x \<in> set xs \<Longrightarrow> fle x (fmax_list xs)"
  using foldl_fmax_ge [of "hd xs" "tl xs" x] by (cases xs) (auto simp: fmax_list_def)

end
