(* ===== verification/Stewardship.thy ===== *)
theory Stewardship
  imports Ledger PyText
begin

text \<open>
  \<open>controller/enforcement.py\<close> (the stewardship gate: validation, weighted score in binary64,
  human-impact veto, hysteresis, one ledger record per decision) and
  \<open>controller/stewardship_report.py\<close> (the summary of such a ledger). \<open>sum\<close> is the plain
  left-to-right float sum of Python 3.11, the version the repository pins.
\<close>

section \<open>Validation and score\<close>

definition weight_keys :: "string list" where
  "weight_keys = [''resource_util'', ''entropy'', ''environment'']"

definition gate_keys :: "string list" where
  "gate_keys = weight_keys @ [''human_impact'']"

definition weights :: "pyfloat list" where
  "weights = [to_pf (35/100), to_pf (35/100), to_pf (30/100)]"

definition human_impact_veto :: pynum where "human_impact_veto = NFloat (Fin (1/2))"
definition trigger_high :: pyfloat where "trigger_high = to_pf (7/10)"
definition trigger_low :: pyfloat where "trigger_low = Fin (1/2)"

definition unit_number :: "string \<Rightarrow> pyval \<Rightarrow> exc + pynum" where
  "unit_number key v = (case as_num v of
     None \<Rightarrow> raise ValueError (key @ '' must be a number in [0, 1]'')
   | Some n \<Rightarrow> and_then (py_isfinite n) (\<lambda>fin.
       if \<not> fin \<or> \<not> (num_le (NInt 0) n \<and> num_le n (NInt 1))
       then raise ValueError (key @ '' must be a number in [0, 1]'') else Inr n))"

fun check_numbers :: "string list \<Rightarrow> pydict \<Rightarrow> exc + pynum list" where
  "check_numbers [] d = Inr []"
| "check_numbers (k # ks) d = and_then (unit_number k (dget d k)) (\<lambda>n.
     and_then (check_numbers ks d) (\<lambda>ns. Inr (n # ns)))"

text \<open>Numbers in the unit interval convert without error, so \<open>float(payload[k])\<close> is \<open>unit_float\<close>.\<close>

fun unit_float :: "pynum \<Rightarrow> pyfloat" where
  "unit_float n = (case py_float n of Inr f \<Rightarrow> f | Inl e \<Rightarrow> NaN)"

definition score :: "pyfloat list \<Rightarrow> pyfloat" where
  "score xs = foldl fadd (Fin 0) (List.map2 fmul weights xs)"

section \<open>The gate\<close>

record gate =
  gate_ledger :: ledger
  active :: bool

definition decide :: "bool \<Rightarrow> pynum \<Rightarrow> pyfloat \<Rightarrow> string \<times> bool" where
  "decide act human sc =
     (if num_le human_impact_veto human then (''REJECTED_HUMAN_IMPACT'', False)
      else if flt trigger_high sc \<or> (act \<and> fle trigger_low sc) then (''APPROVED_ADVISORY'', True)
      else (''IDLE'', False))"

definition decision_payload :: "pyval \<Rightarrow> pydict \<Rightarrow> pyfloat \<Rightarrow> string \<Rightarrow> pydict" where
  "decision_payload target payload sc decision =
     [(''target'', target), (''input'', PDict (List.map (\<lambda>k. (k, dget payload k)) gate_keys)),
      (''score'', PFloat (py_round 6 sc)), (''decision'', PStr decision), (''executed'', PBool False)]"

record verdict =
  decision :: string
  verdict_score :: pyfloat
  entry_hash :: pyval

definition evaluate :: "runtime \<Rightarrow> pyval \<Rightarrow> pydict \<Rightarrow> string \<Rightarrow> gate \<Rightarrow> gate \<times> (exc + verdict)" where
  "evaluate R target payload now g =
     attempt g (check_numbers gate_keys payload) (\<lambda>ns.
     let sc = score (List.map unit_float (take 3 ns));
         (dec, act) = decide (active g) (ns ! 3) sc;
         (l, r) = append_entry R (PDict (decision_payload target payload sc dec)) now (gate_ledger g) in
     attempt (g\<lparr>gate_ledger := l, active := act\<rparr>) r (\<lambda>rec.
       (g\<lparr>gate_ledger := l, active := act\<rparr>,
        Inr \<lparr> decision = dec, verdict_score = sc, entry_hash = dget rec ''hash'' \<rparr>)))"

section \<open>The report\<close>

definition entry_decision :: "runtime \<Rightarrow> pydict \<Rightarrow> string" where
  "entry_decision R p = py_str R (if dhas p ''decision'' then dget p ''decision'' else PStr ''UNKNOWN_DECISION'')"

definition decision_counts :: "string list \<Rightarrow> (string \<times> nat) list" where
  "decision_counts ds = List.map (\<lambda>d. (d, count_list ds d)) (sort (remdups ds))"

definition percent_of :: "nat \<Rightarrow> nat \<Rightarrow> pyfloat" where
  "percent_of c n = (if n = 0 then Fin 0 else py_round 2 (fmul (to_pf (of_nat c / of_nat n)) (Fin 100)))"

record summary =
  chain :: chain_report
  total_entries :: nat
  counts :: "(string \<times> nat) list"
  percents :: "(string \<times> pyfloat) list"
  veto_count :: nat
  executed_true :: nat

text \<open>The payloads of the non-blank lines; a payload that is no dictionary has no \<open>get\<close>.\<close>

fun payloads :: "file_line list \<Rightarrow> exc + pydict list" where
  "payloads [] = Inr []"
| "payloads (Blank # ls) = payloads ls"
| "payloads (Garbage # ls) = raise JSONDecodeError ''Expecting value''"
| "payloads (Parsed v # ls) = (case v of
     PDict d \<Rightarrow> (case (if dhas d ''payload'' then dget d ''payload'' else PDict []) of
         PDict p \<Rightarrow> and_then (payloads ls) (\<lambda>ps. Inr (p # ps))
       | _ \<Rightarrow> raise AttributeError ''object has no attribute get'')
   | _ \<Rightarrow> raise AttributeError ''object has no attribute get'')"

definition summarize :: "runtime \<Rightarrow> text_file \<Rightarrow> exc + summary" where
  "summarize R f = and_then (verify_chain R f) (\<lambda>r.
     if \<not> chain_valid r then
       Inr \<lparr> chain = r, total_entries = records_checked r, counts = [], percents = [], veto_count = 0, executed_true = 0 \<rparr>
     else if f = Absent then raise FileNotFoundError ''No such file or directory''
     else and_then (payloads (file_lines f)) (\<lambda>ps.
       let ds = List.map (entry_decision R) ps; n = length ps in
       Inr \<lparr> chain = r, total_entries = n, counts = decision_counts ds,
             percents = List.map (\<lambda>(d, c). (d, percent_of c n)) (decision_counts ds),
             veto_count = count_list ds ''REJECTED_HUMAN_IMPACT'',
             executed_true = length (List.filter (\<lambda>p. dget p ''executed'' = PBool True) ps) \<rparr>))"

section \<open>Bounds of the score\<close>

lemma unit_number_bounds:
  assumes "unit_number k v = Inr n"
  shows "\<exists>r. num_val n = Fin r \<and> 0 \<le> r \<and> r \<le> 1 \<and> v \<noteq> PNone"
proof -
  have "num_le (NInt 0) n \<and> num_le n (NInt 1)" using assms
    by (auto simp: unit_number_def and_then_Inr split: option.splits if_splits)
  moreover have "v \<noteq> PNone" using assms by (auto simp: unit_number_def)
  ultimately show ?thesis by (cases "num_val n") (auto simp: num_le_def fle_def)
qed

lemma check_numbers_length: "check_numbers ks d = Inr ns \<Longrightarrow> length ns = length ks"
  by (induction ks arbitrary: ns) (auto simp: and_then_Inr)

lemma check_numbers_nth: "check_numbers ks d = Inr ns \<Longrightarrow> i < length ks \<Longrightarrow> unit_number (ks ! i) (dget d (ks ! i)) = Inr (ns ! i)"
  by (induction ks arbitrary: ns i) (auto simp: and_then_Inr nth_Cons')

lemma four_numbers:
  assumes "check_numbers gate_keys d = Inr ns"
  obtains a b c h where "ns = [a, b, c, h]" "unit_number ''human_impact'' (dget d ''human_impact'') = Inr h"
proof -
  have l: "length ns = 4" using check_numbers_length [OF assms] by (simp add: gate_keys_def weight_keys_def)
  then obtain a b c h where "ns = [a, b, c, h]"
    by (auto simp: length_Suc_conv eval_nat_numeral)
  then show ?thesis using that check_numbers_nth [OF assms, of 3] by (simp add: gate_keys_def weight_keys_def)
qed

lemma unit_float_val:
  assumes "num_val n = Fin r" "0 \<le> r" "r \<le> 1" "wf_num n"
  shows "unit_float n = Fin r"
proof (cases n)
  case (NInt i)
  then have "0 \<le> i" "i \<le> 1" using assms by simp_all
  then show ?thesis using NInt assms(1) py_float_small [of i] by (simp del: py_float.simps)
qed (use assms in simp)

definition w1 :: rat where "w1 = rnd (35/100)"
definition w3 :: rat where "w3 = rnd (30/100)"

lemma bounded_to_pf: "0 \<le> x \<Longrightarrow> x \<le> 4 \<Longrightarrow> to_pf x = Fin (rnd x)"
proof -
  assume "0 \<le> x" "x \<le> 4"
  moreover have "rnd 4 = 4" using rnd_small_int [of 4] by simp
  ultimately show ?thesis by (intro to_pf_bounded [of x 4]) (simp_all add: f_limit_def)
qed

lemma weights_eq: "weights = [Fin w1, Fin w1, Fin w3]" "0 \<le> w1" "w1 \<le> 1" "0 \<le> w3" "w3 \<le> 1"
proof -
  show "weights = [Fin w1, Fin w1, Fin w3]"
    unfolding weights_def w1_def w3_def by (simp add: bounded_to_pf)
  have "rnd 1 = 1" using rnd_small_int [of 1] by simp
  then show "0 \<le> w1" "w1 \<le> 1" "0 \<le> w3" "w3 \<le> 1"
    unfolding w1_def w3_def by (simp_all add: rnd_nonneg rnd_le_repr)
qed

lemma trigger_high_eq: "trigger_high = Fin (rnd (7/10))"
  unfolding trigger_high_def by (rule bounded_to_pf) simp_all

lemma scaled:
  assumes "0 \<le> w" "w \<le> 1" "0 \<le> r" "r \<le> 1"
  shows "fmul (Fin w) (Fin r) = Fin (rnd (w * r)) \<and> 0 \<le> rnd (w * r) \<and> rnd (w * r) \<le> 1"
proof -
  have "0 \<le> w * r" "w * r \<le> 1" using assms by (simp_all add: mult_le_one)
  moreover have "rnd 1 = 1" using rnd_small_int [of 1] by simp
  ultimately show ?thesis by (simp add: bounded_to_pf rnd_nonneg rnd_le_repr)
qed

definition raw_score :: "rat \<Rightarrow> rat \<Rightarrow> rat \<Rightarrow> rat" where
  "raw_score a b c = rnd (rnd (rnd (w1 * a) + rnd (w1 * b)) + rnd (w3 * c))"

lemma score_eq:
  assumes "0 \<le> a" "a \<le> 1" "0 \<le> b" "b \<le> 1" "0 \<le> c" "c \<le> 1"
  shows "score [Fin a, Fin b, Fin c] = Fin (raw_score a b c)"
proof -
  note A = scaled [OF weights_eq(2,3) assms(1,2)] and B = scaled [OF weights_eq(2,3) assms(3,4)]
    and C = scaled [OF weights_eq(4,5) assms(5,6)]
  have two: "rnd 2 = 2" using rnd_small_int [of 2] by simp
  have s: "0 \<le> rnd (rnd (w1 * a) + rnd (w1 * b))" "rnd (rnd (w1 * a) + rnd (w1 * b)) \<le> 2"
    using A B two by (auto intro: rnd_nonneg rnd_le_repr)
  show ?thesis using A B C s
    by (simp add: score_def weights_eq raw_score_def bounded_to_pf del: fmul.simps)
qed

lemma raw_score_mono: "a \<le> a' \<Longrightarrow> b \<le> b' \<Longrightarrow> c \<le> c' \<Longrightarrow> raw_score a b c \<le> raw_score a' b' c'"
  unfolding raw_score_def using weights_eq
  by (intro rnd_mono add_mono mult_left_mono) auto

lemma raw_score_one: "raw_score 1 1 1 \<le> 1"
  by code_simp

section \<open>Runs of the gate\<close>

definition gate_entry :: "pydict \<Rightarrow> bool" where
  "gate_entry d \<longleftrightarrow> is_dict (dget d ''payload'') \<and> get_in (dget d ''payload'') ''executed'' = PBool False
     \<and> get_in (dget d ''payload'') ''decision'' \<in> set [PStr ''REJECTED_HUMAN_IMPACT'', PStr ''APPROVED_ADVISORY'', PStr ''IDLE'']"

definition gate_inv :: "runtime \<Rightarrow> gate \<Rightarrow> bool" where
  "gate_inv R g \<longleftrightarrow> ledger_inv R (gate_ledger g) \<and> list_all gate_entry (records (file_lines (log_file (gate_ledger g))))"

lemma decide_cases: "fst (decide act h sc) \<in> set [''REJECTED_HUMAN_IMPACT'', ''APPROVED_ADVISORY'', ''IDLE'']"
  by (simp add: decide_def)

lemma gate_entry_recorded:
  assumes "canon (PDict (ledger_record n now h (PDict (decision_payload target payload sc (fst (decide act hu sc)))) dg)) = PDict d"
  shows "gate_entry d \<and> get_in (dget d ''payload'') ''decision'' = PStr (fst (decide act hu sc))"
proof -
  let ?p = "decision_payload target payload sc (fst (decide act hu sc))"
  have "distinct (List.map fst (ledger_record n now h (PDict ?p) dg))" by (simp add: ledger_record_def)
  from dget_canon [OF this assms, of "''payload''"]
  have pl: "dget d ''payload'' = canon (PDict ?p)" by (simp add: ledger_record_def)
  obtain q where q: "canon (PDict ?p) = PDict q" by simp
  have "distinct (List.map fst ?p)" by (simp add: decision_payload_def)
  note g = dget_canon [OF this q]
  have "dget q ''executed'' = PBool False" "dget q ''decision'' = PStr (fst (decide act hu sc))"
    using g [of "''executed''"] g [of "''decision''"] by (simp_all add: decision_payload_def)
  then show ?thesis using pl q decide_cases [of act hu sc] by (auto simp: gate_entry_def)
qed

lemma evaluate_cases:
  obtains (invalid) e where "evaluate R target payload now g = (g, Inl e)"
  | (decided) ns sc dec act l r where "check_numbers gate_keys payload = Inr ns" "sc = score (List.map unit_float (take 3 ns))"
      "decide (active g) (ns ! 3) sc = (dec, act)"
      "append_entry R (PDict (decision_payload target payload sc dec)) now (gate_ledger g) = (l, r)"
      "fst (evaluate R target payload now g) = g\<lparr>gate_ledger := l, active := act\<rparr>"
      "snd (evaluate R target payload now g) = and_then r (\<lambda>rec. Inr \<lparr> decision = dec, verdict_score = sc, entry_hash = dget rec ''hash'' \<rparr>)"
proof (cases "check_numbers gate_keys payload")
  case (Inl e)
  then show ?thesis by (intro invalid) (simp add: evaluate_def)
next
  case (Inr ns)
  obtain dec act where d: "decide (active g) (ns ! 3) (score (List.map unit_float (take 3 ns))) = (dec, act)"
    by (rule prod.exhaust)
  obtain l r where a: "append_entry R (PDict (decision_payload target payload (score (List.map unit_float (take 3 ns))) dec)) now (gate_ledger g) = (l, r)"
    by (rule prod.exhaust)
  show ?thesis using Inr d a by (intro decided [OF Inr refl d a]) (cases r; simp add: evaluate_def Let_def)+
qed

lemma evaluate_inv [step_inv_intros]: "gate_inv R g \<Longrightarrow> gate_inv R (fst (evaluate R target payload now g))"
proof (cases rule: evaluate_cases [of R target payload now g])
  case (decided ns sc dec act l r)
  assume i: "gate_inv R g"
  have l: "l = fst (append_entry R (PDict (decision_payload target payload sc dec)) now (gate_ledger g))"
    using decided(4) by simp
  have "ledger_inv R l" unfolding l using i by (intro append_entry_inv) (simp add: gate_inv_def)
  moreover have "list_all gate_entry (records (file_lines (log_file l)))"
  proof (cases rule: append_entry_cases [of R "PDict (decision_payload target payload sc dec)" now "gate_ledger g"])
    case (refused e)
    then show ?thesis using i l by (simp add: gate_inv_def)
  next
    case (added rec digest d)
    have "dec = fst (decide (active g) (ns ! 3) sc)" using decided(3) by simp
    then have "gate_entry d" using gate_entry_recorded added(2,3) by blast
    then show ?thesis using i l added(1) by (simp add: gate_inv_def records_append)
  qed
  ultimately show ?thesis unfolding decided(5) by (simp add: gate_inv_def)
qed simp

definition gate_step :: "runtime \<Rightarrow> pyval \<times> pydict \<times> string \<Rightarrow> gate \<Rightarrow> gate" where
  "gate_step R ev g = (case ev of (target, payload, now) \<Rightarrow> fst (evaluate R target payload now g))"

interpretation gate_runs: machine "gate_step R" "gate_inv R" for R
  by unfold_locales (auto simp: gate_step_def intro: step_inv_intros)

lemma payloads_of_chain:
  "chain_ok R p n ls \<Longrightarrow> list_all gate_entry (records ls) \<Longrightarrow>
   \<exists>ps. payloads ls = Inr ps \<and> length ps = length (records ls) \<and> list_all (\<lambda>q. dget q ''executed'' = PBool False) ps"
proof (induction R p n ls rule: chain_ok.induct)
  case (3 R prev n d ls)
  then obtain ps where ps: "payloads ls = Inr ps" "length ps = length (records ls)" "list_all (\<lambda>q. dget q ''executed'' = PBool False) ps"
    by auto
  have "dhas d ''payload''" using 3 by (simp add: record_ok_def)
  moreover obtain q where q: "dget d ''payload'' = PDict q" "dget q ''executed'' = PBool False"
    using 3 by (cases "dget d ''payload''") (auto simp: gate_entry_def)
  ultimately show ?case using ps by simp
qed auto

lemma decision_counts_total: "sum_list (List.map snd (decision_counts ds)) = length ds"
proof -
  have "sum_list (List.map snd (decision_counts ds)) = sum_list (List.map (count_list ds) (sort (remdups ds)))"
    by (simp add: decision_counts_def comp_def)
  also have "\<dots> = sum (count_list ds) (set ds)"
    by (subst sum_list_distinct_conv_sum_set) simp_all
  also have "\<dots> = length ds" by (rule sum_count_set) simp_all
  finally show ?thesis .
qed

definition sample_proposal :: pydict where
  "sample_proposal = [(''resource_util'', PInt 1), (''entropy'', PInt 1), (''environment'', PInt 1), (''human_impact'', PInt 1)]"

definition sample_gate :: gate where
  "sample_gate = \<lparr> gate_ledger = \<lparr> log_file = Absent, log_seq = 0, log_head = PStr genesis \<rparr>, active = False \<rparr>"

lemma sample_evaluate:
  "\<exists>v ls. evaluate sample_runtime (PStr ''x'') sample_proposal ''t0'' sample_gate
     = (fst (evaluate sample_runtime (PStr ''x'') sample_proposal ''t0'' sample_gate), Inr v)
   \<and> log_file (gate_ledger (fst (evaluate sample_runtime (PStr ''x'') sample_proposal ''t0'' sample_gate))) = Lines ls"
proof -
  have u: "unit_number k (PInt 1) = Inr (NInt 1)" for k
    using py_float_small [of 1] by (simp add: unit_number_def py_isfinite_def del: py_float.simps)
  then have c: "check_numbers gate_keys sample_proposal = Inr [NInt 1, NInt 1, NInt 1, NInt 1]"
    by (simp add: gate_keys_def weight_keys_def sample_proposal_def)
  have s: "serialisable (PDict (decision_payload (PStr ''x'') sample_proposal sc dec))" for sc dec
    by (simp add: decision_payload_def sample_proposal_def gate_keys_def weight_keys_def)
  have "\<exists>r ls. append_entry sample_runtime (PDict (decision_payload (PStr ''x'') sample_proposal sc dec)) ''t0'' (gate_ledger sample_gate)
      = (\<lparr> log_file = Lines ls, log_seq = 1, log_head = log_head (fst (append_entry sample_runtime
          (PDict (decision_payload (PStr ''x'') sample_proposal sc dec)) ''t0'' (gate_ledger sample_gate))) \<rparr>, Inr r)" for sc dec
    using s [of sc dec]
    by (simp add: append_entry_def compute_hash_def dumps_canonical_def dumps_checked_def dumps_sorted_def Let_def
        ledger_record_def sample_gate_def del: serialisable.simps(9) canon.simps) (simp del: canon.simps)
  then obtain r ls h where a: "append_entry sample_runtime (PDict (decision_payload (PStr ''x'') sample_proposal
      (score (List.map unit_float [NInt 1, NInt 1, NInt 1])) ''REJECTED_HUMAN_IMPACT'')) ''t0'' (gate_ledger sample_gate)
      = (\<lparr> log_file = Lines ls, log_seq = 1, log_head = h \<rparr>, Inr r)" by blast
  have d: "decide (active sample_gate) (NInt 1) sc = (''REJECTED_HUMAN_IMPACT'', False)" for sc
    by (simp add: decide_def human_impact_veto_def num_le_def fle_def)
  show ?thesis using a by (simp add: evaluate_def c d Let_def del: unit_float.simps)
qed

section \<open>Properties\<close>

text \<open>
  C16: the human-impact veto. Whenever the gate answers on a payload whose human impact is at or
  above the threshold, the answer is REJECTED_HUMAN_IMPACT whatever the other metrics, the score
  and the previous state are; the gate is left inactive, and the last ledger record holds that
  decision with \<open>executed\<close> false.
\<close>

theorem human_impact_veto_dominates:
  assumes "evaluate R target payload now g = (g', Inr v)" and "as_num (dget payload ''human_impact'') = Some h"
    and "num_le human_impact_veto h"
  shows "decision v = ''REJECTED_HUMAN_IMPACT'' \<and> \<not> active g'
    \<and> (let d = last (records (file_lines (log_file (gate_ledger g')))) in
        gate_entry d \<and> get_in (dget d ''payload'') ''decision'' = PStr ''REJECTED_HUMAN_IMPACT'')"
proof (cases rule: evaluate_cases [of R target payload now g])
  case (decided ns sc dec act l r)
  from four_numbers [OF decided(1)] obtain a b c h' where ns: "ns = [a, b, c, h']"
    "unit_number ''human_impact'' (dget payload ''human_impact'') = Inr h'" by blast
  have "h' = h" using ns(2) assms(2) by (auto simp: unit_number_def and_then_Inr split: if_splits)
  then have dec: "dec = ''REJECTED_HUMAN_IMPACT''" "act = False" using decided(3) ns(1) assms(3) by (simp_all add: decide_def)
  have g': "g' = g\<lparr>gate_ledger := l, active := act\<rparr>" using assms(1) decided(5) by simp
  have "and_then r (\<lambda>rec. Inr \<lparr> decision = dec, verdict_score = sc, entry_hash = dget rec ''hash'' \<rparr>) = Inr v"
    using assms(1) decided(6) by simp
  then obtain rec where r: "r = Inr rec" "decision v = dec" by (auto simp: and_then_Inr)
  show ?thesis
  proof (cases rule: append_entry_cases [of R "PDict (decision_payload target payload sc dec)" now "gate_ledger g"])
    case (refused e)
    then show ?thesis using decided(4) r by simp
  next
    case (added rec' digest d)
    have "dec = fst (decide (active g) (ns ! 3) sc)" using decided(3) by simp
    then have "gate_entry d \<and> get_in (dget d ''payload'') ''decision'' = PStr dec"
      using gate_entry_recorded added(2,3) by blast
    moreover have "l = gate_ledger g\<lparr>log_file := Lines (file_lines (log_file (gate_ledger g)) @ [Parsed (PDict d)]),
        log_seq := Suc (log_seq (gate_ledger g)), log_head := PStr digest\<rparr>"
      using added(1) decided(4) by simp
    ultimately show ?thesis using dec g' r by (simp add: records_append)
  qed
qed (use assms in simp)

theorem human_impact_veto_dominates_witness:
  "\<exists>v. snd (evaluate sample_runtime (PStr ''x'') sample_proposal ''t0'' sample_gate) = Inr v
    \<and> decision v = ''REJECTED_HUMAN_IMPACT''"
proof -
  obtain v where v: "evaluate sample_runtime (PStr ''x'') sample_proposal ''t0'' sample_gate
     = (fst (evaluate sample_runtime (PStr ''x'') sample_proposal ''t0'' sample_gate), Inr v)"
    using sample_evaluate by blast
  have "decision v = ''REJECTED_HUMAN_IMPACT''"
    using human_impact_veto_dominates [OF v, of "NInt 1"]
    by (simp add: sample_proposal_def human_impact_veto_def num_le_def fle_def)
  then show ?thesis using v by (metis snd_conv)
qed

text \<open>
  approval is monotone, floating-point rounding included: if a proposal is approved, then
  one whose three metrics are at least as large and whose human impact is below the veto is
  approved too, in the same state of the gate; and the score never exceeds 1.
\<close>

theorem approval_is_monotone:
  assumes "list_all (\<lambda>x. 0 \<le> x \<and> x \<le> 1) [a, b, c, a', b', c']" and "a \<le> a'" "b \<le> b'" "c \<le> c'"
    and "\<not> num_le human_impact_veto h'" and "fst (decide act h (score [Fin a, Fin b, Fin c])) = ''APPROVED_ADVISORY''"
  shows "fst (decide act h' (score [Fin a', Fin b', Fin c'])) = ''APPROVED_ADVISORY''
    \<and> fle (score [Fin a', Fin b', Fin c']) (Fin 1)"
proof -
  have m: "raw_score a b c \<le> raw_score a' b' c'" by (rule raw_score_mono) fact+
  have one: "raw_score a' b' c' \<le> 1"
    using assms(1) raw_score_mono [of a' 1 b' 1 c' 1] raw_score_one by simp
  have s: "score [Fin a, Fin b, Fin c] = Fin (raw_score a b c)" "score [Fin a', Fin b', Fin c'] = Fin (raw_score a' b' c')"
    using assms(1) by (simp_all add: score_eq)
  have up: "flt t (Fin (raw_score a b c)) \<Longrightarrow> flt t (Fin (raw_score a' b' c'))"
    "fle t (Fin (raw_score a b c)) \<Longrightarrow> fle t (Fin (raw_score a' b' c'))" for t
    using m by (cases t; auto simp: fle_def)+
  have "\<not> num_le human_impact_veto h \<and> (flt trigger_high (score [Fin a, Fin b, Fin c])
      \<or> act \<and> fle trigger_low (score [Fin a, Fin b, Fin c]))"
    using assms(6) by (simp add: decide_def split: if_splits)
  then show ?thesis using assms(5) up [of trigger_high] up [of trigger_low] one
    unfolding s by (auto simp: decide_def fle_def)
qed

theorem approval_is_monotone_witness:
  "fst (decide False (NInt 0) (score [Fin 1, Fin 1, Fin 1])) = ''APPROVED_ADVISORY''
    \<and> fle (score [Fin 1, Fin 1, Fin 1]) (Fin 1)"
proof -
  have "fst (decide False (NInt 0) (score [Fin 1, Fin (7/8), Fin (7/8)])) = ''APPROVED_ADVISORY''"
  proof -
    have "rnd (7/10) < raw_score 1 (7/8) (7/8)" by code_simp
    then show ?thesis by (simp add: decide_def score_eq trigger_high_eq human_impact_veto_def num_le_def fle_def)
  qed
  then show ?thesis
    by (intro approval_is_monotone [of 1 "7/8" "7/8" 1 1 1]) (simp_all add: human_impact_veto_def num_le_def fle_def)
qed

text \<open>
  C18: the gate never executes anything. After any sequence of evaluations on a fresh ledger,
  valid or refused, the report of the ledger file is well-formed: the chain is valid, every
  record is counted under exactly one decision, and no record has \<open>executed\<close> true.
\<close>

theorem gate_never_executes:
  assumes "runtime_ok R" and l: "open_ledger R Absent = Inr l0"
    and g: "g = fold (gate_step R) proposals \<lparr> gate_ledger = l0, active = False \<rparr>"
    and "log_file (gate_ledger g) \<noteq> Absent"
  shows "\<exists>s. summarize R (log_file (gate_ledger g)) = Inr s \<and> chain_valid (chain s)
    \<and> executed_true s = 0 \<and> total_entries s = log_seq (gate_ledger g)
    \<and> sum_list (List.map snd (counts s)) = total_entries s"
proof -
  have "l0 = \<lparr> log_file = Absent, log_seq = 0, log_head = PStr genesis \<rparr>"
    using l by (simp add: open_ledger_def verify_chain_def)
  moreover have "is_ascii genesis" by (simp add: genesis_def is_ascii_def list_all_iff)
  ultimately have "gate_inv R \<lparr> gate_ledger = l0, active = False \<rparr>"
    using assms(1) by (simp add: gate_inv_def ledger_inv_def)
  then have i: "gate_inv R g" unfolding g by (rule gate_runs.run_inv)
  let ?ls = "file_lines (log_file (gate_ledger g))"
  have v: "verify_chain R (log_file (gate_ledger g)) = Inr \<lparr> records_checked = log_seq (gate_ledger g), chain_valid = True, errors = [] \<rparr>"
    using i by (intro verify_ledger_inv) (simp add: gate_inv_def)
  have c: "chain_ok R (PStr genesis) 0 ?ls" "list_all gate_entry (records ?ls)" "log_seq (gate_ledger g) = length (records ?ls)"
    using i by (simp_all add: gate_inv_def ledger_inv_def)
  obtain ps where ps: "payloads ?ls = Inr ps" "length ps = length (records ?ls)" "list_all (\<lambda>q. dget q ''executed'' = PBool False) ps"
    using payloads_of_chain [OF c(1,2)] by blast
  have "List.filter (\<lambda>p. dget p ''executed'' = PBool True) ps = []"
    using ps(3) by (auto simp: list_all_iff filter_empty_conv)
  then show ?thesis using v ps c(3) assms(4)
    by (simp add: summarize_def Let_def decision_counts_total)
qed

theorem gate_never_executes_witness:
  "\<exists>s. summarize sample_runtime (log_file (gate_ledger (gate_step sample_runtime (PStr ''x'', sample_proposal, ''t0'') sample_gate))) = Inr s
    \<and> executed_true s = 0"
proof -
  obtain ls where l: "log_file (gate_ledger (gate_step sample_runtime (PStr ''x'', sample_proposal, ''t0'') sample_gate)) = Lines ls"
    using sample_evaluate by (auto simp: gate_step_def)
  have o: "open_ledger sample_runtime Absent = Inr (gate_ledger sample_gate)"
    by (simp add: sample_open sample_gate_def)
  show ?thesis
    using gate_never_executes [OF sample_runtime_ok o, of "gate_step sample_runtime (PStr ''x'', sample_proposal, ''t0'') sample_gate"
        "[(PStr ''x'', sample_proposal, ''t0'')]"] l
    by (auto simp: sample_gate_def)
qed

end
