(* ===== verification/Measurement.thy ===== *)
theory Measurement
  imports HashChain TextFile
begin

text \<open>
  \<open>controller/measurement_core.py\<close>: the metric record, the snapshot built from what the probes
  return, and the hash-chained measurement file with its lock file. The readings of psutil and
  of \<open>shutil.disk_usage\<close>, the clock and the event id are inputs.
\<close>

section \<open>Metrics and snapshots\<close>

definition or_default :: "string option \<Rightarrow> string \<Rightarrow> string" where
  "or_default r d = (case r of None \<Rightarrow> d | Some s \<Rightarrow> if s = [] then d else s)"

definition unknown_metric :: "string \<Rightarrow> string \<Rightarrow> string option \<Rightarrow> pydict" where
  "unknown_metric unit source reason =
     [(''value'', PNone), (''unit'', PStr unit), (''status'', PStr ''UNKNOWN''), (''source'', PStr source),
      (''reason'', PStr (or_default reason ''No verified source available''))]"

definition metric :: "pyval \<Rightarrow> string \<Rightarrow> string \<Rightarrow> string option \<Rightarrow> exc + pydict" where
  "metric v unit source reason =
     (if v = PNone then Inr (unknown_metric unit source reason)
      else case as_num v of
        None \<Rightarrow> raise MeasurementError ''Metric value must be numeric or None''
      | Some n \<Rightarrow>
          and_then (ensure ((case n of NInt i \<Rightarrow> True | NFloat f \<Rightarrow> fisfinite f) \<and> \<not> num_lt n (NInt 0))
            MeasurementError ''Metric value must be finite and non-negative'') (\<lambda>_.
          and_then (ensure (\<not> (unit = ''%'' \<and> num_lt (NInt 100) n))
            MeasurementError ''Percentage metrics must be between 0 and 100'') (\<lambda>_.
          Inr [(''value'', v), (''unit'', PStr unit), (''status'', PStr ''DATA_AVAILABLE''), (''source'', PStr source)])))"

text \<open>
  What \<open>import psutil\<close> and its calls do: missing, raising, or reading; the disk counters inside
  have their own handler.
\<close>

datatype io_probe = IoRaises string | IoNone | IoReads pyval pyval
datatype host_probe = PsutilMissing | PsutilRaises string | PsutilReads pyval pyval io_probe
datatype disk_probe = DiskRaises string | DiskReads int int

definition four_unknown :: "string \<Rightarrow> string \<Rightarrow> pydict" where
  "four_unknown source reason = List.map (\<lambda>(k, u). (k, PDict (unknown_metric u source (Some reason))))
     [(''cpu_percent'', ''%''), (''memory_percent'', ''%''), (''disk_read_bytes'', ''bytes''), (''disk_write_bytes'', ''bytes'')]"

definition io_metrics :: "io_probe \<Rightarrow> pydict" where
  "io_metrics io =
     (let failed = (\<lambda>e. [(''disk_read_bytes'', PDict (unknown_metric ''bytes'' ''psutil'' (Some e))),
                         (''disk_write_bytes'', PDict (unknown_metric ''bytes'' ''psutil'' (Some e)))]) in
      case io of IoRaises e \<Rightarrow> failed e | IoNone \<Rightarrow> failed ''RuntimeError''
      | IoReads r w \<Rightarrow>
         (case (metric r ''bytes'' ''psutil.disk_io_counters'' None, metric w ''bytes'' ''psutil.disk_io_counters'' None) of
            (Inr m, Inr m') \<Rightarrow> [(''disk_read_bytes'', PDict m), (''disk_write_bytes'', PDict m')]
          | _ \<Rightarrow> failed ''MeasurementError''))"

definition host_metrics :: "host_probe \<Rightarrow> pydict" where
  "host_metrics p = (case p of
     PsutilMissing \<Rightarrow> four_unknown ''psutil_optional_dependency'' ''psutil is not installed''
   | PsutilRaises e \<Rightarrow> four_unknown ''psutil'' e
   | PsutilReads cpu mem io \<Rightarrow>
      (case (metric cpu ''%'' ''psutil.cpu_percent(interval=0.2)'' None, metric mem ''%'' ''psutil.virtual_memory'' None) of
         (Inr m, Inr m') \<Rightarrow> [(''cpu_percent'', PDict m), (''memory_percent'', PDict m')] @ io_metrics io
       | _ \<Rightarrow> four_unknown ''psutil'' ''MeasurementError''))"

definition used_percent :: "int \<Rightarrow> int \<Rightarrow> pyval" where
  "used_percent tot free = (if tot = 0 then PNone
     else PFloat (fmul (to_pf (of_int (tot - free) / of_int tot)) (Fin 100)))"

definition disk_metrics :: "string \<Rightarrow> disk_probe \<Rightarrow> pydict" where
  "disk_metrics dir p =
     (let failed = (\<lambda>e. List.map (\<lambda>(k, u). (k, PDict (unknown_metric u ''shutil.disk_usage'' (Some e))))
           [(''disk_used_percent'', ''%''), (''disk_total_bytes'', ''bytes''), (''disk_free_bytes'', ''bytes'')]);
          src = ''shutil.disk_usage:'' @ dir in
      case p of DiskRaises e \<Rightarrow> failed e
      | DiskReads tot free \<Rightarrow>
         (case (metric (used_percent tot free) ''%'' src None, metric (PInt tot) ''bytes'' src None, metric (PInt free) ''bytes'' src None) of
            (Inr m1, Inr m2, Inr m3) \<Rightarrow> [(''disk_used_percent'', PDict m1), (''disk_total_bytes'', PDict m2), (''disk_free_bytes'', PDict m3)]
          | _ \<Rightarrow> failed ''MeasurementError''))"

definition ecological_metrics :: pydict where
  "ecological_metrics =
     [(''energy_wh'', PDict (unknown_metric ''Wh'' ''physical_energy_meter'' (Some ''No physical energy meter connected''))),
      (''water_litres'', PDict (unknown_metric ''L'' ''physical_water_meter'' (Some ''No physical water meter connected''))),
      (''co2e_grams'', PDict (unknown_metric ''gCO2e'' ''verified_emissions_factor_and_activity_data''
         (Some ''No verified activity data or emissions factor connected''))),
      (''material_grams'', PDict (unknown_metric ''g'' ''weighed_material_input'' (Some ''No weighing source connected'')))]"

definition collect_snapshot :: "string \<Rightarrow> string \<Rightarrow> string \<Rightarrow> host_probe \<Rightarrow> disk_probe \<Rightarrow> pydict" where
  "collect_snapshot dir now event_id host disk =
     (let measurements = host_metrics host @ disk_metrics dir disk @ ecological_metrics in
      [(''schema'', PStr ''v91.measurement.v1''), (''event_id'', PStr event_id), (''measured_at_utc'', PStr now),
       (''collection_mode'', PStr ''READ_ONLY''), (''host_measurements'', PDict measurements),
       (''ecological_measurements'', PDict (List.map (\<lambda>k. (k, dget measurements k))
          [''energy_wh'', ''water_litres'', ''co2e_grams'', ''material_grams'']))])"

section \<open>The hash-chained file\<close>

definition event_text :: "runtime \<Rightarrow> string \<Rightarrow> pydict \<Rightarrow> string" where
  "event_text R previous payload = previous @ CHR 0x0A # utf8 (canonical_text R (PDict payload))"

definition event_hash :: "runtime \<Rightarrow> string \<Rightarrow> pydict \<Rightarrow> exc + string" where
  "event_hash R previous payload = and_then (dumps_canonical R False (PDict payload)) (\<lambda>_.
     Inr (sha256_hex R (event_text R previous payload)))"

text \<open>
  The loop of \<open>verify_ledger\<close> from sequence number \<open>n\<close>; a line that is not JSON is turned into a
  MeasurementError by the handler around the loop, a ValueError of \<open>event_hash\<close> is not.
\<close>

fun verify_events :: "runtime \<Rightarrow> string \<Rightarrow> nat \<Rightarrow> file_line list \<Rightarrow> exc + (nat \<times> string)" where
  "verify_events R previous n [] = Inr (n, previous)"
| "verify_events R previous n (Blank # ls) = raise MeasurementError ''Blank ledger line''"
| "verify_events R previous n (Garbage # ls) = raise MeasurementError ''Ledger cannot be read or parsed: JSONDecodeError''"
| "verify_events R previous n (Parsed (PDict d) # ls) =
     (let r = dremove ''event_hash'' d in
      and_then (ensure (py_eq_int (dget r ''sequence'') (int n)) MeasurementError ''Sequence mismatch'') (\<lambda>_.
      and_then (ensure (dget r ''previous_hash'' = PStr previous) MeasurementError ''Previous hash mismatch'') (\<lambda>_.
      and_then (event_hash R previous r) (\<lambda>calculated.
      and_then (ensure (dget d ''event_hash'' = PStr calculated) MeasurementError ''Event hash mismatch'') (\<lambda>_.
      verify_events R calculated (Suc n) ls)))))"
| "verify_events R previous n (Parsed _ # ls) = raise MeasurementError ''Invalid record''"

record ledger_state =
  status :: string
  events :: nat
  event_head :: string

definition verify_ledger :: "runtime \<Rightarrow> text_file \<Rightarrow> exc + ledger_state" where
  "verify_ledger R f = (case f of
     Absent \<Rightarrow> Inr \<lparr> status = ''EMPTY_LEDGER'', events = 0, event_head = genesis \<rparr>
   | NotUtf8 \<Rightarrow> raise UnicodeDecodeError ''invalid start byte''
   | Lines ls \<Rightarrow> and_then (verify_events R genesis 1 ls) (\<lambda>(n, h).
       Inr \<lparr> status = ''CHAIN_VALID'', events = n - 1, event_head = h \<rparr>))"

text \<open>
  The file beside its lock file: its lines, an unfinished last one among them (it is \<open>Garbage\<close> when cut), and
  how it ends. Cut inside a character it cannot be decoded.
\<close>

record measurement_store =
  mfile :: text_file
  mend :: line_end
  mlock :: bool

definition content :: "measurement_store \<Rightarrow> text_file" where
  "content s = (if mend s = Split_char then NotUtf8 else mfile s)"

definition event_payload :: "nat \<Rightarrow> string \<Rightarrow> string \<Rightarrow> pydict \<Rightarrow> pydict" where
  "event_payload n previous now snapshot =
     [(''sequence'', PInt (int n)), (''previous_hash'', PStr previous), (''recorded_at_utc'', PStr now), (''snapshot'', PDict snapshot)]"

text \<open>
  The write of one line: all of it (\<open>None\<close>), or only its first n bytes (\<open>Some n\<close>) before \<open>write\<close>, \<open>flush\<close> or
  \<open>fsync\<close> raises OSError.
\<close>

definition write_event :: "runtime \<Rightarrow> pydict \<Rightarrow> nat option \<Rightarrow> measurement_store \<Rightarrow> measurement_store" where
  "write_event R rec w s = (let text = utf8 (canonical_text R (PDict rec));
       n = (case w of None \<Rightarrow> Suc (length text) | Some n \<Rightarrow> n);
       (ls, e) = write_line text (Parsed (canon (PDict rec))) n (file_lines (mfile s), mend s) in
     s\<lparr>mfile := Lines ls, mend := e\<rparr>)"

definition append_locked :: "runtime \<Rightarrow> pydict \<Rightarrow> string \<Rightarrow> nat option \<Rightarrow> measurement_store \<Rightarrow> measurement_store \<times> (exc + pydict)" where
  "append_locked R snapshot now w s =
     attempt s (verify_ledger R (content s)) (\<lambda>st.
     let payload = event_payload (Suc (events st)) (event_head st) now snapshot in
     attempt s (event_hash R (event_head st) payload) (\<lambda>digest.
     let rec = payload @ [(''event_hash'', PStr digest)] in
     attempt s (dumps_canonical R False (PDict rec)) (\<lambda>_.
       (write_event R rec w s, case w of Some n \<Rightarrow> raise OSError ''write failed''
        | None \<Rightarrow> Inr [(''status'', PStr ''APPENDED_HASH_CHAINED''), (''sequence'', PInt (int (Suc (events st)))), (''event_hash'', PStr digest)]))))"

definition append_snapshot :: "runtime \<Rightarrow> pydict \<Rightarrow> string \<Rightarrow> nat option \<Rightarrow> measurement_store \<Rightarrow> measurement_store \<times> (exc + pydict)" where
  "append_snapshot R snapshot now w s =
     (if mlock s then (s, raise MeasurementError ''Ledger lock exists; inspect it manually before retrying'')
      else let (t, r) = append_locked R snapshot now w (s\<lparr>mlock := True\<rparr>) in (t\<lparr>mlock := False\<rparr>, r))"

text \<open>\<open>main\<close>: exit code 2 on what it catches, and the exceptions it lets through.\<close>

definition main_code :: "exc + 'a \<Rightarrow> exc + int" where
  "main_code r = (case r of Inr x \<Rightarrow> Inr 0
     | Inl e \<Rightarrow> if caught_by e [MeasurementError, OSError] then Inr 2 else Inl e)"

definition main_verify_only :: "runtime \<Rightarrow> text_file \<Rightarrow> exc + int" where
  "main_verify_only R f = main_code (verify_ledger R f)"

section \<open>The contract of the file\<close>

definition event_ok :: "runtime \<Rightarrow> string \<Rightarrow> nat \<Rightarrow> pydict \<Rightarrow> bool" where
  "event_ok R previous n d \<longleftrightarrow> (let r = dremove ''event_hash'' d in
     py_eq_int (dget r ''sequence'') (int n) \<and> dget r ''previous_hash'' = PStr previous
     \<and> serialisable (PDict r) \<and> all_finite (PDict r)
     \<and> dget d ''event_hash'' = PStr (sha256_hex R (event_text R previous r)))"

fun events_ok :: "runtime \<Rightarrow> string \<Rightarrow> nat \<Rightarrow> file_line list \<Rightarrow> bool" where
  "events_ok R previous n [] \<longleftrightarrow> True"
| "events_ok R previous n (Parsed (PDict d) # ls) \<longleftrightarrow> event_ok R previous n d
     \<and> events_ok R (sha256_hex R (event_text R previous (dremove ''event_hash'' d))) (Suc n) ls"
| "events_ok R previous n (_ # ls) \<longleftrightarrow> False"

fun event_records :: "file_line list \<Rightarrow> pydict list" where
  "event_records [] = []"
| "event_records (Parsed (PDict d) # ls) = dremove ''event_hash'' d # event_records ls"
| "event_records (_ # ls) = event_records ls"

abbreviation events_head :: "runtime \<Rightarrow> string \<Rightarrow> file_line list \<Rightarrow> string" where
  "events_head R g ls \<equiv> chain_head (sha256_hex R) (event_text R) g (event_records ls)"

lemma event_hash_ok: "event_hash R p d =
    (if \<not> serialisable (PDict d) then raise TypeError ''Object is not JSON serializable''
     else if \<not> all_finite (PDict d) then raise ValueError ''Out of range float values are not JSON compliant''
     else Inr (sha256_hex R (event_text R p d)))"
  by (simp add: event_hash_def dumps_canonical_def dumps_checked_def)

lemma verify_events_iff:
  "verify_events R p n ls = Inr (m, h) \<longleftrightarrow> events_ok R p n ls \<and> m = n + length ls \<and> h = events_head R p ls"
proof (induction R p n ls rule: events_ok.induct)
  case (2 R p n d ls)
  show ?case
  proof (cases "event_ok R p n d")
    case True
    then show ?thesis using 2 by (auto simp: event_ok_def event_hash_ok Let_def ensure_def)
  next
    case False
    then show ?thesis by (auto simp: event_ok_def event_hash_ok Let_def ensure_def split: if_splits)
  qed
qed auto

lemma events_ok_snoc:
  "events_ok R p n (ls @ [Parsed (PDict d)]) \<longleftrightarrow> events_ok R p n ls \<and> event_ok R (events_head R p ls) (n + length ls) d"
  by (induction R p n ls rule: events_ok.induct) auto

lemma event_records_snoc: "event_records (ls @ [Parsed (PDict d)]) = event_records ls @ [dremove ''event_hash'' d]"
  by (induction ls rule: event_records.induct) auto

text \<open>
  The file of a store is a chain, or a chain and one damaged last line. \<open>intact\<close> is that chain, \<open>sealed\<close> its
  lines that end in a newline.
\<close>

definition damaged :: "measurement_store \<Rightarrow> bool" where
  "damaged s \<longleftrightarrow> Garbage \<in> set (file_lines (mfile s))"

definition intact :: "measurement_store \<Rightarrow> file_line list" where
  "intact s = takeWhile (\<lambda>l. l \<noteq> Garbage) (file_lines (mfile s))"

definition sealed :: "measurement_store \<Rightarrow> file_line list" where
  "sealed s = (if damaged s \<or> mend s = Newline then intact s else butlast (intact s))"

definition store_inv :: "runtime \<Rightarrow> measurement_store \<Rightarrow> bool" where
  "store_inv R s \<longleftrightarrow> mfile s \<noteq> NotUtf8 \<and> (\<exists>ls. events_ok R genesis 1 ls
     \<and> (file_lines (mfile s) = ls \<and> mend s \<noteq> Split_char \<or> file_lines (mfile s) = ls @ [Garbage]))"

lemma events_ok_clean: "events_ok R p n ls \<Longrightarrow> Garbage \<notin> set ls"
  by (induction R p n ls rule: events_ok.induct) auto

lemma events_ok_append: "events_ok R p n (xs @ ys) \<Longrightarrow> events_ok R p n xs"
  by (induction R p n xs rule: events_ok.induct) auto

lemma events_ok_butlast: "events_ok R p n ls \<Longrightarrow> events_ok R p n (butlast ls)"
  by (cases ls rule: rev_cases) (auto dest: events_ok_append)

lemma takeWhile_clean: "Garbage \<notin> set ls \<Longrightarrow> takeWhile (\<lambda>l. l \<noteq> Garbage) (ls @ xs) = ls @ takeWhile (\<lambda>l. l \<noteq> Garbage) xs"
  by (induction ls) auto

lemma clean_lines:
  assumes "Garbage \<notin> set ls"
  shows "file_lines (mfile s) = ls \<Longrightarrow> intact s = ls \<and> \<not> damaged s"
    and "file_lines (mfile s) = ls @ [Garbage] \<Longrightarrow> intact s = ls \<and> damaged s"
  using assms takeWhile_clean [OF assms, of "[]"] takeWhile_clean [OF assms, of "[Garbage]"]
  by (simp_all add: intact_def damaged_def)

lemma store_inv_cases:
  assumes "store_inv R s"
  obtains (good) "events_ok R genesis 1 (file_lines (mfile s))" "mend s \<noteq> Split_char" "\<not> damaged s" "intact s = file_lines (mfile s)"
  | (torn) ls where "events_ok R genesis 1 ls" "file_lines (mfile s) = ls @ [Garbage]" "damaged s" "intact s = ls"
  using assms clean_lines [OF events_ok_clean] unfolding store_inv_def by metis

lemma verify_ledger_Lines:
  "verify_ledger R (Lines ls) = Inr st \<longleftrightarrow> events_ok R genesis 1 ls
     \<and> st = \<lparr> status = ''CHAIN_VALID'', events = length ls, event_head = events_head R genesis ls \<rparr>"
  by (auto simp: verify_ledger_def and_then_Inr verify_events_iff)

lemma verify_file: "f \<noteq> NotUtf8 \<Longrightarrow> events_ok R genesis 1 (file_lines f) \<Longrightarrow>
  \<exists>x. verify_ledger R f = Inr \<lparr> status = x, events = length (file_lines f), event_head = events_head R genesis (file_lines f) \<rparr>"
  by (cases f) (auto simp: verify_ledger_Lines, simp add: verify_ledger_def)

lemma verify_store_inv:
  assumes "store_inv R s"
  shows "if damaged s then \<exists>e. verify_ledger R (content s) = Inl e
    else \<exists>x. verify_ledger R (content s) = Inr \<lparr> status = x, events = length (file_lines (mfile s)),
      event_head = events_head R genesis (file_lines (mfile s)) \<rparr>"
  using assms
proof (cases rule: store_inv_cases)
  case good
  then show ?thesis using assms verify_file [of "mfile s" R] by (simp add: content_def store_inv_def)
next
  case (torn ls)
  have "\<not> events_ok R genesis 1 (ls @ [Garbage])" using events_ok_clean [of R genesis 1 "ls @ [Garbage]"] by auto
  moreover have "mfile s = Lines (ls @ [Garbage])" using torn(2) by (cases "mfile s") simp_all
  ultimately have "verify_ledger R (mfile s) \<noteq> Inr st" for st by (simp add: verify_ledger_Lines)
  then show ?thesis using torn(3) by (cases "verify_ledger R (mfile s)") (auto simp: content_def verify_ledger_def)
qed

lemma append_locked_cases:
  obtains (refused) e where "append_locked R snapshot now w s = (s, Inl e)"
  | (written) st payload digest where "verify_ledger R (content s) = Inr st"
     "payload = event_payload (Suc (events st)) (event_head st) now snapshot"
     "event_hash R (event_head st) payload = Inr digest"
     "append_locked R snapshot now w s = (write_event R (payload @ [(''event_hash'', PStr digest)]) w s,
        case w of Some n \<Rightarrow> raise OSError ''write failed''
        | None \<Rightarrow> Inr [(''status'', PStr ''APPENDED_HASH_CHAINED''), (''sequence'', PInt (int (Suc (events st)))), (''event_hash'', PStr digest)])"
proof -
  obtain y where y: "append_locked R snapshot now w s = y" by blast
  show thesis
    using y [unfolded append_locked_def Let_def]
    by (elim attempt_cases) (use refused [unfolded y] written [unfolded y] in auto)
qed

lemma event_text_canon:
  assumes "canon (PDict d) = PDict d'"
  shows "event_text R p (dremove k d') = event_text R p (dremove k d)"
  using canon_dremove [OF assms, of k] canonical_text_canon [of R "PDict (dremove k d)"]
  by (simp add: event_text_def)

lemma event_payload_dget:
  "distinct (List.map fst (event_payload n p now snap))"
  "dremove ''event_hash'' (event_payload n p now snap @ [(''event_hash'', h)]) = event_payload n p now snap"
  "dget (event_payload n p now snap) ''sequence'' = PInt (int n)"
  "dget (event_payload n p now snap) ''previous_hash'' = PStr p"
  by (simp_all add: event_payload_def dremove_def)

lemma appended_event_ok:
  assumes e: "event_hash R p (event_payload n p now snap) = Inr h"
    and d: "canon (PDict (event_payload n p now snap @ [(''event_hash'', PStr h)])) = PDict d"
  shows "event_ok R p n d"
proof -
  let ?pl = "event_payload n p now snap"
  have r: "canon (PDict ?pl) = PDict (dremove ''event_hash'' d)"
    using canon_dremove [OF d, of "''event_hash''"] by (simp only: event_payload_dget)
  note g = dget_canon [OF event_payload_dget(1) r]
  have "distinct (List.map fst (?pl @ [(''event_hash'', PStr h)]))" by (simp add: event_payload_def)
  note k = dget_canon [OF this d, of "''event_hash''"]
  have h: "h = sha256_hex R (event_text R p ?pl)" "serialisable (PDict ?pl)" "all_finite (PDict ?pl)"
    using e by (simp_all only: event_hash_ok split: if_splits) simp_all
  have "dget d ''event_hash'' = PStr h" using k by (simp add: event_payload_def)
  moreover have "event_text R p (dremove ''event_hash'' d) = event_text R p ?pl"
    using r canonical_text_canon [of R "PDict ?pl"] by (simp add: event_text_def del: canon.simps)
  moreover have "serialisable (PDict (dremove ''event_hash'' d))" "all_finite (PDict (dremove ''event_hash'' d))"
    using h r serialisable_canon [of "PDict ?pl"] all_finite_canon [of "PDict ?pl"] by metis+
  ultimately show ?thesis
    using g [of "''sequence''"] g [of "''previous_hash''"] h
    by (simp add: event_ok_def event_payload_dget Let_def del: serialisable.simps all_finite.simps)
qed

text \<open>What one write does to an undamaged store\<close>

lemma write_event_cases:
  assumes "events_ok R genesis 1 (file_lines (mfile s) @ [Parsed (canon (PDict rec))])" and "mend s \<noteq> Split_char"
  obtains (unwritten) "mend (write_event R rec w s) = mend s" "file_lines (mfile (write_event R rec w s)) = file_lines (mfile s)" "w = Some 0"
  | (cut) "mend s = Newline" "file_lines (mfile (write_event R rec w s)) = file_lines (mfile s) @ [Garbage]" "w \<noteq> None" "w \<noteq> Some 0"
  | (added) "mend s = Newline" "file_lines (mfile (write_event R rec w s)) = file_lines (mfile s) @ [Parsed (canon (PDict rec))]"
      "mend (write_event R rec w s) \<noteq> Split_char" "w = None \<longrightarrow> mend (write_event R rec w s) = Newline" "w \<noteq> Some 0"
  | (joined) "mend s = Open_end" "file_lines (mfile (write_event R rec w s)) = butlast (file_lines (mfile s)) @ [Garbage]" "w \<noteq> Some 0"
proof -
  let ?text = "utf8 (canonical_text R (PDict rec))"
  define n where "n = (case w of None \<Rightarrow> Suc (length ?text) | Some n \<Rightarrow> n)"
  obtain ls e where l: "write_line ?text (Parsed (canon (PDict rec))) n (file_lines (mfile s), mend s) = (ls, e)" by fastforce
  have w: "write_event R rec w s = s\<lparr>mfile := Lines ls, mend := e\<rparr>"
    unfolding write_event_def Let_def n_def [symmetric] l by simp
  have none: "w = None \<Longrightarrow> length ?text < n" by (simp add: n_def)
  show ?thesis
  proof (cases "n = 0")
    case True
    then have "w = Some 0" by (auto simp: n_def split: option.splits)
    then show ?thesis using l w True by (intro unwritten) simp_all
  next
    case False
    then have nz: "w \<noteq> Some 0" by (auto simp: n_def)
    show ?thesis
    proof (cases "mend s")
      case Newline
      show ?thesis
      proof (cases "n < length ?text")
        case True
        then have "w \<noteq> None" using none by auto
        then show ?thesis using l w False True nz Newline by (intro cut) (auto simp: write_line_def simp del: canon.simps)
      next
        case whole: False
        then show ?thesis using l w False nz none Newline by (intro added) (auto simp: write_line_def simp del: canon.simps split: if_splits)
      qed
    next
      case Open_end
      then show ?thesis using l w False nz by (intro joined) (auto simp: write_line_def simp del: canon.simps)
    qed (use assms(2) in simp)
  qed
qed

lemma content_lock [simp]: "content (s\<lparr>mlock := b\<rparr>) = content s"
  by (cases "mend s = Split_char") (simp_all add: content_def)

lemma write_event_file: "mfile (write_event R rec w s) \<noteq> NotUtf8" "mlock (write_event R rec w s) = mlock s"
  by (simp_all add: write_event_def Let_def case_prod_beta)

definition store_extends :: "measurement_store \<Rightarrow> measurement_store \<Rightarrow> bool" where
  "store_extends s t \<longleftrightarrow> (\<exists>more. sealed t = sealed s @ more)"

lemma store_extends_trans: "store_extends s t \<Longrightarrow> store_extends t u \<Longrightarrow> store_extends s u"
  unfolding store_extends_def by (metis append.assoc)

lemma write_event_ok:
  assumes ok: "events_ok R genesis 1 (file_lines (mfile s) @ [Parsed (canon (PDict rec))])" and e: "mend s \<noteq> Split_char"
  shows "store_inv R (write_event R rec w s) \<and> store_extends s (write_event R rec w s)
    \<and> (w = None \<longrightarrow> (damaged (write_event R rec w s) \<longleftrightarrow> mend s = Open_end))
    \<and> (w \<in> {None, Some 0} \<longrightarrow> mend s = Newline \<longrightarrow> \<not> damaged (write_event R rec w s) \<and> mend (write_event R rec w s) = Newline)"
proof -
  let ?t = "write_event R rec w s" and ?ls = "file_lines (mfile s)"
  have ls: "events_ok R genesis 1 ?ls" using events_ok_append [OF ok] .
  note old = clean_lines(1) [OF events_ok_clean [OF ls], of s, simplified]
  show ?thesis
    using ok e
  proof (cases rule: write_event_cases [where w = w])
    case unwritten
    then have "intact ?t = ?ls" "\<not> damaged ?t" using clean_lines(1) [OF events_ok_clean [OF ls], of ?t] by simp_all
    then show ?thesis using unwritten old ls e write_event_file(1)
      by (auto simp: store_inv_def store_extends_def sealed_def)
  next
    case cut
    then have "intact ?t = ?ls" "damaged ?t" using clean_lines(2) [OF events_ok_clean [OF ls], of ?t] by simp_all
    then show ?thesis using cut old ls write_event_file(1)
      by (auto simp: store_inv_def store_extends_def sealed_def)
  next
    case added
    then have "intact ?t = ?ls @ [Parsed (canon (PDict rec))]" "\<not> damaged ?t"
      using clean_lines(1) [OF events_ok_clean [OF ok], of ?t] by (simp_all del: canon.simps)
    then show ?thesis using added old ok write_event_file(1)
      by (auto simp: store_inv_def store_extends_def sealed_def simp del: canon.simps)
  next
    case joined
    then have b: "events_ok R genesis 1 (butlast ?ls)" using events_ok_butlast [OF ls] by simp
    then have "intact ?t = butlast ?ls" "damaged ?t" using clean_lines(2) [OF events_ok_clean [OF b], of ?t] joined by simp_all
    then show ?thesis using joined old b write_event_file(1)
      by (auto simp: store_inv_def store_extends_def sealed_def)
  qed
qed

text \<open>One append, to a store with a chain and to a damaged one\<close>

lemma append_snapshot_ok:
  assumes inv: "store_inv R s" and a: "append_snapshot R snapshot now w s = (t, r)"
  shows "store_inv R t \<and> store_extends s t \<and> mlock t = mlock s
    \<and> (damaged s \<longrightarrow> t = s \<and> (\<exists>e. r = Inl e))
    \<and> (w = None \<longrightarrow> (case r of Inl e \<Rightarrow> t = s | Inr d \<Rightarrow> damaged t \<longleftrightarrow> mend s = Open_end))
    \<and> (w \<in> {None, Some 0} \<longrightarrow> \<not> damaged s \<and> mend s = Newline \<longrightarrow> \<not> damaged t \<and> mend t = Newline)"
proof -
  have refl: "store_extends s s" by (simp add: store_extends_def)
  have same: ?thesis if "t = s" "\<exists>e. r = Inl e" using that inv refl by auto
  show ?thesis
  proof (cases "mlock s")
    case True
    then show ?thesis using a by (intro same) (auto simp: append_snapshot_def)
  next
    case False
    let ?s = "s\<lparr>mlock := True\<rparr>"
    have unlocked: "s\<lparr>mlock := False\<rparr> = s" using False by simp
    show ?thesis
    proof (cases rule: append_locked_cases [of R snapshot now w ?s])
      case (refused e)
      then show ?thesis using a False unlocked by (intro same) (auto simp: append_snapshot_def)
    next
      case (written st payload digest)
      have v: "verify_ledger R (content s) = Inr st" using written(1) by simp
      then have nd: "\<not> damaged s" using verify_store_inv [OF inv] by (auto split: if_splits)
      then have good: "events_ok R genesis 1 (file_lines (mfile s))" "mend s \<noteq> Split_char"
        using store_inv_cases [OF inv] by metis+
      have st: "events st = length (file_lines (mfile s))" "event_head st = events_head R genesis (file_lines (mfile s))"
        using v verify_store_inv [OF inv] nd by auto
      let ?rec = "payload @ [(''event_hash'', PStr digest)]"
      obtain d where d: "canon (PDict ?rec) = PDict d" by simp
      have "event_ok R (event_head st) (Suc (events st)) d"
        using written(2,3) d by (intro appended_event_ok) simp_all
      then have ok: "events_ok R genesis 1 (file_lines (mfile s) @ [Parsed (canon (PDict ?rec))])"
        using good(1) d st by (simp add: events_ok_snoc del: canon.simps)
      have "write_event R ?rec w ?s = (write_event R ?rec w s)\<lparr>mlock := True\<rparr>"
        by (simp add: write_event_def Let_def case_prod_beta)
      then have t: "t = write_event R ?rec w s" "r = (case w of Some n \<Rightarrow> raise OSError ''write failed''
          | None \<Rightarrow> Inr [(''status'', PStr ''APPENDED_HASH_CHAINED''), (''sequence'', PInt (int (Suc (events st)))), (''event_hash'', PStr digest)])"
        using a False written(4) write_event_file(2) [of R ?rec w s] by (auto simp: append_snapshot_def)
      show ?thesis
        using write_event_ok [OF ok good(2), of w] nd t write_event_file(2) [of R ?rec w s]
        by (auto split: option.splits)
    qed
  qed
qed

text \<open>
  What happens to a store: an append, whose write may raise after n bytes; a process killed before it
  writes or after n bytes of its line, which leaves the lock; and the operator who removes a lock.
\<close>

datatype store_event = Snapshot pydict string "nat option" | Killed | Killed_writing pydict string nat | Lock_removed

fun store_step :: "runtime \<Rightarrow> store_event \<Rightarrow> measurement_store \<Rightarrow> measurement_store" where
  "store_step R (Snapshot snapshot now w) s = fst (append_snapshot R snapshot now w s)"
| "store_step R Killed s = s\<lparr>mlock := True\<rparr>"
| "store_step R (Killed_writing snapshot now n) s = (fst (append_snapshot R snapshot now (Some n) s))\<lparr>mlock := True\<rparr>"
| "store_step R Lock_removed s = s\<lparr>mlock := False\<rparr>"

text \<open>Nothing of the line arrived, or all of it.\<close>

fun uncut :: "store_event \<Rightarrow> bool" where
  "uncut (Snapshot snapshot now w) \<longleftrightarrow> w \<in> {None, Some 0}"
| "uncut (Killed_writing snapshot now n) \<longleftrightarrow> n = 0"
| "uncut e \<longleftrightarrow> True"

lemma lock_irrelevant [simp]:
  "store_inv R (s\<lparr>mlock := b\<rparr>) = store_inv R s" "store_extends s (t\<lparr>mlock := b\<rparr>) = store_extends s t"
  "damaged (s\<lparr>mlock := b\<rparr>) = damaged s"
  by (simp_all add: store_inv_def store_extends_def sealed_def damaged_def intact_def)

interpretation store_runs: growing_machine "store_step R" "store_inv R" store_extends for R
proof unfold_locales
  fix s :: measurement_store and e
  assume i: "store_inv R s"
  have "store_inv R (fst (append_snapshot R snapshot now w s)) \<and> store_extends s (fst (append_snapshot R snapshot now w s))"
    for snapshot now w
    using append_snapshot_ok [OF i surjective_pairing, of snapshot now w] by blast
  then show "store_inv R (store_step R e s)" "store_extends s (store_step R e s)"
    using i by (cases e; simp add: store_extends_def [of s s])+
qed (simp_all add: store_extends_def [of s s for s], rule store_extends_trans)

lemma uncut_run:
  "\<lbrakk>store_inv R s; \<not> damaged s; mend s = Newline; list_all uncut evs\<rbrakk>
    \<Longrightarrow> \<not> damaged (fold (store_step R) evs s) \<and> mend (fold (store_step R) evs s) = Newline"
proof (induction evs arbitrary: s)
  case (Cons e evs)
  have "\<not> damaged (fst (append_snapshot R snapshot now w s)) \<and> mend (fst (append_snapshot R snapshot now w s)) = Newline"
    if "w \<in> {None, Some 0}" for snapshot now w
    using append_snapshot_ok [OF Cons.prems(1) surjective_pairing, of snapshot now w] Cons.prems that by blast
  then have "\<not> damaged (store_step R e s) \<and> mend (store_step R e s) = Newline"
    using Cons.prems by (cases e) auto
  then show ?case using Cons store_runs.step_inv [OF Cons.prems(1), of e] by simp
qed simp

section \<open>Tamper evidence\<close>

definition event_entry_ok :: "runtime \<Rightarrow> nat \<Rightarrow> pydict \<Rightarrow> bool" where
  "event_entry_ok R n d \<longleftrightarrow> runtime_ok R \<and> json_ok (PDict d) \<and> py_eq_int (dget d ''sequence'') (int n)"

definition same_event :: "pydict \<Rightarrow> pydict \<Rightarrow> bool" where
  "same_event d e \<longleftrightarrow> canon (PDict d) = canon (PDict e)"

lemma py_eq_int_unique: "py_eq_int v n \<Longrightarrow> py_eq_int v m \<Longrightarrow> n = m"
  by (induction v n rule: py_eq_int.induct) auto

lemma py_eq_int_canon [simp]: "py_eq_int (canon v) n = py_eq_int v n"
  by (cases v) auto

lemma same_event_dget:
  assumes "json_ok (PDict d)" "json_ok (PDict e)" "same_event d e"
  shows "canon (dget d k) = canon (dget e k)"
proof -
  obtain c where c: "canon (PDict d) = PDict c" by simp
  have ce: "canon (PDict e) = PDict c" using assms(3) c by (simp add: same_event_def)
  have "distinct (List.map fst d)" "distinct (List.map fst e)" using assms(1,2) by simp_all
  from dget_canon [OF this(1) c] dget_canon [OF this(2) ce] show ?thesis by metis
qed

lemma event_text_inj:
  assumes "event_entry_ok R n d" "event_entry_ok R m e"
    and h: "runtime_ok R \<longrightarrow> is_sha256_hex h" "runtime_ok R \<longrightarrow> is_sha256_hex k"
    and eq: "event_text R h d = event_text R k e"
  shows "h = k \<and> n = m \<and> same_event d e"
proof -
  have R: "runtime_ok R" and d: "json_ok (PDict d)" "py_eq_int (dget d ''sequence'') (int n)"
    and e: "json_ok (PDict e)" "py_eq_int (dget e ''sequence'') (int m)"
    using assms(1,2) by (simp_all add: event_entry_ok_def del: json_ok_simps)
  have "h = k \<and> CHR 0x0A # utf8 (canonical_text R (PDict d)) = CHR 0x0A # utf8 (canonical_text R (PDict e))"
    using h R eq by (intro append_eq_append_conv [THEN iffD1]) (simp_all add: event_text_def is_sha256_hex_def)
  then have hk: "h = k" and "canonical_text R (PDict d) = canonical_text R (PDict e)"
    using utf8_inj by blast+
  then have s: "same_event d e" unfolding same_event_def by (intro canonical_text_inj [OF R d(1) e(1)])
  have "py_eq_int (dget e ''sequence'') (int n)"
    using same_event_dget [OF d(1) e(1) s, of "''sequence''"] d(2) py_eq_int_canon by metis
  then have "int m = int n" by (rule py_eq_int_unique [OF e(2)])
  then show ?thesis using hk s by simp
qed

interpretation event_chain: hash_chain "sha256_hex R" "event_text R" "event_entry_ok R" same_event
  "\<lambda>h. runtime_ok R \<longrightarrow> is_sha256_hex h" for R
  by unfold_locales (simp add: runtime_ok_def, rule event_text_inj)

lemma json_ok_dremove: "json_ok (PDict d) \<Longrightarrow> json_ok (PDict (dremove k d))"
  by (auto simp: dremove_def distinct_map_filter)

lemma events_ok_numbered:
  "runtime_ok R \<Longrightarrow> events_ok R p n ls \<Longrightarrow> list_all parsed_ok ls \<Longrightarrow> numbered (event_entry_ok R) n (event_records ls)"
proof (induction R p n ls rule: events_ok.induct)
  case (2 R p n d ls)
  then show ?case
    using json_ok_dremove [of d "''event_hash''"]
    by (simp add: event_entry_ok_def event_ok_def Let_def del: json_ok_simps)
qed simp_all

section \<open>Snapshots can always be hashed\<close>

lemma metric_dumpable: "metric v u s r = Inr m \<Longrightarrow> dumpable m"
  by (auto simp: metric_def unknown_metric_def and_then_Inr as_num_Some split: option.splits if_splits)

lemma unknown_metric_dumpable: "dumpable (unknown_metric u s r)"
  by (simp add: unknown_metric_def)

lemma dumpable_entries: "(\<And>x. dumpable (g x)) \<Longrightarrow> dumpable (List.map (\<lambda>(k, u). (k, PDict (g u))) xs)"
  by (induction xs) (auto simp: dumpable_dict [symmetric])

lemma dumpable_PDict: "dumpable m \<Longrightarrow> serialisable (PDict m)" "dumpable m \<Longrightarrow> all_finite (PDict m)"
  by (simp_all only: dumpable_dict [symmetric])

lemma host_metrics_dumpable: "dumpable (host_metrics p)"
  using metric_dumpable
  by (auto simp: host_metrics_def io_metrics_def four_unknown_def Let_def unknown_metric_dumpable
      simp del: serialisable.simps(9) all_finite.simps(9)
      intro!: dumpable_entries dumpable_PDict split: host_probe.split io_probe.split sum.split)

lemma disk_metrics_dumpable: "dumpable (disk_metrics dir p)"
  using metric_dumpable
  by (auto simp: disk_metrics_def Let_def unknown_metric_dumpable
      simp del: serialisable.simps(9) all_finite.simps(9)
      intro!: dumpable_entries dumpable_PDict split: disk_probe.split sum.split)

lemma dhas_append: "dhas (d @ e) k \<longleftrightarrow> dhas d k \<or> dhas e k"
  by (induction d) auto

lemma dget_append: "dget (d @ e) k = (if dhas d k then dget d k else dget e k)"
  by (induction d) auto

lemma host_metrics_keys: "dkeys (host_metrics p) = [''cpu_percent'', ''memory_percent'', ''disk_read_bytes'', ''disk_write_bytes'']"
  by (simp add: host_metrics_def io_metrics_def four_unknown_def dkeys_def Let_def split: host_probe.split io_probe.split sum.split)

lemma disk_metrics_keys: "dkeys (disk_metrics dir p) = [''disk_used_percent'', ''disk_total_bytes'', ''disk_free_bytes'']"
  by (simp add: disk_metrics_def dkeys_def Let_def split: disk_probe.split sum.split)

definition ecological_keys :: "string list" where
  "ecological_keys = [''energy_wh'', ''water_litres'', ''co2e_grams'', ''material_grams'']"

lemma ecological_lookup:
  assumes "k \<in> set ecological_keys"
  shows "dget (host_metrics h @ disk_metrics dir p @ ecological_metrics) k = dget ecological_metrics k"
  using assms by (auto simp: dget_append dhas_iff host_metrics_keys disk_metrics_keys ecological_keys_def)

lemma ecological_dumpable: "dumpable ecological_metrics"
  by (simp add: ecological_metrics_def unknown_metric_def)

lemma snapshot_dumpable: "dumpable (collect_snapshot dir now eid h p)"
proof -
  have "dumpable [(k, dget (host_metrics h @ disk_metrics dir p @ ecological_metrics) k)]" if "k \<in> set ecological_keys" for k
    using that ecological_dumpable ecological_lookup [OF that, of h dir p]
    by (auto simp: ecological_keys_def ecological_metrics_def unknown_metric_def)
  then have "dumpable (List.map (\<lambda>k. (k, dget (host_metrics h @ disk_metrics dir p @ ecological_metrics) k)) ecological_keys)"
    by (auto simp: dumpable_def list_all_iff)
  then show ?thesis
    by (simp add: collect_snapshot_def Let_def ecological_keys_def dumpable_PDict host_metrics_dumpable
        disk_metrics_dumpable ecological_dumpable del: serialisable.simps(9) all_finite.simps(9) list.map)
qed

lemma event_hash_payload: "dumpable snap \<Longrightarrow> \<exists>h. event_hash R p (event_payload n p now snap) = Inr h
    \<and> dumpable (event_payload n p now snap @ [(''event_hash'', PStr h)])"
proof -
  assume "dumpable snap"
  then have "dumpable (event_payload n p now snap)"
    by (simp add: event_payload_def dumpable_PDict del: serialisable.simps(9) all_finite.simps(9))
  then show ?thesis by (simp add: event_hash_ok dumpable_PDict del: serialisable.simps(9) all_finite.simps(9))
qed

section \<open>Properties\<close>

lemma collected_append_returns:
  assumes "store_inv R s" "\<not> damaged s" "\<not> mlock s"
  shows "\<exists>s' r rec. append_snapshot R (collect_snapshot dir now eid h p) ts None s = (s', Inr r) \<and> \<not> mlock s'
    \<and> (mend s = Newline \<longrightarrow> file_lines (mfile s') = file_lines (mfile s) @ [Parsed (canon (PDict rec))])"
proof -
  obtain st where v: "verify_ledger R (content s) = Inr st"
    using verify_store_inv [OF assms(1)] assms(2) by auto
  let ?payload = "event_payload (Suc (events st)) (event_head st) ts (collect_snapshot dir now eid h p)"
  obtain d where d: "event_hash R (event_head st) ?payload = Inr d" "dumpable (?payload @ [(''event_hash'', PStr d)])"
    using event_hash_payload [OF snapshot_dumpable] by blast
  let ?rec = "?payload @ [(''event_hash'', PStr d)]"
  have "dumps_canonical R False (PDict ?rec) = Inr (canonical_text R (PDict ?rec))"
    using d(2) by (simp add: dumps_canonical_def dumps_checked_def dumpable_PDict del: serialisable.simps(9) all_finite.simps(9))
  then show ?thesis
    using assms(3) v d(1)
    by (auto simp: append_snapshot_def append_locked_def write_event_def Let_def case_prod_beta simp del: canon.simps)
qed

text \<open>
  every snapshot the collector can build, whatever the probes return or raise, is appended
  to a valid unlocked file that ends in a newline: the append succeeds, adds exactly one line, releases
  the lock, and the file verifies again with one more event.
\<close>

theorem collected_snapshot_is_appended:
  assumes "store_inv R s" "\<not> damaged s" "mend s = Newline" "\<not> mlock s"
  shows "\<exists>s' r l. append_snapshot R (collect_snapshot dir now eid h p) ts None s = (s', Inr r)
    \<and> file_lines (mfile s') = file_lines (mfile s) @ [l] \<and> \<not> mlock s'
    \<and> (\<exists>st. verify_ledger R (content s') = Inr st \<and> events st = Suc (length (file_lines (mfile s))))"
proof -
  obtain s' r rec where a: "append_snapshot R (collect_snapshot dir now eid h p) ts None s = (s', Inr r)"
      and s': "file_lines (mfile s') = file_lines (mfile s) @ [Parsed (canon (PDict rec))]" "\<not> mlock s'"
    using collected_append_returns [OF assms(1,2,4), of dir now eid h p ts] assms(3) by blast
  have "store_inv R s'" "\<not> damaged s'" using append_snapshot_ok [OF assms(1) a] assms(3) by auto
  then have "\<exists>x. verify_ledger R (content s') = Inr x \<and> events x = length (file_lines (mfile s'))"
    using verify_store_inv [of R s'] by auto
  then show ?thesis using a s' by (intro exI [of _ s'] exI [of _ r]) (simp del: canon.simps)
qed

text \<open>A write that stopped just before its newline still verifies; the next append reports success and joins it.\<close>

lemma joined_event_is_reported_appended:
  assumes "store_inv R s" "\<not> damaged s" "mend s = Open_end" "\<not> mlock s"
  shows "\<exists>s' r e. append_snapshot R (collect_snapshot dir now eid h p) ts None s = (s', Inr r)
    \<and> verify_ledger R (content s') = Inl e"
proof -
  obtain s' r where a: "append_snapshot R (collect_snapshot dir now eid h p) ts None s = (s', Inr r)"
    using collected_append_returns [OF assms(1,2,4), of dir now eid h p ts] by blast
  have "store_inv R s'" "damaged s'" using append_snapshot_ok [OF assms(1) a] assms(3) by auto
  then show ?thesis using a verify_store_inv [of R s'] by auto
qed

theorem collected_snapshot_is_appended_witness:
  "\<exists>s' r l. append_snapshot sample_runtime (collect_snapshot ''/'' ''t'' ''id'' (PsutilReads (PFloat NaN) PNone IoNone) (DiskReads 0 0)) ''t1'' None
      \<lparr> mfile = Absent, mend = Newline, mlock = False \<rparr> = (s', Inr r)
    \<and> file_lines (mfile s') = file_lines Absent @ [l] \<and> \<not> mlock s'
    \<and> (\<exists>st. verify_ledger sample_runtime (content s') = Inr st \<and> events st = Suc (length (file_lines Absent)))"
  using collected_snapshot_is_appended [of sample_runtime "\<lparr> mfile = Absent, mend = Newline, mlock = False \<rparr>"]
  by (simp add: store_inv_def damaged_def)



text \<open>
  tamper evidence of the measurement file: two files that verify with the same last hash
  hold the same events up to the order of keys, or exhibit a SHA-256 collision between their own
  digest inputs or a preimage of the genesis constant.
\<close>

theorem same_head_same_events:
  assumes R: "runtime_ok R" and p: "list_all parsed_ok ls" "list_all parsed_ok ls'"
    and v: "verify_ledger R (Lines ls) = Inr st" "verify_ledger R (Lines ls') = Inr st'"
    and h: "event_head st = event_head st'"
  shows "list_all2 same_event (event_records ls) (event_records ls')
    \<or> clash (sha256_hex R) (links (sha256_hex R) (event_text R) genesis (event_records ls))
        (links (sha256_hex R) (event_text R) genesis (event_records ls'))
    \<or> hits (sha256_hex R) genesis (links (sha256_hex R) (event_text R) genesis (event_records ls)
        @ links (sha256_hex R) (event_text R) genesis (event_records ls'))"
proof -
  have o: "events_ok R genesis 1 ls" "events_ok R genesis 1 ls'" "events_head R genesis ls = events_head R genesis ls'"
    using v h by (simp_all add: verify_ledger_Lines)
  show ?thesis
    using events_ok_numbered [OF R o(1) p(1)] events_ok_numbered [OF R o(2) p(2)] o(3) genesis_hex
    by (intro event_chain.same_head_same_log [of R 1]) simp_all
qed

lemma sample_events:
  "\<exists>l. events_ok sample_runtime genesis 1 [l] \<and> parsed_ok l"
proof -
  obtain h where h: "event_hash sample_runtime genesis (event_payload 1 genesis ''t'' []) = Inr h"
    using event_hash_payload [of "[]" sample_runtime genesis 1 "''t''"] by auto
  obtain d where d: "canon (PDict (event_payload 1 genesis ''t'' [] @ [(''event_hash'', PStr h)])) = PDict d" by simp
  have "json_ok (PDict (event_payload 1 genesis ''t'' [] @ [(''event_hash'', PStr h)]))" by (simp add: event_payload_def)
  then have "json_ok (PDict d)" using json_ok_canon d by metis
  moreover have "event_ok sample_runtime genesis 1 d" by (rule appended_event_ok [OF h d])
  ultimately show ?thesis by (intro exI [of _ "Parsed (PDict d)"]) (simp del: json_ok_simps)
qed

theorem same_head_same_events_witness:
  "\<exists>ls. ls \<noteq> [] \<and> (list_all2 same_event (event_records ls) (event_records ls)
    \<or> clash (sha256_hex sample_runtime) (links (sha256_hex sample_runtime) (event_text sample_runtime) genesis (event_records ls))
        (links (sha256_hex sample_runtime) (event_text sample_runtime) genesis (event_records ls))
    \<or> hits (sha256_hex sample_runtime) genesis (links (sha256_hex sample_runtime) (event_text sample_runtime) genesis (event_records ls)
        @ links (sha256_hex sample_runtime) (event_text sample_runtime) genesis (event_records ls)))"
proof -
  obtain l where l: "events_ok sample_runtime genesis 1 [l]" "parsed_ok l" using sample_events by blast
  let ?st = "\<lparr> status = ''CHAIN_VALID'', events = 1, event_head = events_head sample_runtime genesis [l] \<rparr>"
  have v: "verify_ledger sample_runtime (Lines [l]) = Inr ?st" using l by (simp add: verify_ledger_Lines)
  have p: "list_all parsed_ok [l]" using l by simp
  show ?thesis using same_head_same_events [OF sample_runtime_ok p p v v refl] by (intro exI [of _ "[l]"]) simp
qed

text \<open>
  ecological values are never inferred: whatever the probes return, energy, water, CO2e and
  material are reported without a value and as UNKNOWN, in both places of the snapshot.
\<close>

theorem ecological_values_never_inferred:
  "list_all (\<lambda>part. list_all (\<lambda>k. get_in (get_in (dget (collect_snapshot dir now eid h p) part) k) ''value'' = PNone
      \<and> get_in (get_in (dget (collect_snapshot dir now eid h p) part) k) ''status'' = PStr ''UNKNOWN'') ecological_keys)
    [''host_measurements'', ''ecological_measurements'']"
proof -
  let ?m = "host_metrics h @ disk_metrics dir p @ ecological_metrics"
  have e: "get_in (dget ecological_metrics k) ''value'' = PNone \<and> get_in (dget ecological_metrics k) ''status'' = PStr ''UNKNOWN''"
    if "k \<in> set ecological_keys" for k
    using that by (auto simp: ecological_keys_def ecological_metrics_def unknown_metric_def)
  have "dget (List.map (\<lambda>k. (k, dget ?m k)) ecological_keys) k = dget ?m k" if "k \<in> set ecological_keys" for k
    using that by (auto simp: ecological_keys_def)
  then show ?thesis
    using e ecological_lookup [of _ h dir p]
    by (simp add: collect_snapshot_def Let_def ecological_keys_def [symmetric] list_all_iff del: list.map)
qed

text \<open>
  the command line is not fail-closed on a record that holds NaN. After a valid prefix, a
  record with the right sequence number and previous hash but a non-finite number anywhere makes
  \<open>event_hash\<close> raise ValueError, which neither \<open>verify_ledger\<close> nor \<open>main\<close> catches; every other
  invalid record of a UTF-8 file gives exit code 2.
\<close>

theorem nan_record_escapes_main:
  assumes "events_ok R genesis 1 ls" "serialisable (PDict (dremove ''event_hash'' d))"
    and "py_eq_int (dget (dremove ''event_hash'' d) ''sequence'') (int (Suc (length ls)))"
    and "dget (dremove ''event_hash'' d) ''previous_hash'' = PStr (events_head R genesis ls)"
  shows "(\<not> all_finite (PDict (dremove ''event_hash'' d)) \<longleftrightarrow>
      main_verify_only R (Lines (ls @ [Parsed (PDict d)])) = raise ValueError ''Out of range float values are not JSON compliant'')
    \<and> (all_finite (PDict (dremove ''event_hash'' d)) \<longrightarrow>
      main_verify_only R (Lines (ls @ [Parsed (PDict d)])) = Inr (if event_ok R (events_head R genesis ls) (Suc (length ls)) d then 0 else 2))"
proof -
  have run: "events_ok R g n xs \<Longrightarrow> verify_events R g n (xs @ ys) = verify_events R (events_head R g xs) (n + length xs) ys" for g n xs ys
  proof (induction R g n xs rule: events_ok.induct)
    case (2 R p n d ls)
    then show ?case by (auto simp: event_ok_def event_hash_ok Let_def ensure_def)
  qed auto
  show ?thesis
    using run [OF assms(1), of "[Parsed (PDict d)]"] assms(2-4)
    by (auto simp: main_verify_only_def main_code_def verify_ledger_def Let_def event_hash_ok ensure_def event_ok_def
        caught_by_def issubclass_def simp del: serialisable.simps(9) all_finite.simps(9))
qed

theorem nan_record_escapes_main_witness:
  "main_verify_only sample_runtime (Lines [Parsed (PDict [(''sequence'', PInt 1), (''previous_hash'', PStr genesis), (''x'', PFloat NaN)])])
    = raise ValueError ''Out of range float values are not JSON compliant''"
  using nan_record_escapes_main [of sample_runtime "[]" "[(''sequence'', PInt 1), (''previous_hash'', PStr genesis), (''x'', PFloat NaN)]"]
  by (simp add: dremove_def)

end
