(* ===== verification/PeerSync.thy ===== *)
theory PeerSync
  imports TextFile
begin

text \<open>
  \<open>controller/peer_sync.py\<close>: authenticated heartbeats. Creation, the validation of a received
  message in the order of the code, the replay and freshness state of the registry, and the
  marking of silent peers. HMAC is \<open>hmac_hex\<close> of the runtime.
\<close>

section \<open>Heartbeats\<close>

definition peer_states :: "string list" where
  "peer_states = [''READY'', ''BUSY'', ''DEGRADED'', ''STOPPING'']"

definition heartbeat_keys :: "string list" where
  "heartbeat_keys = [''schema_version'', ''peer_id'', ''key_id'', ''sequence'', ''timestamp'',
     ''software_version'', ''capabilities'', ''state'', ''signature'']"

definition canonical_bytes :: "runtime \<Rightarrow> pydict \<Rightarrow> exc + string" where
  "canonical_bytes R payload = and_then (dumps_canonical R False (PDict payload)) (\<lambda>t. Inr (utf8 t))"

text \<open>The dataclass \<open>PeerHeartbeat\<close> with its two dictionaries\<close>

record peer_heartbeat =
  hb_peer :: string
  hb_key :: string
  hb_sequence :: pyval
  hb_timestamp :: pyfloat
  hb_version :: string
  hb_capabilities :: "string list"
  hb_state :: string
  hb_signature :: string
  hb_schema :: int

definition unsigned_payload :: "peer_heartbeat \<Rightarrow> pydict" where
  "unsigned_payload h = [(''schema_version'', PInt (hb_schema h)), (''peer_id'', PStr (hb_peer h)), (''key_id'', PStr (hb_key h)),
     (''sequence'', hb_sequence h), (''timestamp'', PFloat (hb_timestamp h)), (''software_version'', PStr (hb_version h)),
     (''capabilities'', PList (List.map PStr (hb_capabilities h))), (''state'', PStr (hb_state h))]"

definition heartbeat_dict :: "peer_heartbeat \<Rightarrow> pydict" where
  "heartbeat_dict h = unsigned_payload h @ [(''signature'', PStr (hb_signature h))]"

definition good_secret :: "pyval \<Rightarrow> bool" where
  "good_secret v = (case v of PBytes b \<Rightarrow> 32 \<le> length b | _ \<Rightarrow> False)"

fun secret_bytes :: "pyval \<Rightarrow> string" where
  "secret_bytes (PBytes b) = b"
| "secret_bytes _ = []"

definition positive_int :: "pyval \<Rightarrow> bool" where
  "positive_int v = (case as_int v of Some i \<Rightarrow> 1 \<le> i | None \<Rightarrow> False)"

definition heartbeat_payload :: "string \<Rightarrow> string \<Rightarrow> pyval \<Rightarrow> pyfloat \<Rightarrow> string \<Rightarrow> string list \<Rightarrow> string \<Rightarrow> pydict" where
  "heartbeat_payload peer key sequence ts version caps state =
     [(''schema_version'', PInt 1), (''peer_id'', PStr peer), (''key_id'', PStr key), (''sequence'', sequence),
      (''timestamp'', PFloat ts), (''software_version'', PStr version),
      (''capabilities'', PList (List.map PStr caps)), (''state'', PStr state)]"

fun str_of :: "pyval \<Rightarrow> string" where
  "str_of (PStr s) = s"
| "str_of _ = []"

definition create_heartbeat :: "runtime \<Rightarrow> string \<Rightarrow> string \<Rightarrow> pyval \<Rightarrow> pyval \<Rightarrow> string \<Rightarrow> pyval list \<Rightarrow> string \<Rightarrow> pyval \<Rightarrow> exc + pydict" where
  "create_heartbeat R peer key secret sequence version caps state sent_at =
     and_then (ensure (good_secret secret) HeartbeatError ''secret must contain at least 32 bytes'') (\<lambda>_.
     and_then (ensure (peer \<noteq> [] \<and> key \<noteq> [] \<and> version \<noteq> []) HeartbeatError ''peer_id, key_id and software_version are required'') (\<lambda>_.
     and_then (ensure (positive_int sequence) HeartbeatError ''sequence must be a positive integer'') (\<lambda>_.
     and_then (ensure (state \<in> set peer_states) HeartbeatError ''unsupported peer state'') (\<lambda>_.
     and_then (ensure (list_all nonempty_str caps) HeartbeatError ''capabilities must be non-empty strings'') (\<lambda>_.
     and_then (ensure (distinct caps) HeartbeatError ''capabilities must be unique'') (\<lambda>_.
     (case as_num sent_at of None \<Rightarrow> raise HeartbeatError ''timestamp must be numeric'' | Some n \<Rightarrow>
     and_then (py_isfinite n) (\<lambda>fin.
     and_then (ensure fin HeartbeatError ''timestamp must be finite'') (\<lambda>_.
     and_then (py_float n) (\<lambda>ts.
     let payload = heartbeat_payload peer key sequence ts version (sort (List.map str_of caps)) state in
     and_then (canonical_bytes R payload) (\<lambda>b.
     Inr (payload @ [(''signature'', PStr (hmac_hex R (secret_bytes secret) b))]))))))))))))"

section \<open>The registry\<close>

record peer_result =
  result_peer :: "string option"
  result_state :: string
  result_reason :: string
  result_sequence :: "int option"

record peer_registry =
  trusted_keys :: "string \<Rightarrow> (string \<times> pyval) option"
  max_age :: pyfloat
  future_skew :: pyfloat
  last_sequence :: "string \<Rightarrow> int option"
  states :: "string \<Rightarrow> peer_result option"
  accepted_at :: "string \<Rightarrow> pyfloat option"

definition new_registry :: "(string \<Rightarrow> (string \<times> pyval) option) \<Rightarrow> pyfloat \<Rightarrow> pyfloat \<Rightarrow> exc + peer_registry" where
  "new_registry keys age skew =
     (if fle age (Fin 0) \<or> flt skew (Fin 0) then raise ValueError ''invalid freshness limits''
      else Inr \<lparr> trusted_keys = keys, max_age = age, future_skew = skew,
        last_sequence = Map.empty, states = Map.empty, accepted_at = Map.empty \<rparr>)"

definition hashable :: "pyval \<Rightarrow> bool" where
  "hashable v \<longleftrightarrow> \<not> is_list v \<and> \<not> is_dict v"

text \<open>The checks inside the \<open>try\<close> of \<open>receive\<close>, in their order.\<close>

definition check_message :: "pydict \<Rightarrow> pynum \<Rightarrow> exc + unit" where
  "check_message m now =
     and_then (ensure (set (dkeys m) = set heartbeat_keys) HeartbeatError ''schema fields do not match'') (\<lambda>_.
     and_then (ensure (\<not> is_bool (dget m ''schema_version'') \<and> py_eq_int (dget m ''schema_version'') 1)
       HeartbeatError ''unsupported schema version'') (\<lambda>_.
     and_then (ensure (nonempty_str (dget m ''peer_id'')) HeartbeatError ''invalid peer_id'') (\<lambda>_.
     and_then (ensure (nonempty_str (dget m ''key_id'')) HeartbeatError ''invalid key_id'') (\<lambda>_.
     and_then (ensure (positive_int (dget m ''sequence'')) HeartbeatError ''invalid sequence'') (\<lambda>_.
     (case as_num (dget m ''timestamp'') of None \<Rightarrow> raise HeartbeatError ''invalid timestamp'' | Some ts \<Rightarrow>
     and_then (py_isfinite ts) (\<lambda>fin.
     and_then (ensure fin HeartbeatError ''invalid timestamp'') (\<lambda>_.
     and_then (ensure (nonempty_str (dget m ''software_version'')) HeartbeatError ''invalid software_version'') (\<lambda>_.
     and_then (ensure (is_list (dget m ''capabilities'') \<and> list_all nonempty_str (subvals (dget m ''capabilities'')))
       HeartbeatError ''invalid capabilities'') (\<lambda>_.
     and_then (ensure (distinct (subvals (dget m ''capabilities''))) HeartbeatError ''duplicate capabilities'') (\<lambda>_.
     and_then (ensure (hashable (dget m ''state'')) TypeError ''unhashable type'') (\<lambda>_.
     and_then (ensure (dget m ''state'' \<in> set (List.map PStr peer_states)) HeartbeatError ''invalid state'') (\<lambda>_.
     and_then (ensure (is_str (dget m ''signature'') \<and> length (str_of (dget m ''signature'')) = 64)
       HeartbeatError ''invalid signature format'') (\<lambda>_.
     and_then (py_isfinite now) (\<lambda>fin'.
     ensure fin' HeartbeatError ''invalid receiver time'')))))))))))))))"

definition invalid_result :: "string option \<Rightarrow> string \<Rightarrow> int option \<Rightarrow> peer_result" where
  "invalid_result p reason s = \<lparr> result_peer = p, result_state = ''INVALID'', result_reason = reason, result_sequence = s \<rparr>"

definition int_of_val :: "pyval \<Rightarrow> int" where
  "int_of_val v = (case as_int v of Some i \<Rightarrow> i | None \<Rightarrow> 0)"

definition num_of_val :: "pyval \<Rightarrow> pynum" where
  "num_of_val v = (case as_num v of Some n \<Rightarrow> n | None \<Rightarrow> NInt 0)"

definition last_seen :: "peer_registry \<Rightarrow> string \<Rightarrow> int" where
  "last_seen r p = (case last_sequence r p of None \<Rightarrow> 0 | Some s \<Rightarrow> s)"

text \<open>What follows the signature check: future skew, replay, and the state update.\<close>

definition admit :: "string \<Rightarrow> int \<Rightarrow> pyfloat \<Rightarrow> pyfloat \<Rightarrow> peer_registry \<Rightarrow> peer_registry \<times> peer_result" where
  "admit peer sq now ts r =
     (let age = fsub now ts in
      if flt age (fneg (future_skew r)) then (r, invalid_result (Some peer) ''heartbeat timestamp is too far in the future'' (Some sq))
      else if sq \<le> last_seen r peer then (r, invalid_result (Some peer) ''replay or non-increasing sequence'' (Some sq))
      else
        let stale = flt (max_age r) age;
            res = \<lparr> result_peer = Some peer, result_state = (if stale then ''STALE'' else ''ALIVE_VERIFIED''),
              result_reason = (if stale then ''heartbeat exceeded freshness window'' else ''signature and freshness verified''),
              result_sequence = Some sq \<rparr> in
        (r\<lparr>last_sequence := (last_sequence r)(peer \<mapsto> sq), states := (states r)(peer \<mapsto> res),
           accepted_at := (if stale then accepted_at r else (accepted_at r)(peer \<mapsto> now))\<rparr>, res))"

definition receive :: "runtime \<Rightarrow> pydict \<Rightarrow> pynum \<Rightarrow> peer_registry \<Rightarrow> peer_registry \<times> (exc + peer_result)" where
  "receive R m now r =
     (case check_message m now of
        Inl e \<Rightarrow> if caught_by e [HeartbeatError, TypeError, ValueError] then (r, Inr (invalid_result None (snd e) None)) else (r, Inl e)
      | Inr _ \<Rightarrow>
        let peer = str_of (dget m ''peer_id''); sq = int_of_val (dget m ''sequence'');
            bad = (\<lambda>reason. (r, Inr (invalid_result (Some peer) reason (Some sq)))) in
        (case trusted_keys r (str_of (dget m ''key_id'')) of
           None \<Rightarrow> bad ''unknown key_id''
         | Some (expected, secret) \<Rightarrow>
             if peer \<noteq> expected then bad ''key is not bound to this peer_id''
             else if \<not> good_secret secret then bad ''trusted key material is invalid''
             else
               attempt r (canonical_bytes R (dremove ''signature'' m)) (\<lambda>b.
               attempt r (compare_digest (str_of (dget m ''signature'')) (PStr (hmac_hex R (secret_bytes secret) b))) (\<lambda>same.
               if \<not> same then bad ''signature verification failed''
               else attempt r (py_float now) (\<lambda>t.
                    attempt r (py_float (num_of_val (dget m ''timestamp''))) (\<lambda>ts.
                    let x = admit peer sq t ts r in (fst x, Inr (snd x))))))))"

definition receive_and_track :: "runtime \<Rightarrow> pydict \<Rightarrow> pynum \<Rightarrow> peer_registry \<Rightarrow> peer_registry \<times> (exc + peer_result)" where
  "receive_and_track R m now r =
     (case receive R m now r of
        (r', Inl e) \<Rightarrow> (r', Inl e)
      | (r', Inr res) \<Rightarrow>
          (case result_peer res of
             Some p \<Rightarrow> if result_state res = ''ALIVE_VERIFIED''
               then attempt r' (py_float now) (\<lambda>t. (r'\<lparr>accepted_at := (accepted_at r')(p \<mapsto> t)\<rparr>, Inr res))
               else (r', Inr res)
           | None \<Rightarrow> (r', Inr res)))"

definition mark_one :: "peer_registry \<Rightarrow> pyfloat \<Rightarrow> string \<Rightarrow> peer_result \<Rightarrow> peer_result" where
  "mark_one r now p res =
     (case accepted_at r p of
        Some a \<Rightarrow> if result_state res = ''ALIVE_VERIFIED'' \<and> flt (max_age r) (fsub now a)
          then \<lparr> result_peer = Some p, result_state = ''STALE'', result_reason = ''no fresh heartbeat within configured window'',
                 result_sequence = result_sequence res \<rparr> else res
      | None \<Rightarrow> res)"

definition mark_unseen_stale :: "pyfloat \<Rightarrow> peer_registry \<Rightarrow> peer_registry" where
  "mark_unseen_stale now r = r\<lparr>states := (\<lambda>p. map_option (mark_one r now p) (states r p))\<rparr>"

section \<open>Runs\<close>

datatype peer_event = Receive pydict pynum | Track pydict pynum | MarkStale pyfloat

fun peer_step :: "runtime \<Rightarrow> peer_event \<Rightarrow> peer_registry \<Rightarrow> peer_registry" where
  "peer_step R (Receive m now) r = fst (receive R m now r)"
| "peer_step R (Track m now) r = fst (receive_and_track R m now r)"
| "peer_step R (MarkStale now) r = mark_unseen_stale now r"

definition authentic :: "runtime \<Rightarrow> peer_registry \<Rightarrow> pydict \<Rightarrow> string \<Rightarrow> bool" where
  "authentic R r m peer \<longleftrightarrow> (case trusted_keys r (str_of (dget m ''key_id'')) of
     None \<Rightarrow> False
   | Some (expected, secret) \<Rightarrow> expected = peer \<and> good_secret secret \<and> dget m ''peer_id'' = PStr peer
       \<and> canonical_bytes R (dremove ''signature'' m) = Inr (utf8 (canonical_text R (PDict (dremove ''signature'' m))))
       \<and> dget m ''signature'' = PStr (hmac_hex R (secret_bytes secret) (utf8 (canonical_text R (PDict (dremove ''signature'' m))))))"

lemma ensure_and_then: "and_then (ensure b c msg) f = (if b then f () else raise c msg)"
  by (simp add: ensure_def)

lemma check_message_Inr:
  assumes "check_message m now = Inr u"
  shows "nonempty_str (dget m ''peer_id'')" "positive_int (dget m ''sequence'')" "is_str (dget m ''signature'')"
  using assms by (auto simp: check_message_def and_then_Inr split: option.splits)

lemma canonical_bytes_Inr: "canonical_bytes R d = Inr b \<Longrightarrow> b = utf8 (canonical_text R (PDict d))"
  by (auto simp: canonical_bytes_def and_then_Inr dumps_canonical_def dumps_checked_def split: if_splits)

text \<open>Every outcome of \<open>receive\<close>: the registry is left alone, or an authentic message was admitted.\<close>

lemma receive_cases:
  obtains (unchanged) x where "receive R m now r = (r, x)" "\<And>res. x = Inr res \<Longrightarrow> result_state res = ''INVALID''"
  | (admitted) peer sq t ts where "receive R m now r = (fst (admit peer sq t ts r), Inr (snd (admit peer sq t ts r)))"
      "authentic R r m peer" "dget m ''sequence'' = PInt sq" "1 \<le> sq" "py_float now = Inr t"
proof -
  obtain y where y: "receive R m now r = y" by blast
  show thesis
  proof (cases "check_message m now")
    case (Inl e)
    then show thesis
      by (intro unchanged [of "snd (receive R m now r)"]) (auto simp: receive_def invalid_result_def split: if_splits)
  next
    case (Inr u)
    from check_message_Inr [OF this] obtain peer sq sg where m: "dget m ''peer_id'' = PStr peer"
      "dget m ''sequence'' = PInt sq" "1 \<le> sq" "dget m ''signature'' = PStr sg"
      by (cases "dget m ''peer_id''"; cases "dget m ''sequence''"; cases "dget m ''signature''")
        (auto simp: positive_int_def)
    define x where "x = receive R m now r"
    show thesis
    proof (cases "trusted_keys r (str_of (dget m ''key_id''))")
      case None
      then show thesis using Inr by (intro unchanged [of "snd x"]) (auto simp: x_def receive_def invalid_result_def Let_def)
    next
      case (Some a)
      then obtain ex sec where a: "trusted_keys r (str_of (dget m ''key_id'')) = Some (ex, sec)" by (cases a) auto
      show thesis
      proof (cases "peer = ex \<and> good_secret sec")
        case False
        then have "\<exists>reason. receive R m now r = (r, Inr (invalid_result (Some peer) reason (Some sq)))"
          using Inr a m by (auto simp: receive_def Let_def int_of_val_def)
        then obtain reason where "receive R m now r = (r, Inr (invalid_result (Some peer) reason (Some sq)))" by blast
        then show thesis by (rule unchanged) (auto simp: invalid_result_def)
      next
        case True
        have ev: "receive R m now r = attempt r (canonical_bytes R (dremove ''signature'' m)) (\<lambda>b.
               attempt r (compare_digest sg (PStr (hmac_hex R (secret_bytes sec) b))) (\<lambda>same.
               if \<not> same then (r, Inr (invalid_result (Some peer) ''signature verification failed'' (Some sq)))
               else attempt r (py_float now) (\<lambda>t.
                    attempt r (py_float (num_of_val (dget m ''timestamp''))) (\<lambda>ts.
                    let x = admit peer sq t ts r in (fst x, Inr (snd x))))))"
          using Inr a m conjunct1 [OF True, symmetric] conjunct2 [OF True]
          by (simp add: receive_def Let_def int_of_val_def)
        show thesis
          using ev [symmetric, unfolded y]
        proof (elim attempt_cases)
          fix e assume "y = (r, Inl e)"
          then show thesis using y by (intro unchanged) auto
        next
          fix b e assume "y = (r, Inl e)"
          then show thesis using y by (intro unchanged) auto
        next
          fix b same
          assume b: "canonical_bytes R (dremove ''signature'' m) = Inr b"
            and same: "compare_digest sg (PStr (hmac_hex R (secret_bytes sec) b)) = Inr same"
            and rest: "(if \<not> same then (r, Inr (invalid_result (Some peer) ''signature verification failed'' (Some sq)))
               else attempt r (py_float now) (\<lambda>t.
                    attempt r (py_float (num_of_val (dget m ''timestamp''))) (\<lambda>ts.
                    let x = admit peer sq t ts r in (fst x, Inr (snd x))))) = y"
          show thesis
          proof (cases same)
            case False
            then show thesis using rest y by (intro unchanged [of "snd y"]) (auto simp: invalid_result_def)
          next
            case True
            have "sg = hmac_hex R (secret_bytes sec) b" using same True by (simp add: compare_digest_def split: if_splits)
            then have au: "authentic R r m peer"
              using a m \<open>peer = ex \<and> good_secret sec\<close> b canonical_bytes_Inr [OF b] by (simp add: authentic_def)
            from rest True have "attempt r (py_float now) (\<lambda>t.
                    attempt r (py_float (num_of_val (dget m ''timestamp''))) (\<lambda>ts.
                    let x = admit peer sq t ts r in (fst x, Inr (snd x)))) = y" by simp
            then show thesis
            proof (elim attempt_cases)
              fix e assume "y = (r, Inl e)"
              then show thesis using y by (intro unchanged) auto
            next
              fix t e assume "y = (r, Inl e)"
              then show thesis using y by (intro unchanged) auto
            next
              fix t ts assume "py_float now = Inr t" "(let x = admit peer sq t ts r in (fst x, Inr (snd x))) = y"
              then show thesis using y au m by (intro admitted) (auto simp: Let_def)
            qed
          qed
        qed
      qed
    qed
  qed
qed

lemma admit_cases:
  obtains (refused) "fst (admit peer sq t ts r) = r" "result_state (snd (admit peer sq t ts r)) = ''INVALID''"
  | (accepted) res acc where "admit peer sq t ts r = (r\<lparr>last_sequence := (last_sequence r)(peer \<mapsto> sq),
        states := (states r)(peer \<mapsto> res), accepted_at := acc\<rparr>, res)"
      "last_seen r peer < sq" "result_peer res = Some peer" "result_sequence res = Some sq"
      "result_state res = ''STALE'' \<and> acc = accepted_at r \<or>
       result_state res = ''ALIVE_VERIFIED'' \<and> acc = (accepted_at r)(peer \<mapsto> t) \<and> \<not> flt (max_age r) (fsub t ts)"
proof (cases "flt (fsub t ts) (fneg (future_skew r)) \<or> sq \<le> last_seen r peer")
  case True
  then show ?thesis by (intro refused) (auto simp: admit_def invalid_result_def Let_def)
next
  case False
  show ?thesis
  proof (cases "flt (max_age r) (fsub t ts)")
    case True
    then show ?thesis using False
      by (intro accepted [where res = "snd (admit peer sq t ts r)" and acc = "accepted_at (fst (admit peer sq t ts r))"])
        (simp_all add: admit_def Let_def)
  next
    case fresh: False
    then show ?thesis using False
      by (intro accepted [where res = "snd (admit peer sq t ts r)" and acc = "accepted_at (fst (admit peer sq t ts r))"])
        (simp_all add: admit_def Let_def)
  qed
qed

lemma track_is_receive: "receive_and_track R m now r = receive R m now r"
proof (cases rule: receive_cases [of R m now r])
  case (unchanged x)
  then show ?thesis
    by (cases x) (auto simp: receive_and_track_def split: option.split)
next
  case (admitted peer sq t ts)
  show ?thesis
  proof (cases rule: admit_cases [of peer sq t ts r])
    case refused
    then show ?thesis using admitted(1) by (auto simp: receive_and_track_def split: option.split)
  next
    case (accepted res acc)
    then show ?thesis using admitted(1,5) by (auto simp: receive_and_track_def split: option.split)
  qed
qed

definition peer_inv :: "peer_registry \<Rightarrow> bool" where
  "peer_inv r \<longleftrightarrow> (\<forall>p res. states r p = Some res \<longrightarrow> result_peer res = Some p
     \<and> result_sequence res = Some (last_seen r p)
     \<and> (result_state res = ''ALIVE_VERIFIED'' \<longrightarrow> accepted_at r p \<noteq> None))"

definition seq_le :: "peer_registry \<Rightarrow> peer_registry \<Rightarrow> bool" where
  "seq_le r r' \<longleftrightarrow> trusted_keys r' = trusted_keys r \<and> max_age r' = max_age r \<and> future_skew r' = future_skew r
     \<and> (\<forall>p. last_seen r p \<le> last_seen r' p)"

lemma last_seen_admitted [simp]:
  "last_seen (r\<lparr>last_sequence := (last_sequence r)(p \<mapsto> s), states := st, accepted_at := acc\<rparr>) q = (if q = p then s else last_seen r q)"
  "last_seen (r\<lparr>last_sequence := (last_sequence r)(p \<mapsto> s), states := st\<rparr>) q = (if q = p then s else last_seen r q)"
  by (simp_all add: last_seen_def)

lemma admit_inv [step_inv_intros]: "peer_inv r \<Longrightarrow> peer_inv (fst (admit peer sq t ts r))"
proof (cases rule: admit_cases [of peer sq t ts r])
  case (accepted res acc)
  assume "peer_inv r"
  then show ?thesis using accepted(5) unfolding accepted(1) by (auto simp: peer_inv_def accepted(3,4))
qed simp

lemma admit_le: "seq_le r (fst (admit peer sq t ts r))"
proof (cases rule: admit_cases [of peer sq t ts r])
  case (accepted res acc)
  then show ?thesis unfolding accepted(1) by (simp add: seq_le_def)
qed (simp add: seq_le_def)

lemma receive_inv [step_inv_intros]: "peer_inv r \<Longrightarrow> peer_inv (fst (receive R m now r))"
  by (cases rule: receive_cases [of R m now r]) (simp_all add: admit_inv)

lemma receive_le: "seq_le r (fst (receive R m now r))"
  by (cases rule: receive_cases [of R m now r]) (simp add: seq_le_def, simp add: admit_le)

lemma mark_one_fields [simp]:
  "result_sequence (mark_one r now p res) = result_sequence res"
  by (simp add: mark_one_def split: option.split)

lemma mark_one_state: "result_state (mark_one r now p res) = ''ALIVE_VERIFIED'' \<Longrightarrow> mark_one r now p res = res"
  "result_peer res = Some p \<Longrightarrow> result_peer (mark_one r now p res) = Some p"
  by (auto simp: mark_one_def split: option.splits if_splits)

lemma peer_invD: "peer_inv r \<Longrightarrow> states r p = Some res \<Longrightarrow> result_peer res = Some p
    \<and> result_sequence res = Some (last_seen r p) \<and> (result_state res = ''ALIVE_VERIFIED'' \<longrightarrow> accepted_at r p \<noteq> None)"
  unfolding peer_inv_def by blast

lemma mark_inv [step_inv_intros]:
  assumes "peer_inv r"
  shows "peer_inv (mark_unseen_stale now r)"
  unfolding peer_inv_def
proof (intro allI impI)
  fix p res
  assume "states (mark_unseen_stale now r) p = Some res"
  then obtain x where x: "states r p = Some x" "res = mark_one r now p x"
    by (auto simp: mark_unseen_stale_def)
  have l: "last_seen (mark_unseen_stale now r) p = last_seen r p" "accepted_at (mark_unseen_stale now r) = accepted_at r"
    by (simp_all add: mark_unseen_stale_def last_seen_def)
  show "result_peer res = Some p \<and> result_sequence res = Some (last_seen (mark_unseen_stale now r) p)
      \<and> (result_state res = ''ALIVE_VERIFIED'' \<longrightarrow> accepted_at (mark_unseen_stale now r) p \<noteq> None)"
    using peer_invD [OF assms x(1)] mark_one_state [where r = r and now = now and p = p and res = x] x(2) l by auto
qed

interpretation peer_runs: growing_machine "peer_step R" peer_inv seq_le for R
proof unfold_locales
  fix r :: peer_registry and e
  assume i: "peer_inv r"
  show "peer_inv (peer_step R e r)" using i by (cases e) (simp_all add: step_inv_intros track_is_receive)
  show "seq_le r (peer_step R e r)"
    by (cases e) (simp_all add: receive_le track_is_receive, simp add: seq_le_def mark_unseen_stale_def last_seen_def)
next
  fix s t u assume "seq_le s t" "seq_le t u"
  then show "seq_le s u" by (simp add: seq_le_def) (meson order_trans)
qed (simp add: seq_le_def)

lemma new_registry_inv: "new_registry keys age skew = Inr r \<Longrightarrow> peer_inv r"
  by (auto simp: new_registry_def peer_inv_def split: if_splits)

lemma accepted_receive:
  assumes "receive R m now r = (r', Inr res)" "result_state res \<noteq> ''INVALID''"
  obtains peer sq where "authentic R r m peer" "dget m ''sequence'' = PInt sq" "last_seen r peer < sq"
    "last_seen r' peer = sq" "result_peer res = Some peer" "result_sequence res = Some sq"
proof (cases rule: receive_cases [of R m now r])
  case (unchanged x)
  then show ?thesis using assms by auto
next
  case (admitted peer sq t ts)
  show ?thesis
  proof (cases rule: admit_cases [of peer sq t ts r])
    case refused
    then show ?thesis using assms admitted(1) by auto
  next
    case (accepted res' acc)
    then show ?thesis using assms admitted by (intro that [of peer sq]) auto
  qed
qed

section \<open>What is created is received\<close>

lemma str_of_map: "list_all nonempty_str caps \<Longrightarrow> List.map PStr (List.map str_of caps) = caps"
  by (induction caps) (auto simp: nonempty_str_iff)

lemma sorted_caps:
  assumes "list_all nonempty_str caps" "distinct caps"
  shows "distinct (List.map PStr (sort (List.map str_of caps)))"
    "list_all nonempty_str (List.map PStr (sort (List.map str_of caps)))"
proof -
  have "distinct (List.map PStr (List.map str_of caps))" using assms by (simp only: str_of_map)
  then have d: "distinct (List.map str_of caps)" by (simp only: distinct_map)
  then have "distinct (sort (List.map str_of caps))" by (simp only: distinct_sort)
  then show "distinct (List.map PStr (sort (List.map str_of caps)))" by (simp add: distinct_map inj_on_def)
  show "list_all nonempty_str (List.map PStr (sort (List.map str_of caps)))"
    using assms(1) by (auto simp: list_all_iff nonempty_str_iff)
qed

definition sign_payload :: "runtime \<Rightarrow> pyval \<Rightarrow> pydict \<Rightarrow> pydict" where
  "sign_payload R secret d = d @ [(''signature'', PStr (hmac_hex R (secret_bytes secret) (utf8 (canonical_text R (PDict d)))))]"

lemma create_heartbeat_Inr:
  assumes "create_heartbeat R peer key secret sequence version caps state sent_at = Inr m"
  obtains x d where "good_secret secret" "peer \<noteq> []" "key \<noteq> []" "version \<noteq> []" "positive_int sequence"
    "state \<in> set peer_states" "list_all nonempty_str caps" "distinct caps" "fisfinite x"
    "d = heartbeat_payload peer key sequence x version (sort (List.map str_of caps)) state"
    "canonical_bytes R d = Inr (utf8 (canonical_text R (PDict d)))" "m = sign_payload R secret d"
proof -
  obtain n where n: "as_num sent_at = Some n"
    using assms by (cases "as_num sent_at") (auto simp: create_heartbeat_def and_then_Inr)
  obtain x b where c: "good_secret secret" "peer \<noteq> [] \<and> key \<noteq> [] \<and> version \<noteq> []" "positive_int sequence"
    "state \<in> set peer_states" "list_all nonempty_str caps" "distinct caps" "py_isfinite n = Inr True" "py_float n = Inr x"
    "canonical_bytes R (heartbeat_payload peer key sequence x version (sort (List.map str_of caps)) state) = Inr b"
    "m = heartbeat_payload peer key sequence x version (sort (List.map str_of caps)) state
        @ [(''signature'', PStr (hmac_hex R (secret_bytes secret) b))]"
    using assms unfolding create_heartbeat_def n option.case Let_def and_then_Inr ensure_simps
    by (elim exE conjE) auto
  show ?thesis
    using c canonical_bytes_Inr [OF c(9)]
    by (intro that [OF _ _ _ _ _ _ _ _ _ refl]) (simp_all add: py_isfinite_def sign_payload_def)
qed

text \<open>A created message is the dictionary of a heartbeat.\<close>

lemma created_is_heartbeat:
  assumes "create_heartbeat R peer key secret sequence version caps state sent_at = Inr m"
  obtains h where "m = heartbeat_dict h" "hb_schema h = 1" "hb_capabilities h = sort (List.map str_of caps)"
proof -
  obtain x d where "d = heartbeat_payload peer key sequence x version (sort (List.map str_of caps)) state" "m = sign_payload R secret d"
    by (rule create_heartbeat_Inr [OF assms])
  then show ?thesis
    by (intro that [of "\<lparr>hb_peer = peer, hb_key = key, hb_sequence = sequence, hb_timestamp = x, hb_version = version,
        hb_capabilities = sort (List.map str_of caps), hb_state = state,
        hb_signature = hmac_hex R (secret_bytes secret) (utf8 (canonical_text R (PDict d))), hb_schema = 1\<rparr>"])
      (simp_all add: heartbeat_dict_def unsigned_payload_def heartbeat_payload_def sign_payload_def)
qed

lemma heartbeat_dget:
  "dget (heartbeat_payload p k s ts v cs st @ [(''signature'', sg)]) ''schema_version'' = PInt 1"
  "dget (heartbeat_payload p k s ts v cs st @ [(''signature'', sg)]) ''peer_id'' = PStr p"
  "dget (heartbeat_payload p k s ts v cs st @ [(''signature'', sg)]) ''key_id'' = PStr k"
  "dget (heartbeat_payload p k s ts v cs st @ [(''signature'', sg)]) ''sequence'' = s"
  "dget (heartbeat_payload p k s ts v cs st @ [(''signature'', sg)]) ''timestamp'' = PFloat ts"
  "dget (heartbeat_payload p k s ts v cs st @ [(''signature'', sg)]) ''software_version'' = PStr v"
  "dget (heartbeat_payload p k s ts v cs st @ [(''signature'', sg)]) ''capabilities'' = PList (List.map PStr cs)"
  "dget (heartbeat_payload p k s ts v cs st @ [(''signature'', sg)]) ''state'' = PStr st"
  "dget (heartbeat_payload p k s ts v cs st @ [(''signature'', sg)]) ''signature'' = sg"
  "dkeys (heartbeat_payload p k s ts v cs st @ [(''signature'', sg)]) = heartbeat_keys"
  "dremove ''signature'' (heartbeat_payload p k s ts v cs st @ [(''signature'', sg)]) = heartbeat_payload p k s ts v cs st"
  by (simp_all add: heartbeat_payload_def heartbeat_keys_def dkeys_def dremove_def)

text \<open>The checks pass on a created heartbeat, whatever 64-character signature it carries.\<close>

lemma created_passes_checks:
  assumes c: "peer \<noteq> []" "key \<noteq> []" "version \<noteq> []" "positive_int sequence"
    "state \<in> set peer_states" "list_all nonempty_str caps" "distinct caps" "fisfinite x"
    and "length sg = 64" and "py_isfinite now = Inr True"
  shows "check_message (heartbeat_payload peer key sequence x version (sort (List.map str_of caps)) state @ [(''signature'', PStr sg)]) now = Inr ()"
proof -
  note s = sorted_caps [OF c(6,7)]
  have st: "PStr state \<in> set (List.map PStr peer_states)" using c(5) by simp
  show ?thesis unfolding check_message_def heartbeat_dget ensure_and_then
    using c(1-4,8) s st assms(9,10)
    by (simp add: py_isfinite_def hashable_def heartbeat_dget del: list.map)
qed

lemma created_accepted:
  assumes R: "runtime_ok R"
    and m: "create_heartbeat R peer key (PBytes k) (PInt sq) version caps state sent_at = Inr m"
    and key: "trusted_keys r key = Some (peer, PBytes k)"
    and now: "py_isfinite now = Inr True" "py_float now = Inr t"
    and ts: "dget m ''timestamp'' = PFloat ts"
    and fresh: "\<not> flt (fsub t ts) (fneg (future_skew r))" "\<not> flt (max_age r) (fsub t ts)"
    and "last_seen r peer < sq"
  shows "\<exists>r' res. receive R m now r = (r', Inr res) \<and> result_state res = ''ALIVE_VERIFIED''
    \<and> result_peer res = Some peer \<and> last_seen r' peer = sq \<and> states r' peer = Some res \<and> accepted_at r' peer = Some t
    \<and> trusted_keys r' = trusted_keys r \<and> max_age r' = max_age r \<and> future_skew r' = future_skew r"
proof -
  obtain x d where c: "good_secret (PBytes k)" "peer \<noteq> []" "key \<noteq> []" "version \<noteq> []" "positive_int (PInt sq)"
    "state \<in> set peer_states" "list_all nonempty_str caps" "distinct caps" "fisfinite x"
    and d: "d = heartbeat_payload peer key (PInt sq) x version (sort (List.map str_of caps)) state"
    and b: "canonical_bytes R d = Inr (utf8 (canonical_text R (PDict d)))" and ms: "m = sign_payload R (PBytes k) d"
    by (rule create_heartbeat_Inr [OF m])
  have sg: "is_sha256_hex (hmac_hex R k b)" for b using R by (simp add: runtime_ok_def)
  then have len: "length (hmac_hex R k b) = 64" and asc: "is_ascii (hmac_hex R k b)" for b
    by (simp add: is_sha256_hex_def, simp add: sha256_hex_is_ascii)
  let ?sg = "hmac_hex R k (utf8 (canonical_text R (PDict d)))"
  have m': "m = heartbeat_payload peer key (PInt sq) x version (sort (List.map str_of caps)) state @ [(''signature'', PStr ?sg)]"
    by (simp add: ms sign_payload_def d)
  have x: "x = ts" using ts unfolding m' heartbeat_dget by simp
  note chk = created_passes_checks [OF c(2-9) len now(1)]
  have "receive R m now r = (fst (admit peer sq t ts r), Inr (snd (admit peer sq t ts r)))"
    unfolding m' receive_def heartbeat_dget chk using key c(1) b [unfolded d] now(2) asc
    by (simp add: Let_def int_of_val_def num_of_val_def compare_digest_def d x)
  then show ?thesis using fresh assms(9) by (simp add: admit_def Let_def)
qed

section \<open>A sample registry\<close>

definition sample_secret :: pyval where
  "sample_secret = PBytes (replicate 32 (CHR ''s''))"

definition sample_registry :: peer_registry where
  "sample_registry = \<lparr> trusted_keys = [''k'' \<mapsto> (''p'', sample_secret)], max_age = Fin 90, future_skew = Fin 15,
     last_sequence = Map.empty, states = Map.empty, accepted_at = Map.empty \<rparr>"

lemma sample_registry_new: "new_registry [''k'' \<mapsto> (''p'', sample_secret)] (Fin 90) (Fin 15) = Inr sample_registry"
  by (simp add: new_registry_def sample_registry_def fle_def)

lemma sample_clock: "py_float (NInt 100) = Inr (Fin 100)" "py_isfinite (NInt 100) = Inr True"
  "fsub (Fin 100) (Fin 100) = Fin 0"
  using py_float_small [of 100] rnd_small_int [of 0]
  by (simp_all add: py_isfinite_def fsub_def to_pf_def f_limit_def del: py_float.simps)

lemma sample_heartbeat:
  assumes "1 \<le> n"
  shows "\<exists>m. create_heartbeat sample_runtime ''p'' ''k'' sample_secret (PInt n) ''v1'' [PStr ''b'', PStr ''a''] ''READY'' (PInt 100) = Inr m
    \<and> dget m ''timestamp'' = PFloat (Fin 100)"
  using assms sample_clock
  by (simp add: create_heartbeat_def sample_secret_def good_secret_def positive_int_def peer_states_def canonical_bytes_def
      dumps_canonical_def dumps_checked_def heartbeat_payload_def ensure_and_then Let_def list_all_iff del: py_float.simps sort_key_simps)

lemma sample_accepted:
  assumes "trusted_keys r = trusted_keys sample_registry" "max_age r = Fin 90" "future_skew r = Fin 15"
    and "1 \<le> n" "last_seen r ''p'' < n"
  obtains m r' res where "create_heartbeat sample_runtime ''p'' ''k'' sample_secret (PInt n) ''v1'' [PStr ''b'', PStr ''a''] ''READY'' (PInt 100) = Inr m"
    "receive sample_runtime m (NInt 100) r = (r', Inr res)" "result_state res = ''ALIVE_VERIFIED''" "result_peer res = Some ''p''"
    "last_seen r' ''p'' = n" "states r' ''p'' = Some res" "accepted_at r' ''p'' = Some (Fin 100)"
    "trusted_keys r' = trusted_keys sample_registry" "max_age r' = Fin 90" "future_skew r' = Fin 15"
proof -
  obtain m where m: "create_heartbeat sample_runtime ''p'' ''k'' sample_secret (PInt n) ''v1'' [PStr ''b'', PStr ''a''] ''READY'' (PInt 100) = Inr m"
    "dget m ''timestamp'' = PFloat (Fin 100)" using sample_heartbeat [OF assms(4)] by blast
  have k: "trusted_keys r ''k'' = Some (''p'', PBytes (replicate 32 (CHR ''s'')))"
    using assms(1) by (simp add: sample_registry_def sample_secret_def)
  have "\<not> flt (fsub (Fin 100) (Fin 100)) (fneg (future_skew r))" "\<not> flt (max_age r) (fsub (Fin 100) (Fin 100))"
    using assms(2,3) by (simp_all add: sample_clock)
  from created_accepted [OF sample_runtime_ok m(1) [unfolded sample_secret_def] k sample_clock(2,1) m(2) this assms(5)]
  obtain r' res where "receive sample_runtime m (NInt 100) r = (r', Inr res)" "result_state res = ''ALIVE_VERIFIED''"
    "result_peer res = Some ''p''" "last_seen r' ''p'' = n" "states r' ''p'' = Some res" "accepted_at r' ''p'' = Some (Fin 100)"
    "trusted_keys r' = trusted_keys r" "max_age r' = max_age r" "future_skew r' = future_skew r" by blast
  then show ?thesis using m(1) assms(1-3) by (intro that [of m r' res]) simp_all
qed

lemma sample_last_seen: "last_seen sample_registry ''p'' = 0"
  by (simp add: last_seen_def sample_registry_def)

lemma sample_fields: "max_age sample_registry = Fin 90" "future_skew sample_registry = Fin 15"
  by (simp_all add: sample_registry_def)

section \<open>Properties\<close>

text \<open>
  C7: no replay. In any run of the registry, a message accepted for a peer (as verified or as
  stale) carries a larger sequence number than every message accepted for that peer before,
  whatever messages, time readings and stale markings come in between; so no accepted message,
  and nothing older, is ever accepted a second time.
\<close>

theorem accepted_sequences_increase:
  assumes "new_registry keys age skew = Inr r0"
    and "receive R m1 t1 (fold (peer_step R) es r0) = (r1, Inr a1)" "result_state a1 \<noteq> ''INVALID''"
    and "receive R m2 t2 (fold (peer_step R) es' r1) = (r2, Inr a2)" "result_state a2 \<noteq> ''INVALID''"
    and "result_peer a2 = result_peer a1"
  shows "\<exists>s1 s2. result_sequence a1 = Some s1 \<and> result_sequence a2 = Some s2 \<and> s1 < s2 \<and> m2 \<noteq> m1"
proof -
  have i: "peer_inv (fold (peer_step R) es r0)" by (rule peer_runs.run_inv [OF new_registry_inv [OF assms(1)]])
  have i1: "peer_inv r1" using receive_inv [OF i, of R m1 t1] assms(2) by simp
  obtain p s1 where 1: "dget m1 ''sequence'' = PInt s1" "last_seen r1 p = s1" "result_peer a1 = Some p" "result_sequence a1 = Some s1"
    using accepted_receive [OF assms(2,3)] by metis
  obtain q s2 where 2: "dget m2 ''sequence'' = PInt s2" "last_seen (fold (peer_step R) es' r1) q < s2"
      "result_peer a2 = Some q" "result_sequence a2 = Some s2"
    using accepted_receive [OF assms(4,5)] by metis
  have "last_seen r1 p \<le> last_seen (fold (peer_step R) es' r1) p"
    using peer_runs.run_le [OF i1, of R es'] by (simp add: seq_le_def)
  then have "s1 < s2" using 1 2 assms(6) by simp
  then show ?thesis using 1 2 by auto
qed

theorem accepted_sequences_increase_witness:
  "\<exists>m1 r1 a1 m2 r2 a2 s1 s2. receive sample_runtime m1 (NInt 100) sample_registry = (r1, Inr a1)
    \<and> receive sample_runtime m2 (NInt 100) r1 = (r2, Inr a2)
    \<and> result_sequence a1 = Some s1 \<and> result_sequence a2 = Some s2 \<and> s1 < s2 \<and> m2 \<noteq> m1"
proof -
  obtain m1 r1 a1 where 1: "receive sample_runtime m1 (NInt 100) sample_registry = (r1, Inr a1)" "result_state a1 = ''ALIVE_VERIFIED''"
    "result_peer a1 = Some ''p''" "last_seen r1 ''p'' = 1" "trusted_keys r1 = trusted_keys sample_registry" "max_age r1 = Fin 90" "future_skew r1 = Fin 15"
    by (rule sample_accepted [of sample_registry 1]) (simp_all add: sample_last_seen sample_fields)
  obtain m2 r2 a2 where 2: "receive sample_runtime m2 (NInt 100) r1 = (r2, Inr a2)" "result_state a2 = ''ALIVE_VERIFIED''"
    "result_peer a2 = Some ''p''"
    by (rule sample_accepted [OF 1(5-7), of 2]) (simp_all add: 1(4))
  show ?thesis
    using accepted_sequences_increase [OF sample_registry_new, of sample_runtime m1 "NInt 100" "[]" r1 a1 m2 "NInt 100" "[]" r2 a2] 1 2
    by simp blast
qed

text \<open>
  C8: no state without a valid signature. If receiving a message changes anything in the
  registry, the message names a trusted key that is bound to its peer, carries the HMAC of its
  own canonical form under that key, and has a new sequence number for that peer; the entry of
  every other peer stays as it was.
\<close>

theorem only_authentic_messages_change_state:
  assumes "fst (receive R m now r) \<noteq> r"
  shows "\<exists>peer sq. authentic R r m peer \<and> dget m ''sequence'' = PInt sq \<and> last_seen r peer < sq
    \<and> (\<forall>q. q \<noteq> peer \<longrightarrow> states (fst (receive R m now r)) q = states r q
         \<and> last_seen (fst (receive R m now r)) q = last_seen r q)"
proof (cases rule: receive_cases [of R m now r])
  case (admitted peer sq t ts)
  show ?thesis
  proof (cases rule: admit_cases [of peer sq t ts r])
    case (accepted res acc)
    then show ?thesis using admitted by (intro exI [of _ peer] exI [of _ sq]) simp
  qed (use assms admitted(1) in simp)
qed (use assms in simp)

theorem only_authentic_messages_change_state_witness:
  "\<exists>m peer sq. authentic sample_runtime sample_registry m peer \<and> dget m ''sequence'' = PInt sq \<and> last_seen sample_registry peer < sq"
proof -
  obtain m r' res where m: "receive sample_runtime m (NInt 100) sample_registry = (r', Inr res)" "last_seen r' ''p'' = 1"
    by (rule sample_accepted [of sample_registry 1]) (simp_all add: sample_last_seen sample_fields)
  then have "fst (receive sample_runtime m (NInt 100) sample_registry) \<noteq> sample_registry"
    using sample_last_seen by auto
  then show ?thesis using only_authentic_messages_change_state by blast
qed

text \<open>
  after marking at a clock reading, every peer still shown as ALIVE_VERIFIED was accepted
  within the configured window before that reading, in every reachable state of the registry.
\<close>

theorem alive_peers_are_fresh:
  assumes "new_registry keys age skew = Inr r0" and r: "r = fold (peer_step R) es r0"
    and "states (mark_unseen_stale now r) p = Some res" "result_state res = ''ALIVE_VERIFIED''"
  shows "\<exists>a. accepted_at r p = Some a \<and> \<not> flt (max_age r) (fsub now a)"
proof -
  have i: "peer_inv r" unfolding r by (rule peer_runs.run_inv [OF new_registry_inv [OF assms(1)]])
  obtain res0 where s: "states r p = Some res0" "res = mark_one r now p res0"
    using assms(3) by (auto simp: mark_unseen_stale_def)
  show ?thesis
  proof (cases "accepted_at r p")
    case None
    then have "res = res0" using s(2) by (simp add: mark_one_def)
    then show ?thesis using peer_invD [OF i s(1)] assms(4) None by simp
  next
    case (Some a)
    then show ?thesis using s(2) assms(4) by (auto simp: mark_one_def split: if_splits)
  qed
qed

theorem alive_peers_are_fresh_witness:
  "\<exists>r a. states (mark_unseen_stale (Fin 100) r) ''p'' \<noteq> None \<and> accepted_at r ''p'' = Some a \<and> \<not> flt (max_age r) (fsub (Fin 100) a)"
proof -
  obtain m r' res where m: "receive sample_runtime m (NInt 100) sample_registry = (r', Inr res)" "result_state res = ''ALIVE_VERIFIED''"
    "states r' ''p'' = Some res" "accepted_at r' ''p'' = Some (Fin 100)" "max_age r' = Fin 90"
    by (rule sample_accepted [of sample_registry 1]) (simp_all add: sample_last_seen sample_fields)
  have f: "r' = fold (peer_step sample_runtime) [Receive m (NInt 100)] sample_registry" using m(1) by simp
  have "states (mark_unseen_stale (Fin 100) r') ''p'' = Some res"
    using m by (simp add: mark_unseen_stale_def mark_one_def sample_clock)
  then show ?thesis using alive_peers_are_fresh [OF sample_registry_new f _ m(2)]
    by (intro exI [of _ r']) (metis option.distinct(1))
qed

text \<open>
  what a peer creates, a registry that trusts its key accepts: a created heartbeat received
  within the freshness window with a new sequence number is ALIVE_VERIFIED, and the registry
  then remembers its sequence number.
\<close>

theorem created_heartbeat_is_accepted:
  assumes R: "runtime_ok R"
    and m: "create_heartbeat R peer key (PBytes k) (PInt sq) version caps state sent_at = Inr m"
    and key: "trusted_keys r key = Some (peer, PBytes k)"
    and now: "py_isfinite now = Inr True" "py_float now = Inr t"
    and ts: "dget m ''timestamp'' = PFloat ts"
    and fresh: "\<not> flt (fsub t ts) (fneg (future_skew r))" "\<not> flt (max_age r) (fsub t ts)"
    and "last_seen r peer < sq"
  shows "\<exists>r' res. receive R m now r = (r', Inr res) \<and> result_state res = ''ALIVE_VERIFIED''
    \<and> result_peer res = Some peer \<and> last_seen r' peer = sq"
  using created_accepted [OF assms] by blast

theorem created_heartbeat_is_accepted_witness:
  "\<exists>m r' res. receive sample_runtime m (NInt 100) sample_registry = (r', Inr res) \<and> result_state res = ''ALIVE_VERIFIED''"
proof -
  obtain m where m: "create_heartbeat sample_runtime ''p'' ''k'' sample_secret (PInt 1) ''v1'' [PStr ''b'', PStr ''a''] ''READY'' (PInt 100) = Inr m"
    "dget m ''timestamp'' = PFloat (Fin 100)" using sample_heartbeat [of 1] by auto
  have k: "trusted_keys sample_registry ''k'' = Some (''p'', PBytes (replicate 32 (CHR ''s'')))"
    by (simp add: sample_registry_def sample_secret_def)
  show ?thesis
    using created_heartbeat_is_accepted [OF sample_runtime_ok m(1) [unfolded sample_secret_def] k sample_clock(2,1) m(2)]
    by (auto simp: sample_clock sample_fields sample_last_seen)
qed

text \<open>
  C33: two ways to make \<open>receive\<close> raise instead of answering INVALID, both open to a sender
  without the key. Take any heartbeat a trusted peer created: with its signature replaced by 64
  characters that are not all ASCII, \<open>hmac.compare_digest\<close> raises TypeError outside the handler;
  with its timestamp replaced by an integer of 2^1024 or more, \<open>math.isfinite\<close> raises
  OverflowError, which the handler does not name.
\<close>

theorem receive_can_raise:
  assumes m: "create_heartbeat R peer key secret sq version caps state sent_at = Inr m"
    and key: "trusted_keys r key = Some (peer, secret)" and now: "py_isfinite now = Inr True"
    and "length sg = 64" "\<not> is_ascii sg" and "2 ^ 1024 \<le> huge"
  shows "receive R (dset ''signature'' (PStr sg) m) now r
      = (r, raise TypeError ''comparing strings with non-ASCII characters is not supported'')
    \<and> (\<exists>msg. receive R (dset ''timestamp'' (PInt huge) m) now r = (r, raise OverflowError msg))"
proof -
  obtain x d where c: "good_secret secret" "peer \<noteq> []" "key \<noteq> []" "version \<noteq> []" "positive_int sq"
    "state \<in> set peer_states" "list_all nonempty_str caps" "distinct caps" "fisfinite x"
    and d: "d = heartbeat_payload peer key sq x version (sort (List.map str_of caps)) state"
    and b: "canonical_bytes R d = Inr (utf8 (canonical_text R (PDict d)))" and ms: "m = sign_payload R secret d"
    by (rule create_heartbeat_Inr [OF m])
  have set_sig: "dset ''signature'' (PStr sg) m =
      heartbeat_payload peer key sq x version (sort (List.map str_of caps)) state @ [(''signature'', PStr sg)]"
    by (simp add: ms sign_payload_def d heartbeat_payload_def dset_def)
  note chk = created_passes_checks [OF c(2-9) assms(4) now]
  have a: "receive R (dset ''signature'' (PStr sg) m) now r
      = (r, raise TypeError ''comparing strings with non-ASCII characters is not supported'')"
    unfolding set_sig receive_def heartbeat_dget chk using c(1) b [unfolded d] key assms(5)
    by (simp add: Let_def compare_digest_def)
  obtain msg where msg: "py_float (NInt huge) = Inl (OverflowError, msg)" using py_float_huge [OF assms(6)] by blast
  have k: "dkeys (dset ''timestamp'' (PInt huge) m) = heartbeat_keys"
    by (simp add: ms sign_payload_def d heartbeat_payload_def dset_def dkeys_def heartbeat_keys_def)
  have g: "dget m ''schema_version'' = PInt 1" "dget m ''peer_id'' = PStr peer" "dget m ''key_id'' = PStr key"
    "dget m ''sequence'' = sq"
    by (simp_all add: ms sign_payload_def d heartbeat_dget)
  have "check_message (dset ''timestamp'' (PInt huge) m) now = raise OverflowError msg"
    unfolding check_message_def k dget_dset using c(2,3,5) msg g
    by (simp add: ensure_and_then py_isfinite_def del: py_float.simps)
  then have "receive R (dset ''timestamp'' (PInt huge) m) now r = (r, raise OverflowError msg)"
    by (simp add: receive_def caught_by_def issubclass_def)
  with a show ?thesis by blast
qed

theorem receive_can_raise_witness:
  "\<exists>m. fst (receive sample_runtime m (NInt 100) sample_registry) = sample_registry
    \<and> snd (receive sample_runtime m (NInt 100) sample_registry)
      = raise TypeError ''comparing strings with non-ASCII characters is not supported''"
proof -
  obtain m where m: "create_heartbeat sample_runtime ''p'' ''k'' sample_secret (PInt 1) ''v1'' [PStr ''b'', PStr ''a''] ''READY'' (PInt 100) = Inr m"
    using sample_heartbeat [of 1] by auto
  have k: "trusted_keys sample_registry ''k'' = Some (''p'', sample_secret)" by (simp add: sample_registry_def)
  have n: "\<not> is_ascii (replicate 64 (CHR 0xFF))" by (simp add: is_ascii_def list_all_iff)
  show ?thesis
    using receive_can_raise [OF m k sample_clock(2) _ n, of "2 ^ 1024"]
    by (intro exI [of _ "dset ''signature'' (PStr (replicate 64 (CHR 0xFF))) m"]) simp
qed

end
