(* ===== verification/Stores.thy ===== *)
theory Stores
  imports TextFile
begin

text \<open>
  The content-addressed object stores: \<open>controller/peer_store.py\<close> (HMAC receipts),
  \<open>controller/crypto_receipts.py\<close> (Ed25519 signatures of records) and
  \<open>controller/encrypted_store.py\<close> (AES-GCM entries with optional signatures). The locale
  \<open>content_store\<close> is the contract both stores are built for; both are interpretations of it.
  The primitives of the \<open>cryptography\<close> package are a parameter, \<open>crypto\<close>.
\<close>

section \<open>The contract of a content-addressed store\<close>

text \<open>
  \<open>fetch s k\<close> is what is available under the digest \<open>k\<close>; \<open>put e\<close> stores the content of \<open>e\<close> under
  its digest. What is fetched has the digest it is fetched by, even in a store that was tampered
  with; what is stored stays, unless another content with the same digest was there first.
\<close>

locale content_store =
  fixes inv :: "'s \<Rightarrow> bool"
    and put :: "'e \<Rightarrow> 's \<Rightarrow> 's"
    and fetch :: "'s \<Rightarrow> string \<Rightarrow> string option"
    and content :: "'e \<Rightarrow> string"
    and digest :: "string \<Rightarrow> string"
  assumes put_inv: "inv s \<Longrightarrow> inv (put e s)"
    and fetch_put: "inv s \<Longrightarrow> fetch s (digest (content e)) = None \<Longrightarrow> fetch (put e s) (digest (content e)) = Some (content e)"
    and fetch_kept: "inv s \<Longrightarrow> fetch s k = Some d \<Longrightarrow> fetch (put e s) k = Some d"
    and fetch_sound: "fetch s k = Some d \<Longrightarrow> digest d = k"
begin

lemma run_inv: "inv s \<Longrightarrow> inv (fold put es s)"
  by (induction es arbitrary: s) (simp_all add: put_inv)

lemma run_keeps: "inv s \<Longrightarrow> fetch s k = Some d \<Longrightarrow> fetch (fold put es s) k = Some d"
  by (induction es arbitrary: s) (simp_all add: put_inv fetch_kept)

lemma stored_is_fetched:
  assumes "inv s"
  shows "\<exists>d. fetch (fold put es (put e s)) (digest (content e)) = Some d
    \<and> (d = content e \<or> d \<noteq> content e \<and> digest d = digest (content e) \<and> fetch s (digest (content e)) = Some d)"
proof (cases "fetch s (digest (content e))")
  case None
  then have "fetch (put e s) (digest (content e)) = Some (content e)" using assms by (intro fetch_put)
  then show ?thesis using run_keeps [OF put_inv [OF assms]] by blast
next
  case (Some d)
  then have "fetch (put e s) (digest (content e)) = Some d" using assms by (intro fetch_kept)
  then show ?thesis using run_keeps [OF put_inv [OF assms]] fetch_sound [OF Some] Some by blast
qed

end

section \<open>Plain store with HMAC receipts\<close>

record peer_store =
  store_id :: string
  store_secret :: string
  objects :: "string \<Rightarrow> string option"

definition new_peer_store :: "pyval \<Rightarrow> pyval \<Rightarrow> pyval \<Rightarrow> exc + peer_store" where
  "new_peer_store sid secret opt_in =
     and_then (ensure (opt_in = PBool True) PeerStoreError
       ''peer storage is opt-in only; construct with opt_in=True after a conscious decision'') (\<lambda>_.
     case sid of PStr i \<Rightarrow>
       and_then (ensure (\<not> blank i) PeerStoreError ''store_id must be a non-empty string'') (\<lambda>_.
       case secret of PBytes b \<Rightarrow>
         and_then (ensure (32 \<le> length b) PeerStoreError ''shared_secret must be at least 32 bytes of high-entropy key material'') (\<lambda>_.
         Inr \<lparr> store_id = i, store_secret = b, objects = Map.empty \<rparr>)
       | _ \<Rightarrow> raise PeerStoreError ''shared_secret must be at least 32 bytes of high-entropy key material'')
     | _ \<Rightarrow> raise PeerStoreError ''store_id must be a non-empty string'')"

definition receipt_algorithm :: string where "receipt_algorithm = ''HMAC-SHA256''"
definition encryption_gap :: string where "encryption_gap = ''NOT_IMPLEMENTED_STDLIB_GAP''"

text \<open>\<open>"|".join(parts)\<close> raises TypeError unless every part is a string.\<close>

definition canonical_receipt_bytes :: "pydict \<Rightarrow> exc + string" where
  "canonical_receipt_bytes r =
     (let parts = List.map (dget r) [''object_digest'', ''owner_id'', ''store_id'', ''algorithm'', ''encryption''] in
      if list_all is_str parts
      then Inr (utf8 (join ''|'' (List.map (\<lambda>p. case p of PStr s \<Rightarrow> s | _ \<Rightarrow> []) parts)))
      else raise TypeError ''sequence item: expected str instance'')"

definition receipt_body :: "string \<Rightarrow> string \<Rightarrow> string \<Rightarrow> pydict" where
  "receipt_body digest owner sid =
     [(''object_digest'', PStr digest), (''owner_id'', PStr owner), (''store_id'', PStr sid),
      (''algorithm'', PStr receipt_algorithm), (''encryption'', PStr encryption_gap)]"

definition insert_object :: "runtime \<Rightarrow> string \<Rightarrow> peer_store \<Rightarrow> exc + peer_store" where
  "insert_object R b s = (let d = sha256_hex R b in
     case objects s d of
       Some x \<Rightarrow> if x \<noteq> b then raise PeerIntegrityError ''digest collision: refusing to overwrite'' else Inr s
     | None \<Rightarrow> Inr (s\<lparr>objects := (objects s)(d \<mapsto> b)\<rparr>))"

definition store_object :: "runtime \<Rightarrow> pyval \<Rightarrow> pyval \<Rightarrow> peer_store \<Rightarrow> peer_store \<times> (exc + pydict)" where
  "store_object R data owner s =
     (case data of PBytes b \<Rightarrow>
       (case owner of PStr own \<Rightarrow>
          if blank own then (s, raise PeerStoreError ''owner_id must be a non-empty string'')
          else attempt s (insert_object R b s) (\<lambda>s'.
            let body = receipt_body (sha256_hex R b) own (store_id s) in
            attempt s' (canonical_receipt_bytes body) (\<lambda>c.
              (s', Inr (body @ [(''receipt_mac'', PStr (hmac_hex R (store_secret s) c))]))))
        | _ \<Rightarrow> (s, raise PeerStoreError ''owner_id must be a non-empty string''))
      | _ \<Rightarrow> (s, raise PeerStoreError ''object data must be bytes''))"

definition is_available :: "runtime \<Rightarrow> peer_store \<Rightarrow> string \<Rightarrow> exc + bool" where
  "is_available R s k = (case objects s k of None \<Rightarrow> Inr False | Some b \<Rightarrow> compare_digest (sha256_hex R b) (PStr k))"

text \<open>\<open>d.get(v)\<close> on a dictionary with string keys\<close>

definition lookup_val :: "(string \<Rightarrow> 'a option) \<Rightarrow> pyval \<Rightarrow> exc + 'a option" where
  "lookup_val m v = (case v of PStr k \<Rightarrow> Inr (m k)
     | PList _ \<Rightarrow> raise TypeError ''unhashable type'' | PDict _ \<Rightarrow> raise TypeError ''unhashable type'' | _ \<Rightarrow> Inr None)"

definition retrieve_object :: "runtime \<Rightarrow> pyval \<Rightarrow> peer_store \<Rightarrow> exc + string" where
  "retrieve_object R receipt s =
     (case receipt of PDict r \<Rightarrow>
        and_then (ensure (list_all (dhas r) [''object_digest'', ''owner_id'', ''store_id'', ''algorithm'', ''encryption'', ''receipt_mac''])
          ReceiptValidationError ''receipt is missing a field'') (\<lambda>_.
        and_then (ensure (dget r ''store_id'' = PStr (store_id s)) ReceiptValidationError ''receipt was issued by a different store'') (\<lambda>_.
        and_then (ensure (dget r ''algorithm'' = PStr receipt_algorithm) ReceiptValidationError ''unsupported receipt algorithm'') (\<lambda>_.
        and_then (canonical_receipt_bytes r) (\<lambda>c.
        and_then (compare_digest (hmac_hex R (store_secret s) c) (PStr (py_str R (dget r ''receipt_mac'')))) (\<lambda>ok.
        and_then (ensure ok ReceiptValidationError ''receipt HMAC mismatch (fail-closed)'') (\<lambda>_.
        and_then (lookup_val (objects s) (dget r ''object_digest'')) (\<lambda>found.
        case found of
          None \<Rightarrow> raise ReceiptValidationError ''object is not available in this store''
        | Some b \<Rightarrow> and_then (compare_digest (sha256_hex R b) (dget r ''object_digest'')) (\<lambda>same.
            and_then (ensure same PeerIntegrityError ''object failed content verification; refusing to return it'') (\<lambda>_. Inr b)))))))))
      | _ \<Rightarrow> raise ReceiptValidationError ''receipt must be a dict'')"

section \<open>Ed25519 receipts\<close>

record crypto =
  ed_public :: "string \<Rightarrow> string"
  ed_sign :: "string \<Rightarrow> string \<Rightarrow> string"
  ed_verify :: "string \<Rightarrow> string \<Rightarrow> string \<Rightarrow> bool"
  gcm_encrypt :: "string \<Rightarrow> string \<Rightarrow> string \<Rightarrow> string \<Rightarrow> string"
  gcm_decrypt :: "string \<Rightarrow> string \<Rightarrow> string \<Rightarrow> string \<Rightarrow> string option"

text \<open>
  The documented behaviour relied upon: a signature is 64 bytes and verifies under the public key
  of its private key; decryption under the same key, nonce and associated data inverts
  encryption. \<open>gcm_decrypt\<close> is None where the package raises InvalidTag.
\<close>

definition crypto_ok :: "crypto \<Rightarrow> bool" where
  "crypto_ok C \<longleftrightarrow> (\<forall>k m. length (ed_sign C k m) = 64 \<and> length (ed_public C k) = 32 \<and> ed_verify C (ed_public C k) (ed_sign C k m) m)
     \<and> (\<forall>k n a d. gcm_decrypt C k n a (gcm_encrypt C k n a d) = Some d)"

definition signature_field :: string where "signature_field = ''receipt_signature''"

definition hex_of :: "string \<Rightarrow> string" where
  "hex_of bs = concat (List.map (\<lambda>c. [hex_digits ! (of_char c div 16), hex_digits ! (of_char c mod 16)]) bs)"

definition hex_value :: "char \<Rightarrow> nat option" where
  "hex_value c = map_of (zip (hex_digits @ ''ABCDEF'') ([0..<16] @ [10..<16])) c"

definition ascii_space :: "char \<Rightarrow> bool" where
  "ascii_space c \<longleftrightarrow> (of_char c :: nat) \<in> {9, 10, 11, 12, 13, 32}"

text \<open>\<open>bytes.fromhex\<close>, which skips ASCII blanks between bytes.\<close>

fun from_hex :: "string \<Rightarrow> string option" where
  "from_hex [] = Some []"
| "from_hex [c] = (if ascii_space c then Some [] else None)"
| "from_hex (c # d # s) = (if ascii_space c then from_hex (d # s)
     else case (hex_value c, hex_value d) of
       (Some a, Some b) \<Rightarrow> map_option (\<lambda>r. char_of (16 * a + b) # r) (from_hex s)
     | _ \<Rightarrow> None)"

definition canonical_record_bytes :: "runtime \<Rightarrow> pydict \<Rightarrow> exc + string" where
  "canonical_record_bytes R r = and_then (dumps_canonical R True (PDict r)) (\<lambda>t. Inr (utf8 t))"

text \<open>A key of the package is its 32 raw bytes.\<close>

definition load_private :: "pyval \<Rightarrow> exc + string" where
  "load_private key = (case key of
     PBytes k \<Rightarrow> and_then (ensure (length k = 32) CryptoReceiptError ''private signing key must be raw 32 bytes'') (\<lambda>_. Inr k)
   | _ \<Rightarrow> raise CryptoReceiptError ''private signing key must be raw 32 bytes'')"

definition load_public :: "pyval \<Rightarrow> exc + string" where
  "load_public key = (case key of
     PBytes k \<Rightarrow> and_then (ensure (length k = 32) CryptoReceiptError ''public verification key must be raw 32 bytes'') (\<lambda>_. Inr k)
   | _ \<Rightarrow> raise CryptoReceiptError ''public verification key must be raw 32 bytes'')"

definition sign_record :: "runtime \<Rightarrow> crypto \<Rightarrow> pyval \<Rightarrow> pyval \<Rightarrow> exc + string" where
  "sign_record R C rec key =
     (case rec of PDict r \<Rightarrow>
        and_then (ensure (\<not> dhas r signature_field) CryptoReceiptError ''record must not already contain receipt_signature'') (\<lambda>_.
        and_then (load_private key) (\<lambda>k.
        and_then (canonical_record_bytes R r) (\<lambda>b. Inr (hex_of (ed_sign C k b)))))
      | _ \<Rightarrow> raise CryptoReceiptError ''record must be a dict'')"

definition verify_record_signature :: "runtime \<Rightarrow> crypto \<Rightarrow> pyval \<Rightarrow> pyval \<Rightarrow> bool" where
  "verify_record_signature R C rec key =
     (case rec of PDict r \<Rightarrow>
        (case dget r signature_field of
           PStr s \<Rightarrow> length s = 128 \<and>
             (case load_public key of Inl e \<Rightarrow> False
              | Inr k \<Rightarrow> (case from_hex s of None \<Rightarrow> False
                 | Some sig \<Rightarrow> (case canonical_record_bytes R (dremove signature_field r) of
                     Inl e \<Rightarrow> False | Inr b \<Rightarrow> ed_verify C k sig b)))
         | _ \<Rightarrow> False)
      | _ \<Rightarrow> False)"

section \<open>Encrypted store\<close>

record encrypted_store =
  enc_id :: string
  master_key :: string
  signing_key :: pyval
  entries :: "string \<Rightarrow> (string \<times> string) option"

definition new_encrypted_store :: "pyval \<Rightarrow> pyval \<Rightarrow> pyval \<Rightarrow> pyval \<Rightarrow> exc + encrypted_store" where
  "new_encrypted_store sid key opt_in signing =
     and_then (ensure (opt_in = PBool True) EncryptedStoreError
       ''encrypted peer storage is opt-in only; construct with opt_in=True after a conscious decision'') (\<lambda>_.
     case sid of PStr i \<Rightarrow>
       and_then (ensure (\<not> blank i) EncryptedStoreError ''store_id must be a non-empty string'') (\<lambda>_.
       case key of PBytes b \<Rightarrow>
         and_then (ensure (length b = 32) EncryptedStoreError ''master_key must be exactly 32 bytes (AES-256)'') (\<lambda>_.
         Inr \<lparr> enc_id = i, master_key = b, signing_key = signing, entries = Map.empty \<rparr>)
       | _ \<Rightarrow> raise EncryptedStoreError ''master_key must be exactly 32 bytes (AES-256)'')
     | _ \<Rightarrow> raise EncryptedStoreError ''store_id must be a non-empty string'')"

definition encrypt_entry :: "crypto \<Rightarrow> encrypted_store \<Rightarrow> string \<Rightarrow> string \<Rightarrow> string \<times> string" where
  "encrypt_entry C s nonce data = (nonce, gcm_encrypt C (master_key s) nonce (utf8 (enc_id s)) data)"

definition decrypt_entry :: "crypto \<Rightarrow> encrypted_store \<Rightarrow> string \<times> string \<Rightarrow> string option" where
  "decrypt_entry C s e = gcm_decrypt C (master_key s) (fst e) (utf8 (enc_id s)) (snd e)"

definition enc_receipt :: "runtime \<Rightarrow> string \<Rightarrow> string \<Rightarrow> string \<Rightarrow> string \<times> string \<Rightarrow> pydict" where
  "enc_receipt R digest owner sid e =
     [(''object_digest'', PStr digest), (''owner_id'', PStr owner), (''store_id'', PStr sid), (''algorithm'', PStr ''ED25519''),
      (''encryption'', PStr ''AES-256-GCM''), (''nonce'', PStr (hex_of (fst e))), (''ciphertext_digest'', PStr (sha256_hex R (snd e)))]"

text \<open>\<open>nonce\<close> is what \<open>os.urandom(12)\<close> returns when a new entry is made.\<close>

definition insert_entry :: "runtime \<Rightarrow> crypto \<Rightarrow> string \<times> string \<Rightarrow> encrypted_store \<Rightarrow> encrypted_store" where
  "insert_entry R C e s = (let d = sha256_hex R (fst e) in
     case entries s d of None \<Rightarrow> s\<lparr>entries := (entries s)(d \<mapsto> encrypt_entry C s (snd e) (fst e))\<rparr> | Some _ \<Rightarrow> s)"

definition enc_store :: "runtime \<Rightarrow> crypto \<Rightarrow> pyval \<Rightarrow> pyval \<Rightarrow> string \<Rightarrow> encrypted_store \<Rightarrow> encrypted_store \<times> (exc + pydict)" where
  "enc_store R C data owner nonce s =
     (case data of PBytes b \<Rightarrow>
       (case owner of PStr own \<Rightarrow>
          if blank own then (s, raise EncryptedStoreError ''owner_id must be a non-empty string'')
          else let s' = insert_entry R C (b, nonce) s; d = sha256_hex R b;
                   r = enc_receipt R d own (enc_id s) (the (entries s' d)) in
               if signing_key s = PNone then (s', Inr r)
               else attempt s' (sign_record R C (PDict r) (signing_key s)) (\<lambda>sig.
                 (s', Inr (r @ [(signature_field, PStr sig)])))
        | _ \<Rightarrow> (s, raise EncryptedStoreError ''owner_id must be a non-empty string''))
      | _ \<Rightarrow> (s, raise EncryptedStoreError ''object data must be bytes''))"

definition enc_available :: "runtime \<Rightarrow> crypto \<Rightarrow> encrypted_store \<Rightarrow> string \<Rightarrow> bool" where
  "enc_available R C s k = (case entries s k of None \<Rightarrow> False
     | Some e \<Rightarrow> (case decrypt_entry C s e of None \<Rightarrow> False | Some p \<Rightarrow> sha256_hex R p = k))"

definition public_key_for :: "pydict \<Rightarrow> exc + string" where
  "public_key_for r =
     (let hex_key = (case dget r ''verification_key_hex'' of
            PStr h \<Rightarrow> if length h = 64
              then (case from_hex h of Some k \<Rightarrow> Inr k | None \<Rightarrow> raise ValueError ''non-hexadecimal number found in fromhex()'')
              else raise EncIntegrityError ''no Ed25519 verification key supplied with the receipt''
          | _ \<Rightarrow> raise EncIntegrityError ''no Ed25519 verification key supplied with the receipt'') in
      case dget r ''_verification_key'' of PBytes k \<Rightarrow> if length k = 32 then Inr k else hex_key | _ \<Rightarrow> hex_key)"

definition enc_retrieve :: "runtime \<Rightarrow> crypto \<Rightarrow> pyval \<Rightarrow> encrypted_store \<Rightarrow> exc + string" where
  "enc_retrieve R C receipt s =
     (case receipt of PDict r \<Rightarrow>
        and_then (ensure (list_all (dhas r) [''object_digest'', ''owner_id'', ''store_id'', ''encryption'', ''nonce'', ''ciphertext_digest''])
          EncIntegrityError ''receipt is missing a field'') (\<lambda>_.
        and_then (ensure (dget r ''store_id'' = PStr (enc_id s)) EncIntegrityError ''receipt was issued by a different store'') (\<lambda>_.
        and_then (ensure (dget r ''encryption'' = PStr ''AES-256-GCM'') EncIntegrityError ''unsupported encryption status'') (\<lambda>_.
        and_then (if dhas r signature_field
            then and_then (public_key_for r) (\<lambda>k. ensure (verify_record_signature R C (PDict r) (PBytes k))
              EncIntegrityError ''receipt signature verification failed (fail-closed)'')
            else Inr ()) (\<lambda>_.
        and_then (lookup_val (entries s) (dget r ''object_digest'')) (\<lambda>found.
        case found of
          None \<Rightarrow> raise EncIntegrityError ''object is not available in this store''
        | Some e \<Rightarrow>
            and_then (ensure (dget r ''ciphertext_digest'' = PStr (sha256_hex R (snd e)))
              EncIntegrityError ''ciphertext digest mismatch; refusing to decrypt'') (\<lambda>_.
            case decrypt_entry C s e of
              None \<Rightarrow> raise EncIntegrityError ''decryption failed; refusing to return anything''
            | Some p \<Rightarrow> and_then (ensure (dget r ''object_digest'' = PStr (sha256_hex R p))
                EncIntegrityError ''plaintext digest mismatch; refusing to return it'') (\<lambda>_. Inr p)))))))
      | _ \<Rightarrow> raise EncIntegrityError ''receipt must be a dict'')"

section \<open>The plain store meets the contract\<close>

definition peer_store_inv :: "runtime \<Rightarrow> peer_store \<Rightarrow> bool" where
  "peer_store_inv R s \<longleftrightarrow> (\<forall>k b. objects s k = Some b \<longrightarrow> sha256_hex R b = k)"

definition put_object :: "runtime \<Rightarrow> string \<Rightarrow> peer_store \<Rightarrow> peer_store" where
  "put_object R b s = (case insert_object R b s of Inr s' \<Rightarrow> s' | Inl e \<Rightarrow> s)"

definition fetch_object :: "runtime \<Rightarrow> peer_store \<Rightarrow> string \<Rightarrow> string option" where
  "fetch_object R s k = (case objects s k of None \<Rightarrow> None | Some b \<Rightarrow> if sha256_hex R b = k then Some b else None)"

lemma put_object_objects:
  "objects (put_object R b s) = (if objects s (sha256_hex R b) = None then (objects s)(sha256_hex R b \<mapsto> b) else objects s)"
  by (simp add: put_object_def insert_object_def Let_def split: option.split)

interpretation plain_store: content_store "peer_store_inv R" "put_object R" "fetch_object R" "\<lambda>b. b" "sha256_hex R" for R
proof unfold_locales
  fix s b assume i: "peer_store_inv R s"
  show "peer_store_inv R (put_object R b s)"
    using i by (simp add: peer_store_inv_def put_object_objects)
  show "fetch_object R (put_object R b s) (sha256_hex R b) = Some b" if "fetch_object R s (sha256_hex R b) = None"
    using i that by (cases "objects s (sha256_hex R b)") (simp_all add: peer_store_inv_def fetch_object_def put_object_objects)
  show "fetch_object R (put_object R b s) k = Some d" if "fetch_object R s k = Some d" for k d
    using that by (cases "objects s k"; cases "k = sha256_hex R b") (simp_all add: fetch_object_def put_object_objects)
qed (simp add: fetch_object_def split: option.splits if_splits)

lemma receipt_body_canonical:
  "canonical_receipt_bytes (receipt_body d own sid) = Inr (utf8 (join ''|'' [d, own, sid, receipt_algorithm, encryption_gap]))"
  by (simp add: canonical_receipt_bytes_def receipt_body_def)

lemma store_object_cases:
  obtains (refused) e where "store_object R data owner s = (s, Inl e)"
  | (stored) b own where "data = PBytes b" "owner = PStr own" "\<not> blank own"
      "store_object R data owner s = (put_object R b s, Inr (receipt_body (sha256_hex R b) own (store_id s) @ [(''receipt_mac'',
         PStr (hmac_hex R (store_secret s) (utf8 (join ''|'' [sha256_hex R b, own, store_id s, receipt_algorithm, encryption_gap]))))]))"
      "objects (put_object R b s) (sha256_hex R b) = Some b"
proof (cases "\<exists>b own s'. data = PBytes b \<and> owner = PStr own \<and> \<not> blank own \<and> insert_object R b s = Inr s'")
  case True
  then obtain b own s' where a: "data = PBytes b" "owner = PStr own" "\<not> blank own" "insert_object R b s = Inr s'" by blast
  have "objects s' (sha256_hex R b) = Some b" using a(4) by (auto simp: insert_object_def Let_def split: option.splits if_splits)
  moreover have p: "put_object R b s = s'" by (simp add: put_object_def a(4))
  moreover have "store_object R data owner s = (s', Inr (receipt_body (sha256_hex R b) own (store_id s) @ [(''receipt_mac'',
         PStr (hmac_hex R (store_secret s) (utf8 (join ''|'' [sha256_hex R b, own, store_id s, receipt_algorithm, encryption_gap]))))]))"
    by (simp add: store_object_def a receipt_body_canonical Let_def)
  ultimately show ?thesis using stored [OF a(1-3)] by simp
next
  case False
  have "\<exists>e. store_object R data owner s = (s, Inl e)"
  proof (cases data)
    case (PBytes b)
    show ?thesis
    proof (cases owner)
      case (PStr own)
      then show ?thesis using PBytes False by (cases "insert_object R b s") (auto simp: store_object_def)
    qed (auto simp: store_object_def PBytes)
  qed (auto simp: store_object_def)
  then show ?thesis using refused by blast
qed

definition store_step :: "runtime \<Rightarrow> pyval \<times> pyval \<Rightarrow> peer_store \<Rightarrow> peer_store" where
  "store_step R e s = fst (store_object R (fst e) (snd e) s)"

lemma put_object_fields [simp]: "store_id (put_object R b s) = store_id s" "store_secret (put_object R b s) = store_secret s"
  by (auto simp: put_object_def insert_object_def Let_def split: option.splits)

lemma store_step_put: "store_step R e s = s \<or> (\<exists>b. store_step R e s = put_object R b s)"
  by (cases rule: store_object_cases [of R "fst e" "snd e" s]) (auto simp: store_step_def)

lemma store_run_puts: "\<exists>bs. fold (store_step R) es s = fold (put_object R) bs s"
proof (induction es arbitrary: s)
  case Nil
  show ?case by (intro exI [of _ "[]"]) simp
next
  case (Cons e es)
  obtain bs where bs: "fold (store_step R) es (store_step R e s) = fold (put_object R) bs (store_step R e s)" using Cons by blast
  show ?case
    using store_step_put [of R e s]
  proof
    assume "store_step R e s = s"
    then show ?thesis using bs by auto
  next
    assume "\<exists>b. store_step R e s = put_object R b s"
    then obtain b where "store_step R e s = put_object R b s" by blast
    then show ?thesis using bs by (intro exI [of _ "b # bs"]) simp
  qed
qed

lemma fold_put_fields [simp]: "store_id (fold (put_object R) bs s) = store_id s" "store_secret (fold (put_object R) bs s) = store_secret s"
  by (induction bs arbitrary: s) simp_all

lemma new_peer_store_inv: "new_peer_store i k o' = Inr s \<Longrightarrow> peer_store_inv R s"
  by (auto simp: new_peer_store_def and_then_Inr peer_store_inv_def split: pyval.splits)

section \<open>The encrypted store meets the contract\<close>

definition enc_inv :: "runtime \<Rightarrow> crypto \<Rightarrow> encrypted_store \<Rightarrow> bool" where
  "enc_inv R C s \<longleftrightarrow> crypto_ok C \<and> (\<forall>k e. entries s k = Some e \<longrightarrow> (\<exists>p. decrypt_entry C s e = Some p \<and> sha256_hex R p = k))"

definition fetch_entry :: "runtime \<Rightarrow> crypto \<Rightarrow> encrypted_store \<Rightarrow> string \<Rightarrow> string option" where
  "fetch_entry R C s k = (case entries s k of None \<Rightarrow> None | Some e \<Rightarrow>
     (case decrypt_entry C s e of None \<Rightarrow> None | Some p \<Rightarrow> if sha256_hex R p = k then Some p else None))"

lemma decrypt_entries_upd [simp]: "decrypt_entry C (s\<lparr>entries := f\<rparr>) e = decrypt_entry C s e"
  by (simp add: decrypt_entry_def)

lemma decrypt_encrypt [simp]: "crypto_ok C \<Longrightarrow> decrypt_entry C s (encrypt_entry C s n d) = Some d"
  by (simp add: decrypt_entry_def encrypt_entry_def crypto_ok_def)

lemma insert_entry_entries:
  "entries (insert_entry R C e s) = (if entries s (sha256_hex R (fst e)) = None
     then (entries s)(sha256_hex R (fst e) \<mapsto> encrypt_entry C s (snd e) (fst e)) else entries s)"
  by (simp add: insert_entry_def Let_def split: option.split)

lemma insert_entry_decrypt [simp]: "decrypt_entry C (insert_entry R C e s) x = decrypt_entry C s x"
  by (simp add: insert_entry_def Let_def split: option.split)

lemma enc_inv_entry: "enc_inv R C s \<Longrightarrow> entries s k = Some e \<Longrightarrow> \<exists>p. decrypt_entry C s e = Some p \<and> sha256_hex R p = k"
  unfolding enc_inv_def by blast

interpretation sealed_store: content_store "enc_inv R C" "insert_entry R C" "fetch_entry R C" fst "sha256_hex R" for R C
proof unfold_locales
  fix s e assume i: "enc_inv R C s"
  then have c: "crypto_ok C" by (simp add: enc_inv_def)
  have "\<exists>p. decrypt_entry C s x = Some p \<and> sha256_hex R p = k" if "entries (insert_entry R C e s) k = Some x" for k x
  proof (cases "entries s k = Some x")
    case True
    then show ?thesis by (rule enc_inv_entry [OF i])
  next
    case False
    then have "k = sha256_hex R (fst e)" "x = encrypt_entry C s (snd e) (fst e)"
      using that by (simp_all add: insert_entry_entries split: if_splits)
    then show ?thesis using c by simp
  qed
  then show "enc_inv R C (insert_entry R C e s)" unfolding enc_inv_def using c by simp
  show "fetch_entry R C (insert_entry R C e s) (sha256_hex R (fst e)) = Some (fst e)"
    if f: "fetch_entry R C s (sha256_hex R (fst e)) = None"
  proof (cases "entries s (sha256_hex R (fst e))")
    case None
    then show ?thesis using c by (simp add: fetch_entry_def insert_entry_entries)
  next
    case (Some x)
    then show ?thesis using enc_inv_entry [OF i Some] f by (auto simp: fetch_entry_def)
  qed
  show "fetch_entry R C (insert_entry R C e s) k = Some d" if "fetch_entry R C s k = Some d" for k d
    using that by (cases "entries s k"; cases "k = sha256_hex R (fst e)") (simp_all add: fetch_entry_def insert_entry_entries)
qed (simp add: fetch_entry_def split: option.splits if_splits)

section \<open>Hexadecimal and signatures\<close>

lemma hex_value_digit: "i < 16 \<Longrightarrow> hex_value (hex_digits ! i) = Some i \<and> \<not> ascii_space (hex_digits ! i)"
proof -
  assume i: "i < 16"
  have "list_all (\<lambda>i. hex_value (hex_digits ! i) = Some i \<and> \<not> ascii_space (hex_digits ! i)) [0..<16]" by code_simp
  with i show ?thesis by (simp only: list_all_iff set_upt) simp
qed

lemma from_hex_hex_of [simp]: "from_hex (hex_of bs) = Some bs"
proof (induction bs)
  case (Cons c bs)
  have "(of_char c :: nat) < 256" by (rule of_char_less_256)
  then have n: "of_char c div (16::nat) < 16" "of_char c mod (16::nat) < 16" by (simp_all add: less_mult_imp_div_less)
  have "(char_of (16 * (of_char c div (16::nat)) + of_char c mod 16) :: char) = c"
    by (simp only: mult_div_mod_eq char_of_char)
  then show ?case using Cons hex_value_digit [OF n(1)] hex_value_digit [OF n(2)] by (simp add: hex_of_def)
qed (simp add: hex_of_def)

lemma length_hex_of [simp]: "length (hex_of bs) = 2 * length bs"
  by (induction bs) (simp_all add: hex_of_def)

lemma dremove_snoc: "\<not> dhas r k \<Longrightarrow> dremove k (r @ [(k, v)]) = r"
  by (induction r) (auto simp: dremove_def)

lemma dget_snoc: "\<not> dhas r k \<Longrightarrow> dget (r @ [(k, v)]) k = v"
  by (induction r) auto

lemma dhas_snoc [simp]: "dhas (r @ [(k, v)]) k' \<longleftrightarrow> k' = k \<or> dhas r k'"
  by (induction r) auto

lemma dget_snoc_other: "k' \<noteq> k \<Longrightarrow> dget (r @ [(k, v)]) k' = dget r k'"
  by (induction r) auto

lemma sign_record_Inr:
  assumes "sign_record R C (PDict r) key = Inr sig"
  obtains k b where "key = PBytes k" "length k = 32" "\<not> dhas r signature_field" "canonical_record_bytes R r = Inr b"
    "sig = hex_of (ed_sign C k b)"
  using assms by (cases key) (auto simp: sign_record_def load_private_def and_then_Inr)

section \<open>Receipts of the encrypted store\<close>

lemma insert_entry_fields [simp]: "enc_id (insert_entry R C e s) = enc_id s" "signing_key (insert_entry R C e s) = signing_key s"
  "master_key (insert_entry R C e s) = master_key s"
  by (simp_all add: insert_entry_def Let_def split: option.split)

lemma fold_insert_fields [simp]: "enc_id (fold (insert_entry R C) es s) = enc_id s"
  by (induction es arbitrary: s) simp_all

definition enc_step :: "runtime \<Rightarrow> crypto \<Rightarrow> pyval \<times> pyval \<times> string \<Rightarrow> encrypted_store \<Rightarrow> encrypted_store" where
  "enc_step R C e s = (case e of (data, owner, nonce) \<Rightarrow> fst (enc_store R C data owner nonce s))"

lemma enc_store_cases:
  obtains (refused) e where "enc_store R C data owner nonce s = (s, Inl e)"
  | (inserted) b own where "data = PBytes b" "owner = PStr own" "fst (enc_store R C data owner nonce s) = insert_entry R C (b, nonce) s"
      "signing_key s = PNone \<Longrightarrow> snd (enc_store R C data owner nonce s)
         = Inr (enc_receipt R (sha256_hex R b) own (enc_id s) (the (entries (insert_entry R C (b, nonce) s) (sha256_hex R b))))"
      "signing_key s \<noteq> PNone \<Longrightarrow> snd (enc_store R C data owner nonce s)
         = and_then (sign_record R C (PDict (enc_receipt R (sha256_hex R b) own (enc_id s) (the (entries (insert_entry R C (b, nonce) s) (sha256_hex R b))))) (signing_key s))
            (\<lambda>sig. Inr (enc_receipt R (sha256_hex R b) own (enc_id s) (the (entries (insert_entry R C (b, nonce) s) (sha256_hex R b))) @ [(signature_field, PStr sig)]))"
proof (cases "\<exists>b own. data = PBytes b \<and> owner = PStr own \<and> \<not> blank own")
  case True
  then obtain b own where a: "data = PBytes b" "owner = PStr own" "\<not> blank own" by blast
  show ?thesis
  proof (rule inserted [OF a(1,2)])
    let ?r = "enc_receipt R (sha256_hex R b) own (enc_id s) (the (entries (insert_entry R C (b, nonce) s) (sha256_hex R b)))"
    show "fst (enc_store R C data owner nonce s) = insert_entry R C (b, nonce) s"
      by (cases "sign_record R C (PDict ?r) (signing_key s)") (simp_all add: enc_store_def a Let_def)
    show "signing_key s = PNone \<Longrightarrow> snd (enc_store R C data owner nonce s) = Inr ?r"
      by (simp add: enc_store_def a Let_def)
    show "signing_key s \<noteq> PNone \<Longrightarrow> snd (enc_store R C data owner nonce s)
        = and_then (sign_record R C (PDict ?r) (signing_key s)) (\<lambda>sig. Inr (?r @ [(signature_field, PStr sig)]))"
      by (cases "sign_record R C (PDict ?r) (signing_key s)") (simp_all add: enc_store_def a Let_def)
  qed
next
  case False
  then have "\<exists>e. enc_store R C data owner nonce s = (s, Inl e)"
    by (cases data; cases owner) (auto simp: enc_store_def)
  then show ?thesis using refused by blast
qed

lemma enc_run_inserts: "\<exists>xs. fold (enc_step R C) es s = fold (insert_entry R C) xs s"
proof (induction es arbitrary: s)
  case Nil
  show ?case by (intro exI [of _ "[]"]) simp
next
  case (Cons e es)
  obtain data owner nonce where e: "e = (data, owner, nonce)" by (cases e)
  obtain xs where xs: "fold (enc_step R C) es (enc_step R C e s) = fold (insert_entry R C) xs (enc_step R C e s)" using Cons by blast
  show ?case
  proof (cases rule: enc_store_cases [of R C data owner nonce s])
    case (refused x)
    then have "enc_step R C e s = s" by (simp add: enc_step_def e)
    then show ?thesis using xs by (intro exI [of _ xs]) simp
  next
    case (inserted b own)
    then have "enc_step R C e s = insert_entry R C (b, nonce) s" by (simp add: enc_step_def e)
    then show ?thesis using xs by (intro exI [of _ "(b, nonce) # xs"]) simp
  qed
qed

lemma fetch_entry_Some: "fetch_entry R C s k = Some d \<longleftrightarrow>
    (\<exists>e. entries s k = Some e \<and> decrypt_entry C s e = Some d \<and> sha256_hex R d = k)"
  by (auto simp: fetch_entry_def split: option.splits if_splits)

text \<open>An unsigned receipt of the store retrieves what is available under its digest.\<close>

lemma unsigned_retrieve:
  assumes "entries s d = Some e" "decrypt_entry C s e = Some p" "sha256_hex R p = d" "sid = enc_id s"
  shows "enc_retrieve R C (PDict (enc_receipt R d own sid e)) s = Inr p"
  using assms by (simp add: enc_retrieve_def enc_receipt_def lookup_val_def signature_field_def)

lemma entries_kept: "entries s k = Some e \<Longrightarrow> entries (fold (insert_entry R C) xs s) k = Some e
    \<and> decrypt_entry C (fold (insert_entry R C) xs s) e = decrypt_entry C s e"
proof (induction xs arbitrary: s)
  case (Cons x xs)
  have "entries (insert_entry R C x s) k = Some e"
    using Cons.prems by (cases "k = sha256_hex R (fst x)") (simp_all add: insert_entry_entries)
  then show ?case using Cons.IH [of "insert_entry R C x s"] by simp
qed simp

lemma inserted_is_there:
  assumes "enc_inv R C s"
  obtains e d where "entries (insert_entry R C (b, n) s) (sha256_hex R b) = Some e"
    "decrypt_entry C (insert_entry R C (b, n) s) e = Some d" "sha256_hex R d = sha256_hex R b"
    "fetch_entry R C s (sha256_hex R b) = None \<and> d = b \<or> fetch_entry R C s (sha256_hex R b) = Some d"
proof -
  obtain d where d: "fetch_entry R C (insert_entry R C (b, n) s) (sha256_hex R b) = Some d"
    "d = b \<or> d \<noteq> b \<and> sha256_hex R d = sha256_hex R b \<and> fetch_entry R C s (sha256_hex R b) = Some d"
    using sealed_store.stored_is_fetched [OF assms, of "[]" "(b, n)"] by auto
  have "fetch_entry R C s (sha256_hex R b) = None \<or> fetch_entry R C s (sha256_hex R b) = Some d"
    using d(1) sealed_store.fetch_kept [OF assms, of "sha256_hex R b" _ "(b, n)"]
    by (cases "fetch_entry R C s (sha256_hex R b)") auto
  then show ?thesis using d that unfolding fetch_entry_Some by auto
qed

section \<open>Sample stores\<close>

definition sample_crypto :: crypto where
  "sample_crypto = \<lparr> ed_public = (\<lambda>k. replicate 32 (CHR ''p'')), ed_sign = (\<lambda>k m. replicate 64 (CHR ''s'')),
     ed_verify = (\<lambda>pk sig m. sig = replicate 64 (CHR ''s'')), gcm_encrypt = (\<lambda>k n a d. d), gcm_decrypt = (\<lambda>k n a c. Some c) \<rparr>"

lemma sample_crypto_ok: "crypto_ok sample_crypto"
  by (simp add: crypto_ok_def sample_crypto_def)

definition sample_store :: peer_store where
  "sample_store = \<lparr> store_id = ''n'', store_secret = replicate 32 (CHR ''s''), objects = Map.empty \<rparr>"

lemma sample_store_inv: "peer_store_inv R sample_store"
  by (simp add: peer_store_inv_def sample_store_def)

lemma sample_store_object:
  "\<not> blank own \<Longrightarrow> \<exists>s1 receipt. store_object R (PBytes b) (PStr own) sample_store = (s1, Inr receipt)"
  by (simp add: store_object_def insert_object_def sample_store_def receipt_body_canonical Let_def)

definition sample_enc :: "pyval \<Rightarrow> encrypted_store" where
  "sample_enc k = \<lparr> enc_id = ''n'', master_key = replicate 32 (CHR ''m''), signing_key = k, entries = Map.empty \<rparr>"

lemma sample_enc_inv: "enc_inv R sample_crypto (sample_enc k)"
  by (simp add: enc_inv_def sample_crypto_ok sample_enc_def)

lemma sample_enc_store:
  "k = PNone \<or> k = PBytes (replicate 32 (CHR ''k'')) \<Longrightarrow>
   \<exists>s1 receipt. enc_store R C (PBytes b) (PStr ''o'') n (sample_enc k) = (s1, Inr receipt)"
  by (auto simp: enc_store_def sample_enc_def blank_def is_space_def Let_def sign_record_def load_private_def enc_receipt_def
      signature_field_def canonical_record_bytes_def dumps_canonical_def dumps_checked_def insert_entry_def)

section \<open>Properties\<close>

text \<open>
  C34: what the plain store accepts it gives back: after any further calls of \<open>store\<close>, valid or
  refused, by any owners, the receipt returned for an object still retrieves exactly that
  object.
\<close>

theorem stored_object_is_retrieved:
  assumes R: "runtime_ok R" and inv: "peer_store_inv R s"
    and st: "store_object R (PBytes b) owner s = (s1, Inr receipt)"
  shows "retrieve_object R (PDict receipt) (fold (store_step R) calls s1) = Inr b"
proof (cases rule: store_object_cases [of R "PBytes b" owner s])
  case (stored b' own)
  have b': "b' = b" using stored(1) by simp
  have s1: "s1 = put_object R b s" and rc: "receipt = receipt_body (sha256_hex R b) own (store_id s) @ [(''receipt_mac'',
       PStr (hmac_hex R (store_secret s) (utf8 (join ''|'' [sha256_hex R b, own, store_id s, receipt_algorithm, encryption_gap]))))]"
    using stored(4) st b' by simp_all
  obtain bs where run: "fold (store_step R) calls s1 = fold (put_object R) bs s1" using store_run_puts by blast
  have "fetch_object R s1 (sha256_hex R b) = Some b" using stored(5) b' s1 by (simp add: fetch_object_def)
  then have "fetch_object R (fold (put_object R) bs s1) (sha256_hex R b) = Some b"
    using plain_store.run_keeps [OF plain_store.put_inv [OF inv]] s1 by simp
  then have ob: "objects (fold (put_object R) bs s1) (sha256_hex R b) = Some b"
    by (auto simp: fetch_object_def split: option.splits if_splits)
  have asc: "is_ascii (sha256_hex R x)" "is_ascii (hmac_hex R y x)" for x y
    using R by (simp_all add: runtime_ok_def sha256_hex_is_ascii)
  show ?thesis unfolding run
    using ob s1 asc
    by (simp add: retrieve_object_def rc receipt_body_def canonical_receipt_bytes_def lookup_val_def compare_digest_def)
qed (use st in simp)

theorem stored_object_is_retrieved_witness:
  "\<exists>s1 receipt. retrieve_object sample_runtime (PDict receipt)
     (fold (store_step sample_runtime) [(PBytes ''y'', PStr ''p''), (PNone, PNone)] s1) = Inr ''x''"
proof -
  obtain s1 receipt where st: "store_object sample_runtime (PBytes ''x'') (PStr ''o'') sample_store = (s1, Inr receipt)"
    using sample_store_object [of "''o''" sample_runtime "''x''"] by (auto simp: blank_def is_space_def)
  show ?thesis using stored_object_is_retrieved [OF sample_runtime_ok sample_store_inv st] by blast
qed

text \<open>
  C9: retrieval is fail-closed, in any state of the store, corrupted or not: bytes are returned
  only to a dictionary that names this store, carries the HMAC of its own canonical fields under
  the store's secret, and names the SHA-256 digest of exactly the bytes returned.
\<close>

theorem retrieve_is_fail_closed:
  assumes "retrieve_object R receipt s = Inr b"
  shows "\<exists>r c. receipt = PDict r \<and> dget r ''store_id'' = PStr (store_id s) \<and> canonical_receipt_bytes r = Inr c
    \<and> py_str R (dget r ''receipt_mac'') = hmac_hex R (store_secret s) c \<and> dget r ''object_digest'' = PStr (sha256_hex R b)"
proof -
  obtain r where r: "receipt = PDict r" using assms by (cases receipt) (auto simp: retrieve_object_def)
  have cd: "compare_digest x y = Inr True \<Longrightarrow> y = PStr x" for x y
    by (cases y) (auto simp: compare_digest_def split: if_splits)
  have lv: "lookup_val (objects s) v = Inr (Some x) \<Longrightarrow> \<exists>k. v = PStr k" for v x
    by (cases v) (auto simp: lookup_val_def)
  obtain c ok found where m: "dget r ''store_id'' = PStr (store_id s)" "canonical_receipt_bytes r = Inr c"
    "compare_digest (hmac_hex R (store_secret s) c) (PStr (py_str R (dget r ''receipt_mac''))) = Inr ok" "ok"
    "lookup_val (objects s) (dget r ''object_digest'') = Inr found"
    "(case found of None \<Rightarrow> raise ReceiptValidationError ''object is not available in this store''
        | Some b \<Rightarrow> and_then (compare_digest (sha256_hex R b) (dget r ''object_digest'')) (\<lambda>same.
            and_then (ensure same PeerIntegrityError ''object failed content verification; refusing to return it'') (\<lambda>_. Inr b))) = Inr b"
    using assms unfolding retrieve_object_def r pyval.case and_then_Inr ensure_simps by blast
  then obtain x where x: "found = Some x" "compare_digest (sha256_hex R x) (dget r ''object_digest'') = Inr True" "x = b"
    by (cases found) (auto simp: and_then_Inr)
  show ?thesis using r m cd [of "hmac_hex R (store_secret s) c"] cd [OF x(2)] x(3) by auto
qed

theorem retrieve_is_fail_closed_witness:
  "\<exists>(s :: peer_store) b r c. dget r ''store_id'' = PStr (store_id s) \<and> canonical_receipt_bytes r = Inr c
    \<and> py_str sample_runtime (dget r ''receipt_mac'') = hmac_hex sample_runtime (store_secret s) c
    \<and> dget r ''object_digest'' = PStr (sha256_hex sample_runtime b)"
proof -
  have a: "is_ascii (sample_hash x)" for x by (rule sha256_hex_is_ascii) (rule sample_hash_ok)
  let ?h = "sample_hash ''x''" and ?k = "replicate 32 (CHR ''s'')"
  let ?r = "receipt_body ?h ''o'' ''n'' @ [(''receipt_mac'', PStr (hmac_hex sample_runtime ?k (utf8 (join ''|'' [?h, ''o'', ''n'', receipt_algorithm, encryption_gap]))))]"
  let ?s = "sample_store\<lparr>objects := [?h \<mapsto> ''x'']\<rparr>"
  have "retrieve_object sample_runtime (PDict ?r) ?s = Inr ''x''"
    using a by (simp add: retrieve_object_def receipt_body_def canonical_receipt_bytes_def lookup_val_def compare_digest_def
        sample_store_def sample_runtime_def)
  from retrieve_is_fail_closed [OF this] obtain r c where "dget r ''store_id'' = PStr (store_id ?s)" "canonical_receipt_bytes r = Inr c"
    "py_str sample_runtime (dget r ''receipt_mac'') = hmac_hex sample_runtime (store_secret ?s) c"
    "dget r ''object_digest'' = PStr (sha256_hex sample_runtime ''x'')" by (elim exE conjE)
  then show ?thesis
    by - (rule exI [of _ ?s], rule exI [of _ "''x''"], rule exI [of _ r], rule exI [of _ c], intro conjI)
qed

text \<open>
  the MAC does not bind the owner. The fields are joined with \<open>|\<close> and the encryption field
  is not checked, so the receipt of an owner whose name contains the separator is also a valid
  receipt of another owner: with the owner cut short and the rest moved into the encryption
  field, the same MAC retrieves the object.
\<close>

theorem receipt_owner_is_not_bound:
  assumes R: "runtime_ok R" and inv: "peer_store_inv R s"
    and st: "store_object R (PBytes b) (PStr (victim @ ''|'' @ store_id s @ ''|'' @ receipt_algorithm @ ''|'' @ rest)) s = (s1, Inr receipt)"
  shows "retrieve_object R (PDict (dset ''owner_id'' (PStr victim)
      (dset ''encryption'' (PStr (rest @ ''|'' @ store_id s @ ''|'' @ receipt_algorithm @ ''|'' @ encryption_gap)) receipt))) s1 = Inr b"
proof (cases rule: store_object_cases [of R "PBytes b" "PStr (victim @ ''|'' @ store_id s @ ''|'' @ receipt_algorithm @ ''|'' @ rest)" s])
  case (stored b' own)
  have b': "b' = b" using stored(1) by simp
  have s1: "s1 = put_object R b s" and rc: "receipt = receipt_body (sha256_hex R b) own (store_id s) @ [(''receipt_mac'',
       PStr (hmac_hex R (store_secret s) (utf8 (join ''|'' [sha256_hex R b, own, store_id s, receipt_algorithm, encryption_gap]))))]"
    using stored(4) st b' by simp_all
  have own: "own = victim @ ''|'' @ store_id s @ ''|'' @ receipt_algorithm @ ''|'' @ rest" using stored(2) by simp
  have ob: "objects s1 (sha256_hex R b) = Some b" using stored(5) b' s1 by simp
  have asc: "is_ascii (sha256_hex R x)" "is_ascii (hmac_hex R y x)" for x y
    using R by (simp_all add: runtime_ok_def sha256_hex_is_ascii)
  show ?thesis
    using ob s1 asc
    by (simp add: retrieve_object_def rc receipt_body_def canonical_receipt_bytes_def lookup_val_def compare_digest_def dset_def own)
qed (use st in simp)

theorem receipt_owner_is_not_bound_witness:
  "\<exists>s1 receipt. retrieve_object sample_runtime (PDict (dset ''owner_id'' (PStr ''alice'')
      (dset ''encryption'' (PStr (''x'' @ ''|'' @ store_id sample_store @ ''|'' @ receipt_algorithm @ ''|'' @ encryption_gap)) receipt))) s1 = Inr ''x''"
proof -
  obtain s1 receipt where st: "store_object sample_runtime (PBytes ''x'')
      (PStr (''alice'' @ ''|'' @ store_id sample_store @ ''|'' @ receipt_algorithm @ ''|'' @ ''x'')) sample_store = (s1, Inr receipt)"
    using sample_store_object [of "''alice'' @ ''|'' @ store_id sample_store @ ''|'' @ receipt_algorithm @ ''|'' @ ''x''" sample_runtime "''x''"]
    by (auto simp: blank_def is_space_def)
  show ?thesis using receipt_owner_is_not_bound [OF sample_runtime_ok sample_store_inv st] by blast
qed

text \<open>
  a signed record verifies: what \<open>sign_record\<close> returns, put into the signature field,
  passes \<open>verify_record_signature\<close> under the signer's public key; a record that has no such
  field, or one that is not 128 characters of hexadecimal, never does.
\<close>

theorem signed_record_verifies:
  assumes C: "crypto_ok C" and s: "sign_record R C (PDict r) (PBytes k) = Inr sig"
  shows "verify_record_signature R C (PDict (r @ [(signature_field, PStr sig)])) (PBytes (ed_public C k))
    \<and> \<not> verify_record_signature R C (PDict r) pk"
proof -
  obtain b where b: "\<not> dhas r signature_field" "canonical_record_bytes R r = Inr b" "sig = hex_of (ed_sign C k b)"
    using sign_record_Inr [OF s] by auto
  then show ?thesis using C
    by (simp add: verify_record_signature_def load_public_def dget_snoc dremove_snoc crypto_ok_def dget_not_in)
qed

theorem signed_record_verifies_witness:
  "\<exists>sig. verify_record_signature sample_runtime sample_crypto (PDict ([(''a'', PInt 1)] @ [(signature_field, PStr sig)]))
     (PBytes (ed_public sample_crypto (replicate 32 (CHR ''k''))))"
proof -
  obtain sig where "sign_record sample_runtime sample_crypto (PDict [(''a'', PInt 1)]) (PBytes (replicate 32 (CHR ''k''))) = Inr sig"
    by (simp add: sign_record_def load_private_def signature_field_def canonical_record_bytes_def dumps_canonical_def dumps_checked_def)
  from signed_record_verifies [OF sample_crypto_ok this] show ?thesis by blast
qed

text \<open>
  the signature of an encrypted-store receipt protects nothing. For a store with a signing
  key, the receipt it issues is never accepted as documented: without a key in it, or with the
  raw key under \<open>_verification_key\<close>, retrieval refuses. With the signature deleted the same
  receipt is accepted and the stored content is returned.
\<close>

theorem stripped_signature_is_accepted:
  assumes inv: "enc_inv R C s" and sk: "signing_key s = PBytes k"
    and st: "enc_store R C (PBytes b) owner nonce s = (s1, Inr receipt)"
  shows "(\<exists>d. enc_retrieve R C (PDict (dremove signature_field receipt)) s1 = Inr d \<and> sha256_hex R d = sha256_hex R b)
    \<and> enc_retrieve R C (PDict receipt) s1 = raise EncIntegrityError ''no Ed25519 verification key supplied with the receipt''
    \<and> (length pk = 32 \<longrightarrow> enc_retrieve R C (PDict (receipt @ [(''_verification_key'', PBytes pk)])) s1
          = raise EncIntegrityError ''receipt signature verification failed (fail-closed)'')"
proof (cases rule: enc_store_cases [of R C "PBytes b" owner nonce s])
  case (inserted b' own)
  have b': "b' = b" using inserted(1) by simp
  have s1: "s1 = insert_entry R C (b, nonce) s" using inserted(3) st b' by simp
  obtain e d where e: "entries s1 (sha256_hex R b) = Some e" "decrypt_entry C s1 e = Some d" "sha256_hex R d = sha256_hex R b"
    unfolding s1 by (rule inserted_is_there [OF inv])
  let ?r = "enc_receipt R (sha256_hex R b) own (enc_id s) e"
  have "and_then (sign_record R C (PDict ?r) (PBytes k)) (\<lambda>sig. Inr (?r @ [(signature_field, PStr sig)])) = Inr receipt"
    using inserted(5) st sk b' e(1) s1 by simp
  then obtain sig where sig: "receipt = ?r @ [(signature_field, PStr sig)]"
    unfolding and_then_Inr by blast
  have nr: "\<not> dhas ?r signature_field" by (simp add: enc_receipt_def signature_field_def)
  have id1: "enc_id s = enc_id s1" by (simp add: s1)
  have a: "enc_retrieve R C (PDict (dremove signature_field receipt)) s1 = Inr d"
    unfolding sig dremove_snoc [OF nr] using unsigned_retrieve [OF e id1] by simp
  have b1: "enc_retrieve R C (PDict receipt) s1 = raise EncIntegrityError ''no Ed25519 verification key supplied with the receipt''"
    by (simp add: sig enc_retrieve_def enc_receipt_def signature_field_def public_key_for_def s1)
  have nj: "canonical_record_bytes R (dremove signature_field (receipt @ [(''_verification_key'', PBytes pk)]))
      = raise TypeError ''Object is not JSON serializable''"
    by (simp add: sig canonical_record_bytes_def dumps_canonical_def dumps_checked_def dremove_def enc_receipt_def signature_field_def)
  have "\<not> verify_record_signature R C (PDict (receipt @ [(''_verification_key'', PBytes pk)])) (PBytes pk)"
    unfolding verify_record_signature_def pyval.case nj by (auto split: pyval.split option.split sum.split)
  then have c1: "length pk = 32 \<longrightarrow> enc_retrieve R C (PDict (receipt @ [(''_verification_key'', PBytes pk)])) s1
      = raise EncIntegrityError ''receipt signature verification failed (fail-closed)''"
    by (simp add: sig enc_retrieve_def enc_receipt_def signature_field_def public_key_for_def s1)
  show ?thesis using a b1 c1 e(3) by blast
qed (use st in simp)

theorem stripped_signature_is_accepted_witness:
  "\<exists>s1 receipt d. enc_retrieve sample_runtime sample_crypto (PDict (dremove signature_field receipt)) s1 = Inr d
    \<and> enc_retrieve sample_runtime sample_crypto (PDict receipt) s1
      = raise EncIntegrityError ''no Ed25519 verification key supplied with the receipt''"
proof -
  obtain s1 receipt where st: "enc_store sample_runtime sample_crypto (PBytes ''x'') (PStr ''o'') ''nonce''
      (sample_enc (PBytes (replicate 32 (CHR ''k'')))) = (s1, Inr receipt)"
    using sample_enc_store [of "PBytes (replicate 32 (CHR ''k''))" sample_runtime sample_crypto "''x''" "''nonce''"] by auto
  have "signing_key (sample_enc (PBytes (replicate 32 (CHR ''k'')))) = PBytes (replicate 32 (CHR ''k''))"
    by (simp add: sample_enc_def)
  from stripped_signature_is_accepted [OF sample_enc_inv this st] show ?thesis by blast
qed

text \<open>
  what a store without a signing key accepts is given back: after any further calls of
  \<open>store\<close>, the unsigned receipt retrieves the stored bytes, unless another content with the very
  same SHA-256 digest was in the store before.
\<close>

theorem encrypted_object_is_retrieved:
  assumes inv: "enc_inv R C s" and sk: "signing_key s = PNone"
    and st: "enc_store R C (PBytes b) owner nonce s = (s1, Inr receipt)"
  shows "\<exists>d. enc_retrieve R C (PDict receipt) (fold (enc_step R C) calls s1) = Inr d
    \<and> (d = b \<or> d \<noteq> b \<and> sha256_hex R d = sha256_hex R b \<and> fetch_entry R C s (sha256_hex R b) = Some d)"
proof (cases rule: enc_store_cases [of R C "PBytes b" owner nonce s])
  case (inserted b' own)
  have b': "b' = b" using inserted(1) by simp
  have s1: "s1 = insert_entry R C (b, nonce) s" using inserted(3) st b' by simp
  obtain e d where e: "entries s1 (sha256_hex R b) = Some e" "decrypt_entry C s1 e = Some d" "sha256_hex R d = sha256_hex R b"
    "fetch_entry R C s (sha256_hex R b) = None \<and> d = b \<or> fetch_entry R C s (sha256_hex R b) = Some d"
    unfolding s1 by (rule inserted_is_there [OF inv])
  have rc: "receipt = enc_receipt R (sha256_hex R b) own (enc_id s) e"
    using inserted(4) [OF sk] st b' e(1) s1 by simp
  obtain xs where run: "fold (enc_step R C) calls s1 = fold (insert_entry R C) xs s1" using enc_run_inserts by blast
  have "entries (fold (insert_entry R C) xs s1) (sha256_hex R b) = Some e" "decrypt_entry C (fold (insert_entry R C) xs s1) e = Some d"
    using entries_kept [OF e(1), of R C xs] e(2) by simp_all
  then have "enc_retrieve R C (PDict receipt) (fold (enc_step R C) calls s1) = Inr d"
    unfolding run rc by (intro unsigned_retrieve) (simp_all add: e(3) s1)
  then show ?thesis using e(3,4) by blast
qed (use st in simp)

theorem encrypted_object_is_retrieved_witness:
  "\<exists>s1 receipt d. enc_retrieve sample_runtime sample_crypto (PDict receipt)
     (fold (enc_step sample_runtime sample_crypto) [(PBytes ''y'', PStr ''p'', ''n2''), (PNone, PNone, [])] s1) = Inr d
    \<and> (d = ''x'' \<or> d \<noteq> ''x'' \<and> sha256_hex sample_runtime d = sha256_hex sample_runtime ''x''
        \<and> fetch_entry sample_runtime sample_crypto (sample_enc PNone) (sha256_hex sample_runtime ''x'') = Some d)"
proof -
  obtain s1 receipt where st: "enc_store sample_runtime sample_crypto (PBytes ''x'') (PStr ''o'') ''nonce'' (sample_enc PNone) = (s1, Inr receipt)"
    using sample_enc_store [of PNone sample_runtime sample_crypto "''x''" "''nonce''"] by auto
  have "signing_key (sample_enc PNone) = PNone" by (simp add: sample_enc_def)
  from encrypted_object_is_retrieved [OF sample_enc_inv this st] show ?thesis by blast
qed

end
