(* ===== verification/RuntimeControl.thy ===== *)
theory RuntimeControl
  imports PyText
begin

text \<open>
  \<open>controller/runtime_control.py\<close>: the bounded Docker Compose controller. The machine it runs on is a
  parameter (\<open>host\<close>): what a command answers, whether files can be written, the clock. The state
  keeps that machine, the trace of everything the controller did to it (commands run, audit lines
  appended or torn, in order), the audit lock and the counter file.
\<close>

section \<open>The machine\<close>

text \<open>What \<open>subprocess.run\<close> gives: exit code, standard output and error, or an exception.\<close>

datatype process =
    Ran int string string
  | Unstartable exc_class
  | TimedOut
  | Undecodable

text \<open>The counter file \<open>v91-controller-state.json\<close>\<close>

datatype counter_file = NoFile | Unreadable | NotText | NotJson | Doc pyval

text \<open>
  \<open>disk_ok\<close> tells whether the counter file can be replaced (it is written beside and renamed, so never torn);
  \<open>audit_write\<close> whether the next audit line is written whole (\<open>None\<close>) or the write raises after n bytes.
\<close>

record 'w host =
  shell :: "string list \<Rightarrow> nat \<Rightarrow> 'w \<Rightarrow> 'w \<times> process"
  loads :: "string \<Rightarrow> pyval option"
  disk_ok :: "'w \<Rightarrow> bool"
  audit_write :: "'w \<Rightarrow> 'w \<times> nat option"
  compose_exists :: "'w \<Rightarrow> bool"
  clock :: "'w \<Rightarrow> string"
  new_id :: "'w \<Rightarrow> string"
  resolve_path :: "string \<Rightarrow> string option"
  pyrun :: runtime

text \<open>\<open>Torn ev n\<close>: the first n bytes of the line of \<open>ev\<close> reached the audit log, then OSError.\<close>

datatype effect = Command "string list" | Audited pydict | Torn pydict nat

record 'w control =
  outside :: 'w
  trace :: "effect list"
  audit_locked :: bool
  counter :: counter_file

record compose =
  compose_file :: string
  compose_absolute :: bool

definition allowed_service :: string where "allowed_service = ''worker''"
definition min_replicas :: nat where "min_replicas = 1"
definition max_replicas :: nat where "max_replicas = 3"
definition scale_up_cpu :: pyfloat where "scale_up_cpu = Fin 75"
definition scale_up_memory :: pyfloat where "scale_up_memory = Fin 80"
definition scale_down_cpu :: pyfloat where "scale_down_cpu = Fin 20"
definition scale_down_memory :: pyfloat where "scale_down_memory = Fin 50"
definition low_samples_required :: nat where "low_samples_required = 3"

section \<open>Reading what Docker prints\<close>

fun json_records :: "(string \<Rightarrow> pyval option) \<Rightarrow> nat \<Rightarrow> string list \<Rightarrow> exc + pydict list" where
  "json_records ld n [] = Inr []"
| "json_records ld n (l # ls) = (case ld l of
     None \<Rightarrow> raise ControlError (''Invalid Docker JSON on line '' @ show_nat n @ ''.'')
   | Some (PDict d) \<Rightarrow> and_then (json_records ld (Suc n) ls) (\<lambda>ds. Inr (d # ds))
   | Some v \<Rightarrow> raise ControlError (''Docker JSON line '' @ show_nat n @ '' is not an object.''))"

fun as_dict :: "pyval \<Rightarrow> pydict option" where
  "as_dict (PDict d) = Some d" | "as_dict _ = None"

definition parse_json_lines :: "(string \<Rightarrow> pyval option) \<Rightarrow> string \<Rightarrow> exc + pydict list" where
  "parse_json_lines ld raw0 = (let raw = strip raw0 in
     if raw = [] then Inr [] else
     case ld raw of
       Some (PList xs) \<Rightarrow> (if list_all is_dict xs then Inr (List.map_filter as_dict xs)
          else raise ControlError ''Docker output contains a non-object entry.'')
     | Some (PDict d) \<Rightarrow> Inr [d]
     | Some v \<Rightarrow> raise ControlError ''Docker output is not a JSON object or array.''
     | None \<Rightarrow> json_records ld 1 (splitlines raw))"

definition parse_percent :: "pyval \<Rightarrow> exc + pyfloat" where
  "parse_percent v = (case v of
     PStr s \<Rightarrow> if \<not> ends_with ''%'' (strip s)
         then raise ControlError ''Docker returned a missing or malformed percentage.''
         else (case float_of_text (butlast (strip s)) of
            None \<Rightarrow> raise ControlError ''Docker returned a non-numeric percentage.''
          | Some f \<Rightarrow> if \<not> fisfinite f \<or> flt f (Fin 0)
              then raise ControlError ''Docker returned an invalid percentage.'' else Inr f)
   | _ \<Rightarrow> raise ControlError ''Docker returned a missing or malformed percentage.'')"

definition run_command :: "('w, 'x) host_scheme \<Rightarrow> string list \<Rightarrow> nat \<Rightarrow> 'w control \<Rightarrow> 'w control \<times> (exc + string)" where
  "run_command E args timeout s = (let (w, p) = shell E args timeout (outside s);
       s' = s\<lparr>outside := w, trace := trace s @ [Command args]\<rparr> in
     (s', case p of
        Unstartable c \<Rightarrow> raise ControlError (''Command could not be completed: '' @ hd args @ '' ('' @ class_name c @ '').'')
      | TimedOut \<Rightarrow> raise ControlError (''Command could not be completed: '' @ hd args @ '' ('' @ class_name CommandTimeout @ '').'')
      | Undecodable \<Rightarrow> raise UnicodeDecodeError ''invalid start byte''
      | Ran rc out err \<Rightarrow> if rc \<noteq> 0
          then raise ControlError (''Command failed ('' @ show_int rc @ ''): '' @ hd args @ ''; '' @ last_n 500 (strip err))
          else Inr out))"

definition project_char :: "char \<Rightarrow> bool" where
  "project_char c \<longleftrightarrow> is_alnum c \<or> c = CHR ''-'' \<or> c = CHR ''_''"

definition compose_prefix :: "('w, 'x) host_scheme \<Rightarrow> compose \<Rightarrow> string \<Rightarrow> 'w control \<Rightarrow> exc + string list" where
  "compose_prefix E cf project s =
     (if project = [] \<or> \<not> list_all project_char project
      then raise ControlError ''V91_PROJECT_NAME must be an explicit Compose project name.''
      else if \<not> compose_absolute cf \<or> \<not> compose_exists E (outside s)
      then raise ControlError ''Compose file must be an existing absolute path.''
      else Inr [''docker'', ''compose'', ''--project-name'', project, ''--file'', compose_file cf])"

text \<open>The Compose projects whose configuration files include this file.\<close>

definition config_paths :: "pyval \<Rightarrow> string list option" where
  "config_paths v = (case v of
     PStr s \<Rightarrow> Some (List.filter (\<lambda>p. p \<noteq> []) (List.map strip (split_on (CHR '','') s)))
   | PList xs \<Rightarrow> if list_all is_str xs then Some (List.map_filter as_str xs) else None
   | _ \<Rightarrow> None)"

fun project_matches :: "(string \<Rightarrow> string option) \<Rightarrow> string \<Rightarrow> pydict list \<Rightarrow> string list" where
  "project_matches rp target [] = []"
| "project_matches rp target (r # rs) =
     (case (por (dget r ''Name'') (dget r ''name''),
            config_paths (por (por (dget r ''ConfigFiles'') (dget r ''configFiles'')) (PStr []))) of
        (PStr name, Some paths) \<Rightarrow>
          if name \<noteq> [] \<and> target \<in> set (List.map_filter rp paths)
          then name # project_matches rp target rs else project_matches rp target rs
      | _ \<Rightarrow> project_matches rp target rs)"

definition resolve_project_name :: "('w, 'x) host_scheme \<Rightarrow> compose \<Rightarrow> string \<Rightarrow> 'w control \<Rightarrow> 'w control \<times> (exc + string)" where
  "resolve_project_name E cf explicit s =
     (if explicit \<noteq> [] then
        (s, if list_all project_char explicit then Inr explicit
            else raise ControlError ''V91_PROJECT_NAME contains unsupported characters.'')
      else then_call (run_command E [''docker'', ''compose'', ''ls'', ''--format'', ''json''] 25 s) (\<lambda>s out.
        attempt s (parse_json_lines (loads E) out) (\<lambda>recs.
        case resolve_path E (compose_file cf) of
          None \<Rightarrow> (s, raise OSError ''resolve'')
        | Some target \<Rightarrow> (s, case project_matches (resolve_path E) target recs of
              [name] \<Rightarrow> Inr name
            | _ \<Rightarrow> raise ControlError ''Could not uniquely identify an existing Compose project for this file.''))))"

section \<open>The snapshot\<close>

record observed =
  o_name :: string
  o_state :: string
  o_health :: string
  o_cpu :: pyfloat
  o_memory :: pyfloat

record snapshot =
  taken_at :: string
  project :: string
  replicas :: nat
  running :: nat
  max_cpu :: pyfloat
  max_memory :: pyfloat
  containers :: "observed list"

definition stats_entry :: "pydict \<Rightarrow> (string \<times> pydict) option" where
  "stats_entry d = (case por (por (dget d ''Name'') (dget d ''name'')) (dget d ''Container'') of
     PStr name \<Rightarrow> if name \<noteq> [] then Some (lstrip_char (CHR ''/'') name, d) else None
   | _ \<Rightarrow> None)"

text \<open>A later record of the same name replaces the earlier one.\<close>

definition stats_by_name :: "pydict list \<Rightarrow> string \<Rightarrow> pydict option" where
  "stats_by_name rs k = map_of (rev (List.map_filter stats_entry rs)) k"

definition text_field :: "runtime \<Rightarrow> pydict \<Rightarrow> string \<Rightarrow> string \<Rightarrow> string" where
  "text_field R d k1 k2 = lower (py_str R (por (por (dget d k1) (dget d k2)) (PStr [])))"

definition observe :: "runtime \<Rightarrow> (string \<Rightarrow> pydict option) \<Rightarrow> pydict \<Rightarrow> exc + observed" where
  "observe R stats d = (let state = text_field R d ''State'' ''state''; health = text_field R d ''Health'' ''health'' in
     case por (dget d ''Name'') (dget d ''name'') of
       PStr name \<Rightarrow> if name = [] then raise ControlError ''A worker container has no identifiable name.''
         else (case stats (lstrip_char (CHR ''/'') name) of
            None \<Rightarrow> raise ControlError ''Worker state is not fully measurable/healthy; no automatic action allowed.''
          | Some st \<Rightarrow>
            if state \<noteq> ''running'' \<or> health = ''unhealthy'' \<or> health = ''starting''
            then raise ControlError ''Worker state is not fully measurable/healthy; no automatic action allowed.''
            else and_then (parse_percent (por (dget st ''CPUPerc'') (dget st ''cpuperc''))) (\<lambda>c.
              and_then (parse_percent (por (dget st ''MemPerc'') (dget st ''memperc''))) (\<lambda>m.
              Inr \<lparr>o_name = name, o_state = state,
                   o_health = (if health = [] then ''not-reported'' else health), o_cpu = c, o_memory = m\<rparr>)))
     | _ \<Rightarrow> raise ControlError ''A worker container has no identifiable name.'')"

fun observe_all :: "runtime \<Rightarrow> (string \<Rightarrow> pydict option) \<Rightarrow> pydict list \<Rightarrow> exc + observed list" where
  "observe_all R stats [] = Inr []"
| "observe_all R stats (d # ds) = and_then (observe R stats d) (\<lambda>x.
     and_then (observe_all R stats ds) (\<lambda>xs. Inr (x # xs)))"

definition is_worker :: "pydict \<Rightarrow> bool" where
  "is_worker d \<longleftrightarrow> por (dget d ''Service'') (dget d ''service'') = PStr allowed_service"

definition docker_snapshot :: "('w, 'x) host_scheme \<Rightarrow> compose \<Rightarrow> string \<Rightarrow> 'w control \<Rightarrow> 'w control \<times> (exc + snapshot)" where
  "docker_snapshot E cf proj s = attempt s (compose_prefix E cf proj s) (\<lambda>pre.
     then_call (run_command E (pre @ [''config'', ''--services'']) 25 s) (\<lambda>s out.
     if allowed_service \<notin> set (List.map strip (splitlines out))
     then (s, raise ControlError ''Configured Compose project does not define the allow-listed worker service.'')
     else then_call (run_command E (pre @ [''ps'', ''--all'', ''--format'', ''json'']) 25 s) (\<lambda>s out.
     attempt s (parse_json_lines (loads E) out) (\<lambda>ps. let workers = List.filter is_worker ps in
     if workers = [] then (s, raise ControlError ''No worker containers were found; refusing to infer a healthy baseline.'')
     else then_call (run_command E [''docker'', ''stats'', ''--no-stream'', ''--format'', ''{{json .}}''] 25 s) (\<lambda>s out.
     attempt s (parse_json_lines (loads E) out) (\<lambda>st.
     attempt s (observe_all (pyrun E) (stats_by_name st) workers) (\<lambda>obs.
     (s, Inr \<lparr>taken_at = clock E (outside s), project = proj, replicas = length workers,
              running = length (List.filter (\<lambda>x. o_state x = ''running'') obs),
              max_cpu = fmax_list (List.map o_cpu obs), max_memory = fmax_list (List.map o_memory obs),
              containers = obs\<rparr>))))))))"

definition observed_value :: "observed \<Rightarrow> pyval" where
  "observed_value x = PDict [(''name'', PStr (o_name x)), (''state'', PStr (o_state x)), (''health'', PStr (o_health x)),
     (''cpu_percent'', PFloat (o_cpu x)), (''memory_percent'', PFloat (o_memory x))]"

definition snapshot_value :: "snapshot \<Rightarrow> pyval" where
  "snapshot_value n = PDict [(''timestamp_utc'', PStr (taken_at n)), (''source'', PStr ''DOCKER_LIVE''),
     (''project'', PStr (project n)), (''service'', PStr allowed_service), (''replicas'', PInt (int (replicas n))),
     (''running'', PInt (int (running n))), (''max_cpu_percent'', PFloat (max_cpu n)),
     (''max_memory_percent'', PFloat (max_memory n)), (''containers'', PList (List.map observed_value (containers n)))]"

section \<open>The decision\<close>

datatype action = ScaleUp | ScaleDown

fun action_name :: "action option \<Rightarrow> string" where
  "action_name (Some ScaleUp) = ''scale_up_workers''"
| "action_name (Some ScaleDown) = ''scale_down_workers''"
| "action_name None = ''NO_ACTION''"

definition load_text :: "snapshot \<Rightarrow> string" where
  "load_text n = ''(CPU '' @ fixed_text 1 (max_cpu n) @ ''%, memory '' @ fixed_text 1 (max_memory n) @ ''%''"

definition decide_scaling :: "snapshot \<Rightarrow> nat \<Rightarrow> action option \<times> nat \<times> string" where
  "decide_scaling n low = (let r = replicas n; cpu = max_cpu n; memory = max_memory n in
     if r < min_replicas \<or> max_replicas < r then (None, 0, ''Replica count is outside configured safety bounds.'')
     else if fle scale_up_cpu cpu \<or> fle scale_up_memory memory then
       (if max_replicas \<le> r then (None, 0, ''Scale-up threshold met '' @ load_text n
            @ ''), but the configured maximum of '' @ show_nat max_replicas @ '' replicas is already reached.'')
        else (Some ScaleUp, 0, ''Live Docker metrics exceed a scale-up threshold '' @ load_text n
            @ ''); target '' @ show_nat (r + 1) @ '' replicas.''))
     else if fle cpu scale_down_cpu \<and> fle memory scale_down_memory then
       (if r \<le> min_replicas then (None, 0, ''Low resource use observed, but the configured minimum of ''
            @ show_nat min_replicas @ '' replica is reached; no capacity is removed.'')
        else let next_count = min (low + 1) low_samples_required in
          if low_samples_required \<le> next_count then
            (Some ScaleDown, 0, ''Low CPU ('' @ fixed_text 1 cpu @ ''%) and memory ('' @ fixed_text 1 memory
               @ ''%) persisted for '' @ show_nat low_samples_required @ '' samples; target '' @ show_nat (r - 1) @ '' replicas.'')
          else (None, next_count, ''Low resource use sample '' @ show_nat next_count @ ''/'' @ show_nat low_samples_required
               @ ''; waiting to avoid scaling oscillation.''))
     else (None, 0, ''No scaling threshold met '' @ load_text n @ '', replicas '' @ show_nat r @ '').''))"

definition read_low_sample_count :: "counter_file \<Rightarrow> exc + nat" where
  "read_low_sample_count f = (case f of
     NoFile \<Rightarrow> Inr 0
   | Unreadable \<Rightarrow> Inr 0
   | NotJson \<Rightarrow> Inr 0
   | NotText \<Rightarrow> raise UnicodeDecodeError ''invalid start byte''
   | Doc (PDict d) \<Rightarrow> (case dget_or d ''low_resource_samples'' (PInt 0) of
        PInt n \<Rightarrow> if n < 0 then Inr 0 else Inr (min (nat n) low_samples_required)
      | _ \<Rightarrow> Inr 0)
   | Doc v \<Rightarrow> raise AttributeError ''object has no attribute get'')"

definition write_state :: "('w, 'x) host_scheme \<Rightarrow> nat \<Rightarrow> 'w control \<Rightarrow> 'w control \<times> (exc + unit)" where
  "write_state E low s = (if disk_ok E (outside s)
     then (s\<lparr>counter := Doc (PDict [(''low_resource_samples'', PInt (int low)), (''updated_at_utc'', PStr (clock E (outside s)))])\<rparr>, Inr ())
     else (s, raise OSError ''write failed''))"

text \<open>The line is built before it is written, and the lock is removed on every path that took it.\<close>

definition append_audit :: "('w, 'x) host_scheme \<Rightarrow> pydict \<Rightarrow> 'w control \<Rightarrow> 'w control \<times> (exc + unit)" where
  "append_audit E event s =
     (if audit_locked s then (s, raise ControlError ''Audit lock already exists; inspect it, do not delete blindly.'')
      else attempt s (dumps_checked False (PDict event) (json_text (pyrun E) True '','' '':'' (canon (PDict event)))) (\<lambda>_.
        case audit_write E (outside s) of
          (w, None) \<Rightarrow> (s\<lparr>outside := w, trace := trace s @ [Audited event]\<rparr>, Inr ())
        | (w, Some n) \<Rightarrow> (s\<lparr>outside := w, trace := trace s @ [Torn event n]\<rparr>, raise OSError ''write failed'')))"

definition scale_args :: "string list \<Rightarrow> nat \<Rightarrow> string list" where
  "scale_args pre n = pre @ [''up'', ''--detach'', ''--scale'', allowed_service @ ''='' @ show_nat n, allowed_service]"

definition scale_worker :: "('w, 'x) host_scheme \<Rightarrow> compose \<Rightarrow> string \<Rightarrow> nat \<Rightarrow> 'w control \<Rightarrow> 'w control \<times> (exc + unit)" where
  "scale_worker E cf proj n s =
     (if \<not> (min_replicas \<le> n \<and> n \<le> max_replicas)
      then (s, raise ControlError ''Requested worker replica count is outside the hard-coded 1..3 limit.'')
      else attempt s (compose_prefix E cf proj s) (\<lambda>pre.
        then_call (run_command E (scale_args pre n) 120 s) (\<lambda>s _. (s, Inr ()))))"

definition measure_effect :: "snapshot \<Rightarrow> snapshot \<Rightarrow> action \<Rightarrow> pydict" where
  "measure_effect before after act = (let cpu_delta = py_round 2 (fsub (max_cpu after) (max_cpu before));
       memory_delta = py_round 2 (fsub (max_memory after) (max_memory before));
       improved = (fle scale_up_cpu (max_cpu before) \<and> fle cpu_delta (Fin (-1)))
         \<or> (fle scale_up_memory (max_memory before) \<and> fle memory_delta (Fin (-1))) in
     [(''cpu_delta_percentage_points'', PFloat cpu_delta), (''memory_delta_percentage_points'', PFloat memory_delta),
      (''replica_delta'', PInt (int (replicas after) - int (replicas before))),
      (''effect_status'', PStr (case act of
          ScaleUp \<Rightarrow> if improved then ''MEASURED_IMPROVEMENT'' else ''EFFECT_NOT_CONFIRMED''
        | ScaleDown \<Rightarrow> ''EFFICIENCY_EFFECT_NOT_ASSESSED''))])"

section \<open>One cycle\<close>

definition unknown_value :: pyval where
  "unknown_value = PDict [(''value'', PNone), (''status'', PStr ''UNKNOWN'')]"

definition observation_event :: "string \<Rightarrow> string \<Rightarrow> string \<Rightarrow> exc \<Rightarrow> pydict" where
  "observation_event ident now proj e =
     [(''event_id'', PStr ident), (''timestamp_utc'', PStr now), (''phase'', PStr ''OBSERVATION''),
      (''source'', PStr ''OBSERVATION_ATTEMPT''), (''project'', PStr proj), (''service'', PStr allowed_service),
      (''observed'', PDict [(''cpu_percent'', unknown_value), (''memory_percent'', unknown_value),
         (''replicas'', unknown_value), (''running'', unknown_value)]),
      (''action'', PStr ''NO_ACTION''), (''authorization'', PStr ''NOT_USED''), (''status'', PStr ''NO_DATA_AVAILABLE''),
      (''error_type'', PStr (class_name (fst e))),
      (''reason'', PStr ''Required live Docker state or resource metrics could not be verified.'')]"

definition target_replicas :: "snapshot \<Rightarrow> action option \<Rightarrow> nat" where
  "target_replicas n act = (case act of Some ScaleUp \<Rightarrow> replicas n + 1 | Some ScaleDown \<Rightarrow> replicas n - 1 | None \<Rightarrow> replicas n)"

definition initial_status :: "action option \<Rightarrow> bool \<Rightarrow> bool \<Rightarrow> string" where
  "initial_status act allow down =
     (if act = Some ScaleDown \<and> \<not> down \<and> allow then ''PROPOSED_SCALE_DOWN_REQUIRES_OPT_IN''
      else if act \<noteq> None \<and> \<not> allow then ''PROPOSED_NOT_EXECUTED'' else ''NO_ACTION'')"

definition decision_event :: "string \<Rightarrow> string \<Rightarrow> string \<Rightarrow> snapshot \<Rightarrow> action option \<Rightarrow> string \<Rightarrow> bool \<Rightarrow> bool \<Rightarrow> pydict" where
  "decision_event ident now proj n act reason allow down =
     [(''event_id'', PStr ident), (''timestamp_utc'', PStr now), (''phase'', PStr ''DECISION''),
      (''source'', PStr ''DOCKER_LIVE''), (''project'', PStr proj), (''service'', PStr allowed_service),
      (''observed'', snapshot_value n), (''action'', PStr (action_name act)), (''reason'', PStr reason),
      (''before_replicas'', PInt (int (replicas n))), (''target_replicas'', PInt (int (target_replicas n act))),
      (''authorization'', PStr (if allow then ''ENABLED'' else ''NOT_ENABLED'')),
      (''expected_effect'', PStr (case act of
          Some ScaleUp \<Rightarrow> ''Increase worker capacity by one replica.''
        | Some ScaleDown \<Rightarrow> ''Reduce one worker replica after sustained low resource use.''
        | None \<Rightarrow> ''No infrastructure change.'')),
      (''rollback_plan'', PStr (''Restore worker replica count to '' @ show_nat (replicas n) @ '' if post-check fails.'')),
      (''status'', PStr (initial_status act allow down))]"

definition verify_event :: "string \<Rightarrow> string \<Rightarrow> snapshot \<Rightarrow> nat \<Rightarrow> snapshot \<Rightarrow> pydict \<Rightarrow> pydict" where
  "verify_event ident now before target after eff =
     [(''event_id'', PStr ident), (''timestamp_utc'', PStr now), (''phase'', PStr ''VERIFY''), (''source'', PStr ''DOCKER_LIVE''),
      (''before'', snapshot_value before), (''target_replicas'', PInt (int target)), (''after'', snapshot_value after),
      (''action_status'', PStr ''ACTION_VERIFIED'')] @ eff"

definition rollback_event :: "string \<Rightarrow> string \<Rightarrow> snapshot \<Rightarrow> nat \<Rightarrow> string \<Rightarrow> string \<Rightarrow> string \<Rightarrow> pydict" where
  "rollback_event ident now before target status failure detail =
     [(''event_id'', PStr ident), (''timestamp_utc'', PStr now), (''phase'', PStr ''ROLLBACK''), (''source'', PStr ''DOCKER_LIVE''),
      (''before_replicas'', PInt (int (replicas before))), (''attempted_replicas'', PInt (int target)), (''status'', PStr status),
      (''failure_type'', PStr failure), (''rollback_detail'', PStr detail)]"

text \<open>The \<open>try\<close> body: scale, take a second snapshot, compare, record.\<close>

definition try_action :: "('w, 'x) host_scheme \<Rightarrow> compose \<Rightarrow> string \<Rightarrow> string \<Rightarrow> snapshot \<Rightarrow> action \<Rightarrow> pydict \<Rightarrow> 'w control \<Rightarrow> 'w control \<times> (exc + pydict)" where
  "try_action E cf proj ident n act ev s = (let target = target_replicas n (Some act) in
     then_call (scale_worker E cf proj target s) (\<lambda>s _.
     then_call (docker_snapshot E cf proj s) (\<lambda>s post.
     if replicas post \<noteq> target \<or> running post \<noteq> target
     then (s, raise ControlError ''Post-action replica count or running-state verification failed.'')
     else let eff = measure_effect n post act in
     then_call (append_audit E (verify_event ident (clock E (outside s)) n target post eff) s) (\<lambda>s _.
     (s, Inr (dupdate ev ([(''status'', PStr ''ACTION_VERIFIED''), (''after'', snapshot_value post)] @ eff)))))))"

text \<open>The \<open>except\<close> branch: restore the original count, look again, record the outcome.\<close>

definition rollback_outcome :: "snapshot \<Rightarrow> exc \<Rightarrow> exc + snapshot \<Rightarrow> string \<times> string" where
  "rollback_outcome n e r = (case r of
     Inl e2 \<Rightarrow> (''ROLLBACK_FAILED'', class_name (fst e) @ ''; rollback '' @ class_name (fst e2))
   | Inr rb \<Rightarrow> if replicas rb = replicas n \<and> running rb = replicas n then (''ROLLED_BACK'', class_name (fst e))
       else (''ROLLBACK_FAILED'', ''Rollback post-check did not match the original replica count.''))"

definition restore :: "('w, 'x) host_scheme \<Rightarrow> compose \<Rightarrow> string \<Rightarrow> snapshot \<Rightarrow> 'w control \<Rightarrow> 'w control \<times> (exc + snapshot)" where
  "restore E cf proj n s = then_call (scale_worker E cf proj (replicas n) s) (\<lambda>s _. docker_snapshot E cf proj s)"

definition roll_back :: "('w, 'x) host_scheme \<Rightarrow> compose \<Rightarrow> string \<Rightarrow> string \<Rightarrow> snapshot \<Rightarrow> action \<Rightarrow> pydict \<Rightarrow> exc \<Rightarrow> 'w control \<Rightarrow> 'w control \<times> (exc + pydict)" where
  "roll_back E cf proj ident n act ev e s =
     (let (s, r) = restore E cf proj n s; (status, detail) = rollback_outcome n e r in
      then_call (append_audit E (rollback_event ident (clock E (outside s)) n (target_replicas n (Some act))
          status (class_name (fst e)) detail) s) (\<lambda>s _.
      (s, Inr (dupdate ev [(''status'', PStr status), (''failure_type'', PStr (class_name (fst e)))]))))"

definition perform :: "('w, 'x) host_scheme \<Rightarrow> compose \<Rightarrow> string \<Rightarrow> string \<Rightarrow> snapshot \<Rightarrow> action \<Rightarrow> pydict \<Rightarrow> 'w control \<Rightarrow> 'w control \<times> (exc + pydict)" where
  "perform E cf proj ident n act ev s = (case try_action E cf proj ident n act ev s of
     (s', Inr res) \<Rightarrow> (s', Inr res)
   | (s', Inl e) \<Rightarrow> roll_back E cf proj ident n act ev e s')"

definition permitted :: "action option \<Rightarrow> bool \<Rightarrow> bool \<Rightarrow> bool" where
  "permitted act allow down \<longleftrightarrow> act \<noteq> None \<and> allow \<and> \<not> (act = Some ScaleDown \<and> \<not> down)"

definition run_cycle :: "('w, 'x) host_scheme \<Rightarrow> compose \<Rightarrow> string \<Rightarrow> bool \<Rightarrow> bool \<Rightarrow> bool \<Rightarrow> 'w control \<Rightarrow> 'w control \<times> (exc + pydict)" where
  "run_cycle E cf proj dir_absolute allow down s =
     (if \<not> dir_absolute then (s, raise ControlError ''Runtime directory must be absolute.'')
      else case docker_snapshot E cf proj s of
        (s, Inl e) \<Rightarrow> if caught_by e [ControlError]
          then let ev = observation_event (new_id E (outside s)) (clock E (outside s)) proj e in
            then_call (append_audit E ev s) (\<lambda>s _. (s, Inr ev))
          else (s, Inl e)
      | (s, Inr n) \<Rightarrow> attempt s (read_low_sample_count (counter s)) (\<lambda>low.
          let (act, next_low, reason) = decide_scaling n low in
          then_call (write_state E next_low s) (\<lambda>s _.
          let ident = new_id E (outside s);
              ev = decision_event ident (clock E (outside s)) proj n act reason allow down in
          then_call (append_audit E ev s) (\<lambda>s _.
          if \<not> permitted act allow down then (s, Inr ev)
          else perform E cf proj ident n (the act) ev s))))"

section \<open>The loop\<close>

definition interval_ok :: "int \<Rightarrow> bool" where
  "interval_ok seconds \<longleftrightarrow> 15 \<le> seconds \<and> seconds \<le> 3600"

text \<open>\<open>Some True\<close> and \<open>Some False\<close> for 1 and 0; anything else is a usage error.\<close>

definition read_flag :: "string \<Rightarrow> bool option" where
  "read_flag s = (if strip s = ''0'' then Some False else if strip s = ''1'' then Some True else None)"

text \<open>
  The cycles of \<open>main\<close>, at most \<open>fuel\<close> of them (with --watch the loop has no bound of its own). The
  exit code, or \<open>None\<close> while it still runs; 1 is an exception nothing catches.
\<close>

fun watch :: "('w, 'x) host_scheme \<Rightarrow> compose \<Rightarrow> string \<Rightarrow> bool \<Rightarrow> bool \<Rightarrow> bool \<Rightarrow> bool \<Rightarrow> nat \<Rightarrow> 'w control \<Rightarrow> 'w control \<times> int option" where
  "watch E cf proj dir_absolute allow down again 0 s = (s, None)"
| "watch E cf proj dir_absolute allow down again (Suc fuel) s =
     (case run_cycle E cf proj dir_absolute allow down s of
        (s, Inr res) \<Rightarrow> if dget res ''status'' \<in> {PStr ''ROLLBACK_FAILED'', PStr ''NO_DATA_AVAILABLE''} then (s, Some 2)
          else if \<not> again then (s, Some 0) else watch E cf proj dir_absolute allow down again fuel s
      | (s, Inl e) \<Rightarrow> (s, Some (if caught_by e [ControlError] then 2 else 1)))"

record options =
  again :: bool
  interval :: int
  explicit_name :: string
  actions_flag :: string
  scale_down_flag :: string

definition runtime_main :: "('w, 'x) host_scheme \<Rightarrow> compose \<Rightarrow> bool \<Rightarrow> options \<Rightarrow> nat \<Rightarrow> 'w control \<Rightarrow> 'w control \<times> int option" where
  "runtime_main E cf dir_absolute opts fuel s =
     (if \<not> interval_ok (interval opts) then (s, Some 2)
      else case resolve_project_name E cf (explicit_name opts) s of
        (s, Inl e) \<Rightarrow> (s, Some (if caught_by e [ControlError] then 2 else 1))
      | (s, Inr proj) \<Rightarrow> (case (read_flag (actions_flag opts), read_flag (scale_down_flag opts)) of
          (Some allow, Some down) \<Rightarrow> watch E cf proj dir_absolute allow down (again opts) fuel s
        | _ \<Rightarrow> (s, Some 2)))"

section \<open>What the controller does to the machine\<close>

text \<open>
  Every operation only appends to the trace; \<open>extends P s s'\<close> says in addition that each scale
  command it ran satisfies P. The rules below compose it along the calls.
\<close>

definition scaling :: "string list \<Rightarrow> bool" where
  "scaling c \<longleftrightarrow> take 1 (drop 6 c) = [''up'']"

definition extends :: "(string list \<Rightarrow> bool) \<Rightarrow> 'w control \<Rightarrow> 'w control \<Rightarrow> bool" where
  "extends P s s' \<longleftrightarrow> (\<exists>es. trace s' = trace s @ es \<and> (\<forall>c. Command c \<in> set es \<longrightarrow> scaling c \<longrightarrow> P c))"

definition docker_prefix :: "compose \<Rightarrow> string \<Rightarrow> string list" where
  "docker_prefix cf proj = [''docker'', ''compose'', ''--project-name'', proj, ''--file'', compose_file cf]"

lemma extends_refl [simp]: "extends P s s"
  by (simp add: extends_def)

lemma extends_trans: "extends P s t \<Longrightarrow> extends P t u \<Longrightarrow> extends P s u"
  unfolding extends_def by (metis Un_iff append.assoc set_append)

lemma extends_mono: "extends P s t \<Longrightarrow> (\<And>c. P c \<Longrightarrow> Q c) \<Longrightarrow> extends Q s t"
  unfolding extends_def by blast

lemma extends_quiet: "extends (\<lambda>_. False) s t \<Longrightarrow> extends P s t"
  by (erule extends_mono) simp

lemma extends_then_call:
  assumes "extends P s (fst r)"
    and "\<And>s1 x. r = (s1, Inr x) \<Longrightarrow> extends P s1 (fst (f s1 x))"
  shows "extends P s (fst (then_call r f))"
proof (cases "(r, f)" rule: then_call.cases)
  case (2 s1 x g)
  then show ?thesis using assms by (auto intro: extends_trans)
qed (use assms in auto)

lemma extends_attempt:
  assumes "\<And>x. r = Inr x \<Longrightarrow> extends P s (fst (f x))"
  shows "extends P s (fst (attempt s r f))"
  using assms by (cases r) auto

lemmas extends_rules = extends_then_call extends_attempt

lemma compose_prefix_Inr: "compose_prefix E cf proj s = Inr pre \<Longrightarrow> pre = docker_prefix cf proj"
  by (auto simp: compose_prefix_def docker_prefix_def split: if_splits)

lemma run_command_extends: "(scaling args \<Longrightarrow> P args) \<Longrightarrow> extends P s (fst (run_command E args t s))"
  by (auto simp: run_command_def extends_def Let_def split: prod.splits)

lemma not_scaling [simp]:
  "\<not> scaling (docker_prefix cf proj @ ''config'' # xs)" "\<not> scaling (docker_prefix cf proj @ ''ps'' # xs)"
  "\<not> scaling [''docker'', ''stats'', a, b, c]" "\<not> scaling [''docker'', ''compose'', a, b, c]"
  by (simp_all add: scaling_def docker_prefix_def)

lemma scaling_scale_args [simp]: "scaling (scale_args (docker_prefix cf proj) n)"
  by (simp add: scaling_def scale_args_def docker_prefix_def)

lemma docker_snapshot_extends: "extends P s (fst (docker_snapshot E cf proj s))"
  unfolding docker_snapshot_def Let_def
  by (intro extends_rules run_command_extends) (auto dest!: compose_prefix_Inr intro!: extends_rules run_command_extends)

lemma append_audit_cases:
  obtains (refused) e where "append_audit E ev s = (s, Inl e)"
  | (torn) w n where "append_audit E ev s = (s\<lparr>outside := w, trace := trace s @ [Torn ev n]\<rparr>, raise OSError ''write failed'')"
      "serialisable (PDict ev)" "all_finite (PDict ev)"
  | (written) w where "append_audit E ev s = (s\<lparr>outside := w, trace := trace s @ [Audited ev]\<rparr>, Inr ())"
      "serialisable (PDict ev)" "all_finite (PDict ev)"
proof -
  obtain w x where w: "audit_write E (outside s) = (w, x)" by (cases "audit_write E (outside s)") auto
  show ?thesis
  proof (cases "audit_locked s \<or> \<not> serialisable (PDict ev) \<or> \<not> all_finite (PDict ev)")
    case True
    then have "\<exists>e. append_audit E ev s = (s, Inl e)"
      by (auto simp: append_audit_def dumps_checked_def simp del: serialisable.simps all_finite.simps)
    then show ?thesis using refused by blast
  next
    case False
    then show ?thesis using torn written w
      by (cases x) (simp_all add: append_audit_def dumps_checked_def del: serialisable.simps all_finite.simps)
  qed
qed

lemma append_audit_extends: "extends P s (fst (append_audit E ev s))"
  by (cases rule: append_audit_cases [of E ev s]) (auto simp: extends_def)

lemma write_state_extends: "extends P s (fst (write_state E k s))"
  by (auto simp: write_state_def extends_def)

lemma scale_worker_extends:
  assumes "\<lbrakk>1 \<le> n; n \<le> 3\<rbrakk> \<Longrightarrow> P (scale_args (docker_prefix cf proj) n)"
  shows "extends P s (fst (scale_worker E cf proj n s))"
  using assms unfolding scale_worker_def min_replicas_def max_replicas_def
  by (auto dest!: compose_prefix_Inr intro!: extends_rules run_command_extends)

lemma restore_extends:
  assumes "\<lbrakk>1 \<le> replicas n; replicas n \<le> 3\<rbrakk> \<Longrightarrow> P (scale_args (docker_prefix cf proj) (replicas n))"
  shows "extends P s (fst (restore E cf proj n s))"
  unfolding restore_def by (intro extends_rules scale_worker_extends docker_snapshot_extends assms)

lemma append_audit_Inr:
  "append_audit E ev s = (s', Inr u) \<Longrightarrow> \<exists>w. s' = s\<lparr>outside := w, trace := trace s @ [Audited ev]\<rparr>"
  by (cases rule: append_audit_cases [of E ev s]) auto

lemma append_audit_trace: "append_audit E ev s = (s', Inr u) \<Longrightarrow> trace s' = trace s @ [Audited ev]"
  by (auto dest: append_audit_Inr)

text \<open>The scale commands of an action: to the target, and back.\<close>

definition action_command :: "compose \<Rightarrow> string \<Rightarrow> snapshot \<Rightarrow> action \<Rightarrow> string list \<Rightarrow> bool" where
  "action_command cf proj n act c \<longleftrightarrow> (\<exists>m. 1 \<le> m \<and> m \<le> 3 \<and> m \<in> {replicas n, target_replicas n (Some act)}
     \<and> c = scale_args (docker_prefix cf proj) m)"

lemma roll_back_extends:
  assumes "\<lbrakk>1 \<le> replicas n; replicas n \<le> 3\<rbrakk> \<Longrightarrow> P (scale_args (docker_prefix cf proj) (replicas n))"
  shows "extends P s (fst (roll_back E cf proj ident n act ev e s))"
  using restore_extends [of n P cf proj s E] assms unfolding roll_back_def Let_def
  by (auto split: prod.splits intro!: extends_rules intro: extends_trans [OF _ append_audit_extends])

lemma perform_extends: "extends (action_command cf proj n act) s (fst (perform E cf proj ident n act ev s))"
proof -
  let ?P = "action_command cf proj n act"
  have try1: "extends ?P s (fst (try_action E cf proj ident n act ev s))"
    unfolding try_action_def Let_def
    by (intro extends_rules scale_worker_extends docker_snapshot_extends)
      (auto simp: action_command_def intro!: extends_rules append_audit_extends docker_snapshot_extends)
  have undo: "extends ?P t (fst (roll_back E cf proj ident n act ev e t))" for e t
    by (rule roll_back_extends) (auto simp: action_command_def)
  show ?thesis unfolding perform_def
    using try1 undo by (fastforce split: prod.splits sum.splits intro: extends_trans)
qed

section \<open>Authorisation before action\<close>

lemma split_after:
  assumes "before @ x # after = es1 @ es2" and "x \<notin> set es1"
  shows "set es1 \<subseteq> set before"
proof -
  from assms(1) obtain us where "before = es1 @ us \<or> (before @ us = es1 \<and> x # after = us @ es2)"
    by (auto simp: append_eq_append_conv2)
  with assms(2) show ?thesis by (cases us) auto
qed

text \<open>Until the decision is in the audit no scale command runs; afterwards only those of the action.\<close>

lemma run_cycle_cases:
  assumes "run_cycle E cf proj dir allow down s = (s', r)"
  obtains (quiet) "extends (\<lambda>_. False) s s'"
  | (acted) n act ident now reason es t where
      "trace t = trace s @ es @ [Audited (decision_event ident now proj n (Some act) reason allow down)]"
      "\<forall>c. Command c \<in> set es \<longrightarrow> \<not> scaling c" "permitted (Some act) allow down"
      "perform E cf proj ident n act (decision_event ident now proj n (Some act) reason allow down) t = (s', r)"
proof (cases dir)
  case False
  then show ?thesis using assms by (intro quiet) (auto simp: run_cycle_def)
next
  case True
  obtain s1 r1 where c: "docker_snapshot E cf proj s = (s1, r1)" by fastforce
  have e1: "extends (\<lambda>_. False) s s1" using docker_snapshot_extends [of _ s E cf proj] c by simp
  show ?thesis
  proof (cases r1)
    case (Inl e)
    let ?ev = "observation_event (new_id E (outside s1)) (clock E (outside s1)) proj e"
    have "extends (\<lambda>_. False) s1 (fst (then_call (append_audit E ?ev s1) (\<lambda>s _. (s, Inr ?ev))))"
      by (intro extends_then_call append_audit_extends) simp
    then have "extends (\<lambda>_. False) s1 s'" using assms c Inl True
      by (auto simp: run_cycle_def Let_def split: if_splits)
    with e1 show ?thesis by (intro quiet) (rule extends_trans)
  next
    case (Inr n)
    show ?thesis
    proof (cases "read_low_sample_count (counter s1)")
      case (Inl e)
      then show ?thesis using assms c Inr True e1 by (intro quiet) (auto simp: run_cycle_def)
    next
      case low: (Inr low)
      obtain act k reason where d: "decide_scaling n low = (act, k, reason)" by (cases "decide_scaling n low") auto
      obtain s2 r2 where w: "write_state E k s1 = (s2, r2)" by fastforce
      have e2: "extends (\<lambda>_. False) s s2"
        using extends_trans [OF e1] write_state_extends [of _ s1 E k] w by simp
      let ?id = "new_id E (outside s2)" and ?now = "clock E (outside s2)"
      let ?ev = "decision_event ?id ?now proj n act reason allow down"
      obtain s3 r3 where a: "append_audit E ?ev s2 = (s3, r3)" by fastforce
      have e3: "extends (\<lambda>_. False) s s3"
        using extends_trans [OF e2] append_audit_extends [of _ s2 E ?ev] a by simp
      have run: "then_call (s2, r2) (\<lambda>s _. then_call (append_audit E ?ev s) (\<lambda>s _.
          if \<not> permitted act allow down then (s, Inr ?ev) else perform E cf proj ?id n (the act) ?ev s)) = (s', r)
        \<or> (\<exists>e. r2 = Inl e \<and> s' = s2)"
        using assms c Inr low True d w by (cases r2) (auto simp: run_cycle_def Let_def)
      show ?thesis
      proof (cases "\<exists>u v. r2 = Inr u \<and> r3 = Inr v \<and> permitted act allow down")
        case True
        then obtain A where A: "act = Some A" by (auto simp: permitted_def)
        have p: "permitted (Some A) allow down" using True A by auto
        have t: "trace s3 = trace s2 @ [Audited ?ev]" using a True by (auto dest: append_audit_trace)
        obtain es where es: "trace s2 = trace s @ es" "\<forall>c. Command c \<in> set es \<longrightarrow> \<not> scaling c"
          using e2 by (auto simp: extends_def)
        show ?thesis
        proof (rule acted)
          show "perform E cf proj ?id n A (decision_event ?id ?now proj n (Some A) reason allow down) s3 = (s', r)"
            using run a True A by auto
        qed (use t es A p in auto)
      next
        case False
        then have "s' = s2 \<or> s' = s3" using run a by (cases r2; cases r3) auto
        with e2 e3 show ?thesis by (intro quiet) auto
      qed
    qed
  qed
qed

text \<open>
  C5: a scale command is run by a cycle only when real actions are enabled, only after the decision
  it carries out was appended to the audit in the same cycle, only for the worker service of the
  given project, with a count between 1 and 3 that is the target or (rolling back) the observed
  count; and when it carries out a scale-down, that was enabled separately.
\<close>

theorem scaling_is_authorised:
  assumes "run_cycle E cf proj dir allow down s = (s', r)"
    and "trace s' = trace s @ before @ Command c # after" and "scaling c"
  shows "allow \<and> (\<exists>ident now n act reason m.
     Audited (decision_event ident now proj n (Some act) reason True down) \<in> set before
     \<and> c = scale_args (docker_prefix cf proj) m \<and> 1 \<le> m \<and> m \<le> 3
     \<and> m \<in> {replicas n, target_replicas n (Some act)} \<and> (act = ScaleDown \<longrightarrow> down))"
  using assms(1)
proof (cases rule: run_cycle_cases)
  case quiet
  then show ?thesis using assms(2,3) by (auto simp: extends_def)
next
  case (acted n act ident now reason es t)
  let ?ev = "decision_event ident now proj n (Some act) reason allow down"
  have "extends (action_command cf proj n act) t s'"
    using perform_extends [of cf proj n act t E ident ?ev] acted(4) by simp
  then obtain fs where fs: "trace s' = trace t @ fs"
      "\<forall>c. Command c \<in> set fs \<longrightarrow> scaling c \<longrightarrow> action_command cf proj n act c"
    by (auto simp: extends_def)
  have eq: "before @ Command c # after = (es @ [Audited ?ev]) @ fs" using fs(1) acted(1) assms(2) by simp
  have notin: "Command c \<notin> set (es @ [Audited ?ev])" using acted(2) assms(3) by auto
  have "set (es @ [Audited ?ev]) \<subseteq> set before" using eq notin by (rule split_after)
  then have ev: "Audited ?ev \<in> set before" by simp
  have "Command c \<in> set ((es @ [Audited ?ev]) @ fs)" unfolding eq [symmetric] by simp
  with notin have "Command c \<in> set fs" by auto
  with fs(2) assms(3) have cmd: "action_command cf proj n act c" by blast
  have al: "allow" "act = ScaleDown \<longrightarrow> down" using acted(3) by (auto simp: permitted_def)
  from cmd obtain m where m: "1 \<le> m" "m \<le> 3" "m \<in> {replicas n, target_replicas n (Some act)}"
      "c = scale_args (docker_prefix cf proj) m" unfolding action_command_def by blast
  show ?thesis
    by (intro conjI exI [of _ ident] exI [of _ now] exI [of _ n] exI [of _ act] exI [of _ reason] exI [of _ m])
      (use ev al m in simp_all)
qed

section \<open>A machine to run it on\<close>

text \<open>
  Docker with a number of worker containers, each at 90 percent CPU: the world is that number.
\<close>

definition sample_shell :: "string list \<Rightarrow> nat \<Rightarrow> nat \<Rightarrow> nat \<times> process" where
  "sample_shell args t w = (case drop 6 args of
     [] \<Rightarrow> (w, Ran 0 ''stats'' [])
   | verb # rest \<Rightarrow> if verb = ''config'' then (w, Ran 0 ''worker'' [])
       else if verb = ''up'' then (code (last (rest ! 2)) - 48, Ran 0 [] [])
       else (w, Ran 0 (replicate w (CHR ''x'')) []))"

definition sample_loads :: "string \<Rightarrow> pyval option" where
  "sample_loads s = Some (if s = ''stats''
     then PDict [(''Name'', PStr ''w''), (''CPUPerc'', PStr ''90%''), (''MemPerc'', PStr ''12%'')]
     else PList (replicate (length s) (PDict [(''Service'', PStr ''worker''), (''Name'', PStr ''/w''),
       (''State'', PStr ''running'')])))"

definition sample_host :: "nat host" where
  "sample_host = \<lparr>shell = sample_shell, loads = sample_loads, disk_ok = (\<lambda>_. True), audit_write = (\<lambda>w. (w, None)), compose_exists = (\<lambda>_. True),
     clock = (\<lambda>_. ''now''), new_id = (\<lambda>_. ''id''), resolve_path = Some, pyrun = sample_runtime\<rparr>"

definition sample_compose :: compose where
  "sample_compose = \<lparr>compose_file = ''/c'', compose_absolute = True\<rparr>"

definition sample_control :: "nat \<Rightarrow> counter_file \<Rightarrow> nat control" where
  "sample_control w f = \<lparr>outside = w, trace = [], audit_locked = False, counter = f\<rparr>"


lemma sample_percent: "parse_percent (PStr ''90%'') = Inr (Fin 90)" "parse_percent (PStr ''12%'') = Inr (Fin 12)"
  by (simp_all add: parse_percent_def ends_with_def strip_def is_space_def float_of_text_def take_sign_def Let_def lower_def
      lower_char_def read_decimal_def digits_def read_nat_def read_exponent_def pow10_def)

definition sample_snapshot :: "nat \<Rightarrow> snapshot" where
  "sample_snapshot w = \<lparr>taken_at = ''now'', project = ''p'', replicas = w, running = w, max_cpu = Fin 90, max_memory = Fin 12,
     containers = replicate w \<lparr>o_name = ''/w'', o_state = ''running'', o_health = ''not-reported'', o_cpu = Fin 90, o_memory = Fin 12\<rparr>\<rparr>"



lemma sample_observe:
  "observe sample_runtime (stats_by_name [[(''Name'', PStr ''w''), (''CPUPerc'', PStr ''90%''), (''MemPerc'', PStr ''12%'')]])
     [(''Service'', PStr ''worker''), (''Name'', PStr ''/w''), (''State'', PStr ''running'')]
   = Inr \<lparr>o_name = ''/w'', o_state = ''running'', o_health = ''not-reported'', o_cpu = Fin 90, o_memory = Fin 12\<rparr>"
proof -
  have "lower ''running'' = ''running''" by code_simp
  then show ?thesis
    by (simp add: observe_def text_field_def por_def stats_by_name_def stats_entry_def lstrip_char_def map_filter_simps sample_percent
        lower_def [of "[]"] Let_def)
qed

lemma sample_collect:
  assumes "outside s = 1 \<or> outside s = 2"
  shows "\<exists>t. docker_snapshot sample_host sample_compose ''p'' s = (s\<lparr>trace := t\<rparr>, Inr (sample_snapshot (outside s)))"
  using assms
  by (elim disjE; simp add: docker_snapshot_def sample_host_def sample_compose_def compose_prefix_def Let_def
      project_char_def is_alnum_def run_command_def sample_shell_def line_break_def strip_def is_space_def
      allowed_service_def parse_json_lines_def sample_loads_def numeral_2_eq_2 map_filter_simps is_worker_def por_def
      sample_observe sample_snapshot_def fmax_list_def fmax_def; cases s; simp)

lemma append_audit_ok:
  "\<lbrakk>\<not> audit_locked s; audit_write E (outside s) = (outside s, None); serialisable (PDict ev); all_finite (PDict ev)\<rbrakk>
    \<Longrightarrow> append_audit E ev s = (s\<lparr>trace := trace s @ [Audited ev]\<rparr>, Inr ())"
  by (cases s) (simp add: append_audit_def dumps_checked_def)

lemma then_call_extends:
  "(\<And>s1 x. r = (s1, Inr x) \<Longrightarrow> extends P s1 (fst (f s1 x))) \<Longrightarrow> extends P (fst r) (fst (then_call r f))"
  by (cases "(r, f)" rule: then_call.cases) auto

text \<open>An action starts with its scale command.\<close>

lemma perform_starts:
  assumes "compose_prefix E cf proj s = Inr pre" "1 \<le> target_replicas n (Some act)" "target_replicas n (Some act) \<le> 3"
  shows "\<exists>es. trace (fst (perform E cf proj ident n act ev s))
    = trace s @ Command (scale_args pre (target_replicas n (Some act))) # es"
proof -
  let ?c = "scale_args pre (target_replicas n (Some act))" and ?attempted = "try_action E cf proj ident n act ev s"
  let ?scale = "scale_worker E cf proj (target_replicas n (Some act)) s" and ?T = "\<lambda>_. True"
  have 1: "trace (fst ?scale) = trace s @ [Command ?c]"
    using assms by (cases "run_command E ?c 120 s" rule: prod.exhaust; cases "snd (run_command E ?c 120 s)")
      (auto simp: scale_worker_def min_replicas_def max_replicas_def run_command_def Let_def split: prod.splits)
  have 2: "extends ?T (fst ?scale) (fst ?attempted)" unfolding try_action_def Let_def
    by (intro then_call_extends) (auto intro!: extends_rules append_audit_extends docker_snapshot_extends)
  have 3: "extends ?T t (fst (roll_back E cf proj ident n act ev e t))" for e t
    by (rule roll_back_extends) simp
  have "extends ?T (fst ?scale) (fst (perform E cf proj ident n act ev s))"
    unfolding perform_def using 2 3 by (fastforce split: prod.splits sum.splits intro: extends_trans)
  then show ?thesis using 1 by (auto simp: extends_def)
qed

lemma sample_action_scales: "\<exists>before c after. trace (fst (run_cycle sample_host sample_compose ''p'' True True False (sample_control 1 NoFile)))
    = before @ Command c # after \<and> scaling c"
proof -
  let ?s = "sample_control 1 NoFile" and ?n = "sample_snapshot 1"
  obtain t where t: "docker_snapshot sample_host sample_compose ''p'' ?s = (?s\<lparr>trace := t\<rparr>, Inr ?n)"
    using sample_collect [of ?s] by (auto simp: sample_control_def)
  obtain reason where d: "decide_scaling ?n 0 = (Some ScaleUp, 0, reason)"
    by (simp add: decide_scaling_def sample_snapshot_def min_replicas_def max_replicas_def scale_up_cpu_def fle_def Let_def)
  have j: "serialisable (PDict (decision_event i now p ?n act reason a b))" "all_finite (PDict (decision_event i now p ?n act reason a b))"
    for i now p act a b
    by (simp_all add: decision_event_def sample_snapshot_def snapshot_value_def observed_value_def)
  have pre: "compose_prefix sample_host sample_compose ''p'' s = Inr (docker_prefix sample_compose ''p'')" for s
    by (simp add: compose_prefix_def sample_host_def sample_compose_def docker_prefix_def project_char_def is_alnum_def Let_def)
  have h: "disk_ok sample_host w" "audit_write sample_host w = (w, None)" "clock sample_host w = ''now''" "new_id sample_host w = ''id''" for w
    by (simp_all add: sample_host_def)
  let ?ev = "decision_event ''id'' ''now'' ''p'' ?n (Some ScaleUp) reason True False"
  let ?s1 = "\<lparr>outside = 1, trace = t @ [Audited ?ev], audit_locked = False,
      counter = Doc (PDict [(''low_resource_samples'', PInt 0), (''updated_at_utc'', PStr ''now'')])\<rparr>"
  have run: "run_cycle sample_host sample_compose ''p'' True True False ?s
      = perform sample_host sample_compose ''p'' ''id'' ?n ScaleUp ?ev ?s1"
    using t d j by (simp add: run_cycle_def h read_low_sample_count_def sample_control_def write_state_def append_audit_ok
        permitted_def Let_def)
  obtain es where "trace (fst (perform sample_host sample_compose ''p'' ''id'' ?n ScaleUp ?ev ?s1))
      = trace ?s1 @ Command (scale_args (docker_prefix sample_compose ''p'') 2) # es"
    using perform_starts [OF pre [of ?s1], of ?n ScaleUp "''id''" ?ev] by (auto simp: target_replicas_def sample_snapshot_def numeral_2_eq_2)
  then show ?thesis using run scaling_scale_args by metis
qed

lemma decision_event_gets [simp]:
  "dget (decision_event ident now proj n act reason allow down) ''phase'' = PStr ''DECISION''"
  "dget (decision_event ident now proj n act reason allow down) ''status'' = PStr (initial_status act allow down)"
  by (simp_all add: decision_event_def)

theorem scaling_is_authorised_witness:
  "\<exists>before c m. scaling c \<and> list_ex (\<lambda>e. case e of Audited ev \<Rightarrow> dget ev ''phase'' = PStr ''DECISION'' | _ \<Rightarrow> False) before
    \<and> c = scale_args (docker_prefix sample_compose ''p'') m \<and> m \<le> 3"
proof -
  let ?r = "run_cycle sample_host sample_compose ''p'' True True False (sample_control 1 NoFile)"
  obtain before c after where t: "trace (fst ?r) = before @ Command c # after" "scaling c"
    using sample_action_scales by blast
  have t0: "trace (fst ?r) = trace (sample_control 1 NoFile) @ before @ Command c # after"
    using t(1) by (simp add: sample_control_def)
  from scaling_is_authorised [OF surjective_pairing t0 t(2)]
  obtain ident now n act reason m where
    ev: "Audited (decision_event ident now ''p'' n (Some act) reason True False) \<in> set before"
    and m: "c = scale_args (docker_prefix sample_compose ''p'') m" "m \<le> 3" by blast
  have "list_ex (\<lambda>e. case e of Audited ev \<Rightarrow> dget ev ''phase'' = PStr ''DECISION'' | _ \<Rightarrow> False) before"
    unfolding list_ex_iff by (rule bexI [OF _ ev]) simp
  with t(2) m show ?thesis by blast
qed


section \<open>Sustained low use before a scale-down\<close>

definition ran :: "'w control \<Rightarrow> 'w control \<Rightarrow> bool" where
  "ran s s' \<longleftrightarrow> counter s' = counter s \<and> (\<exists>cs. trace s' = trace s @ List.map Command cs)"

lemma ran_refl [simp]: "ran s s"
  by (simp add: ran_def)

lemma ran_trans: "ran s t \<Longrightarrow> ran t u \<Longrightarrow> ran s u"
  unfolding ran_def by (metis append.assoc map_append)

lemma ran_then_call:
  assumes "ran s (fst r)" and "\<And>s1 x. r = (s1, Inr x) \<Longrightarrow> ran s1 (fst (f s1 x))"
  shows "ran s (fst (then_call r f))"
  using assms by (cases "(r, f)" rule: then_call.cases) (auto intro: ran_trans)

lemma ran_attempt: "(\<And>x. r = Inr x \<Longrightarrow> ran s (fst (f x))) \<Longrightarrow> ran s (fst (attempt s r f))"
  by (cases r) auto

lemma run_command_ran: "ran s (fst (run_command E args t s))"
  by (auto simp: run_command_def ran_def Let_def split: prod.splits intro!: exI [of _ "[args]"])

lemma docker_snapshot_ran: "ran s (fst (docker_snapshot E cf proj s))"
  unfolding docker_snapshot_def Let_def
  by (intro ran_attempt ran_then_call run_command_ran) (auto intro!: ran_attempt ran_then_call run_command_ran)

text \<open>The records a part of the trace holds, whole or torn, and the decisions among them.\<close>

fun recordings :: "effect list \<Rightarrow> pydict list" where
  "recordings [] = []"
| "recordings (Command c # es) = recordings es"
| "recordings (Audited d # es) = d # recordings es"
| "recordings (Torn d n # es) = d # recordings es"

lemma recordings_append [simp]: "recordings (es @ fs) = recordings es @ recordings fs"
  by (induction es rule: recordings.induct) simp_all

lemma recordings_commands [simp]: "recordings (List.map Command cs) = []"
  by (induction cs) simp_all

definition decided :: "'w control \<Rightarrow> 'w control \<Rightarrow> pydict list" where
  "decided s s' = List.filter (\<lambda>d. dget d ''phase'' = PStr ''DECISION'') (recordings (drop (length (trace s)) (trace s')))"

text \<open>\<open>undecided s s'\<close>: on the way from s to s' the counter is left alone and no decision is recorded.\<close>

definition undecided :: "'w control \<Rightarrow> 'w control \<Rightarrow> bool" where
  "undecided s s' \<longleftrightarrow> counter s' = counter s
    \<and> (\<exists>es. trace s' = trace s @ es \<and> (\<forall>d \<in> set (recordings es). dget d ''phase'' \<noteq> PStr ''DECISION''))"

lemma ran_undecided: "ran s s' \<Longrightarrow> undecided s s'"
  by (auto simp: ran_def undecided_def)

lemma undecided_refl [simp]: "undecided s s"
  by (simp add: undecided_def)

lemma undecided_trans: "undecided s t \<Longrightarrow> undecided t u \<Longrightarrow> undecided s u"
  unfolding undecided_def by fastforce

lemma undecided_then_call:
  assumes "undecided s (fst r)" and "\<And>s1 x. r = (s1, Inr x) \<Longrightarrow> undecided s1 (fst (f s1 x))"
  shows "undecided s (fst (then_call r f))"
  using assms by (cases "(r, f)" rule: then_call.cases) (auto intro: undecided_trans)

lemma scale_worker_ran: "ran s (fst (scale_worker E cf proj n s))"
  unfolding scale_worker_def by (auto intro!: ran_attempt ran_then_call run_command_ran)

lemma restore_ran: "ran s (fst (restore E cf proj n s))"
  unfolding restore_def by (intro ran_then_call scale_worker_ran docker_snapshot_ran)

lemma append_audit_undecided: "dget ev ''phase'' \<noteq> PStr ''DECISION'' \<Longrightarrow> undecided s (fst (append_audit E ev s))"
  by (cases rule: append_audit_cases [of E ev s]) (auto simp: undecided_def)

lemma phases [simp]:
  "dget (verify_event ident now n target post eff) ''phase'' = PStr ''VERIFY''"
  "dget (rollback_event ident now n target status failure detail) ''phase'' = PStr ''ROLLBACK''"
  "dget (observation_event ident now proj e) ''phase'' = PStr ''OBSERVATION''"
  by (simp_all add: verify_event_def rollback_event_def observation_event_def)

lemma perform_undecided: "undecided s (fst (perform E cf proj ident n act ev s))"
proof -
  have 1: "undecided s (fst (try_action E cf proj ident n act ev s))"
    unfolding try_action_def Let_def
    by (intro undecided_then_call ran_undecided [OF scale_worker_ran] ran_undecided [OF docker_snapshot_ran])
      (auto intro!: undecided_then_call append_audit_undecided)
  have 2: "undecided t (fst (roll_back E cf proj ident n act ev e t))" for e t
    using ran_undecided [OF restore_ran [of t E cf proj n]] unfolding roll_back_def Let_def
    by (auto split: prod.splits intro!: undecided_then_call intro: undecided_trans [OF _ append_audit_undecided])
  show ?thesis unfolding perform_def
    using 1 2 by (fastforce split: prod.splits sum.splits intro: undecided_trans)
qed

lemma perform_keeps_action:
  assumes "perform E cf proj ident n act ev s = (s', Inr res)"
  shows "dget res ''action'' = dget ev ''action''"
  using assms unfolding perform_def try_action_def roll_back_def Let_def
  by (auto simp: then_call_Inr dupdate_def measure_effect_def Let_def split: prod.splits sum.splits if_splits)

lemma undecided_decided: "undecided s s' \<Longrightarrow> decided s s' = []"
  by (auto simp: undecided_def decided_def filter_empty_conv)

lemma decided_after:
  assumes "ran s t" "trace t' = trace t @ es" "undecided t' s'"
  shows "decided s s' = List.filter (\<lambda>d. dget d ''phase'' = PStr ''DECISION'') (recordings es)"
  using assms by (auto simp: undecided_def decided_def ran_def filter_empty_conv)

text \<open>One cycle with its arguments, and the snapshot whose count it could write.\<close>

datatype cycle = Cycle compose string bool bool bool

fun cycle_run :: "('w, 'x) host_scheme \<Rightarrow> cycle \<Rightarrow> 'w control \<Rightarrow> 'w control \<times> (exc + pydict)" where
  "cycle_run E (Cycle cf proj dir allow down) s = run_cycle E cf proj dir allow down s"

definition cycle_step :: "('w, 'x) host_scheme \<Rightarrow> cycle \<Rightarrow> 'w control \<Rightarrow> 'w control" where
  "cycle_step E c s = fst (cycle_run E c s)"

fun sampled_in :: "('w, 'x) host_scheme \<Rightarrow> cycle \<Rightarrow> 'w control \<Rightarrow> snapshot option" where
  "sampled_in E (Cycle cf proj dir allow down) s = (if \<not> dir then None else case docker_snapshot E cf proj s of
     (s1, Inr n) \<Rightarrow> if disk_ok E (outside s1) then Some n else None
   | (s1, Inl e) \<Rightarrow> None)"

fun samples :: "('w, 'x) host_scheme \<Rightarrow> cycle list \<Rightarrow> 'w control \<Rightarrow> snapshot list" where
  "samples E [] s = []"
| "samples E (c # cs) s = (case sampled_in E c s of None \<Rightarrow> [] | Some n \<Rightarrow> [n]) @ samples E cs (cycle_step E c s)"

text \<open>Low use: CPU at most 20 and memory at most 50 percent, with two or three workers.\<close>

definition low_use :: "snapshot \<Rightarrow> bool" where
  "low_use n \<longleftrightarrow> fle (max_cpu n) (Fin 20) \<and> fle (max_memory n) (Fin 50) \<and> 1 < replicas n \<and> replicas n \<le> 3"

definition low_streak :: "snapshot list \<Rightarrow> nat" where
  "low_streak ns = length (takeWhile low_use (rev ns))"

lemma low_streak_snoc [simp]: "low_streak (ns @ [n]) = (if low_use n then Suc (low_streak ns) else 0)"
  by (simp add: low_streak_def)

lemma decide_low:
  assumes "decide_scaling n (c mod 3) = (act, k, reason)"
  shows "(act = Some ScaleDown) = (low_use n \<and> Suc c mod 3 = 0)" and "k = (if low_use n then Suc c mod 3 else 0)"
proof -
  have high: "\<not> (fle x (Fin 20) \<and> fle (Fin 75) x)" "\<not> (fle x (Fin 50) \<and> fle (Fin 80) x)" for x
    by (cases x; auto simp: fle_def)+
  have "c mod 3 = 0 \<or> c mod 3 = 1 \<or> c mod 3 = 2" by linarith
  then show "(act = Some ScaleDown) = (low_use n \<and> Suc c mod 3 = 0)" and "k = (if low_use n then Suc c mod 3 else 0)"
    using assms high [of "max_cpu n"] high [of "max_memory n"]
    by (auto simp: decide_scaling_def Let_def low_use_def min_replicas_def max_replicas_def low_samples_required_def
        scale_up_cpu_def scale_up_memory_def scale_down_cpu_def scale_down_memory_def mod_Suc split: if_splits)
qed

lemma read_written: "write_state E k s = (s', Inr u) \<Longrightarrow> k \<le> 3 \<Longrightarrow> read_low_sample_count (counter s') = Inr k"
  by (auto simp: write_state_def read_low_sample_count_def dget_or_def low_samples_required_def split: if_splits)

lemma streak_of_two:
  assumes "Suc (low_streak ns) mod 3 = 0"
  shows "2 \<le> length ns \<and> low_use (ns ! (length ns - 1)) \<and> low_use (ns ! (length ns - 2))"
proof -
  have l: "2 \<le> low_streak ns" using assms by (cases "low_streak ns"; cases "low_streak ns - 1") auto
  then have len: "2 \<le> length ns" using length_takeWhile_le [of low_use "rev ns"] by (simp add: low_streak_def)
  have low: "low_use (rev ns ! i)" if "i < 2" for i
    using l that nth_mem [of i "takeWhile low_use (rev ns)"] set_takeWhileD [of _ low_use "rev ns"]
    by (auto simp: low_streak_def takeWhile_nth)
  have "ns \<noteq> []" using len by auto
  with low [of 0] low [of 1] show ?thesis using len rev_nth [of 0 ns] rev_nth [of 1 ns] by (auto simp: numeral_2_eq_2)
qed

text \<open>What a cycle does to the counter, and the decision it records, for a counter that reads c mod 3.\<close>

lemma run_cycle_unsampled:
  assumes "sampled_in E (Cycle cf proj dir allow down) s = None"
  shows "undecided s (fst (run_cycle E cf proj dir allow down s))"
proof (cases "docker_snapshot E cf proj s")
  case (Pair s1 r)
  have s1: "undecided s s1" using ran_undecided [OF docker_snapshot_ran [of s E cf proj]] Pair by simp
  show ?thesis
  proof (cases r)
    case (Inl e)
    have "undecided s1 (fst (then_call (append_audit E (observation_event i t proj e) s1) (\<lambda>s _. (s, Inr x))))" for i t and x :: pydict
      by (intro undecided_then_call append_audit_undecided) auto
    then show ?thesis using Pair Inl s1 by (auto simp: run_cycle_def Let_def intro: undecided_trans)
  next
    case (Inr n)
    then have "dir \<Longrightarrow> \<not> disk_ok E (outside s1)" using assms Pair by (auto split: if_splits)
    then show ?thesis using Pair Inr s1
      by (cases "read_low_sample_count (counter s1)") (auto simp: run_cycle_def write_state_def split: prod.splits)
  qed
qed

lemma run_cycle_sampled:
  assumes "sampled_in E (Cycle cf proj dir allow down) s = Some n" and "read_low_sample_count (counter s) = Inr (c mod 3)"
    and run: "run_cycle E cf proj dir allow down s = (s', r)"
  shows "read_low_sample_count (counter s') = Inr (if low_use n then Suc c mod 3 else 0)"
    and "\<exists>d. dget d ''observed'' = snapshot_value n
      \<and> (dget d ''action'' = PStr ''scale_down_workers'') = (low_use n \<and> Suc c mod 3 = 0)
      \<and> decided s s' \<in> {[], [d]} \<and> (\<forall>res. r = Inr res \<longrightarrow> decided s s' = [d] \<and> dget res ''action'' = dget d ''action'')"
proof -
  obtain s1 where c: "docker_snapshot E cf proj s = (s1, Inr n)" and ok: "disk_ok E (outside s1)" and dir
    using assms(1) by (auto split: prod.splits sum.splits if_splits)
  have ran1: "ran s s1" using docker_snapshot_ran [of s E cf proj] c by simp
  then have low: "read_low_sample_count (counter s1) = Inr (c mod 3)" using assms(2) by (simp add: ran_def)
  obtain act k reason where d: "decide_scaling n (c mod 3) = (act, k, reason)" by (cases "decide_scaling n (c mod 3)") auto
  obtain s2 where w: "write_state E k s1 = (s2, Inr ())" using ok by (simp add: write_state_def)
  have k: "k = (if low_use n then Suc c mod 3 else 0)" using decide_low(2) [OF d] .
  have k2: "read_low_sample_count (counter s2) = Inr k"
    using w by (rule read_written) (use k mod_less_divisor [of 3 "Suc c"] in auto)
  have t2: "trace s2 = trace s1" using w by (auto simp: write_state_def split: if_splits)
  let ?ev = "decision_event (new_id E (outside s2)) (clock E (outside s2)) proj n act reason allow down"
  have act: "(dget ?ev ''action'' = PStr ''scale_down_workers'') = (low_use n \<and> Suc c mod 3 = 0)"
    using decide_low(1) [OF d] by (cases act rule: action_name.cases) (simp_all add: decision_event_def)
  have obs: "dget ?ev ''observed'' = snapshot_value n" by (simp add: decision_event_def)
  have rest: "then_call (append_audit E ?ev s2) (\<lambda>s _. if \<not> permitted act allow down then (s, Inr ?ev)
      else perform E cf proj (new_id E (outside s2)) n (the act) ?ev s) = (s', r)"
    using run c low d w \<open>dir\<close> by (simp add: run_cycle_def Let_def)
  have out: "counter s' = counter s2 \<and> decided s s' \<in> {[], [?ev]}
      \<and> (\<forall>res. r = Inr res \<longrightarrow> decided s s' = [?ev] \<and> dget res ''action'' = dget ?ev ''action'')"
    using append_audit_cases [of E ?ev s2]
  proof cases
    case (refused e)
    then have "s' = s2" "r = Inl e" using rest by auto
    then show ?thesis using decided_after [OF ran1, of s2 "[]" s2] t2 by simp
  next
    case (torn w x)
    then have s': "s' = s2\<lparr>outside := w, trace := trace s2 @ [Torn ?ev x]\<rparr>" "\<nexists>res. r = Inr res" using rest by auto
    show ?thesis using decided_after [OF ran1, of s' "[Torn ?ev x]" s'] t2 s' by simp
  next
    case (written w)
    let ?s3 = "s2\<lparr>outside := w, trace := trace s2 @ [Audited ?ev]\<rparr>"
    have then_: "(if \<not> permitted act allow down then (?s3, Inr ?ev)
        else perform E cf proj (new_id E (outside s2)) n (the act) ?ev ?s3) = (s', r)"
      using rest written(1) by simp
    then have u: "undecided ?s3 s'"
      using perform_undecided [of ?s3 E cf proj "new_id E (outside s2)" n "the act" ?ev] by (auto split: if_splits)
    have "dget res ''action'' = dget ?ev ''action''" if "r = Inr res" for res
      using then_ that perform_keeps_action by (fastforce split: if_splits)
    then show ?thesis using decided_after [OF ran1, of ?s3 "[Audited ?ev]" s'] u t2 by (simp add: undecided_def)
  qed
  show "read_low_sample_count (counter s') = Inr (if low_use n then Suc c mod 3 else 0)" using out k2 k by simp
  show "\<exists>d. dget d ''observed'' = snapshot_value n
      \<and> (dget d ''action'' = PStr ''scale_down_workers'') = (low_use n \<and> Suc c mod 3 = 0)
      \<and> decided s s' \<in> {[], [d]} \<and> (\<forall>res. r = Inr res \<longrightarrow> decided s s' = [d] \<and> dget res ''action'' = dget d ''action'')"
    by (rule exI [of _ ?ev]) (use obs act out in simp)
qed

lemma counter_counts:
  assumes "read_low_sample_count (counter s) = Inr (low_streak ns mod 3)"
  shows "read_low_sample_count (counter (fold (cycle_step E) cs s)) = Inr (low_streak (ns @ samples E cs s) mod 3)"
  using assms
proof (induction cs arbitrary: s ns)
  case (Cons c cs)
  obtain cf proj dir allow down where c: "c = Cycle cf proj dir allow down" by (cases c)
  show ?case
  proof (cases "sampled_in E c s")
    case None
    then have "counter (cycle_step E c s) = counter s"
      using run_cycle_unsampled [of E cf proj dir allow down s] by (simp add: c cycle_step_def undecided_def)
    then show ?thesis using Cons.IH [of "cycle_step E c s" ns] Cons.prems None by simp
  next
    case (Some n)
    then have "read_low_sample_count (counter (cycle_step E c s)) = Inr (low_streak (ns @ [n]) mod 3)"
      using run_cycle_sampled(1) [OF _ Cons.prems surjective_pairing, of E cf proj dir allow down n] by (simp add: c cycle_step_def)
    from Cons.IH [OF this] Some show ?thesis by simp
  qed
qed simp


text \<open>Two workers at 5 percent CPU, observed only\<close>

definition idle_host :: "nat host" where
  "idle_host = sample_host\<lparr>loads := (\<lambda>s. Some (if s = ''stats''
     then PDict [(''Name'', PStr ''w''), (''CPUPerc'', PStr ''5%''), (''MemPerc'', PStr ''12%'')]
     else PList (replicate (length s) (PDict [(''Service'', PStr ''worker''), (''Name'', PStr ''/w''), (''State'', PStr ''running'')]))))\<rparr>"

definition idle_snapshot :: snapshot where
  "idle_snapshot = \<lparr>taken_at = ''now'', project = ''p'', replicas = 2, running = 2, max_cpu = Fin 5, max_memory = Fin 12,
     containers = replicate 2 \<lparr>o_name = ''/w'', o_state = ''running'', o_health = ''not-reported'', o_cpu = Fin 5, o_memory = Fin 12\<rparr>\<rparr>"

abbreviation idle_cycle :: cycle where
  "idle_cycle \<equiv> Cycle sample_compose ''p'' True False False"

lemma idle_observe:
  "observe sample_runtime (stats_by_name [[(''Name'', PStr ''w''), (''CPUPerc'', PStr ''5%''), (''MemPerc'', PStr ''12%'')]])
     [(''Service'', PStr ''worker''), (''Name'', PStr ''/w''), (''State'', PStr ''running'')]
   = Inr \<lparr>o_name = ''/w'', o_state = ''running'', o_health = ''not-reported'', o_cpu = Fin 5, o_memory = Fin 12\<rparr>"
proof -
  have l: "lower ''running'' = ''running''" by code_simp
  have p: "parse_percent (PStr ''5%'') = Inr (Fin 5)"
    by (simp add: parse_percent_def ends_with_def strip_def is_space_def float_of_text_def take_sign_def Let_def lower_def
        lower_char_def read_decimal_def digits_def read_nat_def read_exponent_def pow10_def)
  show ?thesis using l
    by (simp add: observe_def text_field_def por_def stats_by_name_def stats_entry_def lstrip_char_def map_filter_simps sample_percent p
        lower_def [of "[]"] Let_def)
qed

lemma idle_collect:
  "outside s = 2 \<Longrightarrow> \<exists>t. docker_snapshot idle_host sample_compose ''p'' s = (s\<lparr>trace := t\<rparr>, Inr idle_snapshot)"
  by (simp add: docker_snapshot_def idle_host_def sample_host_def sample_compose_def compose_prefix_def Let_def
      project_char_def is_alnum_def run_command_def sample_shell_def line_break_def strip_def is_space_def
      allowed_service_def parse_json_lines_def numeral_2_eq_2 map_filter_simps is_worker_def por_def
      idle_observe idle_snapshot_def fmax_list_def fmax_def; cases s; simp)

lemma idle_sampled: "outside s = 2 \<Longrightarrow> sampled_in idle_host idle_cycle s = Some idle_snapshot"
  using idle_collect [of s] by (auto simp: idle_host_def sample_host_def)

lemma idle_step:
  assumes "outside s = 2" "\<not> audit_locked s" "read_low_sample_count (counter s) = Inr c"
  shows "outside (cycle_step idle_host idle_cycle s) = 2 \<and> \<not> audit_locked (cycle_step idle_host idle_cycle s)
    \<and> (\<exists>k res. read_low_sample_count (counter (cycle_step idle_host idle_cycle s)) = Inr k \<and> snd (cycle_run idle_host idle_cycle s) = Inr res)"
proof -
  obtain t where t: "docker_snapshot idle_host sample_compose ''p'' s = (s\<lparr>trace := t\<rparr>, Inr idle_snapshot)"
    using idle_collect [OF assms(1)] by blast
  obtain act k reason where d: "decide_scaling idle_snapshot c = (act, k, reason)" by (cases "decide_scaling idle_snapshot c") auto
  have h: "disk_ok idle_host w" "audit_write idle_host w = (w, None)" for w by (simp_all add: idle_host_def sample_host_def)
  have j: "serialisable (PDict (decision_event i now p idle_snapshot act reason a b))"
      "all_finite (PDict (decision_event i now p idle_snapshot act reason a b))" for i now p a b
    by (simp_all add: decision_event_def idle_snapshot_def snapshot_value_def observed_value_def numeral_2_eq_2)
  show ?thesis using t d assms j
    by (simp add: cycle_step_def run_cycle_def h write_state_def append_audit_ok permitted_def Let_def)
      (simp add: read_low_sample_count_def dget_or_def)
qed


section \<open>The outcome of an action\<close>

lemma then_call_append_audit:
  "then_call (append_audit E ev s) (\<lambda>s _. (s, Inr res)) = (s', Inr res') \<Longrightarrow> res' = res \<and> trace s' = trace s @ [Audited ev]"
  by (elim then_call_cases) (auto dest: append_audit_trace)

lemma try_action_Inr:
  assumes "try_action E cf proj ident n act ev s = (s', Inr res)"
  obtains s1 s2 post where "docker_snapshot E cf proj s1 = (s2, Inr post)"
    "replicas post = target_replicas n (Some act)" "running post = target_replicas n (Some act)"
    "trace s' = trace s2 @ [Audited (verify_event ident (clock E (outside s2)) n (target_replicas n (Some act)) post (measure_effect n post act))]"
    "res = dupdate ev ([(''status'', PStr ''ACTION_VERIFIED''), (''after'', snapshot_value post)] @ measure_effect n post act)"
proof -
  from assms obtain s1 s2 post where *: "docker_snapshot E cf proj s1 = (s2, Inr post)"
    "replicas post = target_replicas n (Some act)" "running post = target_replicas n (Some act)"
    "append_audit E (verify_event ident (clock E (outside s2)) n (target_replicas n (Some act)) post (measure_effect n post act)) s2 = (s', Inr ())"
    "res = dupdate ev ([(''status'', PStr ''ACTION_VERIFIED''), (''after'', snapshot_value post)] @ measure_effect n post act)"
    unfolding try_action_def Let_def by (auto simp: then_call_Inr split: if_splits)
  show ?thesis by (rule that [OF *(1,2,3) _ *(5)]) (use append_audit_trace [OF *(4)] in simp)
qed

lemma verified_gets:
  "dget (dupdate ev ([(''status'', x), (''after'', y)] @ measure_effect n post act)) ''status'' = x"
  "dget (dupdate ev ([(''status'', x), (''after'', y)] @ measure_effect n post act)) ''after'' = y"
  by (simp_all add: dupdate_def measure_effect_def Let_def)

lemma roll_back_Inr:
  assumes "roll_back E cf proj ident n act ev e s = (s', Inr res)"
  obtains s2 r status detail where "restore E cf proj n s = (s2, r)" "rollback_outcome n e r = (status, detail)"
    "trace s' = trace s2 @ [Audited (rollback_event ident (clock E (outside s2)) n (target_replicas n (Some act)) status (class_name (fst e)) detail)]"
    "res = dupdate ev [(''status'', PStr status), (''failure_type'', PStr (class_name (fst e)))]"
  using assms unfolding roll_back_def Let_def
  by (auto split: prod.splits elim!: then_call_cases dest: append_audit_trace)

text \<open>
  C10: an action that returns ends in one of two ways. Either a snapshot taken after it showed exactly
  the target number of replicas, all running, the last thing written is the VERIFY record with that
  snapshot and the status is ACTION_VERIFIED; or the attempt failed, the original count was commanded
  again, the last thing written is the ROLLBACK record with the status returned, and that status is
  ROLLED_BACK exactly when a further snapshot showed the original count running.
\<close>

theorem action_is_verified_or_rolled_back:
  assumes "perform E cf proj ident n act ev s = (s', Inr res)"
  shows "(\<exists>s1 s2 post now. docker_snapshot E cf proj s1 = (s2, Inr post)
      \<and> replicas post = target_replicas n (Some act) \<and> running post = target_replicas n (Some act)
      \<and> trace s' = trace s2 @ [Audited (verify_event ident now n (target_replicas n (Some act)) post (measure_effect n post act))]
      \<and> dget res ''status'' = PStr ''ACTION_VERIFIED'' \<and> dget res ''after'' = snapshot_value post)
    \<or> (\<exists>e s1 s2 r status now detail. try_action E cf proj ident n act ev s = (s1, Inl e) \<and> restore E cf proj n s1 = (s2, r)
      \<and> trace s' = trace s2 @ [Audited (rollback_event ident now n (target_replicas n (Some act)) status (class_name (fst e)) detail)]
      \<and> dget res ''status'' = PStr status
      \<and> (status = ''ROLLED_BACK'') = (\<exists>rb. r = Inr rb \<and> replicas rb = replicas n \<and> running rb = replicas n))"
proof (cases "try_action E cf proj ident n act ev s")
  case (Pair s1 r1)
  show ?thesis
  proof (cases r1)
    case (Inr res1)
    then have "try_action E cf proj ident n act ev s = (s', Inr res)" using assms Pair by (simp add: perform_def)
    then show ?thesis
      by (rule try_action_Inr) (rule disjI1, use verified_gets in blast)
  next
    case (Inl e)
    then have "roll_back E cf proj ident n act ev e s1 = (s', Inr res)" using assms Pair by (simp add: perform_def)
    then show ?thesis
    proof (rule roll_back_Inr)
      fix s2 r status detail
      assume h: "restore E cf proj n s1 = (s2, r)" "rollback_outcome n e r = (status, detail)"
        "trace s' = trace s2 @ [Audited (rollback_event ident (clock E (outside s2)) n (target_replicas n (Some act)) status (class_name (fst e)) detail)]"
        "res = dupdate ev [(''status'', PStr status), (''failure_type'', PStr (class_name (fst e)))]"
      have "(status = ''ROLLED_BACK'') = (\<exists>rb. r = Inr rb \<and> replicas rb = replicas n \<and> running rb = replicas n)"
        using h(2) by (auto simp: rollback_outcome_def split: sum.splits if_splits)
      moreover have "dget res ''status'' = PStr status" using h(4) by (simp add: dupdate_def)
      ultimately show ?thesis using Pair Inl h(1,3) by blast
    qed
  qed
qed

lemma scaled_sample:
  "scale_worker sample_host sample_compose ''p'' 2 s
    = (s\<lparr>outside := 2, trace := trace s @ [Command (scale_args (docker_prefix sample_compose ''p'') 2)]\<rparr>, Inr ())"
  by (simp add: scale_worker_def min_replicas_def max_replicas_def compose_prefix_def sample_host_def sample_compose_def
      docker_prefix_def project_char_def is_alnum_def Let_def run_command_def scale_args_def sample_shell_def allowed_service_def
      show_nat.simps [of 2] digit_char_def)

lemma sample_perform:
  "\<exists>s' res. perform sample_host sample_compose ''p'' ''id'' (sample_snapshot 1) ScaleUp [] (sample_control 1 NoFile) = (s', Inr res)
    \<and> (\<exists>s1. try_action sample_host sample_compose ''p'' ''id'' (sample_snapshot 1) ScaleUp [] (sample_control 1 NoFile) = (s1, Inr res))"
proof -
  let ?s = "sample_control 1 NoFile" and ?n = "sample_snapshot 1"
  let ?s2 = "?s\<lparr>outside := 2, trace := trace ?s @ [Command (scale_args (docker_prefix sample_compose ''p'') 2)]\<rparr>"
  obtain t where t: "docker_snapshot sample_host sample_compose ''p'' ?s2 = (?s2\<lparr>trace := t\<rparr>, Inr (sample_snapshot 2))"
    using sample_collect [of ?s2] by auto
  have tgt: "target_replicas ?n (Some ScaleUp) = 2" by (simp add: target_replicas_def sample_snapshot_def numeral_2_eq_2)
  have n2: "replicas (sample_snapshot 2) = 2" "running (sample_snapshot 2) = 2" by (simp_all add: sample_snapshot_def)
  have eff: "measure_effect ?n (sample_snapshot 2) ScaleUp = [(''cpu_delta_percentage_points'', PFloat (Fin 0)),
      (''memory_delta_percentage_points'', PFloat (Fin 0)), (''replica_delta'', PInt 1), (''effect_status'', PStr ''EFFECT_NOT_CONFIRMED'')]"
    using rhe_of_int [of 0]
    by (simp add: measure_effect_def sample_snapshot_def Let_def fsub_def py_round_def fle_def scale_up_memory_def)
  have j: "serialisable (PDict (verify_event i now ?n 2 (sample_snapshot 2) (measure_effect ?n (sample_snapshot 2) ScaleUp)))"
      "all_finite (PDict (verify_event i now ?n 2 (sample_snapshot 2) (measure_effect ?n (sample_snapshot 2) ScaleUp)))" for i now
    unfolding eff by (simp_all add: verify_event_def snapshot_value_def observed_value_def sample_snapshot_def numeral_2_eq_2)
  have h: "audit_write sample_host w = (w, None)" for w by (simp add: sample_host_def)
  have free: "\<not> audit_locked ?s2" by (simp add: sample_control_def)
  have "\<exists>s1 res. try_action sample_host sample_compose ''p'' ''id'' ?n ScaleUp [] ?s = (s1, Inr res)"
    using t n2 free by (simp add: try_action_def tgt scaled_sample h append_audit_ok [OF _ _ j] Let_def del: One_nat_def)
  then show ?thesis by (auto simp: perform_def)
qed

theorem action_is_verified_or_rolled_back_witness:
  "\<exists>s' res. perform sample_host sample_compose ''p'' ''id'' (sample_snapshot 1) ScaleUp [] (sample_control 1 NoFile) = (s', Inr res)
     \<and> dget res ''status'' = PStr ''ACTION_VERIFIED''"
proof -
  obtain s' res where p: "perform sample_host sample_compose ''p'' ''id'' (sample_snapshot 1) ScaleUp [] (sample_control 1 NoFile) = (s', Inr res)"
      "\<exists>s1. try_action sample_host sample_compose ''p'' ''id'' (sample_snapshot 1) ScaleUp [] (sample_control 1 NoFile) = (s1, Inr res)"
    using sample_perform by blast
  from action_is_verified_or_rolled_back [OF p(1)] have "dget res ''status'' = PStr ''ACTION_VERIFIED''"
    using p(2) by auto
  with p(1) show ?thesis by blast
qed

section \<open>A bad_counter counter file\<close>

definition bad_counter :: "counter_file \<Rightarrow> bool" where
  "bad_counter f \<longleftrightarrow> f = NotText \<or> (case f of Doc v \<Rightarrow> \<not> is_dict v | _ \<Rightarrow> False)"

lemma damaged_read: "bad_counter f \<Longrightarrow> \<exists>e. read_low_sample_count f = Inl e \<and> \<not> caught_by e [ControlError]"
  by (auto simp: bad_counter_def read_low_sample_count_def caught_by_def issubclass_def split: counter_file.splits pyval.splits)

text \<open>
  A counter file that is not UTF-8, or is JSON but not an object, ends the controller: the cycle
  raises an exception that is not a ControlError after the snapshot, no audit record is written, and
  the loop exits with code 1.
\<close>

theorem damaged_counter_ends_watch:
  assumes "bad_counter (counter s)" and "snd (docker_snapshot E cf proj s) = Inr n"
  shows "snd (watch E cf proj True allow down repeat (Suc fuel) s) = Some 1
    \<and> (\<exists>cs. trace (fst (watch E cf proj True allow down repeat (Suc fuel) s)) = trace s @ List.map Command cs)"
proof -
  obtain s1 where c: "docker_snapshot E cf proj s = (s1, Inr n)" using assms(2) by (cases "docker_snapshot E cf proj s") auto
  have r: "ran s s1" using docker_snapshot_ran [of s E cf proj] c by simp
  then have "bad_counter (counter s1)" using assms(1) by (simp add: ran_def)
  then obtain e where "read_low_sample_count (counter s1) = Inl e" "\<not> caught_by e [ControlError]"
    using damaged_read by blast
  then show ?thesis using c r by (simp add: run_cycle_def ran_def)
qed

theorem damaged_counter_ends_watch_witness:
  "snd (watch sample_host sample_compose ''p'' True True True True 5 (sample_control 1 (Doc (PList [])))) = Some 1"
proof -
  let ?s = "sample_control 1 (Doc (PList []))"
  have "bad_counter (counter ?s)" by (simp add: bad_counter_def sample_control_def)
  moreover obtain n where "snd (docker_snapshot sample_host sample_compose ''p'' ?s) = Inr n"
    using sample_collect [of ?s] by (auto simp: sample_control_def)
  ultimately show ?thesis
    using damaged_counter_ends_watch [of ?s sample_host sample_compose "''p''" n True True True 4] by (simp add: eval_nat_numeral)
qed


end
