(* ===== verification/Listener.thy ===== *)
theory Listener
  imports PyText "HOL-Library.Multiset"
begin

text \<open>
  \<open>controller/v91_listener.py\<close>: the interop listener. The state is the inbox directory and the four
  tables it writes (\<open>data/init_listener_db.sql\<close>, with their UNIQUE columns). Every call gets its own
  faults: whether the idempotency query, the writing transaction and the removal of the file succeed.
  A transaction that fails changes no table.
\<close>

section \<open>Library functions and state\<close>

text \<open>
  \<open>parse_json\<close> is \<open>json.loads\<close> on bytes (JSONDecodeError, or UnicodeDecodeError on bytes that are no
  text), \<open>decode_text\<close> is \<open>bytes.decode(errors='replace')\<close>, \<open>iso_time\<close> is \<open>datetime.fromisoformat\<close>
  (whether a time zone is given, and the microseconds since the epoch), \<open>repr_of\<close> is \<open>repr\<close>.
\<close>

record codec =
  parse_json :: "string \<Rightarrow> exc + pyval"
  decode_text :: "string \<Rightarrow> string"
  iso_time :: "string \<Rightarrow> (bool \<times> int) option"
  repr_of :: "pyval \<Rightarrow> string"
  plat :: runtime

record ledger_row =
  l_event :: string
  l_type :: string
  l_source :: string
  l_payload :: string
  l_hash :: string
  l_at :: string

record hitl_row =
  h_event :: string
  h_type :: string
  h_source :: string
  h_payload :: string
  h_confidence :: pyfloat
  h_status :: string
  h_at :: string

record quarantine_row =
  q_event :: string
  q_reason :: string
  q_raw :: string
  q_hash :: string
  q_at :: string

record audit_row =
  a_log :: string
  a_event :: string
  a_action :: string
  a_detail :: string
  a_at :: string

record database =
  ledger_rows :: "ledger_row list"
  hitl_rows :: "hitl_row list"
  quarantine_rows :: "quarantine_row list"
  audit_rows :: "audit_row list"

record listener =
  inbox :: "(string \<times> string) list"
  db :: database

text \<open>What one call meets: faults, the clock (microseconds and text), the fresh log id.\<close>

record io =
  check_ok :: bool
  write_ok :: bool
  unlink_ok :: bool
  now_us :: int
  now_text :: string
  log_id :: string

record settings =
  secret_key :: string
  hitl_threshold :: pyfloat

section \<open>SafeSignal\<close>

definition byte_space :: "char \<Rightarrow> bool" where
  "byte_space c \<longleftrightarrow> code c \<in> {9, 10, 11, 12, 13, 32}"

definition load_secret_key :: "string option \<Rightarrow> string \<Rightarrow> exc + string" where
  "load_secret_key key_file env_key = (case key_file of
     Some raw \<Rightarrow> Inr (rev (dropWhile byte_space (rev (dropWhile byte_space raw))))
   | None \<Rightarrow> if env_key \<noteq> [] then Inr (utf8 env_key) else raise RuntimeError ''SafeSignal key not found'')"

definition compute_signature :: "runtime \<Rightarrow> string \<Rightarrow> string \<Rightarrow> string" where
  "compute_signature R payload key = hmac_hex R key payload"

definition verify_signature :: "runtime \<Rightarrow> string \<Rightarrow> pyval \<Rightarrow> string \<Rightarrow> exc + bool" where
  "verify_signature R payload provided key = compare_digest (compute_signature R payload key) provided"

definition signed_message :: "string \<Rightarrow> string \<Rightarrow> pydict \<Rightarrow> pydict" where
  "signed_message version ts payload = [(''protocol'', PStr ''SafeSignal''), (''version'', PStr version), (''ts'', PStr ts),
     (''payload'', PDict payload)]"

definition signed_message_bytes :: "runtime \<Rightarrow> string \<Rightarrow> string \<Rightarrow> pydict \<Rightarrow> exc + string" where
  "signed_message_bytes R version ts payload =
     and_then (dumps_canonical R True (PDict (signed_message version ts payload))) (\<lambda>t. Inr (utf8 t))"

definition zulu :: "string \<Rightarrow> string" where
  "zulu s = concat (List.map (\<lambda>c. if c = CHR ''Z'' then ''+00:00'' else [c]) s)"

definition age_seconds :: "int \<Rightarrow> int \<Rightarrow> pyfloat" where
  "age_seconds now ts = to_pf (of_int (now - ts) / 10 ^ 6)"

definition safesignal_check :: "codec \<Rightarrow> int \<Rightarrow> pyval \<Rightarrow> string \<Rightarrow> exc + (bool \<times> string)" where
  "safesignal_check L now event key = (case event of
     PDict ev \<Rightarrow> (case dget ev ''safesignal'' of
       PDict ss \<Rightarrow>
         if dget ss ''version'' \<noteq> PStr ''1''
         then Inr (False, ''unsupported SafeSignal version: '' @ repr_of L (dget ss ''version''))
         else if \<not> nonempty_str (dget ss ''sig'') then Inr (False, ''safesignal.sig is empty'')
         else (case dget ss ''ts'' of
           PStr ts \<Rightarrow> if blank ts then Inr (False, ''safesignal.ts is required'') else
             (case dget ev ''payload'' of
               PDict payload \<Rightarrow> (case iso_time L (zulu ts) of
                   None \<Rightarrow> Inr (False, ''invalid timestamp: '' @ repr_of L (PStr ts))
                 | Some (False, _) \<Rightarrow> Inr (False, ''timestamp must include a timezone'')
                 | Some (True, t) \<Rightarrow>
                   and_then (signed_message_bytes (plat L) ''1'' ts payload) (\<lambda>signed.
                   and_then (verify_signature (plat L) signed (dget ss ''sig'') key) (\<lambda>same.
                   Inr (if \<not> same then (False, ''signature mismatch'')
                     else if flt (Fin 300) (age_seconds now t)
                     then (False, ''event too old: '' @ fixed_text 0 (age_seconds now t) @ ''s'')
                     else if flt (age_seconds now t) (Fin (-60))
                     then (False, ''event timestamp in future: '' @ fixed_text 0 (age_seconds now t) @ ''s'')
                     else (True, ''ok'')))))
             | _ \<Rightarrow> Inr (False, ''payload must be a JSON object''))
         | _ \<Rightarrow> Inr (False, ''safesignal.ts is required''))
     | _ \<Rightarrow> Inr (False, ''missing safesignal envelope''))
   | _ \<Rightarrow> Inr (False, ''event must be a JSON object''))"

section \<open>Schema and confidence\<close>

definition required_fields :: "string list" where
  "required_fields = [''data'', ''event_type'', ''source'']"

definition validate_payload :: "pyval \<Rightarrow> bool \<times> string" where
  "validate_payload v = (case v of
     PDict p \<Rightarrow> let missing = List.filter (\<lambda>k. \<not> dhas p k) required_fields in
       if missing \<noteq> [] then (False, ''missing payload fields: '' @ quoted_list missing)
       else if \<not> nonblank_str (dget p ''event_type'') then (False, ''payload.event_type must be a non-empty string'')
       else if \<not> nonblank_str (dget p ''source'') then (False, ''payload.source must be a non-empty string'')
       else if \<not> is_dict (dget p ''data'') then (False, ''payload.data must be a JSON object'')
       else (True, ''ok'')
   | _ \<Rightarrow> (False, ''payload must be a JSON object''))"

definition risky_types :: "string list" where
  "risky_types = [''delete'', ''override'', ''force_merge'', ''escalate'', ''admin_action'']"

definition penalty :: "rat \<Rightarrow> bool \<Rightarrow> pyfloat \<Rightarrow> pyfloat" where
  "penalty q b sc = (if b then fsub sc (to_pf q) else sc)"

definition lower_of :: "pyval \<Rightarrow> exc + string" where
  "lower_of v = (case v of PStr s \<Rightarrow> Inr (lower s) | _ \<Rightarrow> raise AttributeError ''object has no attribute lower'')"

definition compute_confidence :: "runtime \<Rightarrow> pydict \<Rightarrow> exc + pyfloat" where
  "compute_confidence R p =
     and_then (lower_of (dget_or p ''event_type'' (PStr []))) (\<lambda>etype.
     and_then (dumps_default R (dget_or p ''data'' (PDict []))) (\<lambda>text.
     let sc = penalty (4/10) (etype \<in> set risky_types) (Fin 1);
         sc = penalty (2/10) (4096 < length text) sc;
         sc = penalty (3/10) (\<not> truthy (dget p ''source'') \<or> dget p ''source'' = PStr ''unknown'') sc in
     Inr (fmax (Fin 0) (fmin (Fin 1) sc))))"

section \<open>Tables\<close>

definition insert_ledger :: "ledger_row \<Rightarrow> database \<Rightarrow> exc + database" where
  "insert_ledger r d = (if l_event r \<in> set (List.map l_event (ledger_rows d)) then raise SqliteError ''UNIQUE constraint failed''
     else Inr (d\<lparr>ledger_rows := ledger_rows d @ [r]\<rparr>))"

definition insert_quarantine :: "quarantine_row \<Rightarrow> database \<Rightarrow> exc + database" where
  "insert_quarantine r d = (if q_event r \<in> set (List.map q_event (quarantine_rows d)) then raise SqliteError ''UNIQUE constraint failed''
     else Inr (d\<lparr>quarantine_rows := quarantine_rows d @ [r]\<rparr>))"

definition insert_hitl_queue :: "hitl_row \<Rightarrow> database \<Rightarrow> exc + database" where
  "insert_hitl_queue r d = (if h_event r \<in> set (List.map h_event (hitl_rows d)) then raise SqliteError ''UNIQUE constraint failed''
     else Inr (d\<lparr>hitl_rows := hitl_rows d @ [r]\<rparr>))"

definition insert_audit_log :: "audit_row \<Rightarrow> database \<Rightarrow> exc + database" where
  "insert_audit_log r d = (if a_log r \<in> set (List.map a_log (audit_rows d)) then raise SqliteError ''UNIQUE constraint failed''
     else Inr (d\<lparr>audit_rows := audit_rows d @ [r]\<rparr>))"

text \<open>A session that ends in \<open>commit\<close>, on a database that may fail.\<close>

definition transaction :: "io \<Rightarrow> (database \<Rightarrow> exc + database) \<Rightarrow> listener \<Rightarrow> listener \<times> (exc + unit)" where
  "transaction i body s = (case body (db s) of
     Inl e \<Rightarrow> (s, Inl e)
   | Inr d \<Rightarrow> if write_ok i then (s\<lparr>db := d\<rparr>, Inr ()) else (s, raise SqliteError ''database is locked''))"

definition already_recorded :: "io \<Rightarrow> string \<Rightarrow> listener \<Rightarrow> bool option" where
  "already_recorded i eid s = (if check_ok i then Some (eid \<in> set (List.map a_event (audit_rows (db s)))) else None)"

text \<open>\<open>Path.unlink\<close> with its \<open>except OSError\<close>: a file that cannot be removed stays.\<close>

definition remove_inbox_file :: "io \<Rightarrow> string \<Rightarrow> listener \<Rightarrow> listener" where
  "remove_inbox_file i name s = (if unlink_ok i then s\<lparr>inbox := List.filter (\<lambda>p. fst p \<noteq> name) (inbox s)\<rparr> else s)"

definition audit_entry :: "io \<Rightarrow> string \<Rightarrow> string \<Rightarrow> string \<Rightarrow> audit_row" where
  "audit_entry i eid action detail =
     \<lparr>a_log = log_id i, a_event = eid, a_action = action, a_detail = detail, a_at = now_text i\<rparr>"

definition quarantine_file :: "io \<Rightarrow> string \<Rightarrow> string \<Rightarrow> string \<Rightarrow> string \<Rightarrow> string \<Rightarrow> listener \<Rightarrow> listener \<times> (exc + unit)" where
  "quarantine_file i name eid reason raw_text raw_hash s =
     (case transaction i (\<lambda>d. and_then (insert_quarantine \<lparr>q_event = eid, q_reason = reason, q_raw = raw_text,
          q_hash = raw_hash, q_at = now_text i\<rparr> d) (insert_audit_log (audit_entry i eid ''quarantined'' reason))) s of
        (s, Inl e) \<Rightarrow> if caught_by e [SqliteError] then (s, Inr ()) else (s, Inl e)
      | (s, Inr u) \<Rightarrow> (remove_inbox_file i name s, Inr ()))"

section \<open>One file\<close>

text \<open>The idempotency guard in front of both routes.\<close>

definition guarded :: "io \<Rightarrow> string \<Rightarrow> string \<Rightarrow> (listener \<Rightarrow> listener \<times> (exc + unit)) \<Rightarrow> listener \<Rightarrow> listener \<times> (exc + unit)" where
  "guarded i name eid proceed s = (case already_recorded i eid s of
     None \<Rightarrow> (s, Inr ())
   | Some True \<Rightarrow> (remove_inbox_file i name s, Inr ())
   | Some False \<Rightarrow> proceed s)"

text \<open>The transaction of a valid event: its route, and the audit row.\<close>

definition route :: "settings \<Rightarrow> io \<Rightarrow> string \<Rightarrow> string \<Rightarrow> string \<Rightarrow> string \<Rightarrow> string \<Rightarrow> runtime \<Rightarrow> pyfloat \<Rightarrow> database \<Rightarrow> exc + database" where
  "route cfg i eid etype source payload_json raw_hash R conf d =
     (if flt conf (hitl_threshold cfg)
      then and_then (insert_hitl_queue \<lparr>h_event = eid, h_type = etype, h_source = source, h_payload = payload_json,
             h_confidence = conf, h_status = ''pending'', h_at = now_text i\<rparr> d)
           (insert_audit_log (audit_entry i eid ''hitl_queued'' (''confidence='' @ fixed_text 3 conf
              @ '' threshold='' @ py_str R (PFloat (hitl_threshold cfg)))))
      else and_then (insert_ledger \<lparr>l_event = eid, l_type = etype, l_source = source, l_payload = payload_json,
             l_hash = raw_hash, l_at = now_text i\<rparr> d)
           (insert_audit_log (audit_entry i eid ''ledger_accepted'' (''confidence='' @ fixed_text 3 conf))))"

definition accept_event :: "codec \<Rightarrow> settings \<Rightarrow> io \<Rightarrow> string \<Rightarrow> string \<Rightarrow> string \<Rightarrow> pydict \<Rightarrow> listener \<Rightarrow> listener \<times> (exc + unit)" where
  "accept_event L cfg i name eid raw_hash p s =
     attempt s (compute_confidence (plat L) p) (\<lambda>conf.
     attempt s (item (PDict p) ''event_type'') (\<lambda>etype. attempt s (item (PDict p) ''source'') (\<lambda>source.
     attempt s (dumps_sorted (plat L) (PDict p)) (\<lambda>payload_json.
     then_call (transaction i (route cfg i eid (py_str (plat L) etype) (py_str (plat L) source) payload_json raw_hash (plat L) conf) s)
       (\<lambda>s _. (remove_inbox_file i name s, Inr ()))))))"

definition process_event :: "codec \<Rightarrow> settings \<Rightarrow> io \<Rightarrow> string \<Rightarrow> string \<Rightarrow> string \<Rightarrow> string \<Rightarrow> pyval \<Rightarrow> listener \<Rightarrow> listener \<times> (exc + unit)" where
  "process_event L cfg i name raw raw_hash eid event s =
     (let quarantine = (\<lambda>reason. quarantine_file i name eid reason (decode_text L raw) raw_hash s) in
      attempt s (safesignal_check L (now_us i) event (secret_key cfg)) (\<lambda>(valid, reason).
      if \<not> valid then quarantine (''safesignal_fail: '' @ reason)
      else case event of
        PDict ev \<Rightarrow> (let (ok, why) = validate_payload (dget ev ''payload'') in
          if \<not> ok then quarantine (''schema_error: '' @ why)
          else case dget ev ''payload'' of
            PDict p \<Rightarrow> accept_event L cfg i name eid raw_hash p s
          | _ \<Rightarrow> (s, raise TypeError ''not a mapping''))
      | _ \<Rightarrow> quarantine ''event_not_object''))"

definition process_file :: "codec \<Rightarrow> settings \<Rightarrow> io \<Rightarrow> string \<Rightarrow> listener \<Rightarrow> listener \<times> (exc + unit)" where
  "process_file L cfg i name s = (case map_of (inbox s) name of
     None \<Rightarrow> (s, raise FileNotFoundError ''No such file or directory'')
   | Some raw \<Rightarrow> let raw_hash = sha256_hex (plat L) raw in
     (case parse_json L raw of
        Inl e \<Rightarrow> if caught_by e [JSONDecodeError]
          then guarded i name raw_hash
            (quarantine_file i name raw_hash (''json_parse_error: '' @ snd e) (decode_text L raw) raw_hash) s
          else (s, Inl e)
      | Inr event \<Rightarrow> attempt s (dumps_canonical (plat L) True event) (\<lambda>text.
          let eid = sha256_hex (plat L) (utf8 text) in
          guarded i name eid (process_event L cfg i name raw raw_hash eid event) s)))"

section \<open>The inbox and the poll loop\<close>

text \<open>
  Every file named *.json in name order; an exception of one file is logged and the next file is
  processed. \<open>ios\<close> gives the faults and the clock of each file.
\<close>

definition json_files :: "listener \<Rightarrow> string list" where
  "json_files s = sort (List.filter (ends_with ''.json'') (List.map fst (inbox s)))"

definition watch_inbox :: "codec \<Rightarrow> settings \<Rightarrow> (string \<Rightarrow> io) \<Rightarrow> listener \<Rightarrow> listener" where
  "watch_inbox L cfg ios s = fold (\<lambda>name s. fst (process_file L cfg (ios name) name s)) (json_files s) s"

definition health_check :: "io \<Rightarrow> bool" where
  "health_check i = check_ok i"

text \<open>What happens to a listener: a poll (skipped without a database file), or a producer writes a file.\<close>

datatype listener_event =
    Poll bool "string \<Rightarrow> io"
  | Arrive string string

fun listener_step :: "codec \<Rightarrow> settings \<Rightarrow> listener_event \<Rightarrow> listener \<Rightarrow> listener" where
  "listener_step L cfg (Poll db_exists ios) s = (if db_exists then watch_inbox L cfg ios s else s)"
| "listener_step L cfg (Arrive name raw) s = s\<lparr>inbox := AList.update name raw (inbox s)\<rparr>"

section \<open>What one file can do\<close>

text \<open>
  \<open>main\<close>: without a key it ends with status 1 before it looks at the inbox; with one it polls for ever,
  here over the polls and arrivals of a list. The status is \<open>None\<close> while it runs.
\<close>

definition listener_main :: "codec \<Rightarrow> pyfloat \<Rightarrow> string option \<Rightarrow> string \<Rightarrow> listener_event list \<Rightarrow> listener \<Rightarrow> listener \<times> (exc + int option)" where
  "listener_main L threshold key_file env_key events s = (case load_secret_key key_file env_key of
     Inl e \<Rightarrow> if caught_by e [RuntimeError] then (s, Inr (Some 1)) else (s, Inl e)
   | Inr key \<Rightarrow> (fold (listener_step L \<lparr>secret_key = key, hitl_threshold = threshold\<rparr>) events s, Inr None))"

definition event_id_of :: "codec \<Rightarrow> string \<Rightarrow> string option" where
  "event_id_of L raw = (case parse_json L raw of
     Inl e \<Rightarrow> if caught_by e [JSONDecodeError] then Some (sha256_hex (plat L) raw) else None
   | Inr v \<Rightarrow> (case dumps_canonical (plat L) True v of
        Inl e \<Rightarrow> None | Inr text \<Rightarrow> Some (sha256_hex (plat L) (utf8 text))))"

definition event_ids :: "database \<Rightarrow> string list" where
  "event_ids d = List.map l_event (ledger_rows d) @ List.map h_event (hitl_rows d) @ List.map q_event (quarantine_rows d)"

definition audited :: "database \<Rightarrow> string list" where
  "audited d = List.map a_event (audit_rows d)"

definition new_record :: "string \<Rightarrow> database \<Rightarrow> database \<Rightarrow> bool" where
  "new_record eid d d' \<longleftrightarrow> mset (event_ids d') = add_mset eid (mset (event_ids d)) \<and> audited d' = audited d @ [eid]"

definition without :: "string \<Rightarrow> listener \<Rightarrow> (string \<times> string) list" where
  "without name s = List.filter (\<lambda>p. fst p \<noteq> name) (inbox s)"

lemma inserts_record:
  "and_then (insert_ledger r d) (insert_audit_log a) = Inr d' \<Longrightarrow> a_event a = l_event r \<Longrightarrow> new_record (l_event r) d d'"
  "and_then (insert_hitl_queue h d) (insert_audit_log a) = Inr d' \<Longrightarrow> a_event a = h_event h \<Longrightarrow> new_record (h_event h) d d'"
  "and_then (insert_quarantine q d) (insert_audit_log a) = Inr d' \<Longrightarrow> a_event a = q_event q \<Longrightarrow> new_record (q_event q) d d'"
  by (auto simp: and_then_Inr insert_ledger_def insert_hitl_queue_def insert_quarantine_def insert_audit_log_def
      new_record_def event_ids_def audited_def split: if_splits)

lemma remove_inbox_file_simps [simp]:
  "db (remove_inbox_file i name s) = db s"
  "inbox (remove_inbox_file i name s) = (if unlink_ok i then without name s else inbox s)"
  by (simp_all add: remove_inbox_file_def without_def)

text \<open>A transaction either fails and leaves the state, or commits what its body computed.\<close>

lemma transaction_cases:
  assumes "transaction i body s = (s', r)"
  obtains (failed) e where "s' = s" "r = Inl e" | (committed) d where "body (db s) = Inr d" "s' = s\<lparr>db := d\<rparr>" "r = Inr ()"
  using assms by (auto simp: transaction_def split: sum.splits if_splits)

text \<open>The effect of handling event \<open>eid\<close> from file \<open>name\<close>: nothing, or one new record, and the file may go.\<close>

definition handled :: "string \<Rightarrow> string \<Rightarrow> listener \<Rightarrow> listener \<Rightarrow> bool" where
  "handled eid name s s' \<longleftrightarrow> s' = s
     \<or> (new_record eid (db s) (db s') \<and> (inbox s' = inbox s \<or> inbox s' = without name s))"

lemma quarantine_file_handled: "handled eid name s (fst (quarantine_file i name eid reason raw h s))"
proof -
  let ?body = "\<lambda>d. and_then (insert_quarantine \<lparr>q_event = eid, q_reason = reason, q_raw = raw, q_hash = h, q_at = now_text i\<rparr> d)
      (insert_audit_log (audit_entry i eid ''quarantined'' reason))"
  obtain s' r where t: "transaction i ?body s = (s', r)" by fastforce
  then show ?thesis
  proof (cases rule: transaction_cases)
    case (failed e)
    then show ?thesis using t by (simp add: quarantine_file_def handled_def)
  next
    case (committed d)
    have "new_record eid (db s) d" using inserts_record(3) [OF committed(1)] by (simp add: audit_entry_def)
    then show ?thesis using t committed by (simp add: quarantine_file_def handled_def without_def)
  qed
qed

lemma route_record: "route cfg i eid et so pj h R conf d = Inr d' \<Longrightarrow> new_record eid d d'"
  using inserts_record(1,2) by (fastforce simp: route_def audit_entry_def split: if_splits)

lemma accept_event_handled: "handled eid name s (fst (accept_event L cfg i name eid h p s))"
proof -
  obtain s' r where a: "accept_event L cfg i name eid h p s = (s', r)" by fastforce
  show ?thesis
  proof (cases "s' = s")
    case False
    with a obtain conf et so pj where
      t: "then_call (transaction i (route cfg i eid et so pj h (plat L) conf) s) (\<lambda>s _. (remove_inbox_file i name s, Inr ())) = (s', r)"
      by (auto simp: accept_event_def elim!: attempt_cases)
    obtain s1 r1 where t1: "transaction i (route cfg i eid et so pj h (plat L) conf) s = (s1, r1)" by fastforce
    then show ?thesis
    proof (cases rule: transaction_cases)
      case (failed e)
      then show ?thesis using t t1 False by auto
    next
      case (committed d)
      have "new_record eid (db s) d" using committed(1) by (rule route_record)
      then show ?thesis using t t1 committed a by (auto simp: handled_def without_def)
    qed
  qed (simp add: a handled_def)
qed

lemma handled_refl [simp]: "handled eid name s s"
  by (simp add: handled_def)

lemma process_event_handled: "handled eid name s (fst (process_event L cfg i name raw h eid event s))"
  unfolding process_event_def Let_def
  by (cases "safesignal_check L (now_us i) event (secret_key cfg)")
    (auto simp: quarantine_file_handled accept_event_handled split: pyval.splits prod.splits)

lemma process_file_effect:
  assumes "process_file L cfg i name s = (s', r)"
  obtains (kept) "s' = s"
  | (duplicate) raw eid where "map_of (inbox s) name = Some raw" "event_id_of L raw = Some eid" "eid \<in> set (audited (db s))"
      "db s' = db s" "inbox s' = without name s"
  | (recorded) raw eid where "map_of (inbox s) name = Some raw" "event_id_of L raw = Some eid" "eid \<notin> set (audited (db s))"
      "new_record eid (db s) (db s')" "inbox s' = inbox s \<or> inbox s' = without name s"
proof -
  have guard: thesis if raw: "map_of (inbox s) name = Some raw" and eid: "event_id_of L raw = Some eid"
    and g: "guarded i name eid k s = (s', r)" and k: "handled eid name s (fst (k s))" for raw eid k
  proof (cases "already_recorded i eid s")
    case None
    then show ?thesis using g kept by (simp add: guarded_def)
  next
    case (Some b)
    then have b: "b = (eid \<in> set (audited (db s)))" by (auto simp: already_recorded_def audited_def split: if_splits)
    show ?thesis
    proof (cases b)
      case True
      then have s': "s' = remove_inbox_file i name s" using g Some by (simp add: guarded_def)
      show ?thesis
      proof (cases "unlink_ok i")
        case True
        then show ?thesis using duplicate raw eid b \<open>b\<close> s' by simp
      next
        case False
        then show ?thesis using kept s' by (simp add: remove_inbox_file_def)
      qed
    next
      case False
      then have "handled eid name s s'" using g Some k by (simp add: guarded_def)
      then show ?thesis using kept recorded raw eid b False unfolding handled_def by blast
    qed
  qed
  show ?thesis
  proof (cases "map_of (inbox s) name")
    case None
    then show ?thesis using assms kept by (simp add: process_file_def)
  next
    case (Some raw)
    show ?thesis
    proof (cases "parse_json L raw")
      case (Inl e)
      show ?thesis
      proof (cases "caught_by e [JSONDecodeError]")
        case True
        show ?thesis
          by (rule guard [OF Some, of "sha256_hex (plat L) raw"
                "quarantine_file i name (sha256_hex (plat L) raw) (''json_parse_error: '' @ snd e) (decode_text L raw) (sha256_hex (plat L) raw)"])
            (use assms Some Inl True in \<open>simp_all add: process_file_def event_id_of_def Let_def quarantine_file_handled\<close>)
      next
        case False
        then show ?thesis using assms Some Inl kept by (simp add: process_file_def Let_def)
      qed
    next
      case (Inr v)
      show ?thesis
      proof (cases "dumps_canonical (plat L) True v")
        case (Inl e)
        then show ?thesis using assms Some Inr kept by (simp add: process_file_def Let_def)
      next
        case out: (Inr out)
        let ?eid = "sha256_hex (plat L) (utf8 out)"
        show ?thesis
          by (rule guard [OF Some, of ?eid "process_event L cfg i name raw (sha256_hex (plat L) raw) ?eid v"])
            (use assms Some Inr out in \<open>simp_all add: process_file_def event_id_of_def Let_def process_event_handled\<close>)
      qed
    qed
  qed
qed

section \<open>Exactly one record per event\<close>

definition recorded_once :: "database \<Rightarrow> bool" where
  "recorded_once d \<longleftrightarrow> distinct (event_ids d) \<and> mset (event_ids d) = mset (audited d)"

lemma new_record_once:
  assumes "recorded_once d" "eid \<notin> set (audited d)" "new_record eid d d'"
  shows "recorded_once d'"
proof -
  have m: "mset (event_ids d') = mset (eid # event_ids d)" "mset (event_ids d') = mset (audited d')"
    using assms by (simp_all add: recorded_once_def new_record_def)
  have "eid \<notin> set (event_ids d)" using assms(1,2) unfolding recorded_once_def by (metis mset_eq_setD)
  then have "distinct (eid # event_ids d)" using assms(1) by (simp add: recorded_once_def)
  then have "distinct (event_ids d')" using m(1) by (metis mset_eq_imp_distinct_iff)
  with m(2) show ?thesis by (simp add: recorded_once_def)
qed

lemma process_file_once: "recorded_once (db s) \<Longrightarrow> recorded_once (db (fst (process_file L cfg i name s)))"
  by (cases "process_file L cfg i name s") (auto elim!: process_file_effect intro: new_record_once)

interpretation inbox_fold: machine "\<lambda>name s. fst (process_file L cfg (ios name) name s)" "\<lambda>s. recorded_once (db s)"
  for L cfg ios
  by unfold_locales (rule process_file_once)

interpretation listener_run: machine "listener_step L cfg" "\<lambda>s. recorded_once (db s)" for L cfg
proof
  fix s :: listener and e
  assume "recorded_once (db s)"
  then show "recorded_once (db (listener_step L cfg e s))"
    by (cases e) (auto simp: watch_inbox_def inbox_fold.run_inv)
qed

definition empty_db :: database where
  "empty_db = \<lparr>ledger_rows = [], hitl_rows = [], quarantine_rows = [], audit_rows = []\<rparr>"

text \<open>
  C12: after any sequence of polls and arriving files, with any failures of the database and of file
  removal, each event id is in exactly one row of the ledger, the review queue and the quarantine
  together, and it has exactly one audit row; and no id is audited without such a row.
\<close>

theorem events_are_recorded_once:
  "case listener_main L threshold key_file env_key es \<lparr>inbox = files, db = empty_db\<rparr> of (s, status) \<Rightarrow>
     distinct (event_ids (db s)) \<and> mset (event_ids (db s)) = mset (audited (db s))
     \<and> (status = Inr None \<or> status = Inr (Some 1) \<and> s = \<lparr>inbox = files, db = empty_db\<rparr>)
     \<and> (status = Inr (Some 1) \<longleftrightarrow> key_file = None \<and> env_key = [])"
proof -
  have start: "recorded_once (db \<lparr>inbox = files, db = empty_db\<rparr>)"
    by (simp add: recorded_once_def event_ids_def audited_def empty_db_def)
  show ?thesis
  proof (cases "load_secret_key key_file env_key")
    case (Inl e)
    then show ?thesis using start
      by (auto simp: listener_main_def load_secret_key_def recorded_once_def split: option.splits if_splits)
  next
    case (Inr key)
    then have "key_file \<noteq> None \<or> env_key \<noteq> []" by (auto simp: load_secret_key_def)
    then show ?thesis
      using listener_run.run_inv [OF start, of L "\<lparr>secret_key = key, hitl_threshold = threshold\<rparr>" es] Inr
      by (simp add: listener_main_def recorded_once_def)
  qed
qed

section \<open>No file is lost\<close>

lemma map_of_without [simp]: "map_of (without name s) n = (if n = name then None else map_of (inbox s) n)"
proof -
  have "map_of (List.filter (\<lambda>p. fst p \<noteq> name) xs) n = (if n = name then None else map_of xs n)" for xs :: "(string \<times> string) list"
    by (induction xs) auto
  then show ?thesis by (simp add: without_def)
qed

definition kept_or_recorded :: "codec \<Rightarrow> string \<Rightarrow> string \<Rightarrow> listener \<Rightarrow> bool" where
  "kept_or_recorded L name raw s \<longleftrightarrow> map_of (inbox s) name = Some raw
     \<or> (case event_id_of L raw of None \<Rightarrow> False | Some eid \<Rightarrow> eid \<in> set (audited (db s)))"

lemma process_file_keeps:
  assumes "kept_or_recorded L name raw s"
  shows "kept_or_recorded L name raw (fst (process_file L cfg i n s))"
proof -
  obtain s' r where p: "process_file L cfg i n s = (s', r)" by fastforce
  then show ?thesis
  proof (cases rule: process_file_effect)
    case kept
    then show ?thesis using assms p by simp
  next
    case (duplicate raw' eid)
    then show ?thesis using assms p by (cases "n = name") (auto simp: kept_or_recorded_def split: option.splits)
  next
    case (recorded raw' eid)
    then show ?thesis using assms p by (cases "n = name") (auto simp: kept_or_recorded_def new_record_def split: option.splits)
  qed
qed

interpretation keep_fold: machine "\<lambda>n s. fst (process_file L cfg (ios n) n s)" "kept_or_recorded L name raw" for L cfg ios name raw
  by unfold_locales (rule process_file_keeps)

interpretation keep_polls: machine "watch_inbox L cfg" "kept_or_recorded L name raw" for L cfg name raw
  by unfold_locales (simp add: watch_inbox_def keep_fold.run_inv)

text \<open>
  whatever fails during any number of polls, a file of the inbox is still there with its content,
  or its event id is in the audit table.
\<close>

theorem files_leave_only_when_recorded:
  assumes "map_of (inbox s) name = Some raw"
  shows "map_of (inbox (fold (watch_inbox L cfg) polls s)) name = Some raw
    \<or> (\<exists>eid. event_id_of L raw = Some eid \<and> eid \<in> set (audited (db (fold (watch_inbox L cfg) polls s))))"
proof -
  have "kept_or_recorded L name raw s" using assms by (simp add: kept_or_recorded_def)
  from keep_polls.run_inv [OF this, of cfg polls] show ?thesis
    unfolding kept_or_recorded_def by (auto split: option.splits)
qed

section \<open>What may enter the ledger\<close>

text \<open>An event as SafeSignal wants it: signed with the key over version, time and payload, and fresh.\<close>

definition authentic_event :: "codec \<Rightarrow> string \<Rightarrow> int \<Rightarrow> pydict \<Rightarrow> pydict \<Rightarrow> bool" where
  "authentic_event L key now ev p \<longleftrightarrow> (case (dget ev ''safesignal'', dget ev ''payload'') of
     (PDict ss, PDict p') \<Rightarrow> p' = p \<and> dget ss ''version'' = PStr ''1'' \<and> (case dget ss ''ts'' of
        PStr ts \<Rightarrow> (case (signed_message_bytes (plat L) ''1'' ts p, iso_time L (zulu ts)) of
            (Inr signed, Some (True, t)) \<Rightarrow> dget ss ''sig'' = PStr (hmac_hex (plat L) key signed)
              \<and> \<not> flt (Fin 300) (age_seconds now t) \<and> \<not> flt (age_seconds now t) (Fin (-60))
          | _ \<Rightarrow> False)
      | _ \<Rightarrow> False)
   | _ \<Rightarrow> False)"

lemma compare_digest_True: "compare_digest s v = Inr True \<Longrightarrow> v = PStr s"
  by (auto simp: compare_digest_def split: pyval.splits if_splits)

lemma safesignal_authentic:
  assumes "safesignal_check L now (PDict ev) key = Inr (True, why)" and "dget ev ''payload'' = PDict p"
  shows "authentic_event L key now ev p"
  using assms unfolding safesignal_check_def authentic_event_def verify_signature_def compute_signature_def
  by (auto simp: and_then_Inr dest: compare_digest_True split: pyval.splits option.splits bool.splits if_splits)

text \<open>A ledger row and the payload it was made from\<close>

definition row_of :: "codec \<Rightarrow> settings \<Rightarrow> pydict \<Rightarrow> ledger_row \<Rightarrow> bool" where
  "row_of L cfg p row \<longleftrightarrow> dget p ''event_type'' = PStr (l_type row) \<and> dget p ''source'' = PStr (l_source row)
     \<and> dumps_sorted (plat L) (PDict p) = Inr (l_payload row)
     \<and> (case compute_confidence (plat L) p of Inr c \<Rightarrow> \<not> flt c (hitl_threshold cfg) | Inl e \<Rightarrow> False)"

text \<open>The row made from the file content raw when it was read with clock and faults i\<close>

definition authentic_row :: "codec \<Rightarrow> settings \<Rightarrow> io \<Rightarrow> string \<Rightarrow> ledger_row \<Rightarrow> bool" where
  "authentic_row L cfg i raw row \<longleftrightarrow> l_at row = now_text i \<and> l_hash row = sha256_hex (plat L) raw
     \<and> (\<exists>ev p out. parse_json L raw = Inr (PDict ev) \<and> authentic_event L (secret_key cfg) (now_us i) ev p \<and> row_of L cfg p row
       \<and> dumps_canonical (plat L) True (PDict ev) = Inr out \<and> l_event row = sha256_hex (plat L) (utf8 out))"

definition ledger_grows :: "codec \<Rightarrow> settings \<Rightarrow> io \<Rightarrow> string \<Rightarrow> listener \<Rightarrow> listener \<Rightarrow> bool" where
  "ledger_grows L cfg i raw s s' \<longleftrightarrow> (\<exists>rows. ledger_rows (db s') = ledger_rows (db s) @ rows \<and> list_all (authentic_row L cfg i raw) rows)"

lemma ledger_same: "ledger_rows (db s') = ledger_rows (db s) \<Longrightarrow> ledger_grows L cfg i raw s s'"
  by (simp add: ledger_grows_def)

lemma quarantine_file_ledger: "ledger_rows (db (fst (quarantine_file i name eid reason raw h s))) = ledger_rows (db s)"
  by (auto simp: quarantine_file_def transaction_def insert_quarantine_def insert_audit_log_def and_then_Inr
      split: prod.splits sum.splits if_splits)

lemma validated:
  assumes "validate_payload (PDict p) = (True, why)"
  obtains et so where "dget p ''event_type'' = PStr et" "dget p ''source'' = PStr so" "\<not> blank et" "\<not> blank so"
    "item (PDict p) ''event_type'' = Inr (PStr et)" "item (PDict p) ''source'' = Inr (PStr so)"
  using assms by (auto simp: validate_payload_def Let_def required_fields_def item_def dget_def dhas_def nonblank_str_iff
      split: if_splits option.splits)

lemma accept_event_ledger:
  assumes p: "validate_payload (PDict p) = (True, why)" and ev: "authentic_event L (secret_key cfg) (now_us i) ev p"
    and raw: "parse_json L raw = Inr (PDict ev)" "h = sha256_hex (plat L) raw"
    and out: "dumps_canonical (plat L) True (PDict ev) = Inr out"
  shows "ledger_grows L cfg i raw s (fst (accept_event L cfg i name (sha256_hex (plat L) (utf8 out)) h p s))"
proof -
  obtain et so where f: "dget p ''event_type'' = PStr et" "dget p ''source'' = PStr so"
      "item (PDict p) ''event_type'' = Inr (PStr et)" "item (PDict p) ''source'' = Inr (PStr so)"
    using validated [OF p] by metis
  let ?eid = "sha256_hex (plat L) (utf8 out)"
  have row: "authentic_row L cfg i raw \<lparr>l_event = ?eid, l_type = et, l_source = so, l_payload = pj, l_hash = h, l_at = now_text i\<rparr>"
    if "compute_confidence (plat L) p = Inr conf" "dumps_sorted (plat L) (PDict p) = Inr pj" "\<not> flt conf (hitl_threshold cfg)" for conf pj
    unfolding authentic_row_def
    by (simp add: raw, intro exI [of _ ev] exI [of _ p]) (use that f ev raw out in \<open>simp add: row_of_def\<close>)
  show ?thesis
  proof (cases "compute_confidence (plat L) p")
    case conf: (Inr conf)
    show ?thesis
    proof (cases "dumps_sorted (plat L) (PDict p)")
      case pj: (Inr pj)
      show ?thesis
      proof (cases "transaction i (route cfg i ?eid et so pj h (plat L) conf) s")
        case (Pair s1 r1)
        have fst_eq: "ledger_rows (db (fst (accept_event L cfg i name ?eid h p s))) = ledger_rows (db s1)"
          using Pair f conf pj by (cases r1) (auto simp: accept_event_def)
        from Pair show ?thesis
        proof (cases rule: transaction_cases)
          case (failed e)
          then show ?thesis using fst_eq by (auto intro: ledger_same)
        next
          case (committed d)
          then show ?thesis using fst_eq row [OF conf pj]
            by (auto simp: ledger_grows_def route_def and_then_Inr insert_ledger_def insert_hitl_queue_def insert_audit_log_def
                split: if_splits)
        qed
      qed
    qed (use f conf in \<open>simp add: accept_event_def ledger_same\<close>)
  qed (use f in \<open>simp add: accept_event_def ledger_same\<close>)
qed

lemma process_event_ledger:
  assumes "dumps_canonical (plat L) True event = Inr out" and raw: "parse_json L raw = Inr event" "h = sha256_hex (plat L) raw"
  shows "ledger_grows L cfg i raw s (fst (process_event L cfg i name raw h (sha256_hex (plat L) (utf8 out)) event s))"
proof (cases "\<exists>ev p why why'. event = PDict ev \<and> dget ev ''payload'' = PDict p
    \<and> safesignal_check L (now_us i) event (secret_key cfg) = Inr (True, why) \<and> validate_payload (PDict p) = (True, why')")
  case True
  then obtain ev p why why' where e: "event = PDict ev" "dget ev ''payload'' = PDict p"
    "safesignal_check L (now_us i) (PDict ev) (secret_key cfg) = Inr (True, why)" "validate_payload (PDict p) = (True, why')" by blast
  have "authentic_event L (secret_key cfg) (now_us i) ev p" using e(3,2) by (rule safesignal_authentic)
  from accept_event_ledger [OF e(4) this, of raw h out] assms e show ?thesis by (simp add: process_event_def)
next
  case False
  then show ?thesis unfolding process_event_def Let_def
    by (intro ledger_same, cases "safesignal_check L (now_us i) event (secret_key cfg)")
      (auto simp: quarantine_file_ledger split: pyval.splits prod.splits)
qed

lemma process_file_ledger:
  "map_of (inbox s) name = Some raw \<Longrightarrow> ledger_grows L cfg i raw s (fst (process_file L cfg i name s))"
proof -
  assume Some: "map_of (inbox s) name = Some raw"
  have guard: "ledger_grows L cfg i raw s (fst (guarded i name eid k s))" if "ledger_grows L cfg i raw s (fst (k s))" for eid k
    using that by (auto simp: guarded_def ledger_same split: option.splits bool.splits)
  have quarantined: "ledger_grows L cfg i raw s (fst (guarded i name eid (quarantine_file i name eid reason rt h) s))" for eid reason rt h
    by (rule guard) (rule ledger_same, rule quarantine_file_ledger)
  show ?thesis
  proof (cases "parse_json L raw")
    case (Inl e)
    then show ?thesis using Some
      using quarantined by (auto simp: process_file_def Let_def ledger_same [of s s])
  next
    case parsed: (Inr event)
    show ?thesis
    proof (cases "dumps_canonical (plat L) True event")
      case (Inr out)
      have "ledger_grows L cfg i raw s (fst (guarded i name (sha256_hex (plat L) (utf8 out))
          (process_event L cfg i name raw (sha256_hex (plat L) raw) (sha256_hex (plat L) (utf8 out)) event) s))"
        by (rule guard) (rule process_event_ledger [OF Inr parsed refl])
      then show ?thesis using Some parsed Inr by (simp add: process_file_def Let_def)
    qed (use Some parsed in \<open>simp add: process_file_def Let_def ledger_same\<close>)
  qed
qed

lemma process_file_inbox: "set (inbox (fst (process_file L cfg i name s))) \<subseteq> set (inbox s)"
  by (cases "process_file L cfg i name s") (auto elim!: process_file_effect simp: without_def split: if_splits)

text \<open>
  Where the rows may come from: a file that was in the inbox at the start or arrived, read with the clock of
  a poll that took place.
\<close>

definition supplied :: "(string \<times> string) list \<Rightarrow> listener_event list \<Rightarrow> (string \<times> string) set" where
  "supplied files es = set files \<union> {(name, raw). Arrive name raw \<in> set es}"

definition read_from :: "codec \<Rightarrow> settings \<Rightarrow> (string \<times> string) list \<Rightarrow> listener_event list \<Rightarrow> ledger_row \<Rightarrow> bool" where
  "read_from L cfg files es row \<longleftrightarrow> (\<exists>ios name raw. Poll True ios \<in> set es \<and> (name, raw) \<in> supplied files es
     \<and> authentic_row L cfg (ios name) raw row)"

definition ledger_traced :: "codec \<Rightarrow> settings \<Rightarrow> (string \<times> string) list \<Rightarrow> listener_event list \<Rightarrow> listener \<Rightarrow> bool" where
  "ledger_traced L cfg files es s \<longleftrightarrow> set (inbox s) \<subseteq> supplied files es \<and> list_all (read_from L cfg files es) (ledger_rows (db s))"

lemma process_file_traced:
  assumes "ledger_traced L cfg files es s" and "Poll True ios \<in> set es"
  shows "ledger_traced L cfg files es (fst (process_file L cfg (ios n) n s))"
proof (cases "map_of (inbox s) n")
  case None
  then show ?thesis using assms by (simp add: process_file_def)
next
  case (Some raw)
  then have sup: "(n, raw) \<in> supplied files es" using assms(1) map_of_SomeD by (fastforce simp: ledger_traced_def)
  then have new: "read_from L cfg files es row" if "authentic_row L cfg (ios n) raw row" for row
    using assms(2) that unfolding read_from_def by blast
  obtain rows where rows: "ledger_rows (db (fst (process_file L cfg (ios n) n s))) = ledger_rows (db s) @ rows"
      "list_all (authentic_row L cfg (ios n) raw) rows"
    using process_file_ledger [OF Some, of L cfg "ios n"] by (auto simp: ledger_grows_def)
  have "list_all (read_from L cfg files es) rows" using rows(2) new by (auto simp: list_all_iff)
  then show ?thesis using assms(1) rows(1) process_file_inbox [of L cfg "ios n" n s] by (auto simp: ledger_traced_def)
qed

lemma listener_step_traced:
  assumes "ledger_traced L cfg files es s" and "e \<in> set es"
  shows "ledger_traced L cfg files es (listener_step L cfg e s)"
proof (cases e)
  case (Poll db_exists ios)
  show ?thesis
  proof (cases db_exists)
    case True
    then have "Poll True ios \<in> set es" using assms(2) Poll by simp
    then have "ledger_traced L cfg files es (fold (\<lambda>name s. fst (process_file L cfg (ios name) name s)) names s)" for names
      using assms(1) process_file_traced by (induction names arbitrary: s) auto
    then show ?thesis using Poll True by (simp add: watch_inbox_def)
  qed (use assms(1) Poll in simp)
next
  case (Arrive name raw)
  have "set (AList.update name raw xs) \<subseteq> insert (name, raw) (set xs)" for xs :: "(string \<times> string) list"
    by (induction xs) auto
  moreover have "(name, raw) \<in> supplied files es" using assms(2) Arrive by (auto simp: supplied_def)
  ultimately show ?thesis using assms(1) Arrive by (auto simp: ledger_traced_def)
qed

text \<open>
  C15: whatever arrives in the inbox and whatever fails, every row of the ledger was made by a poll that
  took place, from a file that was in the inbox at the start or arrived: that file is a JSON object with
  a valid SafeSignal signature over its version, time and payload, whose time was at most 300 seconds
  before and at most 60 seconds after the time of that very poll, which the row records; the row has the
  type, the source and the sorted text of the payload, the digest of the file, and as its id that of the
  canonical event, and the payload's confidence is not below the threshold.
\<close>

theorem only_authentic_events_enter_ledger:
  "list_all (read_from L cfg files es) (ledger_rows (db (fold (listener_step L cfg) es \<lparr>inbox = files, db = empty_db\<rparr>)))"
proof -
  have "ledger_traced L cfg files es \<lparr>inbox = files, db = empty_db\<rparr>"
    by (simp add: ledger_traced_def supplied_def empty_db_def)
  then have "ledger_traced L cfg files es (fold (listener_step L cfg) es \<lparr>inbox = files, db = empty_db\<rparr>)"
    by (rule fold_invariant [where Q = "\<lambda>e. e \<in> set es", rotated]) (simp_all add: listener_step_traced)
  then show ?thesis by (simp add: ledger_traced_def)
qed

section \<open>The routing of a valid event\<close>

text \<open>
  C19: an authentic event with a valid payload that is not recorded yet, met without faults, is removed
  from the inbox and recorded: in the review queue when its confidence is below the threshold, in the
  ledger otherwise, never in the quarantine, with one audit row for it.
\<close>

theorem valid_event_is_routed:
  assumes "map_of (inbox s) name = Some raw" and "parse_json L raw = Inr (PDict ev)" and "dget ev ''payload'' = PDict p"
    and "dumps_canonical (plat L) True (PDict ev) = Inr out" and "eid = sha256_hex (plat L) (utf8 out)"
    and "safesignal_check L (now_us i) (PDict ev) (secret_key cfg) = Inr (True, why)"
    and "validate_payload (PDict p) = (True, why')" and "compute_confidence (plat L) p = Inr conf"
    and "dumps_sorted (plat L) (PDict p) = Inr text1"
    and "check_ok i" and "write_ok i" and "unlink_ok i"
    and "eid \<notin> set (event_ids (db s))" and "eid \<notin> set (audited (db s))"
    and "log_id i \<notin> set (List.map a_log (audit_rows (db s)))"
  shows "snd (process_file L cfg i name s) = Inr () \<and> map_of (inbox (fst (process_file L cfg i name s))) name = None
    \<and> audited (db (fst (process_file L cfg i name s))) = audited (db s) @ [eid]
    \<and> quarantine_rows (db (fst (process_file L cfg i name s))) = quarantine_rows (db s)
    \<and> List.map h_event (hitl_rows (db (fst (process_file L cfg i name s))))
        = List.map h_event (hitl_rows (db s)) @ (if flt conf (hitl_threshold cfg) then [eid] else [])
    \<and> List.map l_event (ledger_rows (db (fst (process_file L cfg i name s))))
        = List.map l_event (ledger_rows (db s)) @ (if flt conf (hitl_threshold cfg) then [] else [eid])"
proof -
  let ?h = "sha256_hex (plat L) raw"
  obtain et so where f: "item (PDict p) ''event_type'' = Inr (PStr et)" "item (PDict p) ''source'' = Inr (PStr so)"
    using validated [OF assms(7)] by metis
  have new: "already_recorded i eid s = Some False" using assms(10,14) by (simp add: already_recorded_def audited_def)
  have "process_file L cfg i name s = process_event L cfg i name raw ?h eid (PDict ev) s"
    using assms(1-5) new by (simp add: process_file_def Let_def guarded_def)
  also have "\<dots> = accept_event L cfg i name eid ?h p s"
    using assms(3,6,7) by (simp add: process_event_def)
  finally have run: "process_file L cfg i name s = accept_event L cfg i name eid ?h p s" .
  have fresh: "eid \<notin> l_event ` set (ledger_rows (db s))" "eid \<notin> h_event ` set (hitl_rows (db s))"
      "log_id i \<notin> a_log ` set (audit_rows (db s))"
    using assms(13,15) by (auto simp: event_ids_def)
  obtain d where d: "route cfg i eid et so text1 ?h (plat L) conf (db s) = Inr d"
    using fresh by (cases "flt conf (hitl_threshold cfg)")
      (simp_all add: route_def insert_ledger_def insert_hitl_queue_def insert_audit_log_def audit_entry_def)
  have "accept_event L cfg i name eid ?h p s = (remove_inbox_file i name (s\<lparr>db := d\<rparr>), Inr ())"
    using f d assms(8,9,11) by (simp add: accept_event_def transaction_def)
  moreover have "d = (if flt conf (hitl_threshold cfg)
      then (db s)\<lparr>hitl_rows := hitl_rows d, audit_rows := audit_rows d\<rparr>
      else (db s)\<lparr>ledger_rows := ledger_rows d, audit_rows := audit_rows d\<rparr>)
    \<and> List.map h_event (hitl_rows d) = List.map h_event (hitl_rows (db s)) @ (if flt conf (hitl_threshold cfg) then [eid] else [])
    \<and> List.map l_event (ledger_rows d) = List.map l_event (ledger_rows (db s)) @ (if flt conf (hitl_threshold cfg) then [] else [eid])
    \<and> audited d = audited (db s) @ [eid] \<and> quarantine_rows d = quarantine_rows (db s)"
    using d fresh by (auto simp: route_def insert_ledger_def insert_hitl_queue_def insert_audit_log_def audit_entry_def
        and_then_Inr audited_def split: if_splits)
  moreover have "map_of (without name (s\<lparr>db := d\<rparr>)) name = None" by simp
  ultimately show ?thesis using run assms(12) by (simp add: audited_def)
qed

text \<open>A signed deletion request, one second old: its type alone sends it to the review queue.\<close>

definition sample_payload :: pydict where
  "sample_payload = [(''event_type'', PStr ''Delete''), (''source'', PStr ''node''), (''data'', PDict [])]"

definition sample_event :: pydict where
  "sample_event = [(''payload'', PDict sample_payload),
     (''safesignal'', PDict [(''version'', PStr ''1''), (''ts'', PStr ''t''), (''sig'', PStr ''mac'')])]"

definition sample_codec :: codec where
  "sample_codec = \<lparr>parse_json = (\<lambda>raw. if raw = ''x'' then Inr (PDict sample_event) else raise JSONDecodeError ''Expecting value''),
     decode_text = id, iso_time = (\<lambda>_. Some (True, 0)), repr_of = (\<lambda>_. []),
     plat = \<lparr>float_repr = (\<lambda>_. ''0.0''), sha256_hex = (\<lambda>_. ''h''), hmac_hex = (\<lambda>_ _. ''mac''), repr_other = (\<lambda>_. [])\<rparr>\<rparr>"

definition sample_io :: io where
  "sample_io = \<lparr>check_ok = True, write_ok = True, unlink_ok = True, now_us = 1000000, now_text = ''now'', log_id = ''u''\<rparr>"

definition sample_settings :: settings where
  "sample_settings = \<lparr>secret_key = ''k'', hitl_threshold = Fin (3/4)\<rparr>"

definition sample_inbox :: listener where
  "sample_inbox = \<lparr>inbox = [(''e.json'', ''x'')], db = empty_db\<rparr>"

lemma sample_signed: "safesignal_check sample_codec (now_us sample_io) (PDict sample_event) (secret_key sample_settings) = Inr (True, ''ok'')"
proof -
  have age: "age_seconds 1000000 0 = Fin 1" by (simp add: age_seconds_def)
  have ser: "serialisable (PDict (signed_message v t sample_payload))" for v t
    by (simp add: signed_message_def sample_payload_def)
  obtain b where b: "signed_message_bytes (plat sample_codec) ''1'' ''t'' sample_payload = Inr b"
    using ser by (simp add: signed_message_bytes_def dumps_canonical_def dumps_checked_def del: serialisable.simps)
  have same: "verify_signature (plat sample_codec) b (PStr ''mac'') ''k'' = Inr True"
    by (simp add: verify_signature_def compute_signature_def compare_digest_def is_ascii_def sample_codec_def)
  have get: "dget sample_event ''safesignal'' = PDict [(''version'', PStr ''1''), (''ts'', PStr ''t''), (''sig'', PStr ''mac'')]"
      "dget sample_event ''payload'' = PDict sample_payload" "\<not> blank ''t''"
    by (simp_all add: sample_event_def blank_def is_space_def)
  have iso: "iso_time sample_codec x = Some (True, 0)" for x by (simp add: sample_codec_def)
  have k: "now_us sample_io = 1000000" "secret_key sample_settings = ''k''"
    by (simp_all add: sample_io_def sample_settings_def)
  show ?thesis using b same by (simp add: safesignal_check_def get k iso age)
qed

lemma sample_confidence: "compute_confidence (plat sample_codec) sample_payload = Inr (fmax (Fin 0) (fmin (Fin 1) (fsub (Fin 1) (to_pf (4/10)))))"
proof -
  have "lower ''Delete'' = ''delete''" by code_simp
  then show ?thesis
    by (simp add: compute_confidence_def sample_payload_def dget_or_def lower_of_def risky_types_def dumps_default_def dumps_checked_def
        penalty_def)
qed

lemma sample_below: "flt (fmax (Fin 0) (fmin (Fin 1) (fsub (Fin 1) (to_pf (4/10))))) (hitl_threshold sample_settings)"
proof -
  have repr: "rnd (3/8) = 3/8" "rnd (5/8) = 5/8" "rnd 1 = 1" "rnd (1/2) = 1/2"
    by (rule rnd_representable, unfold representable_def, rule exI [of _ 3] exI [of _ 5] exI [of _ 1],
        rule exI [of _ "-3"] exI [of _ 0] exI [of _ "-1"], simp add: pow2_def)+
  have one: "wf_float (Fin 1)" using repr by (simp add: f_limit_def)
  have q: "to_pf (4/10) = Fin (rnd (4/10))" by (rule to_pf_bounded [OF _ one]) simp
  have lo: "3/8 \<le> rnd (4/10)" by (rule rnd_ge_repr [OF _ repr(1)]) simp
  have hi: "rnd (4/10) \<le> 1/2" by (rule rnd_le_repr [OF _ repr(4)]) simp
  have d: "to_pf (1 - rnd (4/10)) = Fin (rnd (1 - rnd (4/10)))" using lo hi by (intro to_pf_bounded [OF _ one]) simp
  have "rnd (1 - rnd (4/10)) \<le> 5/8" using lo by (intro rnd_le_repr [OF _ repr(2)]) simp
  then show ?thesis using q d by (auto simp: fsub_def fmax_def fmin_def sample_settings_def)
qed

theorem valid_event_is_routed_witness:
  "List.map h_event (hitl_rows (db (fst (process_file sample_codec sample_settings sample_io ''e.json'' sample_inbox)))) = [''h'']
    \<and> map_of (inbox (fst (process_file sample_codec sample_settings sample_io ''e.json'' sample_inbox))) ''e.json'' = None"
proof -
  have v: "validate_payload (PDict sample_payload) = (True, ''ok'')"
    by (simp add: validate_payload_def sample_payload_def required_fields_def blank_def is_space_def)
  obtain out where out: "dumps_canonical (plat sample_codec) True (PDict sample_event) = Inr out"
    by (simp add: dumps_canonical_def dumps_checked_def sample_event_def sample_payload_def)
  obtain t where t: "dumps_sorted (plat sample_codec) (PDict sample_payload) = Inr t"
    by (simp add: dumps_sorted_def dumps_checked_def sample_payload_def)
  have *: "map_of (inbox sample_inbox) ''e.json'' = Some ''x''" "parse_json sample_codec ''x'' = Inr (PDict sample_event)"
    "dget sample_event ''payload'' = PDict sample_payload" "''h'' = sha256_hex (plat sample_codec) (utf8 out)"
    "check_ok sample_io" "write_ok sample_io" "unlink_ok sample_io" "''h'' \<notin> set (event_ids (db sample_inbox))"
    "''h'' \<notin> set (audited (db sample_inbox))" "log_id sample_io \<notin> set (List.map a_log (audit_rows (db sample_inbox)))"
    "hitl_rows (db sample_inbox) = []"
    by (simp_all add: sample_inbox_def sample_codec_def sample_event_def sample_io_def empty_db_def event_ids_def audited_def)
  from valid_event_is_routed [OF *(1-3) out *(4) sample_signed v sample_confidence t *(5-10)] show ?thesis
    using sample_below *(11) by simp
qed

theorem files_leave_only_when_recorded_witness:
  "map_of (inbox (fold (watch_inbox sample_codec sample_settings) [\<lambda>_. sample_io\<lparr>write_ok := False\<rparr>, \<lambda>_. sample_io] sample_inbox)) ''e.json''
      = Some ''x''
    \<or> (\<exists>eid. event_id_of sample_codec ''x'' = Some eid \<and> eid \<in> set (audited (db
        (fold (watch_inbox sample_codec sample_settings) [\<lambda>_. sample_io\<lparr>write_ok := False\<rparr>, \<lambda>_. sample_io] sample_inbox))))"
  by (rule files_leave_only_when_recorded) (simp add: sample_inbox_def)

section \<open>A file that is no text\<close>

text \<open>
  \<open>json.loads\<close> raises UnicodeDecodeError on it, which \<open>process_file\<close> does not catch: the file is neither
  recorded nor removed, at any poll.
\<close>

lemma undecodable_file_stays:
  assumes "parse_json L raw = raise UnicodeDecodeError m"
  shows "process_file L cfg i name \<lparr>inbox = [(name, raw)], db = d\<rparr> = (\<lparr>inbox = [(name, raw)], db = d\<rparr>, raise UnicodeDecodeError m)"
  using assms by (simp add: process_file_def Let_def caught_by_def issubclass_def)

end
