(* ===== verification/ResourceAdmission.thy ===== *)
theory ResourceAdmission
  imports PyText
begin

text \<open>
  \<open>controller/resource_admission.py\<close>: what the host adapter measures, and the gate that admits a
  request only over complete, fresh and sufficient measurements. The fields of a request are checked by
  the code and are arbitrary values here; those of a measurement have their declared types.
\<close>

section \<open>Measurements and requests\<close>

record measurements =
  m_cpu :: "pynum option"
  m_ram :: "int option"
  m_vram :: "int option"
  m_disk :: "int option"
  measured_at :: pyfloat

definition positive :: "pynum option \<Rightarrow> bool" where
  "positive v = (case v of None \<Rightarrow> False | Some n \<Rightarrow> \<not> num_le n (NInt 0))"

definition missing_fields :: "measurements \<Rightarrow> string list" where
  "missing_fields m = List.map fst (List.filter (\<lambda>p. \<not> positive (snd p))
     [(''cpu_cores'', m_cpu m), (''ram_mb'', map_option NInt (m_ram m)), (''disk_mb'', map_option NInt (m_disk m))])"

record request =
  r_cpu :: pyval
  r_ram :: pyval
  r_disk :: pyval
  r_vram :: pyval

definition bad_cpu :: "pyval \<Rightarrow> bool" where
  "bad_cpu v \<longleftrightarrow> (case as_num v of None \<Rightarrow> True | Some n \<Rightarrow> num_le n (NInt 0))"

definition bad_int :: "int \<Rightarrow> pyval \<Rightarrow> bool" where
  "bad_int least v \<longleftrightarrow> (case as_int v of None \<Rightarrow> True | Some i \<Rightarrow> i < least)"

definition invalid_fields :: "request \<Rightarrow> string list" where
  "invalid_fields r = (if bad_cpu (r_cpu r) then [''cpu_cores''] else []) @ (if bad_int 1 (r_ram r) then [''ram_mb''] else [])
     @ (if bad_int 0 (r_disk r) then [''disk_mb''] else [])
     @ (if r_vram r \<noteq> PNone \<and> bad_int 1 (r_vram r) then [''vram_mb''] else [])"

section \<open>The host adapter\<close>

text \<open>\<open>MemAvailable\<close> of /proc/meminfo; \<open>None\<close> for the file is an OSError or undecodable text.\<close>

fun mem_available :: "string list \<Rightarrow> int option" where
  "mem_available [] = None"
| "mem_available (l # ls) = (if starts_with ''MemAvailable:'' l
     then (case split_words l of
         _ # n # _ \<Rightarrow> map_option (\<lambda>kib. kib div 1024) (int_of_text n)
       | _ \<Rightarrow> None)
     else mem_available ls)"

definition linux_ram_available_mb :: "string list option \<Rightarrow> int option" where
  "linux_ram_available_mb meminfo = (case meminfo of None \<Rightarrow> None | Some ls \<Rightarrow> mem_available ls)"

definition measure_host :: "nat option \<Rightarrow> nat option \<Rightarrow> int option \<Rightarrow> pyfloat \<Rightarrow> measurements" where
  "measure_host cores disk_free ram now =
     \<lparr>m_cpu = (case cores of None \<Rightarrow> None | Some n \<Rightarrow> if n = 0 then None else Some (NFloat (to_pf (of_nat n)))),
      m_ram = ram, m_vram = None, m_disk = map_option (\<lambda>b. int b div (1024 * 1024)) disk_free, measured_at = now\<rparr>"

section \<open>The gate\<close>

record admission_gate =
  freshness :: pyfloat
  quota :: "(string \<times> pynum) list"

definition new_gate :: "bool \<Rightarrow> pyval \<Rightarrow> bool \<Rightarrow> (string \<times> pynum) list \<Rightarrow> exc + admission_gate" where
  "new_gate clock_callable fresh adapter_ok q =
     and_then (ensure clock_callable AdmissionError ''clock must be callable'') (\<lambda>_.
     case as_num fresh of
       None \<Rightarrow> raise AdmissionError ''freshness_seconds must be positive''
     | Some n \<Rightarrow> if num_le n (NInt 0) then raise AdmissionError ''freshness_seconds must be positive''
         else and_then (ensure adapter_ok AdmissionError ''adapter must provide a callable measure()'') (\<lambda>_.
           and_then (py_float n) (\<lambda>f. Inr \<lparr>freshness = f, quota = q\<rparr>)))"

text \<open>
  \<open>getattr(m, key, None)\<close>: the fields, the one method and what every instance of a dataclass has (none of
  which compares with a number), or None.
\<close>

definition instance_attributes :: "string list" where
  "instance_attributes = [''missing_fields'', ''__class__'', ''__delattr__'', ''__dict__'', ''__dir__'', ''__doc__'', ''__eq__'', ''__format__'',
     ''__ge__'', ''__getattribute__'', ''__getstate__'', ''__gt__'', ''__hash__'', ''__init__'',
     ''__init_subclass__'', ''__le__'', ''__lt__'', ''__module__'', ''__ne__'', ''__new__'', ''__reduce__'',
     ''__reduce_ex__'', ''__repr__'', ''__setattr__'', ''__sizeof__'', ''__str__'', ''__subclasshook__'',
     ''__annotations__'', ''__dataclass_fields__'', ''__dataclass_params__'', ''__match_args__'']"

definition attribute :: "measurements \<Rightarrow> string \<Rightarrow> exc + pynum option" where
  "attribute m k = (if k = ''cpu_cores'' then Inr (m_cpu m) else if k = ''ram_mb'' then Inr (map_option NInt (m_ram m))
     else if k = ''vram_mb'' then Inr (map_option NInt (m_vram m)) else if k = ''disk_mb'' then Inr (map_option NInt (m_disk m))
     else if k = ''measured_at'' then Inr (Some (NFloat (measured_at m)))
     else if k \<in> set instance_attributes then raise TypeError ''not supported between these instances'' else Inr None)"

fun quota_violations :: "measurements \<Rightarrow> (string \<times> pynum) list \<Rightarrow> exc + string list" where
  "quota_violations m [] = Inr []"
| "quota_violations m ((k, limit) # q) = and_then (attribute m k) (\<lambda>v. and_then (quota_violations m q) (\<lambda>vs.
     Inr (case v of Some x \<Rightarrow> if num_lt limit x then k # vs else vs | None \<Rightarrow> vs)))"

record decision_result =
  verdict :: string
  reason_text :: string

definition denied :: "string \<Rightarrow> exc + decision_result" where
  "denied why = Inr \<lparr>verdict = ''DENIED_LOCAL'', reason_text = why\<rparr>"

fun num_value :: "pynum \<Rightarrow> pyval" where
  "num_value (NInt i) = PInt i" | "num_value (NFloat f) = PFloat f"

definition deficit :: "runtime \<Rightarrow> string \<Rightarrow> pyval \<Rightarrow> pynum option \<Rightarrow> string list" where
  "deficit R name want have1 = (case (as_num want, have1) of
     (Some w, Some h) \<Rightarrow> if num_lt h w then [name @ '' '' @ py_str R want @ '' > '' @ py_str R (num_value h)] else []
   | _ \<Rightarrow> [])"

definition request_admission :: "runtime \<Rightarrow> admission_gate \<Rightarrow> pyfloat \<Rightarrow> measurements option \<Rightarrow> request \<Rightarrow> exc + decision_result" where
  "request_admission R g now measured r =
     (if invalid_fields r \<noteq> [] then denied (''Malformed request, invalid fields: '' @ quoted_list (invalid_fields r) @ ''.'')
      else case measured of
        None \<Rightarrow> denied ''Adapter returned no valid measurements.''
      | Some m \<Rightarrow>
        if missing_fields m \<noteq> [] then denied (''UNKNOWN is never unlimited: unmeasured resource(s) ''
            @ quoted_list (missing_fields m) @ '' -> NO_CAPACITY.'')
        else if flt (freshness g) (fsub now (measured_at m)) then denied (''Stale measurement (age ''
            @ fixed_text 1 (fsub now (measured_at m)) @ ''s > '' @ fixed_text 1 (freshness g) @ ''s).'')
        else and_then (quota_violations m (quota g)) (\<lambda>violations.
          if violations \<noteq> [] then denied (''Local quota exceeded for: '' @ quoted_list violations @ ''.'')
          else if r_vram r \<noteq> PNone \<and> m_vram m = None
          then denied ''VRAM required but never measured on this host (UNKNOWN is never unlimited).''
          else let deficits = deficit R ''cpu_cores'' (r_cpu r) (m_cpu m) @ deficit R ''ram_mb'' (r_ram r) (map_option NInt (m_ram m))
                 @ deficit R ''disk_mb'' (r_disk r) (map_option NInt (m_disk m))
                 @ (if r_vram r = PNone then [] else deficit R ''vram_mb'' (r_vram r) (map_option NInt (m_vram m))) in
            if deficits \<noteq> [] then denied (''Insufficient resources: '' @ join ''; '' deficits @ ''.'')
            else Inr \<lparr>verdict = ''ALLOWED_LOCAL'', reason_text = ''All requirements measured, fresh, sufficient and within local quota; ''
              @ ''admission is permission for LOCAL work only.''\<rparr>))"

section \<open>What admission means\<close>

definition fits_int :: "pyval \<Rightarrow> int \<Rightarrow> int option \<Rightarrow> bool" where
  "fits_int want least have1 \<longleftrightarrow> (case (want, have1) of (PInt i, Some h) \<Rightarrow> least \<le> i \<and> i \<le> h | _ \<Rightarrow> False)"

definition fits_cpu :: "pyval \<Rightarrow> pynum option \<Rightarrow> bool" where
  "fits_cpu want have1 \<longleftrightarrow> (case (as_num want, have1) of
     (Some w, Some h) \<Rightarrow> \<not> num_le w (NInt 0) \<and> \<not> num_le h (NInt 0) \<and> \<not> num_lt h w | _ \<Rightarrow> False)"

definition below_limit :: "measurements \<Rightarrow> string \<times> pynum \<Rightarrow> bool" where
  "below_limit m p \<longleftrightarrow> (case attribute m (fst p) of
     Inl e \<Rightarrow> False | Inr None \<Rightarrow> True | Inr (Some x) \<Rightarrow> \<not> num_lt (snd p) x)"

definition within_quota :: "measurements \<Rightarrow> (string \<times> pynum) list \<Rightarrow> bool" where
  "within_quota m q \<longleftrightarrow> list_all (below_limit m) q"

lemma quota_violations_none: "quota_violations m q = Inr [] \<longleftrightarrow> within_quota m q"
proof (induction q)
  case (Cons p q)
  obtain k limit where p: "p = (k, limit)" by fastforce
  show ?case
  proof (cases "attribute m k")
    case (Inr v)
    then show ?thesis using Cons p
      by (cases v; cases "quota_violations m q") (auto simp: within_quota_def below_limit_def)
  qed (simp add: p within_quota_def below_limit_def)
qed (simp add: within_quota_def)

lemma deficit_none: "as_num want = Some w \<Longrightarrow> deficit R name want (Some h) = [] \<longleftrightarrow> \<not> num_lt h w"
  by (simp add: deficit_def)

lemma positive_int: "positive (map_option NInt v) \<longleftrightarrow> (\<exists>i. v = Some i \<and> 0 < i)"
  by (cases v) (auto simp: positive_def)

lemma valid_int: "\<not> bad_int least v \<longleftrightarrow> (\<exists>i. v = PInt i \<and> least \<le> i)"
  by (cases v) (auto simp: bad_int_def)

text \<open>
  C23: admission is decided by exactly these conditions: well-typed positive requirements, every required
  resource measured, positive and at least the requirement (VRAM only when asked for), an age of the
  measurement that does not exceed the freshness window, and no measured resource of the host above its
  quota entry.
\<close>

theorem admission_is_exactly_its_conditions:
  "(\<exists>d. request_admission R g now measured r = Inr d \<and> verdict d = ''ALLOWED_LOCAL'') =
   (\<exists>m. measured = Some m \<and> fits_cpu (r_cpu r) (m_cpu m) \<and> fits_int (r_ram r) 1 (m_ram m)
      \<and> fits_int (r_disk r) 0 (m_disk m) \<and> (\<exists>h. m_disk m = Some h \<and> 0 < h)
      \<and> (r_vram r = PNone \<or> fits_int (r_vram r) 1 (m_vram m))
      \<and> \<not> flt (freshness g) (fsub now (measured_at m)) \<and> within_quota m (quota g))"
proof -
  define A where "A = (\<exists>d. request_admission R g now measured r = Inr d \<and> verdict d = ''ALLOWED_LOCAL'')"
  have no: "\<not> (\<exists>d. denied why = Inr d \<and> verdict d = ''ALLOWED_LOCAL'')" for why by (simp add: denied_def)
  show ?thesis
  proof (cases "invalid_fields r = []")
    case False
    then have "\<not> A" using no by (simp add: A_def request_admission_def)
    moreover have "\<not> (fits_cpu (r_cpu r) a \<and> fits_int (r_ram r) 1 b \<and> fits_int (r_disk r) 0 c
        \<and> (r_vram r = PNone \<or> fits_int (r_vram r) 1 d))" for a b c d
      using False by (auto simp: invalid_fields_def fits_cpu_def fits_int_def bad_cpu_def bad_int_def split: if_splits option.splits pyval.splits)
    ultimately show ?thesis unfolding A_def by blast
  next
    case True
    then obtain w ri di where f: "as_num (r_cpu r) = Some w" "\<not> num_le w (NInt 0)" "r_ram r = PInt ri" "1 \<le> ri"
        "r_disk r = PInt di" "0 \<le> di" and v: "r_vram r = PNone \<or> (\<exists>vi. r_vram r = PInt vi \<and> 1 \<le> vi)"
      by (auto simp: invalid_fields_def bad_cpu_def valid_int split: if_splits option.splits)
    show ?thesis
    proof (cases measured)
      case None
      then show ?thesis using no by (simp add: request_admission_def)
    next
      case (Some m)
      show ?thesis
      proof (cases "missing_fields m = []")
        case False
        then have "\<not> (fits_cpu (r_cpu r) (m_cpu m) \<and> fits_int (r_ram r) 1 (m_ram m) \<and> (\<exists>h. m_disk m = Some h \<and> 0 < h))"
          by (auto simp: missing_fields_def positive_int fits_cpu_def fits_int_def positive_def split: if_splits option.splits pyval.splits)
        moreover have "\<not> A" using False True Some no by (simp add: A_def request_admission_def)
        ultimately show ?thesis using Some unfolding A_def by blast
      next
        case have_all: True
        then obtain c ram disk where m: "m_cpu m = Some c" "\<not> num_le c (NInt 0)" "m_ram m = Some ram" "0 < ram"
            "m_disk m = Some disk" "0 < disk"
          by (auto simp: missing_fields_def positive_int positive_def [of "m_cpu m"] split: if_splits option.splits)
        show ?thesis
        proof (cases "flt (freshness g) (fsub now (measured_at m)) \<or> \<not> within_quota m (quota g)")
          case True
          then have "\<not> A"
            using \<open>invalid_fields r = []\<close> Some have_all no quota_violations_none [of m "quota g"]
            by (cases "quota_violations m (quota g)") (auto simp: A_def request_admission_def denied_def)
          then show ?thesis using True Some unfolding A_def by blast
        next
          case False
          then have q: "quota_violations m (quota g) = Inr []" by (simp add: quota_violations_none)
          then show ?thesis
            using v False \<open>invalid_fields r = []\<close> Some have_all
            by (cases "m_vram m") (auto simp: request_admission_def denied_def q f m deficit_none fits_cpu_def fits_int_def deficit_def
                num_lt_int split: if_splits)
        qed
      qed
    qed
  qed
qed

text \<open>
  The quota is compared with what the host has, not with what is asked for: a host with more memory
  than its quota entry admits nothing, however small the request.
\<close>

lemma rich_host_admits_nothing:
  assumes "m_ram m = Some h" and "(''ram_mb'', NInt limit) \<in> set (quota g)" and "limit < h"
  shows "\<not> within_quota m (quota g)"
  using assms by (force simp: within_quota_def list_all_iff below_limit_def attribute_def)

end
