(* ===== verification/Worker.thy ===== *)
theory Worker
  imports RuntimeControl
begin

text \<open>
  \<open>controller/worker.py\<close>: the offline task worker. Its state is the four queue directories, the result
  files and the workspace tree, on top of the controller state whose audit log it appends to
  (\<open>RuntimeControl.append_audit\<close>). A task moves by renaming its file, and every rename, result write
  and audit write may fail.
\<close>

section \<open>State\<close>

datatype node = Directory "(string \<times> node) list" | Regular string | Symlink string | Special

datatype task_body = TaskNotText | TaskNotJson | TaskDoc pyval

record task_file =
  t_size :: nat
  t_body :: task_body

type_synonym directory = "(string \<times> task_file) list"

record 'w worker =
  base :: "'w control"
  pending :: directory
  processing :: directory
  finished :: directory
  failed :: directory
  results :: "(string \<times> pydict) list"
  workspace :: node

datatype claim_outcome = Claimed | Vanished | Occupied | Claim_error exc_class

text \<open>What one pass of the loop meets: the outcome of each rename, of the result write and the clock.\<close>

record pass =
  claim_of :: "string \<Rightarrow> claim_outcome"
  claim_suffix :: "string \<Rightarrow> string"
  result_ok :: bool
  done_ok :: bool
  failed_ok :: bool
  uptime :: pyfloat
  worker_id :: string
  stamp :: string

definition allowed_actions :: "string list" where
  "allowed_actions = [''health_snapshot'', ''sha256_file'', ''verify_sha256'']"

definition max_task_bytes :: nat where "max_task_bytes = 64 * 1024"
definition max_workspace_file_bytes :: nat where "max_workspace_file_bytes = 512 * 1024 * 1024"

definition task_id_char :: "char \<Rightarrow> bool" where
  "task_id_char c \<longleftrightarrow> (let n = code c in (48 \<le> n \<and> n \<le> 57) \<or> (65 \<le> n \<and> n \<le> 90) \<or> (97 \<le> n \<and> n \<le> 122)
     \<or> c = CHR ''_'' \<or> c = CHR ''-'')"

definition is_task_id :: "string \<Rightarrow> bool" where
  "is_task_id s \<longleftrightarrow> 1 \<le> length s \<and> length s \<le> 80 \<and> list_all task_id_char s"

definition is_any_sha256 :: "string \<Rightarrow> bool" where
  "is_any_sha256 s \<longleftrightarrow> length s = 64
     \<and> list_all (\<lambda>c. c \<in> digits \<or> (let n = code c in (65 \<le> n \<and> n \<le> 70) \<or> (97 \<le> n \<and> n \<le> 102))) s"

section \<open>Workspace files\<close>

text \<open>\<open>Path(s).parts\<close> of a relative path: empty and dot components vanish.\<close>

definition path_parts :: "string \<Rightarrow> string list" where
  "path_parts s = List.filter (\<lambda>p. p \<noteq> [] \<and> p \<noteq> ''.'') (split_on (CHR ''/'') s)"

fun child :: "node \<Rightarrow> string \<Rightarrow> node option" where
  "child (Directory es) n = map_of es n"
| "child _ n = None"

text \<open>
  Every prefix of the path is checked for being a link before the whole is resolved; a missing
  component is no link.
\<close>

fun meets_symlink :: "node option \<Rightarrow> string list \<Rightarrow> bool" where
  "meets_symlink t [] \<longleftrightarrow> False"
| "meets_symlink t (p # ps) \<longleftrightarrow> (let c = (case t of None \<Rightarrow> None | Some n \<Rightarrow> child n p) in
     (case c of Some (Symlink target) \<Rightarrow> True | _ \<Rightarrow> False) \<or> meets_symlink c ps)"

fun walk :: "node \<Rightarrow> string list \<Rightarrow> node option" where
  "walk t [] = Some t"
| "walk t (p # ps) = (case child t p of None \<Rightarrow> None | Some c \<Rightarrow> walk c ps)"

definition workspace_file :: "node \<Rightarrow> pyval \<Rightarrow> exc + (string list \<times> string)" where
  "workspace_file tree v = (case v of
     PStr s \<Rightarrow>
       if blank s then raise ControlError ''relative_path is required.''
       else if starts_with ''/'' s \<or> ''..'' \<in> set (path_parts s)
       then raise ControlError ''Only normalized relative paths inside the workspace are allowed.''
       else if meets_symlink (Some tree) (path_parts s)
       then raise ControlError ''Symbolic links are not allowed in workspace tasks.''
       else (case walk tree (path_parts s) of
         None \<Rightarrow> raise ControlError ''Requested workspace file does not exist.''
       | Some (Regular content) \<Rightarrow> if max_workspace_file_bytes < length content
           then raise ControlError ''Workspace file exceeds the 512 MiB processing limit.''
           else Inr (path_parts s, content)
       | Some other \<Rightarrow> raise ControlError ''Requested path is not a regular file inside the workspace.'')
   | _ \<Rightarrow> raise ControlError ''relative_path is required.'')"

text \<open>The read loop: blocks of at most \<open>n\<close> bytes until an empty one, digested and counted.\<close>

function digest_blocks :: "nat \<Rightarrow> string \<Rightarrow> string \<Rightarrow> nat \<Rightarrow> string \<times> nat" where
  "digest_blocks n stream fed n_read =
     (if stream = [] \<or> n = 0 then (fed, n_read)
      else digest_blocks n (drop n stream) (fed @ take n stream) (n_read + length (take n stream)))"
  by pat_completeness auto
termination by (relation "measure (\<lambda>(n, stream, fed, n_read). length stream)") auto

declare digest_blocks.simps [simp del]

definition sha256_file :: "runtime \<Rightarrow> string \<Rightarrow> string \<times> nat" where
  "sha256_file R content = (let (fed, n) = digest_blocks (1024 * 1024) content [] 0 in (sha256_hex R fed, n))"

section \<open>Results\<close>

definition json_writable :: "pydict \<Rightarrow> bool" where
  "json_writable d \<longleftrightarrow> serialisable (PDict d) \<and> all_finite (PDict d)"

definition atomic_result :: "pass \<Rightarrow> string \<Rightarrow> pydict \<Rightarrow> 'w worker \<Rightarrow> 'w worker \<times> (exc + string)" where
  "atomic_result c tid payload s =
     (if \<not> is_task_id tid then (s, raise ControlError ''Invalid task_id.'')
      else attempt s (dumps_checked False (PDict payload) []) (\<lambda>_.
        if map_of (results s) tid \<noteq> None
        then (s, raise ControlError ''A result already exists for this task_id; refusing to overwrite it.'')
        else if \<not> result_ok c then (s, raise OSError ''write failed'')
        else (s\<lparr>results := results s @ [(tid, payload)]\<rparr>, Inr (tid @ ''.json''))))"

section \<open>The task document\<close>

definition task_fields :: "string list" where
  "task_fields = [''task_id'', ''action'', ''relative_path'', ''expected_sha256'', ''purpose'', ''expected_effect'']"

definition short_text :: "string \<Rightarrow> pyval \<Rightarrow> exc + string" where
  "short_text name v = (case v of
     PStr s \<Rightarrow> if blank s \<or> 500 < length (strip s)
         then raise ControlError (name @ '' must be a non-empty string of at most 500 characters.'') else Inr (strip s)
   | _ \<Rightarrow> raise ControlError (name @ '' must be a non-empty string of at most 500 characters.''))"

definition validate_task_envelope :: "pyval \<Rightarrow> string \<Rightarrow> exc + (string \<times> string \<times> string)" where
  "validate_task_envelope task tid = (case task of
     PDict t \<Rightarrow>
       if \<not> list_all (\<lambda>k. k \<in> set task_fields) (dkeys t) then raise ControlError ''Task contains unsupported fields.''
       else if dget t ''task_id'' \<noteq> PStr tid \<or> \<not> is_task_id tid
       then raise ControlError ''Task ID must match its filename and the permitted ID format.''
       else (case dget t ''action'' of
         PStr action \<Rightarrow> if action \<notin> set allowed_actions then raise ControlError ''Unknown task action.''
           else and_then (short_text ''purpose'' (dget t ''purpose'')) (\<lambda>purpose.
             and_then (short_text ''expected_effect'' (dget t ''expected_effect'')) (\<lambda>eff. Inr (action, purpose, eff)))
       | _ \<Rightarrow> raise ControlError ''Unknown task action.'')
   | _ \<Rightarrow> raise ControlError ''Task document must be a JSON object.'')"

definition count_json :: "directory \<Rightarrow> nat" where
  "count_json d = length (List.filter (\<lambda>p. ends_with ''.json'' (fst p)) d)"

definition task_base :: "string \<Rightarrow> string \<Rightarrow> string \<Rightarrow> string \<Rightarrow> string \<Rightarrow> pydict" where
  "task_base tid action purpose eff now = [(''task_id'', PStr tid), (''action'', PStr action), (''purpose'', PStr (strip purpose)),
     (''expected_effect'', PStr (strip eff)), (''timestamp_utc'', PStr now), (''source'', PStr ''LOCAL_WORKER''),
     (''evidence_status'', PStr ''OBSERVED_LOCAL_STATE'')]"

definition execute_task :: "runtime \<Rightarrow> pass \<Rightarrow> 'w worker \<Rightarrow> pyval \<Rightarrow> string \<Rightarrow> exc + pydict" where
  "execute_task R c s task tid = and_then (validate_task_envelope task tid) (\<lambda>(action, purpose, eff).
     let b = task_base tid action purpose eff (stamp c) in
     if action = ''health_snapshot'' then
       Inr (dupdate b [(''status'', PStr ''COMPLETED''), (''worker_id'', PStr (worker_id c)),
         (''uptime_seconds'', PFloat (py_round 3 (uptime c))), (''pending_tasks'', PInt (int (count_json (pending s)))),
         (''processing_tasks'', PInt (int (count_json (processing s))))])
     else and_then (workspace_file (workspace s) (get_in task ''relative_path'')) (\<lambda>(path, content).
       let (digest, n_bytes) = sha256_file R content;
           b = dupdate b [(''relative_path'', get_in task ''relative_path''), (''sha256'', PStr digest), (''size_bytes'', PInt (int n_bytes))] in
       if action = ''sha256_file'' then Inr (dupdate b [(''status'', PStr ''COMPLETED'')])
       else (case get_in task ''expected_sha256'' of
         PStr expected \<Rightarrow> if \<not> is_any_sha256 expected
           then raise ControlError ''expected_sha256 must contain exactly 64 hexadecimal characters.''
           else and_then (compare_digest (lower digest) (PStr (lower expected))) (\<lambda>same.
             Inr (dupdate b [(''status'', PStr ''COMPLETED''), (''matches_expected'', PBool same),
               (''verification_status'', PStr (if same then ''MATCH'' else ''MISMATCH''))]))
       | _ \<Rightarrow> raise ControlError ''expected_sha256 must contain exactly 64 hexadecimal characters.'')))"

section \<open>The queue\<close>

definition stem :: "string \<Rightarrow> string" where
  "stem name = take (length name - 5) name"

definition claimed_name :: "pass \<Rightarrow> string \<Rightarrow> string" where
  "claimed_name c name = stem name @ ''.'' @ claim_suffix c name @ ''.json''"

fun claim_from :: "pass \<Rightarrow> string list \<Rightarrow> 'w worker \<Rightarrow> 'w worker \<times> (exc + string option)" where
  "claim_from c [] s = (s, Inr None)"
| "claim_from c (n # ns) s = (case (claim_of c n, map_of (pending s) n) of
     (Claimed, Some t) \<Rightarrow> (s\<lparr>pending := List.filter (\<lambda>p. fst p \<noteq> n) (pending s),
                processing := processing s @ [(claimed_name c n, t)]\<rparr>, Inr (Some (claimed_name c n)))
   | (Claim_error cls, _) \<Rightarrow> (s, raise cls ''rename'')
   | _ \<Rightarrow> claim_from c ns s)"

definition claim_one :: "pass \<Rightarrow> 'w worker \<Rightarrow> 'w worker \<times> (exc + string option)" where
  "claim_one c s = claim_from c (sort (List.filter (ends_with ''.json'') (List.map fst (pending s)))) s"

definition worker_audit :: "('w, 'x) host_scheme \<Rightarrow> pydict \<Rightarrow> 'w worker \<Rightarrow> 'w worker \<times> (exc + unit)" where
  "worker_audit E ev s = (let (b, r) = append_audit E ev (base s) in (s\<lparr>base := b\<rparr>, r))"

definition claimed_event :: "pass \<Rightarrow> string \<Rightarrow> pydict" where
  "claimed_event c tid = [(''timestamp_utc'', PStr (stamp c)), (''phase'', PStr ''TASK_CLAIMED''), (''task_id'', PStr tid),
     (''worker_id'', PStr (worker_id c)), (''source'', PStr ''LOCAL_QUEUE''), (''status'', PStr ''CLAIMED'')]"

definition started_event :: "pass \<Rightarrow> string \<Rightarrow> string \<Rightarrow> string \<Rightarrow> string \<Rightarrow> pydict" where
  "started_event c tid action purpose eff = [(''timestamp_utc'', PStr (stamp c)), (''phase'', PStr ''TASK_STARTED''), (''task_id'', PStr tid),
     (''worker_id'', PStr (worker_id c)), (''source'', PStr ''LOCAL_WORKER''), (''status'', PStr ''AUTHORIZED_LOCAL_TASK''),
     (''action'', PStr action), (''purpose'', PStr purpose), (''expected_effect'', PStr eff)]"

definition summary_keys :: "string list" where
  "summary_keys = [''sha256'', ''size_bytes'', ''matches_expected'', ''verification_status'', ''evidence_status'', ''purpose'', ''expected_effect'']"

definition completed_event :: "pass \<Rightarrow> string \<Rightarrow> string \<Rightarrow> pydict \<Rightarrow> pydict" where
  "completed_event c tid result_name res = [(''timestamp_utc'', PStr (stamp c)), (''phase'', PStr ''TASK_COMPLETED''), (''task_id'', PStr tid),
     (''result_file'', PStr result_name), (''source'', PStr ''LOCAL_WORKER''), (''status'', dget res ''status''),
     (''action'', dget res ''action''),
     (''result_summary'', PDict (List.map (\<lambda>k. (k, dget res k)) (List.filter (dhas res) summary_keys)))]"

definition task_failed_event :: "pass \<Rightarrow> string \<Rightarrow> exc \<Rightarrow> pydict" where
  "task_failed_event c tid e = [(''timestamp_utc'', PStr (stamp c)), (''phase'', PStr ''TASK_FAILED''), (''task_id'', PStr tid),
     (''source'', PStr ''LOCAL_WORKER''), (''status'', PStr ''FAILED''), (''error_type'', PStr (class_name (fst e)))]"

definition failure_result :: "pass \<Rightarrow> string \<Rightarrow> exc \<Rightarrow> pydict" where
  "failure_result c tid e = [(''task_id'', PStr tid), (''timestamp_utc'', PStr (stamp c)), (''source'', PStr ''LOCAL_WORKER''),
     (''status'', PStr ''FAILED''), (''error_type'', PStr (class_name (fst e))),
     (''detail'', PStr (if issubclass (fst e) ControlError then snd e else ''Task failed; internal details withheld.''))]"

definition read_task :: "task_file \<Rightarrow> exc + pyval" where
  "read_task t = (if max_task_bytes < t_size t then raise ControlError ''Task document exceeds the 64 KiB limit.''
     else case t_body t of
       TaskNotText \<Rightarrow> raise UnicodeDecodeError ''invalid start byte''
     | TaskNotJson \<Rightarrow> raise JSONDecodeError ''Expecting value''
     | TaskDoc v \<Rightarrow> Inr v)"

definition move_to_done :: "pass \<Rightarrow> string \<Rightarrow> task_file \<Rightarrow> 'w worker \<Rightarrow> 'w worker \<times> (exc + unit)" where
  "move_to_done c name t s = (if done_ok c
     then (s\<lparr>processing := List.filter (\<lambda>p. fst p \<noteq> name) (processing s), finished := finished s @ [(name, t)]\<rparr>, Inr ())
     else (s, raise OSError ''rename''))"

definition move_to_failed :: "pass \<Rightarrow> string \<Rightarrow> task_file \<Rightarrow> 'w worker \<Rightarrow> 'w worker" where
  "move_to_failed c name t s = (if failed_ok c
     then s\<lparr>processing := List.filter (\<lambda>p. fst p \<noteq> name) (processing s), failed := failed s @ [(name, t)]\<rparr> else s)"

text \<open>The \<open>try\<close> body and the \<open>except\<close> branch of \<open>process_one\<close>.\<close>

definition run_task :: "('w, 'x) host_scheme \<Rightarrow> pass \<Rightarrow> string \<Rightarrow> task_file \<Rightarrow> string \<Rightarrow> 'w worker \<Rightarrow> 'w worker \<times> (exc + unit)" where
  "run_task E c name t tid s =
     then_call (worker_audit E (claimed_event c tid) s) (\<lambda>s _.
     attempt s (read_task t) (\<lambda>task.
     attempt s (validate_task_envelope task tid) (\<lambda>(action, purpose, eff).
     then_call (worker_audit E (started_event c tid action purpose eff) s) (\<lambda>s _.
     attempt s (execute_task (pyrun E) c s task tid) (\<lambda>res.
     then_call (atomic_result c tid res s) (\<lambda>s result_name.
     then_call (worker_audit E (completed_event c tid result_name res) s) (\<lambda>s _.
     move_to_done c name t s)))))))"

definition fail_task :: "('w, 'x) host_scheme \<Rightarrow> pass \<Rightarrow> string \<Rightarrow> task_file \<Rightarrow> string \<Rightarrow> exc \<Rightarrow> 'w worker \<Rightarrow> 'w worker \<times> (exc + unit)" where
  "fail_task E c name t tid e s = (let (s, _) = atomic_result c tid (failure_result c tid e) s;
       (s, r) = worker_audit E (task_failed_event c tid e) s in
     (move_to_failed c name t s, r))"

definition task_id_of :: "string \<Rightarrow> string" where
  "task_id_of name = takeWhile (\<lambda>c. c \<noteq> CHR ''.'') name"

definition process_one :: "('w, 'x) host_scheme \<Rightarrow> pass \<Rightarrow> 'w worker \<Rightarrow> 'w worker \<times> (exc + bool)" where
  "process_one E c s = then_call (claim_one c s) (\<lambda>s claimed. case claimed of
     None \<Rightarrow> (s, Inr False)
   | Some name \<Rightarrow> (case map_of (rev (processing s)) name of
       None \<Rightarrow> (s, raise FileNotFoundError ''claimed'')
     | Some t \<Rightarrow> (case run_task E c name t (task_id_of name) s of
           (s, Inr _) \<Rightarrow> (s, Inr True)
         | (s, Inl e) \<Rightarrow> then_call (fail_task E c name t (task_id_of name) e s) (\<lambda>s _. (s, Inr True)))))"

section \<open>The loop\<close>

definition poll_ok :: "pyfloat \<Rightarrow> bool" where
  "poll_ok p \<longleftrightarrow> fle (to_pf (2/10)) p \<and> fle p (Fin 60)"

text \<open>\<open>main\<close> over the passes it makes before a signal stops it; an exception of a pass is reported only.\<close>

definition worker_main :: "('w, 'x) host_scheme \<Rightarrow> pyfloat \<Rightarrow> pass list \<Rightarrow> 'w worker \<Rightarrow> 'w worker \<times> int" where
  "worker_main E poll passes s = (if \<not> poll_ok poll then (s, 2) else (fold (\<lambda>c s. fst (process_one E c s)) passes s, 0))"

section \<open>Reading a file\<close>

lemma digest_blocks_all: "0 < n \<Longrightarrow> digest_blocks n stream fed k = (fed @ stream, k + length stream)"
proof (induction n stream fed k rule: digest_blocks.induct)
  case (1 n stream fed k)
  show ?case
  proof (cases "stream = []")
    case False
    then have "digest_blocks n stream fed k = digest_blocks n (drop n stream) (fed @ take n stream) (k + length (take n stream))"
      using 1(2) by (subst digest_blocks.simps) simp
    also have "\<dots> = ((fed @ take n stream) @ drop n stream, k + length (take n stream) + length (drop n stream))"
      using 1 False by simp
    also have "\<dots> = (fed @ stream, k + length stream)" by simp
    finally show ?thesis .
  qed (simp add: digest_blocks.simps)
qed

lemma sha256_file_whole: "sha256_file R content = (sha256_hex R content, length content)"
  by (simp add: sha256_file_def digest_blocks_all)

lemma walk_no_symlink: "\<not> meets_symlink (Some t) ps \<Longrightarrow> ps = qs @ rs \<Longrightarrow> qs \<noteq> [] \<Longrightarrow> walk t qs \<noteq> Some (Symlink x)"
proof (induction qs arbitrary: t ps)
  case (Cons q qs)
  show ?case
  proof (cases "child t q")
    case (Some c)
    then show ?thesis using Cons by (cases "qs = []") (auto split: node.splits)
  qed simp
qed simp

text \<open>
  C30: a workspace path that is accepted names a regular file reached from the workspace root through
  directories only: it is relative, has no parent component, no proper or full prefix of it is a
  symbolic link, and the content is at most 512 MiB; the digest and the byte count reported for it are
  those of the whole content, although it is read in blocks.
\<close>

theorem workspace_file_stays_inside:
  assumes "workspace_file tree v = Inr (path, content)"
  shows "walk tree path = Some (Regular content) \<and> ''..'' \<notin> set path \<and> [] \<notin> set path
    \<and> (\<exists>s. v = PStr s \<and> path = path_parts s \<and> \<not> starts_with ''/'' s)
    \<and> list_all (\<lambda>k. case walk tree (take (Suc k) path) of Some (Symlink t) \<Rightarrow> False | _ \<Rightarrow> True) [0..<length path]
    \<and> length content \<le> max_workspace_file_bytes \<and> sha256_file R content = (sha256_hex R content, length content)"
proof -
  obtain s where s: "v = PStr s" "path = path_parts s" "\<not> starts_with ''/'' s" "''..'' \<notin> set path"
      "\<not> meets_symlink (Some tree) path" "walk tree path = Some (Regular content)" "length content \<le> max_workspace_file_bytes"
    using assms by (auto simp: workspace_file_def split: pyval.splits if_splits option.splits node.splits)
  have "[] \<notin> set path" using s(2) by (simp add: path_parts_def)
  moreover have "list_all (\<lambda>k. case walk tree (take (Suc k) path) of Some (Symlink t) \<Rightarrow> False | _ \<Rightarrow> True) [0..<length path]"
  proof -
    have "walk tree (take (Suc k) path) \<noteq> Some (Symlink x)" if "k < length path" for k x
      using that by (intro walk_no_symlink [OF s(5) append_take_drop_id [symmetric]]) auto
    then show ?thesis by (auto simp: list_all_iff split: option.splits node.splits)
  qed
  ultimately show ?thesis using s sha256_file_whole by auto
qed

definition sample_tree :: node where
  "sample_tree = Directory [(''d'', Directory [(''f'', Regular ''abc'')]), (''l'', Symlink ''/etc'')]"

theorem workspace_file_stays_inside_witness:
  "walk sample_tree [''d'', ''f''] = Some (Regular ''abc'') \<and> workspace_file sample_tree (PStr ''d/./f'') = Inr ([''d'', ''f''], ''abc'')"
proof -
  have "workspace_file sample_tree (PStr ''d/./f'') = Inr ([''d'', ''f''], ''abc'')"
    by (simp add: workspace_file_def blank_def is_space_def starts_with_def path_parts_def sample_tree_def max_workspace_file_bytes_def)
  from workspace_file_stays_inside [OF this, of sample_runtime] this show ?thesis by blast
qed

section \<open>One pass\<close>

lemma worker_audit_Inr:
  "worker_audit E ev s = (s', Inr u) \<Longrightarrow> \<exists>w. s' = s\<lparr>base := (base s)\<lparr>outside := w, trace := trace (base s) @ [Audited ev]\<rparr>\<rparr>"
  by (fastforce simp: worker_audit_def Let_def dest: append_audit_Inr split: prod.splits)

lemma worker_audit_keeps: "worker_audit E ev s = (s', r) \<Longrightarrow> results s' = results s \<and> finished s' = finished s"
  by (auto simp: worker_audit_def Let_def split: prod.splits)

lemma atomic_result_cases:
  assumes "atomic_result c tid payload s = (s', r)"
  obtains (refused) e where "s' = s" "r = Inl e"
  | (written) "is_task_id tid" "map_of (results s) tid = None" "s' = s\<lparr>results := results s @ [(tid, payload)]\<rparr>" "r = Inr (tid @ ''.json'')"
  using assms by (auto simp: atomic_result_def split: if_splits elim!: attempt_cases)

lemma claim_from_keeps:
  "claim_from c ns s = (s', r) \<Longrightarrow> results s' = results s \<and> finished s' = finished s \<and> base s' = base s"
  by (induction c ns s rule: claim_from.induct) (auto split: claim_outcome.splits option.splits)

lemma status_set:
  "dget (dupdate b [(''status'', x)]) ''status'' = x" "dget (dupdate b [(''status'', x), (''matches_expected'', y), (''verification_status'', z)]) ''status'' = x"
  "dget (dupdate b [(''status'', x), (''worker_id'', y), (''uptime_seconds'', z), (''pending_tasks'', u), (''processing_tasks'', v)]) ''status'' = x"
  by (simp_all add: dupdate_def)

lemma execute_task_completed:
  assumes "execute_task R c s task tid = Inr res"
  shows "dget res ''status'' = PStr ''COMPLETED''"
proof -
  obtain a p e where v: "validate_task_envelope task tid = Inr (a, p, e)"
    using assms by (auto simp: execute_task_def and_then_Inr)
  show ?thesis
  proof (cases "a = ''health_snapshot''")
    case True
    then show ?thesis using assms v by (simp add: execute_task_def Let_def) (use status_set in blast)
  next
    case False
    then obtain path content where w: "workspace_file (workspace s) (get_in task ''relative_path'') = Inr (path, content)"
      using assms v by (auto simp: execute_task_def and_then_Inr Let_def)
    show ?thesis
    proof (cases "a = ''sha256_file''")
      case True
      then show ?thesis using assms v w False by (simp add: execute_task_def Let_def sha256_file_whole) (use status_set in blast)
    next
      case other: False
      then show ?thesis using assms v w False
        by (cases "get_in task ''expected_sha256''")
          (simp_all add: execute_task_def Let_def sha256_file_whole and_then_Inr split: if_splits, use status_set in blast)
    qed
  qed
qed

text \<open>What a task that ran through leaves behind\<close>

lemma run_task_Inr:
  assumes "run_task E c name t tid s = (s', Inr u)"
  obtains task action purpose eff res where "read_task t = Inr task"
    "validate_task_envelope task tid = Inr (action, purpose, eff)" "dget res ''status'' = PStr ''COMPLETED''"
    "map_of (results s) tid = None" "results s' = results s @ [(tid, res)]" "finished s' = finished s @ [(name, t)]"
    "trace (base s') = trace (base s) @ [Audited (claimed_event c tid), Audited (started_event c tid action purpose eff),
       Audited (completed_event c tid (tid @ ''.json'') res)]"
proof -
  from assms obtain s1 task a p e s2 res s3 rn s4 where
    1: "worker_audit E (claimed_event c tid) s = (s1, Inr ())"
    and 2: "read_task t = Inr task" "validate_task_envelope task tid = Inr (a, p, e)"
    and 3: "worker_audit E (started_event c tid a p e) s1 = (s2, Inr ())"
    and 4: "execute_task (pyrun E) c s2 task tid = Inr res"
    and 5: "atomic_result c tid res s2 = (s3, Inr rn)"
    and 6: "worker_audit E (completed_event c tid rn res) s3 = (s4, Inr ())"
    and 7: "move_to_done c name t s4 = (s', Inr u)"
    unfolding run_task_def by (fastforce elim!: then_call_cases attempt_cases)
  have w: "map_of (results s2) tid = None" "s3 = s2\<lparr>results := results s2 @ [(tid, res)]\<rparr>" "rn = tid @ ''.json''"
    using 5 by (auto elim: atomic_result_cases)
  show ?thesis
    by (rule that [OF 2 execute_task_completed [OF 4]])
      (use w worker_audit_Inr [OF 1] worker_audit_Inr [OF 3] worker_audit_Inr [OF 6] 7 in
        \<open>auto simp: move_to_done_def split: if_splits\<close>)
qed

lemma fail_task_finished: "finished (fst (fail_task E c name t tid e s)) = finished s"
  by (auto simp: fail_task_def Let_def move_to_failed_def split: prod.splits elim!: atomic_result_cases dest!: worker_audit_keeps)

lemma run_task_finished: "run_task E c name t tid s = (s', Inl e) \<Longrightarrow> finished s' = finished s"
  unfolding run_task_def
  by (auto elim!: then_call_cases attempt_cases atomic_result_cases dest!: worker_audit_keeps simp: move_to_done_def split: if_splits)

text \<open>
  C27: a pass puts at most one task file into the done directory, and only a task whose document passed
  the envelope check under the id of its file name, for which no result existed before, whose result
  has just been written with status COMPLETED, and for which exactly the three records CLAIMED, STARTED
  and COMPLETED were appended to the audit, in this order.
\<close>

theorem finished_task_has_its_result:
  assumes "process_one E c s = (s', r)"
  shows "finished s' = finished s \<or> (\<exists>name t task action purpose eff res. finished s' = finished s @ [(name, t)]
    \<and> read_task t = Inr task \<and> validate_task_envelope task (task_id_of name) = Inr (action, purpose, eff)
    \<and> map_of (results s) (task_id_of name) = None \<and> results s' = results s @ [(task_id_of name, res)]
    \<and> dget res ''status'' = PStr ''COMPLETED''
    \<and> trace (base s') = trace (base s) @ [Audited (claimed_event c (task_id_of name)),
        Audited (started_event c (task_id_of name) action purpose eff),
        Audited (completed_event c (task_id_of name) (task_id_of name @ ''.json'') res)])"
proof -
  obtain s1 r1 where cl: "claim_one c s = (s1, r1)" by fastforce
  have k: "results s1 = results s" "finished s1 = finished s" "base s1 = base s"
    using claim_from_keeps cl unfolding claim_one_def by blast+
  consider "r1 = Inr None \<or> (\<exists>e. r1 = Inl e)" | name where "r1 = Inr (Some name)" "map_of (rev (processing s1)) name = None"
    | name t where "r1 = Inr (Some name)" "map_of (rev (processing s1)) name = Some t"
    by (metis not_None_eq sum.exhaust)
  then show ?thesis
  proof cases
    case (3 name t)
    obtain s2 r2 where run: "run_task E c name t (task_id_of name) s1 = (s2, r2)" by fastforce
    show ?thesis
    proof (cases r2)
      case (Inl e)
      have "finished s' = finished (fst (fail_task E c name t (task_id_of name) e s2))"
        using assms cl 3 run Inl by (auto simp: process_one_def elim!: then_call_cases)
      then show ?thesis using run_task_finished run Inl k by (metis fail_task_finished)
    next
      case (Inr u)
      then have "s' = s2" using assms cl 3 run by (simp add: process_one_def)
      with run Inr have "run_task E c name t (task_id_of name) s1 = (s', Inr u)" by simp
      then show ?thesis by (rule run_task_Inr) (rule disjI2, unfold k, blast)
    qed
  qed (use assms cl k in \<open>auto simp: process_one_def\<close>)
qed

text \<open>A pass over one pending health task\<close>

definition sample_task :: task_file where
  "sample_task = \<lparr>t_size = 9, t_body = TaskDoc (PDict [(''task_id'', PStr ''t1''), (''action'', PStr ''health_snapshot''),
     (''purpose'', PStr ''p''), (''expected_effect'', PStr ''e'')])\<rparr>"

definition sample_pass :: pass where
  "sample_pass = \<lparr>claim_of = (\<lambda>_. Claimed), claim_suffix = (\<lambda>_. ''h''), result_ok = True, done_ok = True, failed_ok = True,
     uptime = Fin 0, worker_id = ''w'', stamp = ''now''\<rparr>"

definition sample_worker :: "nat worker" where
  "sample_worker = \<lparr>base = sample_control 1 NoFile, pending = [(''t1.json'', sample_task)], processing = [], finished = [],
     failed = [], results = [], workspace = sample_tree\<rparr>"

lemma sample_envelope: "validate_task_envelope (PDict [(''task_id'', PStr ''t1''), (''action'', PStr ''health_snapshot''),
     (''purpose'', PStr ''p''), (''expected_effect'', PStr ''e'')]) ''t1'' = Inr (''health_snapshot'', ''p'', ''e'')"
  by (simp add: validate_task_envelope_def task_fields_def dkeys_def is_task_id_def task_id_char_def allowed_actions_def
      short_text_def blank_def is_space_def strip_def Let_def)

lemma sample_claim: "claim_one sample_pass sample_worker
    = (sample_worker\<lparr>pending := [], processing := [(''t1.h.json'', sample_task)]\<rparr>, Inr (Some ''t1.h.json''))"
  by (simp add: claim_one_def sample_worker_def sample_pass_def ends_with_def claimed_name_def stem_def)

lemma worker_audit_ok:
  "\<lbrakk>\<not> audit_locked (base s); serialisable (PDict ev); all_finite (PDict ev)\<rbrakk>
    \<Longrightarrow> worker_audit sample_host ev s = (s\<lparr>base := (base s)\<lparr>trace := trace (base s) @ [Audited ev]\<rparr>\<rparr>, Inr ())"
  by (simp add: worker_audit_def append_audit_ok sample_host_def)

lemma sample_run:
  "finished (fst (run_task sample_host sample_pass ''t1.h.json'' sample_task ''t1''
     (sample_worker\<lparr>pending := [], processing := [(''t1.h.json'', sample_task)]\<rparr>))) = [(''t1.h.json'', sample_task)]
   \<and> snd (run_task sample_host sample_pass ''t1.h.json'' sample_task ''t1''
     (sample_worker\<lparr>pending := [], processing := [(''t1.h.json'', sample_task)]\<rparr>)) = Inr ()"
proof -
  have up: "py_round 3 (Fin 0) = Fin 0" using rhe_of_int [of 0] by (simp add: py_round_def)
  have free: "\<not> audit_locked (base sample_worker)" by (simp add: sample_worker_def sample_control_def)
  have rd: "read_task sample_task = Inr (PDict [(''task_id'', PStr ''t1''), (''action'', PStr ''health_snapshot''),
     (''purpose'', PStr ''p''), (''expected_effect'', PStr ''e'')])"
    by (simp add: read_task_def sample_task_def max_task_bytes_def)
  have fields: "done_ok sample_pass" "result_ok sample_pass" "uptime sample_pass = Fin 0" "results sample_worker = []" "finished sample_worker = []"
    by (simp_all add: sample_pass_def sample_worker_def)
  have tid: "is_task_id ''t1''" by (simp add: is_task_id_def task_id_char_def Let_def)
  note evs = claimed_event_def started_event_def completed_event_def summary_keys_def task_base_def
  show ?thesis
    by (simp add: run_task_def rd sample_envelope worker_audit_ok free evs execute_task_def up fields dupdate_def Let_def
        atomic_result_def tid dumps_checked_def move_to_done_def dset_def dhas_def)
qed

theorem finished_task_has_its_result_witness:
  "\<exists>res. results (fst (process_one sample_host sample_pass sample_worker)) = [(''t1'', res)] \<and> dget res ''status'' = PStr ''COMPLETED''"
proof -
  have id: "task_id_of ''t1.h.json'' = ''t1''" by (simp add: task_id_of_def)
  have p: "finished (fst (process_one sample_host sample_pass sample_worker)) = [(''t1.h.json'', sample_task)]"
    using sample_run by (cases "run_task sample_host sample_pass ''t1.h.json'' sample_task ''t1''
      (sample_worker\<lparr>pending := [], processing := [(''t1.h.json'', sample_task)]\<rparr>)") (simp add: process_one_def sample_claim id)
  have "finished sample_worker = []" "results sample_worker = []" by (simp_all add: sample_worker_def)
  with finished_task_has_its_result [OF surjective_pairing, of sample_host sample_pass sample_worker] p
  show ?thesis by (auto simp: id)
qed

section \<open>Results are final\<close>

definition has_result :: "string \<Rightarrow> pydict \<Rightarrow> 'w worker \<Rightarrow> bool" where
  "has_result tid res s \<longleftrightarrow> map_of (results s) tid = Some res"

lemma atomic_result_final: "has_result tid res s \<Longrightarrow> has_result tid res (fst (atomic_result c i d s))"
  by (cases "atomic_result c i d s") (auto simp: has_result_def map_add_def elim!: atomic_result_cases split: option.splits)

lemma worker_audit_final: "has_result tid res s \<Longrightarrow> has_result tid res (fst (worker_audit E ev s))"
  by (cases "worker_audit E ev s") (auto simp: has_result_def dest: worker_audit_keeps)

lemma moves_final: "has_result tid res (fst (move_to_done c n t s)) = has_result tid res s"
  "has_result tid res (move_to_failed c n t s) = has_result tid res s"
  by (simp_all add: has_result_def move_to_done_def move_to_failed_def)

lemma final_then_call:
  assumes "has_result tid res (fst r)" and "\<And>s x. r = (s, Inr x) \<Longrightarrow> has_result tid res s \<Longrightarrow> has_result tid res (fst (f s x))"
  shows "has_result tid res (fst (then_call r f))"
  using assms by (cases "(r, f)" rule: then_call.cases) auto

lemma final_attempt: "has_result tid res s \<Longrightarrow> (\<And>x. has_result tid res (fst (f x))) \<Longrightarrow> has_result tid res (fst (attempt s r f))"
  by (cases r) auto

lemma run_task_final: "has_result tid res s \<Longrightarrow> has_result tid res (fst (run_task E c n t i s))"
  unfolding run_task_def case_prod_beta
  by (intro final_then_call final_attempt worker_audit_final atomic_result_final; (assumption | simp add: moves_final))

lemma fail_task_final: "has_result tid res s \<Longrightarrow> has_result tid res (fst (fail_task E c n t i e s))"
  unfolding fail_task_def Let_def case_prod_beta fst_conv moves_final(2)
  by (rule worker_audit_final, rule atomic_result_final)

lemma process_one_final: "has_result tid res s \<Longrightarrow> has_result tid res (fst (process_one E c s))"
proof -
  assume h: "has_result tid res s"
  have "has_result tid res (fst (claim_one c s))"
    using h claim_from_keeps [OF surjective_pairing] unfolding claim_one_def has_result_def by metis
  then show ?thesis unfolding process_one_def
  proof (rule final_then_call)
    fix s1 x
    assume "claim_one c s = (s1, Inr x)" and s1: "has_result tid res s1"
    show "has_result tid res (fst (case x of None \<Rightarrow> (s1, Inr False)
       | Some name \<Rightarrow> (case map_of (rev (processing s1)) name of None \<Rightarrow> (s1, raise FileNotFoundError ''claimed'')
         | Some t \<Rightarrow> (case run_task E c name t (task_id_of name) s1 of (s, Inr _) \<Rightarrow> (s, Inr True)
             | (s, Inl e) \<Rightarrow> then_call (fail_task E c name t (task_id_of name) e s) (\<lambda>s _. (s, Inr True))))))"
    proof (cases "\<exists>name t. x = Some name \<and> map_of (rev (processing s1)) name = Some t")
      case True
      then obtain name t where x: "x = Some name" "map_of (rev (processing s1)) name = Some t" by blast
      obtain s2 r2 where run: "run_task E c name t (task_id_of name) s1 = (s2, r2)" by fastforce
      have s2: "has_result tid res s2" using run_task_final [OF s1, of E c name t "task_id_of name"] run by simp
      show ?thesis
      proof (cases r2)
        case (Inl e)
        have "has_result tid res (fst (then_call (fail_task E c name t (task_id_of name) e s2) (\<lambda>s _. (s, Inr True))))"
          by (rule final_then_call [OF fail_task_final [OF s2]]) simp
        then show ?thesis using x run Inl by simp
      qed (use x run s2 in simp)
    qed (use s1 in \<open>auto split: option.splits\<close>)
  qed
qed

interpretation worker_run: machine "\<lambda>c s. fst (process_one E c s)" "has_result tid res" for E tid res
  by unfold_locales (rule process_one_final)

text \<open>
  a result once written is never replaced, whatever tasks follow, whatever ids they claim and
  whatever fails.
\<close>

theorem results_are_never_overwritten:
  assumes "map_of (results s) tid = Some res"
  shows "map_of (results (fst (worker_main E poll passes s))) tid = Some res"
  using assms worker_run.run_inv [of tid res s E passes] by (simp add: worker_main_def has_result_def)

theorem results_are_never_overwritten_witness:
  "map_of (results (fst (worker_main sample_host (Fin 1) [sample_pass, sample_pass] (sample_worker\<lparr>results := [(''t1'', [])]\<rparr>)))) ''t1''
    = Some []"
  by (rule results_are_never_overwritten) simp

end
