(* ===== verification/GlobalGuard.thy ===== *)
theory GlobalGuard
  imports PyText
begin

text \<open>
  The package \<open>global_guard\<close>: the policy gate for structured action requests (\<open>policy.py\<close>), the
  reviewed feedback records (\<open>feedback.py\<close>) and the scenario runner (\<open>scenario_runner.py\<close>, with the
  exit code of \<open>cli.py\<close>). Nothing here performs an action: the gate maps a request to a decision.
\<close>

section \<open>Policies\<close>

definition denied_classes :: "string list" where
  "denied_classes = [''weapons_development'', ''target_selection_for_violence'', ''autonomous_attack'',
     ''unauthorized_propagation'', ''credential_exfiltration'', ''destructive_cleanup'']"

definition known_classes :: "string list" where
  "known_classes = [''read_only'', ''local_analysis'', ''resource_efficiency'', ''file_write'', ''network_read'',
     ''network_write'', ''model_change'', ''production_change''] @ denied_classes"

definition network_classes :: "string list" where
  "network_classes = [''network_read'', ''network_write'']"

definition mutating_classes :: "string list" where
  "mutating_classes = [''file_write'', ''network_write'', ''model_change'', ''production_change'']"

record guard_policy =
  capabilities :: "string list"
  max_steps :: int
  max_external_calls :: int
  max_cost_units :: int
  max_output_bytes :: int
  allow_network :: bool
  allow_model_changes :: bool
  allow_production_changes :: bool
  need_approval :: bool

definition default_policy :: guard_policy where
  "default_policy = \<lparr>capabilities = [''read_only'', ''local_analysis''], max_steps = 100, max_external_calls = 0,
     max_cost_units = 100, max_output_bytes = 1000000, allow_network = False, allow_model_changes = False,
     allow_production_changes = False, need_approval = True\<rparr>"

text \<open>\<open>__post_init__\<close> on what a caller passes; the capabilities are \<open>None\<close> when they are no set.\<close>

definition limit_value :: "string \<Rightarrow> pyval \<Rightarrow> exc + int" where
  "limit_value name v = (case v of
     PInt i \<Rightarrow> if i < 0 then raise ValueError (name @ '' must be a non-negative integer'') else Inr i
   | _ \<Rightarrow> raise ValueError (name @ '' must be a non-negative integer''))"

definition capability_names :: "pyval list option \<Rightarrow> exc + string list" where
  "capability_names caps = (case caps of
     None \<Rightarrow> raise ValueError ''allowed_capabilities must be a set of known capability names''
   | Some vs \<Rightarrow> if list_all (\<lambda>v. case v of PStr s \<Rightarrow> s \<in> set known_classes | _ \<Rightarrow> False) vs
       then Inr (List.map_filter as_str vs) else raise ValueError ''allowed_capabilities contains an unknown capability'')"

definition flag_value :: "string \<Rightarrow> pyval \<Rightarrow> exc + bool" where
  "flag_value name v = (case v of PBool b \<Rightarrow> Inr b | _ \<Rightarrow> raise ValueError (name @ '' must be a boolean''))"

definition make_policy :: "pyval list option \<Rightarrow> pyval \<Rightarrow> pyval \<Rightarrow> pyval \<Rightarrow> pyval \<Rightarrow> pyval \<Rightarrow> pyval \<Rightarrow> pyval \<Rightarrow> pyval \<Rightarrow> exc + guard_policy" where
  "make_policy caps steps calls cost out net model prodc appr =
     and_then (limit_value ''max_steps'' steps) (\<lambda>s. and_then (limit_value ''max_external_calls'' calls) (\<lambda>c.
     and_then (limit_value ''max_cost_units'' cost) (\<lambda>u. and_then (limit_value ''max_output_bytes'' out) (\<lambda>b.
     and_then (capability_names caps) (\<lambda>names.
     and_then (flag_value ''allow_network'' net) (\<lambda>n. and_then (flag_value ''allow_model_changes'' model) (\<lambda>m.
     and_then (flag_value ''allow_production_changes'' prodc) (\<lambda>p.
     and_then (flag_value ''require_human_approval_for_mutations'' appr) (\<lambda>a.
     Inr \<lparr>capabilities = names, max_steps = s, max_external_calls = c, max_cost_units = u, max_output_bytes = b,
          allow_network = n, allow_model_changes = m, allow_production_changes = p, need_approval = a\<rparr>)))))))))"

section \<open>The decision\<close>

record guard_decision =
  guard_allowed :: bool
  guard_code :: string
  guard_reason :: string
  guard_class :: string
  guard_audit :: pydict

definition guard_decision_dict :: "guard_decision \<Rightarrow> pydict" where
  "guard_decision_dict d = [(''allowed'', PBool (guard_allowed d)), (''code'', PStr (guard_code d)), (''reason'', PStr (guard_reason d)),
     (''action_class'', PStr (guard_class d)), (''audit'', PDict (guard_audit d))]"

definition ue :: string where "ue = [CHR 0xFC]"
definition ae :: string where "ae = [CHR 0xE4]"

definition early_deny :: "string \<Rightarrow> string \<Rightarrow> guard_decision" where
  "early_deny code1 why = \<lparr>guard_allowed = False, guard_code = code1, guard_reason = why, guard_class = ''UNKNOWN'',
     guard_audit = [(''policy'', PStr ''V91_GLOBAL_GUARD''), (''decision'', PStr ''DENY''), (''reason_code'', PStr code1)]\<rparr>"

definition deny :: "runtime \<Rightarrow> pydict \<Rightarrow> string \<Rightarrow> string \<Rightarrow> guard_decision" where
  "deny R req code1 why = \<lparr>guard_allowed = False, guard_code = code1, guard_reason = why,
     guard_class = py_str R (por (dget req ''action_class'') (PStr ''UNKNOWN'')),
     guard_audit = [(''action_id'', dget req ''action_id''), (''policy'', PStr ''V91_GLOBAL_GUARD''), (''decision'', PStr ''DENY''),
       (''reason_code'', PStr code1)]\<rparr>"

definition short_statement :: "pyval \<Rightarrow> bool" where
  "short_statement v \<longleftrightarrow> (case v of PStr s \<Rightarrow> \<not> blank s \<and> length s \<le> 500 | _ \<Rightarrow> False)"

definition flag_fields :: "string list" where
  "flag_fields = [''network_required'', ''model_change'', ''production_change'']"

definition limits :: "guard_policy \<Rightarrow> (string \<times> int) list" where
  "limits p = [(''steps'', max_steps p), (''external_calls'', max_external_calls p), (''cost_units'', max_cost_units p),
     (''output_bytes'', max_output_bytes p)]"

text \<open>The two loops: the first offending field decides.\<close>

fun check_flags :: "pydict \<Rightarrow> string list \<Rightarrow> (string \<times> string) option" where
  "check_flags req [] = None"
| "check_flags req (f # fs) = (if dhas req f \<and> \<not> is_bool (dget req f)
     then Some (''INVALID_BOOLEAN_FLAG'', f @ '' muss boolesch sein.'') else check_flags req fs)"

fun check_limits :: "pydict \<Rightarrow> (string \<times> int) list \<Rightarrow> (string \<times> string) option" where
  "check_limits req [] = None"
| "check_limits req ((f, maximum) # fs) = (case dget_or req f (PInt 0) of
     PInt i \<Rightarrow> if i < 0 then Some (''INVALID_RESOURCE_ESTIMATE'', f @ '' muss eine nicht-negative Ganzzahl sein.'')
       else if maximum < i then Some (''RESOURCE_LIMIT_EXCEEDED'', f @ ''='' @ show_int i @ '' '' @ ue @ ''berschreitet das Limit ''
         @ show_int maximum @ ''.'')
       else check_limits req fs
   | _ \<Rightarrow> Some (''INVALID_RESOURCE_ESTIMATE'', f @ '' muss eine nicht-negative Ganzzahl sein.''))"

definition wants :: "pydict \<Rightarrow> string \<Rightarrow> bool" where
  "wants req f \<longleftrightarrow> truthy (dget_or req f (PBool False))"

definition check_capability :: "guard_policy \<Rightarrow> bool \<Rightarrow> pydict \<Rightarrow> string \<Rightarrow> (string \<times> string) option" where
  "check_capability p approved req c =
     (if c \<notin> set (capabilities p) then Some (''CAPABILITY_NOT_GRANTED'', ''Keine explizite Freigabe f'' @ ue @ ''r '' @ c @ ''.'')
      else if (c \<in> set network_classes \<or> wants req ''network_required'') \<and> \<not> allow_network p
      then Some (''NETWORK_DISABLED'', ''Netzwerkzugriff ist standardm'' @ ae @ [CHR 0xDF] @ ''ig gesperrt.'')
      else if (c = ''model_change'' \<or> wants req ''model_change'') \<and> \<not> allow_model_changes p
      then Some (''MODEL_CHANGE_DISABLED'', ''Modell'' @ ae @ ''nderungen ben'' @ [CHR 0xF6] @ ''tigen eine separate Freigabe.'')
      else if (c = ''production_change'' \<or> wants req ''production_change'') \<and> \<not> allow_production_changes p
      then Some (''PRODUCTION_CHANGE_DISABLED'', ''Produktions'' @ ae @ ''nderungen sind standardm'' @ ae @ [CHR 0xDF] @ ''ig gesperrt.'')
      else if c \<in> set mutating_classes \<and> need_approval p \<and> \<not> approved
      then Some (''HUMAN_APPROVAL_REQUIRED'', [CHR 0xC4] @ ''ndernde Aktion ben'' @ [CHR 0xF6] @ ''tigt eine ausdr'' @ ue
        @ ''ckliche menschliche Freigabe.'')
      else None)"

definition allow_decision :: "pydict \<Rightarrow> guard_policy \<Rightarrow> string \<Rightarrow> guard_decision" where
  "allow_decision req p c = \<lparr>guard_allowed = True, guard_code = ''ALLOW_WITHIN_POLICY'',
     guard_reason = ''Strukturierte Anfrage erf'' @ ue @ ''llt die konfigurierten Grenzen.'', guard_class = c,
     guard_audit = [(''action_id'', dget req ''action_id''), (''policy'', PStr ''V91_GLOBAL_GUARD''), (''decision'', PStr ''ALLOW''),
       (''reason_code'', PStr ''ALLOW_WITHIN_POLICY''), (''limits_checked'', PList (List.map (\<lambda>f. PStr (fst f)) (limits p))),
       (''note'', PStr (''Erlaubnis ist keine Ausf'' @ ue @ ''hrung und kein Nachweis eines sicheren Gesamtsystems.''))]\<rparr>"

definition check_request :: "guard_policy \<Rightarrow> bool \<Rightarrow> pydict \<Rightarrow> (string \<times> string) option" where
  "check_request p approved req =
     (if \<not> nonblank_str (dget req ''action_id'') then Some (''MISSING_ACTION_ID'', ''Action ID fehlt.'')
      else if \<not> short_statement (dget req ''purpose'')
      then Some (''INVALID_PURPOSE'', ''Zweck fehlt oder ist l'' @ ae @ ''nger als 500 Zeichen.'')
      else if \<not> short_statement (dget req ''expected_effect'')
      then Some (''INVALID_EXPECTED_EFFECT'', ''Erwartete Wirkung fehlt oder ist zu lang.'')
      else case dget req ''action_class'' of
        PStr c \<Rightarrow>
          if c \<notin> set known_classes then Some (''UNKNOWN_ACTION_CLASS'', ''Unbekannte Handlungsklasse: fail-closed.'')
          else if c \<in> set denied_classes
          then Some (''PROHIBITED_ACTION_CLASS'', ''Diese Handlungsklasse ist durch die Schutzrichtlinie gesperrt.'')
          else (case check_flags req flag_fields of
              Some d \<Rightarrow> Some d
            | None \<Rightarrow> (case check_limits req (limits p) of
                Some d \<Rightarrow> Some d
              | None \<Rightarrow> check_capability p approved req c))
      | _ \<Rightarrow> Some (''UNKNOWN_ACTION_CLASS'', ''Unbekannte Handlungsklasse: fail-closed.''))"

text \<open>The policy argument: none, a policy, or something that is no policy.\<close>

datatype policy_argument = NoPolicy | WithPolicy guard_policy | NotAPolicy

definition chosen_policy :: "policy_argument \<Rightarrow> guard_policy" where
  "chosen_policy a = (case a of WithPolicy p \<Rightarrow> p | _ \<Rightarrow> default_policy)"

definition authorize_action :: "runtime \<Rightarrow> pyval \<Rightarrow> policy_argument \<Rightarrow> pyval \<Rightarrow> guard_decision" where
  "authorize_action R request pol human = (case request of
     PDict req \<Rightarrow>
       if pol = NotAPolicy then early_deny ''INVALID_POLICY'' (''Richtlinienkonfiguration ist ung'' @ ue @ ''ltig.'')
       else (case human of
         PBool approved \<Rightarrow> (case check_request (chosen_policy pol) approved req of
             Some (code1, why) \<Rightarrow> deny R req code1 why
           | None \<Rightarrow> (case dget req ''action_class'' of
               PStr c \<Rightarrow> allow_decision req (chosen_policy pol) c
             | _ \<Rightarrow> deny R req ''UNKNOWN_ACTION_CLASS'' ''Unbekannte Handlungsklasse: fail-closed.''))
       | _ \<Rightarrow> early_deny ''INVALID_APPROVAL_FLAG'' ''Freigabe muss ein boolescher Wert sein.'')
   | _ \<Rightarrow> early_deny ''INVALID_REQUEST'' ''Anfrage muss eine strukturierte Zuordnung sein.'')"

section \<open>Feedback\<close>

definition allowed_labels :: "string list" where
  "allowed_labels = [''correct_allow'', ''correct_deny'', ''false_allow'', ''false_deny'', ''needs_review'']"

definition make_feedback_record :: "runtime \<Rightarrow> string \<Rightarrow> pyval \<Rightarrow> pyval \<Rightarrow> pyval \<Rightarrow> pyval \<Rightarrow> pyval \<Rightarrow> pyval \<Rightarrow> pyval \<Rightarrow> pyval \<Rightarrow> exc + pydict" where
  "make_feedback_record R now case_id request code1 actual expected label reviewer note1 =
     and_then (ensure (nonblank_str case_id) ValueError ''case_id muss eine nicht-leere Zeichenkette sein.'') (\<lambda>_.
     and_then (ensure (nonblank_str reviewer) ValueError ''reviewer muss eine nicht-leere Zeichenkette sein.'') (\<lambda>_.
     and_then (ensure (is_dict request) ValueError ''request muss ein Objekt sein.'') (\<lambda>_.
     and_then (ensure (nonblank_str code1) ValueError ''decision_code muss eine nicht-leere Zeichenkette sein.'') (\<lambda>_.
     and_then (ensure (is_str note1) ValueError ''note muss eine Zeichenkette sein.'') (\<lambda>_.
     and_then (ensure (\<not> is_list label \<and> \<not> is_dict label) TypeError ''unhashable type'') (\<lambda>_.
     and_then (ensure (case label of PStr l \<Rightarrow> l \<in> set allowed_labels | _ \<Rightarrow> False) ValueError
       (''Unbekanntes Feedbacklabel: '' @ py_str R label)) (\<lambda>_.
     and_then (ensure (is_bool actual) ValueError ''actual_allowed muss boolesch sein.'') (\<lambda>_.
     and_then (ensure (expected = PNone \<or> is_bool expected) ValueError ''expected_allowed muss boolesch oder None sein.'') (\<lambda>_.
     and_then (ensure (case note1 of PStr s \<Rightarrow> length s \<le> 2000 | _ \<Rightarrow> True) ValueError
       (''note darf h'' @ [CHR 0xF6] @ ''chstens 2000 Zeichen enthalten.'')) (\<lambda>_.
     Inr [(''schema_version'', PStr ''1.0''), (''case_id'', case_id), (''recorded_at'', PStr now), (''request'', request),
       (''decision_code'', code1), (''actual_allowed'', actual), (''expected_allowed'', expected), (''label'', label),
       (''reviewer'', reviewer), (''note'', note1), (''policy_change_applied'', PBool False)]))))))))))"

definition append_feedback :: "runtime \<Rightarrow> pydict \<Rightarrow> text_file \<Rightarrow> text_file \<times> (exc + unit)" where
  "append_feedback R rec f = attempt f (dumps_checked True (PDict rec) (json_text R False '', '' '': '' (canon (PDict rec)))) (\<lambda>_.
     (Lines (file_lines f @ [Parsed (canon (PDict rec))]), Inr ()))"

fun count_labels :: "nat \<Rightarrow> (string \<times> nat) list \<Rightarrow> nat \<Rightarrow> file_line list \<Rightarrow> exc + (nat \<times> (string \<times> nat) list)" where
  "count_labels k counts n [] = Inr (n, counts)"
| "count_labels k counts n (Blank # ls) = count_labels (Suc k) counts n ls"
| "count_labels k counts n (Garbage # ls) = raise ValueError (''Ung'' @ ue @ ''ltiger Feedbackdatensatz in Zeile '' @ show_nat k)"
| "count_labels k counts n (Parsed v # ls) = (case v of
     PDict d \<Rightarrow> (case dget d ''label'' of
         PStr l \<Rightarrow> if l \<in> set allowed_labels
           then count_labels (Suc k) (AList.map_entry l Suc counts) (Suc n) ls
           else raise ValueError (''Ung'' @ ue @ ''ltiges Label in Zeile '' @ show_nat k)
       | _ \<Rightarrow> raise ValueError (''Ung'' @ ue @ ''ltiges Label in Zeile '' @ show_nat k))
   | _ \<Rightarrow> raise ValueError (''Feedbackdatensatz in Zeile '' @ show_nat k @ '' muss ein JSON-Objekt sein''))"

record feedback_summary =
  total_records :: nat
  label_counts :: "(string \<times> nat) list"

definition summarize_feedback :: "text_file \<Rightarrow> exc + feedback_summary" where
  "summarize_feedback f = (case f of
     Absent \<Rightarrow> raise FileNotFoundError ''No such file or directory''
   | NotUtf8 \<Rightarrow> raise UnicodeDecodeError ''invalid start byte''
   | Lines ls \<Rightarrow> and_then (count_labels 1 (List.map (\<lambda>l. (l, 0)) allowed_labels) 0 ls) (\<lambda>(n, counts).
       Inr \<lparr>total_records = n, label_counts = counts\<rparr>))"

section \<open>Scenarios\<close>

datatype outcome = Passed | Failed | Invalid

record scenario_result =
  sc_name :: string
  sc_outcome :: outcome
  sc_expected :: pyval
  sc_decision :: "guard_decision option"

definition scenario_name :: "runtime \<Rightarrow> nat \<Rightarrow> pydict \<Rightarrow> string" where
  "scenario_name R k d = py_str R (por (dget d ''name'') (PStr (''scenario-'' @ show_nat (k + 1))))"

definition run_scenario :: "runtime \<Rightarrow> policy_argument \<Rightarrow> nat \<Rightarrow> pyval \<Rightarrow> scenario_result" where
  "run_scenario R pol k v = (case v of
     PDict d \<Rightarrow> (let name = scenario_name R k d; expected = dget d ''expected_allowed'' in
       case (is_dict (dget d ''request''), expected) of
         (True, PBool e) \<Rightarrow> (let dec = authorize_action R (dget d ''request'') pol (PBool False) in
           \<lparr>sc_name = name, sc_outcome = (if guard_allowed dec = e then Passed else Failed), sc_expected = expected,
             sc_decision = Some dec\<rparr>)
       | _ \<Rightarrow> \<lparr>sc_name = name, sc_outcome = Invalid, sc_expected = expected, sc_decision = None\<rparr>)
   | _ \<Rightarrow> \<lparr>sc_name = ''scenario-'' @ show_nat (k + 1), sc_outcome = Invalid, sc_expected = PNone, sc_decision = None\<rparr>)"

record scenario_report =
  report_pass :: bool
  n_total :: nat
  n_valid :: nat
  n_passed :: nat
  n_failed :: nat
  n_invalid :: nat
  report_results :: "scenario_result list"

definition run_scenarios :: "runtime \<Rightarrow> policy_argument \<Rightarrow> pyval list \<Rightarrow> scenario_report" where
  "run_scenarios R pol vs = (let pol' = (if pol = NoPolicy then WithPolicy default_policy else pol);
       rs = List.map2 (run_scenario R pol') [0..<length vs] vs;
       valid = List.filter (\<lambda>r. sc_outcome r = Passed \<or> sc_outcome r = Failed) rs;
       passed = length (List.filter (\<lambda>r. sc_outcome r = Passed) valid) in
     \<lparr>report_pass = (valid \<noteq> [] \<and> passed = length valid \<and> length valid = length rs), n_total = length rs,
       n_valid = length valid, n_passed = passed, n_failed = length (List.filter (\<lambda>r. sc_outcome r = Failed) rs),
       n_invalid = length (List.filter (\<lambda>r. sc_outcome r = Invalid) rs), report_results = rs\<rparr>)"

text \<open>A scenario file: blank lines and comment lines (which are no JSON) are skipped.\<close>

datatype scenario_line = Comment | ScenarioLine file_line

fun load_scenarios :: "nat \<Rightarrow> scenario_line list \<Rightarrow> exc + pyval list" where
  "load_scenarios k [] = Inr []"
| "load_scenarios k (Comment # ls) = load_scenarios (Suc k) ls"
| "load_scenarios k (ScenarioLine Blank # ls) = load_scenarios (Suc k) ls"
| "load_scenarios k (ScenarioLine Garbage # ls) = raise ValueError (''Ung'' @ ue @ ''ltiges JSON in Zeile '' @ show_nat k)"
| "load_scenarios k (ScenarioLine (Parsed v) # ls) = (if is_dict v
     then and_then (load_scenarios (Suc k) ls) (\<lambda>vs. Inr (v # vs))
     else raise ValueError (''Zeile '' @ show_nat k @ '' muss ein JSON-Objekt sein.''))"

text \<open>The two commands of \<open>cli.py\<close> with their exit codes; \<open>out\<close> is the exception of writing the report, if any.\<close>

datatype guard_command = Evaluate_scenarios "scenario_line list" | Feedback_summary text_file

definition write_report :: "exc option \<Rightarrow> int \<Rightarrow> exc + int" where
  "write_report out status = (case out of None \<Rightarrow> Inr status | Some e \<Rightarrow> Inl e)"

definition guard_main :: "runtime \<Rightarrow> guard_command \<Rightarrow> exc option \<Rightarrow> exc + int" where
  "guard_main R cmd out = (case cmd of
     Evaluate_scenarios ls \<Rightarrow> and_then (load_scenarios 1 ls) (\<lambda>vs.
       write_report out (if report_pass (run_scenarios R NoPolicy vs) then 0 else 1))
   | Feedback_summary f \<Rightarrow> and_then (summarize_feedback f) (\<lambda>s. write_report out 0))"

section \<open>What a permission means\<close>

definition flag_ok :: "pydict \<Rightarrow> string \<Rightarrow> bool" where
  "flag_ok req f \<longleftrightarrow> (if dhas req f then is_bool (dget req f) else True)"

lemma check_flags_None: "check_flags req fs = None \<longleftrightarrow> list_all (flag_ok req) fs"
  by (induction fs) (auto simp: flag_ok_def)

definition inside_limit :: "pydict \<Rightarrow> string \<times> int \<Rightarrow> bool" where
  "inside_limit req f \<longleftrightarrow> (case dget_or req (fst f) (PInt 0) of PInt i \<Rightarrow> 0 \<le> i \<and> i \<le> snd f | _ \<Rightarrow> False)"

lemma check_limits_None: "check_limits req fs = None \<longleftrightarrow> list_all (inside_limit req) fs"
proof (induction fs)
  case (Cons f fs)
  then show ?case by (cases f; cases "dget_or req (fst f) (PInt 0)") (auto simp: inside_limit_def)
qed simp

text \<open>
  C37: a request is allowed exactly when it names an action id, a purpose and an expected effect of at
  most 500 characters, a class that is known and not prohibited, boolean flags, resource estimates
  within the limits of the policy, and the policy grants that class and (where the class or a flag asks
  for it) network, model or production changes, and a human approved a mutating class unless the policy
  waives that. In particular no policy and no approval admits a prohibited class.
\<close>

theorem permission_is_exactly_the_policy:
  "guard_allowed (authorize_action R (PDict req) (WithPolicy p) (PBool approved)) =
   (nonblank_str (dget req ''action_id'') \<and> short_statement (dget req ''purpose'') \<and> short_statement (dget req ''expected_effect'')
    \<and> list_all (flag_ok req) flag_fields \<and> list_all (inside_limit req) (limits p)
    \<and> (\<exists>c. dget req ''action_class'' = PStr c \<and> c \<in> set known_classes - set denied_classes \<and> c \<in> set (capabilities p)
      \<and> \<not> ((c \<in> set network_classes \<or> wants req ''network_required'') \<and> \<not> allow_network p)
      \<and> \<not> ((c = ''model_change'' \<or> wants req ''model_change'') \<and> \<not> allow_model_changes p)
      \<and> \<not> ((c = ''production_change'' \<or> wants req ''production_change'') \<and> \<not> allow_production_changes p)
      \<and> \<not> (c \<in> set mutating_classes \<and> need_approval p \<and> \<not> approved)))"
proof -
  have allowed: "guard_allowed (authorize_action R (PDict req) (WithPolicy p) (PBool approved)) = (check_request p approved req = None)"
    by (auto simp: authorize_action_def chosen_policy_def deny_def allow_decision_def check_request_def split: option.splits pyval.splits)
  have cap: "(check_capability p approved req c = None) = (c \<in> set (capabilities p)
      \<and> \<not> ((c \<in> set network_classes \<or> wants req ''network_required'') \<and> \<not> allow_network p)
      \<and> \<not> ((c = ''model_change'' \<or> wants req ''model_change'') \<and> \<not> allow_model_changes p)
      \<and> \<not> ((c = ''production_change'' \<or> wants req ''production_change'') \<and> \<not> allow_production_changes p)
      \<and> \<not> (c \<in> set mutating_classes \<and> need_approval p \<and> \<not> approved))" for c
    by (auto simp: check_capability_def)
  show ?thesis
  proof (cases "nonblank_str (dget req ''action_id'') \<and> short_statement (dget req ''purpose'') \<and> short_statement (dget req ''expected_effect'')")
    case True
    show ?thesis
    proof (cases "dget req ''action_class''")
      case (PStr c)
      show ?thesis
      proof (cases "c \<in> set known_classes - set denied_classes")
        case ok: True
        have "(check_request p approved req = None)
            = (list_all (flag_ok req) flag_fields \<and> list_all (inside_limit req) (limits p) \<and> check_capability p approved req c = None)"
          using True PStr ok check_flags_None [of req flag_fields] check_limits_None [of req "limits p"]
          by (cases "check_flags req flag_fields"; cases "check_limits req (limits p)") (simp_all add: check_request_def)
        with True PStr ok cap [of c] allowed show ?thesis by simp
      qed (use True PStr allowed in \<open>auto simp: check_request_def\<close>)
    qed (use True allowed in \<open>simp_all add: check_request_def\<close>)
  next
    case False
    then have "check_request p approved req \<noteq> None" by (auto simp: check_request_def)
    with False allowed show ?thesis by blast
  qed
qed

text \<open>What the default policy lets through: reading and local analysis without network and without external calls.\<close>

lemma default_policy_is_read_only:
  assumes "guard_allowed (authorize_action R (PDict req) NoPolicy (PBool approved))"
  shows "dget req ''action_class'' \<in> {PStr ''read_only'', PStr ''local_analysis''} \<and> \<not> wants req ''network_required''"
proof -
  have "authorize_action R (PDict req) NoPolicy (PBool approved) = authorize_action R (PDict req) (WithPolicy default_policy) (PBool approved)"
    by (simp add: authorize_action_def chosen_policy_def split: option.split pyval.split)
  with assms have "check_request default_policy approved req = None"
    by (auto simp: authorize_action_def chosen_policy_def deny_def split: option.splits)
  then show ?thesis
    by (auto simp: check_request_def check_capability_def default_policy_def split: if_splits option.splits pyval.splits)
qed

section \<open>Feedback is counted once\<close>

lemma count_labels_total:
  "count_labels k counts n ls = Inr (m, counts') \<Longrightarrow> set allowed_labels \<subseteq> fst ` set counts \<Longrightarrow> distinct (List.map fst counts)
    \<Longrightarrow> m + sum_list (List.map snd counts) = n + sum_list (List.map snd counts') \<and> List.map fst counts' = List.map fst counts"
proof (induction k counts n ls rule: count_labels.induct)
  case (4 k counts n v ls)
  then obtain d l where d: "v = PDict d" "dget d ''label'' = PStr l" "l \<in> set allowed_labels"
    by (auto split: pyval.splits if_splits)
  have keys: "List.map fst (AList.map_entry l Suc counts) = List.map fst counts"
    by (induction counts) auto
  have "l \<in> fst ` set counts" using d 4(3) by blast
  then have inc: "sum_list (List.map snd (AList.map_entry l Suc counts)) = Suc (sum_list (List.map snd counts))"
    by (induction counts) (auto simp: image_iff)
  have keys': "fst ` set (AList.map_entry l Suc counts) = fst ` set counts"
    using keys by (metis list.set_map)
  have "m + sum_list (List.map snd (AList.map_entry l Suc counts)) = Suc n + sum_list (List.map snd counts')
      \<and> List.map fst counts' = List.map fst (AList.map_entry l Suc counts)"
    using 4(1) [OF d] 4(2-4) d keys keys' by simp
  then show ?case using inc keys by simp
qed (auto simp: and_then_Inr)

lemma feedback_counts_add_up:
  "summarize_feedback f = Inr sm \<Longrightarrow> total_records sm = sum_list (List.map snd (label_counts sm)) \<and> List.map fst (label_counts sm) = allowed_labels"
proof -
  assume a: "summarize_feedback f = Inr sm"
  then obtain ls n counts where c: "count_labels 1 (List.map (\<lambda>l. (l, 0)) allowed_labels) 0 ls = Inr (n, counts)"
      "sm = \<lparr>total_records = n, label_counts = counts\<rparr>"
    by (auto simp: summarize_feedback_def and_then_Inr split: text_file.splits)
  have "set allowed_labels \<subseteq> fst ` set (List.map (\<lambda>l. (l, 0 :: nat)) allowed_labels)" by (simp add: image_image)
  moreover have "distinct (List.map fst (List.map (\<lambda>l. (l, 0 :: nat)) allowed_labels))" by (simp add: comp_def allowed_labels_def)
  moreover have "sum_list (List.map snd (List.map (\<lambda>l. (l, 0 :: nat)) allowed_labels)) = 0" by (simp add: comp_def)
  moreover have "List.map fst (List.map (\<lambda>l. (l, 0 :: nat)) allowed_labels) = allowed_labels" by (simp add: comp_def)
  ultimately show ?thesis using count_labels_total [OF c(1)] c(2) by (simp only: add_0 add_0_right, simp)
qed

end
