(* ===== verification/SourceQuality.thy ===== *)
theory SourceQuality
  imports PyText "HOL-Library.Multiset"
begin

text \<open>
  \<open>v99/filter/source_quality.py\<close>: the local trust registry, the verdict on one data point and the
  partition of a stream.
\<close>

section \<open>References\<close>

definition reference_kinds :: "string list" where
  "reference_kinds = [''url'', ''doi'', ''sha256'', ''path'', ''citation'', ''ledger_id'']"

text \<open>\<open>^[0-9a-f]{64}$\<close> under \<open>match\<close>: the dollar also accepts a final newline, which strip removed.\<close>

definition is_valid_reference :: "pyval \<Rightarrow> bool" where
  "is_valid_reference v = (case v of
     PDict d \<Rightarrow> (case dget d ''kind'' of
         PStr k \<Rightarrow> if lower (strip k) \<in> set reference_kinds then nonblank_str (dget d ''value'') else False
       | _ \<Rightarrow> False)
   | PStr s0 \<Rightarrow> let s = strip s0 in
       if s = [] then False
       else if list_ex (\<lambda>p. starts_with p s) [''http://'', ''https://'', ''doi:'', ''DOI:'', ''/''] then True
       else if is_sha256_hex s then True else contains ''::'' s
   | _ \<Rightarrow> False)"

section \<open>The registry\<close>

definition trust_levels :: "string list" where
  "trust_levels = [''TRUSTED'', ''UNVERIFIED'', ''BLOCKED_LOCAL'']"

record trust_entry =
  trust :: string
  trust_note :: pyval

type_synonym trust_registry = "(string \<times> trust_entry) list"

definition source_key :: "string \<Rightarrow> string" where
  "source_key s = lower (strip s)"

text \<open>\<open>entry.get("trust") not in VALID_TRUST_LEVELS\<close>: a list or dictionary is unhashable.\<close>

definition trust_message :: "string \<Rightarrow> string" where
  "trust_message name = ''Quelle '' @ [CHR 0x27] @ name @ [CHR 0x27] @ '' benoetigt trust in '' @ quoted_list (sort trust_levels)"

definition entry_trust :: "string \<Rightarrow> pyval \<Rightarrow> exc + trust_entry" where
  "entry_trust name v = (case v of
     PDict d \<Rightarrow> (case dget d ''trust'' of
         PStr t \<Rightarrow> if t \<in> set trust_levels then Inr \<lparr>trust = t, trust_note = dget_or d ''note'' (PStr [])\<rparr>
           else raise ValueError (trust_message name)
       | PList _ \<Rightarrow> raise TypeError ''unhashable type''
       | PDict _ \<Rightarrow> raise TypeError ''unhashable type''
       | _ \<Rightarrow> raise ValueError (trust_message name))
   | _ \<Rightarrow> raise ValueError (trust_message name))"

fun load_sources :: "pydict \<Rightarrow> trust_registry \<Rightarrow> exc + trust_registry" where
  "load_sources [] reg = Inr reg"
| "load_sources ((name, v) # es) reg =
     (if blank name then raise ValueError ''Quellenname muss nicht-leer sein''
      else and_then (entry_trust name v) (\<lambda>e. load_sources es (AList.update (source_key name) e reg)))"

definition make_registry :: "pyval \<Rightarrow> exc + trust_registry" where
  "make_registry config = (case config of
     PDict c \<Rightarrow> (case dget c ''sources'' of
         PDict s \<Rightarrow> load_sources s []
       | _ \<Rightarrow> raise ValueError (''Quellen-Vertrauenskonfiguration benoetigt ein '' @ [CHR 0x27] @ ''sources'' @ [CHR 0x27] @ ''-Objekt''))
   | _ \<Rightarrow> raise ValueError (''Quellen-Vertrauenskonfiguration benoetigt ein '' @ [CHR 0x27] @ ''sources'' @ [CHR 0x27] @ ''-Objekt''))"

definition registry_from_file :: "text_file \<Rightarrow> exc + pyval \<Rightarrow> exc + trust_registry" where
  "registry_from_file f parsed = (case f of
     Absent \<Rightarrow> raise FileNotFoundError ''No such file or directory''
   | NotUtf8 \<Rightarrow> raise UnicodeDecodeError ''invalid start byte''
   | Lines ls \<Rightarrow> and_then parsed make_registry)"

definition trust_of :: "trust_registry \<Rightarrow> pyval \<Rightarrow> string" where
  "trust_of reg source = (case source of
     PStr s \<Rightarrow> if blank s then ''UNVERIFIED'' else (case map_of reg (source_key s) of
         None \<Rightarrow> ''UNVERIFIED'' | Some e \<Rightarrow> trust e)
   | _ \<Rightarrow> ''UNVERIFIED'')"

definition note_of :: "trust_registry \<Rightarrow> pyval \<Rightarrow> pyval" where
  "note_of reg source = (case source of
     PStr s \<Rightarrow> (case map_of reg (source_key s) of None \<Rightarrow> PStr [] | Some e \<Rightarrow> trust_note e)
   | _ \<Rightarrow> PStr [])"

section \<open>The verdict\<close>

record source_verdict =
  v_source :: pyval
  v_trust :: string
  v_verdict :: string
  v_reason :: string
  v_supplied :: bool
  v_valid :: bool

definition independence :: string where "independence = ''UNKNOWN_NOT_VERIFIABLE_LOCALLY''"

definition evidence_valid :: "pyval \<Rightarrow> bool" where
  "evidence_valid ev = (let entries = (case ev of PList xs \<Rightarrow> xs | _ \<Rightarrow> [ev]) in
     entries \<noteq> [] \<and> list_all is_valid_reference entries)"

definition judge :: "string \<Rightarrow> bool \<Rightarrow> bool \<Rightarrow> bool \<Rightarrow> string \<times> string" where
  "judge t check supplied valid =
     (if t = ''BLOCKED_LOCAL'' then (''QUARANTINE_LOCAL'', 
        ''Quelle ist bewusst lokal gesperrt (eigene Konsumentscheidung, kein Zugriff auf die Quelle selbst).'')
      else if t = ''TRUSTED'' \<and> check \<and> valid then (''ACCEPT_LOCAL'', 
        ''Vertrauenswuerdige Quelle mit strukturell gueltiger Evidenz-Referenz; lokale Aufnahme, kein Wahrheits- oder Unabhaengigkeitsbeweis.'')
      else if t = ''TRUSTED'' \<and> check \<and> supplied \<and> \<not> valid then (''REVIEW_REQUIRED'', 
        ''EVIDENCE_SUPPLIED != EVIDENCE_VALID: gelieferte Evidenz ist keine strukturell gueltige Referenz (URL/DOI/SHA-256/Pfad/citation/ledger_id).'')
      else if t = ''TRUSTED'' \<and> \<not> check \<and> supplied then (''ACCEPT_LOCAL'', 
        ''Vertrauenswuerdige Quelle mit gelieferter Evidenz (Legacy-Vertrag, unvalidiert); lokale Aufnahme, kein Wahrheitsbeweis.'')
      else if t = ''TRUSTED'' then (''REVIEW_REQUIRED'', 
        ''CLAIM != EVIDENCE: vertrauenswuerdige Quelle, aber keine Evidenz beigefuegt.'')
      else if t = ''UNVERIFIED'' then (''REVIEW_REQUIRED'', 
        ''Quelle nicht bewusst eingestuft; bleibt zur Pruefung, wird nie still akzeptiert.'')
      else (''REVIEW_REQUIRED'', 
        ''UNKNOWN bleibt UNKNOWN.''))"

definition classify :: "trust_registry \<Rightarrow> pyval \<Rightarrow> pyval \<Rightarrow> bool \<Rightarrow> source_verdict" where
  "classify reg source ev check = (let t = trust_of reg source; supplied = (ev \<noteq> PNone \<and> truthy ev);
       valid = (if check \<and> supplied then evidence_valid ev else False); (v, why) = judge t check supplied valid in
     \<lparr>v_source = source, v_trust = t, v_verdict = v, v_reason = why, v_supplied = supplied, v_valid = valid\<rparr>)"

definition verdict_dict :: "source_verdict \<Rightarrow> pydict" where
  "verdict_dict v = [(''source'', v_source v), (''trust'', PStr (v_trust v)), (''verdict'', PStr (v_verdict v)),
     (''reason'', PStr (v_reason v)), (''has_evidence'', PBool (v_supplied v)), (''evidence_supplied'', PBool (v_supplied v)),
     (''evidence_reference_valid'', PBool (v_valid v)), (''evidence_independent'', PStr independence)]"

section \<open>Streams\<close>

text \<open>An entry of a bucket is the item and its verdict, \<open>None\<close> for a malformed item.\<close>

type_synonym bucket = "(pyval \<times> source_verdict option) list"

fun filter_stream :: "trust_registry \<Rightarrow> bool \<Rightarrow> pyval list \<Rightarrow> bucket \<times> bucket \<times> bucket" where
  "filter_stream reg check [] = ([], [], [])"
| "filter_stream reg check (x # xs) = (let (acc, quar, rev) = filter_stream reg check xs in
     (case x of
        PDict d \<Rightarrow> if is_str (dget d ''source'') then
          (let v = classify reg (dget d ''source'') (dget d ''evidence'') check in
            if v_verdict v = ''ACCEPT_LOCAL'' then ((x, Some v) # acc, quar, rev)
            else if v_verdict v = ''QUARANTINE_LOCAL'' then (acc, (x, Some v) # quar, rev)
            else (acc, quar, (x, Some v) # rev))
          else (acc, quar, (x, None) # rev)
      | _ \<Rightarrow> (acc, quar, (x, None) # rev)))"

section \<open>Acceptance needs trust and evidence\<close>

lemma judge_accept: "fst (judge t check supplied valid) = ''ACCEPT_LOCAL'' \<longleftrightarrow> t = ''TRUSTED'' \<and> (if check then valid else supplied)"
  by (auto simp: judge_def)

lemma classify_accept: "v_verdict (classify reg src ev check) = ''ACCEPT_LOCAL'' \<longleftrightarrow>
   trust_of reg src = ''TRUSTED'' \<and> ev \<noteq> PNone \<and> truthy ev \<and> (if check then evidence_valid ev else True)"
  by (auto simp: classify_def Let_def judge_def)

definition accepted_item :: "trust_registry \<Rightarrow> bool \<Rightarrow> pyval \<Rightarrow> bool" where
  "accepted_item reg check x \<longleftrightarrow> (case x of
     PDict d \<Rightarrow> (case dget d ''source'' of
         PStr s \<Rightarrow> trust_of reg (PStr s) = ''TRUSTED'' \<and> truthy (dget d ''evidence'')
           \<and> (if check then evidence_valid (dget d ''evidence'') else True)
       | _ \<Rightarrow> False)
   | _ \<Rightarrow> False)"

definition blocked_item :: "trust_registry \<Rightarrow> pyval \<Rightarrow> bool" where
  "blocked_item reg x \<longleftrightarrow> (case x of
     PDict d \<Rightarrow> (case dget d ''source'' of PStr s \<Rightarrow> trust_of reg (PStr s) = ''BLOCKED_LOCAL'' | _ \<Rightarrow> False)
   | _ \<Rightarrow> False)"

lemma truthy_not_None: "truthy v \<Longrightarrow> v \<noteq> PNone"
  by auto

lemma judge_quarantine: "fst (judge t check supplied valid) = ''QUARANTINE_LOCAL'' \<longleftrightarrow> t = ''BLOCKED_LOCAL''"
  by (auto simp: judge_def)

lemma classify_quarantine: "v_verdict (classify reg src ev check) = ''QUARANTINE_LOCAL'' \<longleftrightarrow> trust_of reg src = ''BLOCKED_LOCAL''"
  by (auto simp: classify_def Let_def judge_def)

text \<open>
  a stream is partitioned: the items of the three buckets, in the order of the stream, are exactly
  the items that are accepted (a trusted source with evidence, which under validation must consist of
  well-formed references only), the items of blocked sources, and all others, malformed ones included.
\<close>

theorem stream_is_partitioned:
  "List.map fst (fst (filter_stream reg check xs)) = List.filter (accepted_item reg check) xs
    \<and> List.map fst (fst (snd (filter_stream reg check xs))) = List.filter (blocked_item reg) xs
    \<and> List.map fst (snd (snd (filter_stream reg check xs)))
      = List.filter (\<lambda>x. \<not> accepted_item reg check x \<and> \<not> blocked_item reg x) xs"
proof (induction xs)
  case (Cons x xs)
  obtain a q r where f: "filter_stream reg check xs = (a, q, r)" by (cases "filter_stream reg check xs") auto
  show ?case
  proof (cases "\<exists>d s. x = PDict d \<and> dget d ''source'' = PStr s")
    case True
    then obtain d s where x: "x = PDict d" "dget d ''source'' = PStr s" by blast
    have acc: "v_verdict (classify reg (PStr s) (dget d ''evidence'') check) = ''ACCEPT_LOCAL'' \<longleftrightarrow> accepted_item reg check x"
      using x by (auto simp: classify_accept accepted_item_def)
    have quar: "v_verdict (classify reg (PStr s) (dget d ''evidence'') check) = ''QUARANTINE_LOCAL'' \<longleftrightarrow> blocked_item reg x"
      using x by (simp add: classify_quarantine blocked_item_def)
    have "\<not> (accepted_item reg check x \<and> blocked_item reg x)"
      using x by (auto simp: accepted_item_def blocked_item_def)
    then show ?thesis using Cons f x acc quar by (auto simp: Let_def)
  next
    case False
    then have "\<not> accepted_item reg check x" "\<not> blocked_item reg x"
      by (auto simp: accepted_item_def blocked_item_def split: pyval.splits)
    then show ?thesis using Cons f False by (cases x) (auto simp: Let_def split: pyval.splits elim: is_str.elims)
  qed
qed simp

text \<open>Loading a configuration gives only known levels, and the last entry of a normalised name decides.\<close>

lemma load_sources_levels:
  "load_sources es reg = Inr reg' \<Longrightarrow> list_all (\<lambda>p. trust (snd p) \<in> set trust_levels) reg
    \<Longrightarrow> list_all (\<lambda>p. trust (snd p) \<in> set trust_levels) reg'"
proof (induction es reg rule: load_sources.induct)
  case (2 name v es reg)
  then obtain e where e: "entry_trust name v = Inr e" "\<not> blank name"
    "load_sources es (AList.update (source_key name) e reg) = Inr reg'" by (auto simp: and_then_Inr split: if_splits)
  have t: "trust e \<in> set trust_levels" using e(1) by (auto simp: entry_trust_def split: pyval.splits if_splits)
  have "list_all (\<lambda>p. trust (snd p) \<in> set trust_levels) (AList.update k e reg)" for k
    using 2(3) t by (induction reg) auto
  then show ?case using 2(1) e by blast
qed simp

end
