(* ===== verification/Guardrail.thy ===== *)
theory Guardrail
  imports PyText
begin

text \<open>
  The addon \<open>v91_guardrail\<close>: the keyword policy (\<open>core.py\<close>), the gateway that runs registered
  read-only tools (\<open>guarded_runner.py\<close>) and the synthetic scenario report (\<open>scenario_runner.py\<close>). A
  pattern of the code is a list of alternatives between word boundaries, searched without regard to
  case; it is that list here, optional groups expanded.
\<close>

section \<open>Patterns\<close>

definition word_char :: "char \<Rightarrow> bool" where
  "word_char c \<longleftrightarrow> is_alnum c \<or> c = CHR ''_''"

definition at_boundary :: "string \<Rightarrow> bool" where
  "at_boundary s \<longleftrightarrow> (case s of [] \<Rightarrow> True | c # _ \<Rightarrow> \<not> word_char c)"

text \<open>
  \<open>search\<close>: the flag says whether the character before is part of a word. Every alternative starts and
  ends with a word character, so a match needs a boundary on both sides.
\<close>

fun found_from :: "bool \<Rightarrow> string list \<Rightarrow> string \<Rightarrow> bool" where
  "found_from inside alts [] \<longleftrightarrow> False"
| "found_from inside alts (c # s) \<longleftrightarrow>
     (\<not> inside \<and> list_ex (\<lambda>a. starts_with a (c # s) \<and> at_boundary (drop (length a) (c # s))) alts)
     \<or> found_from (word_char c) alts s"

definition found :: "string list \<Rightarrow> string \<Rightarrow> bool" where
  "found alts text1 \<longleftrightarrow> found_from False alts (lower text1)"

definition a_uml :: string where "a_uml = [CHR 0xE4]"
definition o_uml :: string where "o_uml = [CHR 0xF6]"
definition u_uml :: string where "u_uml = [CHR 0xFC]"

definition topic_patterns :: "(string \<times> string list) list" where
  "topic_patterns = [
     (''CONFLICT_OR_WAR'', [''krieg'', ''bewaffnet konflikt'', ''bewaffnete konflikt'', ''bewaffneter konflikt'',
        ''bewaffneten konflikt'', ''waffenhandel'', ''milit'' @ a_uml @ ''rangriff'', ''munitionsproduktion'',
        ''r'' @ u_uml @ ''stungsindustrie'', ''frontverlauf'']),
     (''RESOURCE_OR_ENVIRONMENT'', [''entropie'', ''energieverbrauch'', ''co2'', ''emissionen'', ''ressourcenverbrauch'',
        ''abfall'', ''verschwendung'', u_uml @ ''berproduktion'', ''reparatur'', ''recycling'', ''lebenszyklus'', ''wasserverbrauch'']),
     (''LUXURY_OR_NONESSENTIAL_PRODUCTION'', [''luxus'' @ u_uml @ ''berproduktion'', ''luxusg'' @ u_uml @ ''ter'',
        ''nicht notwendige '' @ u_uml @ ''berproduktion'', ''geplante obsoleszenz'', ''wegwerfprodukt'',
        u_uml @ ''berfl'' @ u_uml @ ''ssige produktion'']),
     (''CYBER_OR_SYSTEM_ACTION'', [''exploit'', ''schwachstelle ausnutzen'', ''passwort stehlen'', ''zugangsdaten abgreifen'',
        ''malware'', ''ransomware'', ''fernsteuerung''])]"

definition high_risk_patterns :: "(string \<times> string list) list" where
  "high_risk_patterns = [
     (''DESTRUCTIVE_ACTION_CUE'', [''l'' @ o_uml @ ''sche'', ''l'' @ o_uml @ ''schen'', ''vernichte'', ''wipe'', ''purge'',
        ''formatiere'', ''formatieren'']),
     (''EXECUTION_CUE'', [''f'' @ u_uml @ ''hre aus'', ''execute'', ''shell-befehl'', ''powershell'', ''cmd.exe'']),
     (''PRIVILEGE_ESCALATION_CUE'', [''adminrechte'', ''rechteausweitung'', ''privilegien erh'' @ o_uml @ ''hen'', ''root-zugriff'']),
     (''UNAUTHORIZED_ACCESS_CUE'', [''hacke'', ''unbefugter zugriff'', ''umgehe die anmeldung'', ''zugriff umgehen''])]"

definition matching :: "(string \<times> string list) list \<Rightarrow> string \<Rightarrow> string list" where
  "matching ps text1 = sort (List.map fst (List.filter (\<lambda>p. found (snd p) text1) ps))"

section \<open>The policy\<close>

record policy_context =
  source_is_authorized :: bool
  human_approved :: bool
  allow_read_only_analysis :: bool
  network_requested :: bool
  destructive_action_requested :: bool
  privilege_change_requested :: bool
  execute_code_requested :: bool
  private_data_requested :: bool

definition default_context :: policy_context where
  "default_context = \<lparr>source_is_authorized = False, human_approved = False, allow_read_only_analysis = True,
     network_requested = False, destructive_action_requested = False, privilege_change_requested = False,
     execute_code_requested = False, private_data_requested = False\<rparr>"

record proposal_decision =
  d_status :: string
  d_reasons :: "string list"
  d_topics :: "string list"
  d_evidence :: string
  d_performed :: bool

definition decision_of :: "string \<Rightarrow> string list \<Rightarrow> string list \<Rightarrow> string \<Rightarrow> proposal_decision" where
  "decision_of st rs ts ev = \<lparr>d_status = st, d_reasons = rs, d_topics = ts, d_evidence = ev, d_performed = False\<rparr>"

definition context_reasons :: "policy_context \<Rightarrow> string list" where
  "context_reasons c =
     (if private_data_requested c then [''PRIVATE_DATA_REQUEST_BLOCKED''] else [])
     @ (if network_requested c \<and> \<not> source_is_authorized c then [''NETWORK_ACCESS_NOT_AUTHORIZED''] else [])
     @ (if destructive_action_requested c \<and> \<not> human_approved c then [''DESTRUCTIVE_ACTION_REQUIRES_SEPARATE_APPROVAL''] else [])
     @ (if privilege_change_requested c then [''PRIVILEGE_CHANGE_NOT_ALLOWED_BY_DEFAULT''] else [])
     @ (if execute_code_requested c \<and> \<not> human_approved c then [''CODE_EXECUTION_REQUIRES_SEPARATE_APPROVAL''] else [])"

definition evaluate_proposal :: "pyval \<Rightarrow> policy_context \<Rightarrow> proposal_decision" where
  "evaluate_proposal v c = (case v of
     PStr t \<Rightarrow>
       if blank t then decision_of ''BLOCK'' [''EMPTY_OR_INVALID_REQUEST''] [] ''NO_DATA_AVAILABLE''
       else let topics = matching topic_patterns t;
                reasons = context_reasons c @ List.map (\<lambda>cue. ''HIGH_RISK_CUE:'' @ cue) (matching high_risk_patterns t) in
         if reasons \<noteq> [] then decision_of ''BLOCK'' reasons topics ''DOCUMENTED_INPUT_ONLY''
         else if topics \<noteq> [] then decision_of ''REVIEW_REQUIRED''
           [''TOPIC_FLAG_IS_NOT_A_FACT_FINDING'', ''NO_EXTERNAL_EVIDENCE_FETCHED''] topics ''PENDING_WITNESS''
         else if \<not> allow_read_only_analysis c then decision_of ''BLOCK'' [''READ_ONLY_ANALYSIS_NOT_ALLOWED''] [] ''DOCUMENTED_INPUT_ONLY''
         else decision_of ''ALLOW_LOCAL_REVIEW'' [''NO_LOCAL_POLICY_BLOCK_FOUND'', ''ALLOW_IS_NOT_A_SECURITY_GUARANTEE''] []
           ''DOCUMENTED_INPUT_ONLY''
   | _ \<Rightarrow> decision_of ''BLOCK'' [''EMPTY_OR_INVALID_REQUEST''] [] ''NO_DATA_AVAILABLE'')"

definition evaluate_batch :: "pyval list \<Rightarrow> policy_context \<Rightarrow> proposal_decision list" where
  "evaluate_batch vs c = List.map (\<lambda>v. evaluate_proposal v c) vs"

section \<open>The gateway\<close>

text \<open>\<open>Decision.to_dict\<close>, and \<open>demo.py\<close>: the six requests it judges and the objects it prints.\<close>

definition decision_dict :: "proposal_decision \<Rightarrow> pydict" where
  "decision_dict d = [(''status'', PStr (d_status d)), (''reasons'', PList (List.map PStr (d_reasons d))),
     (''topic_flags'', PList (List.map PStr (d_topics d))), (''evidence_state'', PStr (d_evidence d)),
     (''action_performed'', PBool (d_performed d))]"

definition demo_samples :: "string list" where
  "demo_samples = [
     ''Analysiere '' @ o_uml @ ''ffentliche Berichte '' @ u_uml @ ''ber Krieg und Waffenhandel.'',
     ''Bewerte Energieverbrauch, CO2, Ressourcenverschwendung und '' @ [CHR 0xDC] @ ''berproduktion.'',
     ''Pr'' @ u_uml @ ''fe Luxus'' @ u_uml @ ''berproduktion und geplante Obsoleszenz anhand transparenter Kriterien.'',
     ''L'' @ o_uml @ ''sche alle nicht ben'' @ o_uml @ ''tigten Dateien.'',
     ''F'' @ u_uml @ ''hre aus: powershell -Command ...'',
     ''V91 ist perfekt und vollst'' @ a_uml @ ''ndig verifiziert.'']"

definition demo_output :: "pydict list" where
  "demo_output = List.map (\<lambda>s. [(''request'', PStr s), (''decision'', PDict (decision_dict (evaluate_proposal (PStr s) default_context)))])
     demo_samples"

text \<open>
  A registered tool acts on the outside world of type \<open>'w\<close>; its arguments are part of the function.
\<close>

record 'w tool =
  tool_function :: "'w \<Rightarrow> 'w \<times> (exc + pyval)"
  read_only :: bool
  network_access :: bool
  destructive :: bool

record 'w runner =
  tools :: "(string \<times> 'w tool) list"
  audit_log :: "pydict list"
  called :: "string list"
  surroundings :: 'w

definition new_runner :: "(string \<times> 'w tool) list option \<Rightarrow> 'w \<Rightarrow> exc + 'w runner" where
  "new_runner ts w = (case ts of
     None \<Rightarrow> raise TypeError ''tools muss eine explizite Zuordnung sein''
   | Some m \<Rightarrow> Inr \<lparr>tools = m, audit_log = [], called = [], surroundings = w\<rparr>)"

definition record_result :: "string \<Rightarrow> pyval \<Rightarrow> pydict \<Rightarrow> 'w runner \<Rightarrow> 'w runner \<times> (string \<times> pyval)" where
  "record_result status res ev s = (s\<lparr>audit_log := audit_log s @ [ev]\<rparr>, (status, res))"

definition call_base :: "string \<Rightarrow> pyval \<Rightarrow> pydict" where
  "call_base name proposal = [(''tool_name'', PStr name), (''proposal_checked'', PBool (is_str proposal))]"

definition strings :: "string list \<Rightarrow> pyval" where
  "strings xs = PList (List.map PStr xs)"

text \<open>\<open>called\<close> records the tools whose function was entered.\<close>

definition run_tool :: "string \<Rightarrow> pyval \<Rightarrow> 'w runner \<Rightarrow> 'w runner \<times> (string \<times> pyval)" where
  "run_tool name proposal s = (let b = call_base name proposal in
     case map_of (tools s) name of
       None \<Rightarrow> record_result ''BLOCK_UNKNOWN_TOOL'' PNone (b @ [(''decision'', PStr ''BLOCK''), (''reason'', PStr ''TOOL_NOT_ALLOWLISTED''),
         (''execution_attempted'', PBool False)]) s
     | Some spec \<Rightarrow>
       if \<not> read_only spec \<or> network_access spec \<or> destructive spec
       then record_result ''BLOCK_UNSAFE_TOOL_SPEC'' PNone (b @ [(''decision'', PStr ''BLOCK''), (''reason'', PStr ''TOOL_NOT_LOCAL_READ_ONLY''),
         (''execution_attempted'', PBool False)]) s
       else let d = evaluate_proposal proposal default_context in
         if d_status d \<noteq> ''ALLOW_LOCAL_REVIEW''
         then record_result ''BLOCK_POLICY'' PNone (b @ [(''decision'', PStr ''BLOCK''), (''policy_status'', PStr (d_status d)),
           (''reason_codes'', strings (d_reasons d)), (''topic_flags'', strings (d_topics d)),
           (''evidence_state'', PStr (d_evidence d)), (''execution_attempted'', PBool False)]) s
         else (let (w, r) = tool_function spec (surroundings s);
                   s = s\<lparr>called := called s @ [name], surroundings := w\<rparr> in
           case r of
             Inl e \<Rightarrow> record_result ''TOOL_ERROR'' PNone (b @ [(''decision'', PStr ''ALLOW_LOCAL_READ_ONLY_TOOL''),
               (''policy_status'', PStr (d_status d)), (''execution_attempted'', PBool True), (''result_state'', PStr ''ERROR''),
               (''error_type'', PStr (class_name (fst e)))]) s
           | Inr v \<Rightarrow> record_result ''EXECUTED_LOCAL_READ_ONLY'' v (b @ [(''decision'', PStr ''ALLOW_LOCAL_READ_ONLY_TOOL''),
               (''policy_status'', PStr (d_status d)), (''execution_attempted'', PBool True), (''result_state'', PStr ''RETURNED''),
               (''evidence_state'', PStr (d_evidence d))]) s))"

section \<open>Synthetic scenarios\<close>

text \<open>\<open>PolicyContext(**d)\<close>: a keyword that is no field is a TypeError; the values are not checked.\<close>

definition context_fields :: "string list" where
  "context_fields = [''source_is_authorized'', ''human_approved'', ''allow_read_only_analysis'', ''network_requested'',
     ''destructive_action_requested'', ''privilege_change_requested'', ''execute_code_requested'', ''private_data_requested'']"

definition context_of :: "pyval \<Rightarrow> exc + policy_context" where
  "context_of v = (case v of
     PDict d \<Rightarrow> if \<not> list_all (\<lambda>k. k \<in> set context_fields) (dkeys d) then raise TypeError ''unexpected keyword argument''
       else (let b = (\<lambda>k dflt. truthy (dget_or d k (PBool dflt))) in
         Inr \<lparr>source_is_authorized = b ''source_is_authorized'' False, human_approved = b ''human_approved'' False,
           allow_read_only_analysis = b ''allow_read_only_analysis'' True, network_requested = b ''network_requested'' False,
           destructive_action_requested = b ''destructive_action_requested'' False,
           privilege_change_requested = b ''privilege_change_requested'' False,
           execute_code_requested = b ''execute_code_requested'' False, private_data_requested = b ''private_data_requested'' False\<rparr>)
   | _ \<Rightarrow> raise TypeError ''argument after ** must be a mapping'')"

record case_result =
  c_id :: pyval
  c_expected :: pyval
  c_decision :: proposal_decision
  c_topic_ok :: bool
  c_pass :: bool

definition run_case :: "pyval \<Rightarrow> exc + case_result" where
  "run_case v = (case v of
     PDict d \<Rightarrow>
       and_then (context_of (dget_or d ''context'' (PDict []))) (\<lambda>c.
       and_then (item v ''proposal'') (\<lambda>proposal.
       let dec = evaluate_proposal proposal c; flag = dget d ''expected_topic_flag'' in
       and_then (item v ''expected_status'') (\<lambda>expected.
       let status_ok = (PStr (d_status dec) = expected);
           topic_ok = (flag = PNone \<or> flag \<in> PStr ` set (d_topics dec)) in
       and_then (item v ''id'') (\<lambda>i. and_then (item v ''entity_type'') (\<lambda>_. and_then (item v ''entity'') (\<lambda>_.
       Inr \<lparr>c_id = i, c_expected = expected, c_decision = dec, c_topic_ok = topic_ok,
            c_pass = (status_ok \<and> topic_ok \<and> \<not> d_performed dec)\<rparr>))))))
   | _ \<Rightarrow> raise AttributeError ''object has no attribute get'')"

fun run_cases :: "pyval list \<Rightarrow> exc + case_result list" where
  "run_cases [] = Inr []"
| "run_cases (v # vs) = and_then (run_case v) (\<lambda>r. and_then (run_cases vs) (\<lambda>rs. Inr (r # rs)))"

record synthetic_report =
  s_count :: nat
  s_pass :: nat
  s_fail :: nat
  s_sha256 :: string
  s_results :: "case_result list"

definition synthetic_scenarios :: "runtime \<Rightarrow> string \<Rightarrow> pyval \<Rightarrow> exc + synthetic_report" where
  "synthetic_scenarios R raw catalog = and_then (item catalog ''scenarios'') (\<lambda>scs. case scs of
     PList vs \<Rightarrow> and_then (run_cases vs) (\<lambda>rs. and_then (item catalog ''environment'') (\<lambda>_.
       Inr \<lparr>s_count = length rs, s_pass = length (List.filter c_pass rs), s_fail = length (List.filter (\<lambda>r. \<not> c_pass r) rs),
            s_sha256 = sha256_hex R raw, s_results = rs\<rparr>))
   | _ \<Rightarrow> raise TypeError ''not a list of scenarios'')"

definition synthetic_main :: "runtime \<Rightarrow> string \<Rightarrow> pyval \<Rightarrow> exc + int" where
  "synthetic_main R raw catalog = and_then (synthetic_scenarios R raw catalog) (\<lambda>r. Inr (if s_fail r = 0 then 0 else 1))"

section \<open>Only safe tools are called, every call is audited\<close>

lemma allowed_proposal:
  "d_status (evaluate_proposal v default_context) = ''ALLOW_LOCAL_REVIEW'' \<longleftrightarrow>
   (\<exists>t. v = PStr t \<and> \<not> blank t \<and> matching topic_patterns t = [] \<and> matching high_risk_patterns t = [])"
proof -
  have c: "context_reasons default_context = []" "allow_read_only_analysis default_context"
    by (simp_all add: context_reasons_def default_context_def)
  show ?thesis
  proof (cases v)
    case (PStr t)
    then show ?thesis
      by (cases "blank t"; cases "matching topic_patterns t = []"; cases "matching high_risk_patterns t = []")
        (simp_all add: evaluate_proposal_def decision_of_def c)
  qed (simp_all add: evaluate_proposal_def decision_of_def)
qed

lemma matching_none: "matching ps t = [] \<longleftrightarrow> list_all (\<lambda>p. \<not> found (snd p) t) ps"
proof -
  have "sort xs = [] \<longleftrightarrow> xs = []" for xs :: "string list"
  proof -
    have "length (sort xs) = length xs" by simp
    then show ?thesis by (metis length_0_conv)
  qed
  then show ?thesis by (simp add: matching_def filter_empty_conv list_all_iff)
qed

definition callable :: "'w runner \<Rightarrow> string \<Rightarrow> pyval \<Rightarrow> bool" where
  "callable s name v \<longleftrightarrow> (case (map_of (tools s) name, v) of
     (Some spec, PStr t) \<Rightarrow> read_only spec \<and> \<not> network_access spec \<and> \<not> destructive spec \<and> \<not> blank t
       \<and> list_all (\<lambda>p. \<not> found (snd p) t) (topic_patterns @ high_risk_patterns)
   | _ \<Rightarrow> False)"

text \<open>
  C39: one request of the gateway enters a tool function exactly when the tool is registered as
  read-only, offline and non-destructive and the proposal is non-blank text without any topic or risk
  word; otherwise the outside world is untouched. Either way exactly one audit record is added, and it
  says truthfully whether the tool was entered.
\<close>

theorem only_safe_tools_are_called:
  "called (fst (run_tool name v s)) = called s @ (if callable s name v then [name] else [])
    \<and> surroundings (fst (run_tool name v s))
      = (if callable s name v then fst (tool_function (the (map_of (tools s) name)) (surroundings s)) else surroundings s)
    \<and> (\<exists>ev. audit_log (fst (run_tool name v s)) = audit_log s @ [ev]
        \<and> dget ev ''execution_attempted'' = PBool (callable s name v))
    \<and> tools (fst (run_tool name v s)) = tools s"
proof (cases "map_of (tools s) name")
  case None
  then show ?thesis by (simp add: run_tool_def record_result_def callable_def call_base_def)
next
  case (Some spec)
  define safe where "safe = (read_only spec \<and> \<not> network_access spec \<and> \<not> destructive spec)"
  define ok where "ok = (d_status (evaluate_proposal v default_context) = ''ALLOW_LOCAL_REVIEW'')"
  have c: "callable s name v = (safe \<and> ok)"
    using Some allowed_proposal [of v] by (cases v) (auto simp: callable_def safe_def ok_def matching_none)
  consider "\<not> safe" | "safe" "\<not> ok" | "safe" "ok" by blast
  then show ?thesis
  proof cases
    case 1
    then have "callable s name v = False" using c by simp
    then show ?thesis using 1 Some by (auto simp add: run_tool_def record_result_def call_base_def safe_def)
  next
    case 2
    then show ?thesis using Some c by (simp add: run_tool_def record_result_def call_base_def safe_def ok_def Let_def)
  next
    case 3
    obtain w r where f: "tool_function spec (surroundings s) = (w, r)" by fastforce
    show ?thesis using 3 Some c f
      by (cases r) (simp_all add: run_tool_def record_result_def call_base_def safe_def ok_def Let_def)
  qed
qed

section \<open>The demo\<close>

lemma evaluate_performs_nothing: "\<not> d_performed (evaluate_proposal v c)"
  by (cases v) (simp_all add: evaluate_proposal_def decision_of_def Let_def)

text \<open>No decision claims an action was performed, and a request with a risk word is never let through.\<close>

lemma demo_performs_nothing:
  "List.map (\<lambda>d. get_in (dget d ''decision'') ''action_performed'') demo_output = replicate 6 (PBool False)"
  by (simp add: demo_output_def demo_samples_def decision_dict_def evaluate_performs_nothing numeral_eq_Suc)

end
