(* ===== verification/V99Core.thy ===== *)
theory V99Core
  imports PyText
begin

text \<open>
  The package \<open>v99/core\<close> with its driver \<open>v99/agent_shim.py\<close> and \<open>main.py\<close>: status values and their
  aggregation (\<open>status.py\<close>), the module description (\<open>module_standard.py\<close>), the lifecycle machine
  (\<open>lifecycle.py\<close>), the registry (\<open>registry.py\<close>), the agent (\<open>agent.py\<close>) and the cycle scheduler
  (\<open>scheduler.py\<close>). Module adapters and the clock are code of others: functions on an outside
  world, of which nothing is assumed.
\<close>

section \<open>Status values\<close>

text \<open>
  \<open>Status\<close> derives from \<open>str\<close>: a member is its text. \<open>aggregate_order\<close> runs from the best to the
  worst; texts outside of it are legal inputs.
\<close>

definition status_values :: "string list" where
  "status_values = [''UNKNOWN'', ''HEALTHY'', ''DEGRADED'', ''FAILED'', ''ISOLATED'', ''RECOVERING'', ''VERIFIED'']"

definition aggregate_order :: "string list" where
  "aggregate_order = [''VERIFIED'', ''HEALTHY'', ''RECOVERING'', ''DEGRADED'', ''UNKNOWN'', ''ISOLATED'', ''FAILED'']"

fun status_text :: "runtime \<Rightarrow> pyval \<Rightarrow> exc + string" where
  "status_text R (PStr s) = Inr s"
| "status_text R v = raise ValueError (py_str R v @ '' is not a valid Status'')"

fun status_texts :: "runtime \<Rightarrow> pyval list \<Rightarrow> exc + string list" where
  "status_texts R [] = Inr []"
| "status_texts R (v # vs) = and_then (status_text R v) (\<lambda>s. and_then (status_texts R vs) (\<lambda>ss. Inr (s # ss)))"

definition worst_level :: "string list \<Rightarrow> string" where
  "worst_level vs = (case List.find (\<lambda>l. l \<in> set vs) (rev aggregate_order) of
     Some l \<Rightarrow> l | None \<Rightarrow> ''UNKNOWN'')"

definition aggregate_status :: "runtime \<Rightarrow> pyval list \<Rightarrow> exc + string" where
  "aggregate_status R statuses = and_then (status_texts R statuses) (\<lambda>vs. Inr (worst_level vs))"

text \<open>Reference: the number of a level, the worst having the highest.\<close>

definition severity :: "string \<Rightarrow> nat" where
  "severity s = (case map_of (zip aggregate_order [1..<8]) s of Some n \<Rightarrow> n | None \<Rightarrow> 0)"

lemma severity_simps [simp]:
  "severity ''VERIFIED'' = 1" "severity ''HEALTHY'' = 2" "severity ''RECOVERING'' = 3" "severity ''DEGRADED'' = 4"
  "severity ''UNKNOWN'' = 5" "severity ''ISOLATED'' = 6" "severity ''FAILED'' = 7"
  by code_simp+

lemma severity_pos: "0 < severity s \<longleftrightarrow> s \<in> set aggregate_order"
  by (auto simp: severity_def aggregate_order_def upt_rec)

lemma severity_le: "severity s \<le> 7"
  by (auto simp: severity_def aggregate_order_def upt_rec)

lemma worst_level_cases:
  "worst_level vs = (if ''FAILED'' \<in> set vs then ''FAILED'' else if ''ISOLATED'' \<in> set vs then ''ISOLATED''
     else if ''UNKNOWN'' \<in> set vs then ''UNKNOWN'' else if ''DEGRADED'' \<in> set vs then ''DEGRADED''
     else if ''RECOVERING'' \<in> set vs then ''RECOVERING'' else if ''HEALTHY'' \<in> set vs then ''HEALTHY''
     else if ''VERIFIED'' \<in> set vs then ''VERIFIED'' else ''UNKNOWN'')"
  by (simp add: worst_level_def aggregate_order_def)

lemma worst_level_severity: "v \<in> set vs \<Longrightarrow> severity v \<le> severity (worst_level vs)"
proof -
  assume v: "v \<in> set vs"
  show ?thesis
  proof (cases "v \<in> set aggregate_order")
    case False
    then show ?thesis using severity_pos [of v] by simp
  next
    case True
    then consider "v = ''VERIFIED''" | "v = ''HEALTHY''" | "v = ''RECOVERING''" | "v = ''DEGRADED''" | "v = ''UNKNOWN''"
      | "v = ''ISOLATED''" | "v = ''FAILED''" unfolding aggregate_order_def by fastforce
    then show ?thesis using v by cases (simp_all add: worst_level_cases if_distrib [of severity])
  qed
qed

lemma worst_level_in: "worst_level vs \<in> set vs \<or> worst_level vs = ''UNKNOWN''"
  by (auto simp: worst_level_cases)

lemma status_texts_strs [simp]: "status_texts R (List.map PStr vs) = Inr vs"
  by (induction vs) auto

lemma status_texts_Inr: "status_texts R xs = Inr vs \<Longrightarrow> xs = List.map PStr vs"
  by (induction xs arbitrary: vs) (auto simp: and_then_Inr elim!: status_text.elims)

lemma unknown_text_is_ignored: "aggregate_status R [PStr ''HEALTHY'', PStr ''CRASHED''] = Inr ''HEALTHY''"
  by (simp add: aggregate_status_def worst_level_cases)

section \<open>Module descriptions\<close>

record module_spec =
  module_id :: string
  module_title :: string
  module_version :: string
  api_version :: string
  module_enabled :: bool
  platforms :: "string list"
  module_capabilities :: "string list"
  permissions :: "string list"
  check_enabled :: bool
  check_interval :: pyval
  automatic_check :: bool
  automatic_install :: bool
  rollback_required :: bool

definition required_top_level :: "string list" where
  "required_top_level = [''module_id'', ''name'', ''version'', ''api_version'', ''enabled'', ''platforms'', ''capabilities'', ''permissions'']"

definition require_str :: "pydict \<Rightarrow> string \<Rightarrow> exc + string" where
  "require_str d k = (case dget d k of
     PStr s \<Rightarrow> if blank s then raise ValueError (''module.json: Feld '' @ [CHR 0x27] @ k @ [CHR 0x27] @ '' fehlt oder ist kein nicht-leerer String'') else Inr s
   | _ \<Rightarrow> raise ValueError (''module.json: Feld '' @ [CHR 0x27] @ k @ [CHR 0x27] @ '' fehlt oder ist kein nicht-leerer String''))"

definition require_bool :: "pydict \<Rightarrow> string \<Rightarrow> exc + bool" where
  "require_bool d k = (case dget d k of PBool b \<Rightarrow> Inr b
   | _ \<Rightarrow> raise ValueError (''module.json: Feld '' @ [CHR 0x27] @ k @ [CHR 0x27] @ '' fehlt oder ist kein Boolean''))"

definition require_str_list :: "pydict \<Rightarrow> string \<Rightarrow> exc + string list" where
  "require_str_list d k = (case dget d k of
     PList vs \<Rightarrow> if list_all nonempty_str vs then Inr (List.map_filter as_str vs)
       else raise ValueError (''module.json: Feld '' @ [CHR 0x27] @ k @ [CHR 0x27] @ '' muss eine Liste nicht-leerer Strings sein'')
   | _ \<Rightarrow> raise ValueError (''module.json: Feld '' @ [CHR 0x27] @ k @ [CHR 0x27] @ '' muss eine Liste nicht-leerer Strings sein''))"

text \<open>\<open>isinstance(v, int) and not v < 1\<close>: the booleans are integers here.\<close>

fun positive_integer :: "pyval \<Rightarrow> bool" where
  "positive_integer (PInt i) \<longleftrightarrow> 1 \<le> i"
| "positive_integer (PBool b) \<longleftrightarrow> b"
| "positive_integer _ \<longleftrightarrow> False"

definition healthcheck_spec :: "pyval \<Rightarrow> exc + (bool \<times> pyval)" where
  "healthcheck_spec hc = (case (hc, get_in hc ''enabled'') of
     (PDict h, PBool b) \<Rightarrow> if positive_integer (dget h ''interval_seconds'') then Inr (b, dget h ''interval_seconds'')
       else raise ValueError (''module.json: '' @ [CHR 0x27] @ ''healthcheck'' @ [CHR 0x27] @ '' benoetigt enabled:bool und interval_seconds:int>0'')
   | _ \<Rightarrow> raise ValueError (''module.json: '' @ [CHR 0x27] @ ''healthcheck'' @ [CHR 0x27] @ '' benoetigt enabled:bool und interval_seconds:int>0''))"

definition policy_flag :: "pydict \<Rightarrow> string \<Rightarrow> exc + bool" where
  "policy_flag up k = (case dget up k of PBool b \<Rightarrow> Inr b
   | _ \<Rightarrow> raise ValueError (''module.json: update_policy.'' @ k @ '' muss ein Boolean sein''))"

definition update_policy_spec :: "pyval \<Rightarrow> exc + (bool \<times> bool \<times> bool)" where
  "update_policy_spec up = (case up of
     PDict u \<Rightarrow> and_then (policy_flag u ''automatic_check'') (\<lambda>c. and_then (policy_flag u ''automatic_install'') (\<lambda>i.
       and_then (policy_flag u ''rollback_required'') (\<lambda>r. Inr (c, i, r))))
   | _ \<Rightarrow> raise ValueError (''module.json: '' @ [CHR 0x27] @ ''update_policy'' @ [CHR 0x27] @ '' fehlt''))"

fun require_fields :: "pydict \<Rightarrow> string list \<Rightarrow> exc + unit" where
  "require_fields d [] = Inr ()"
| "require_fields d (k # ks) = (if dhas d k then require_fields d ks
     else raise ValueError (''module.json: Pflichtfeld '' @ [CHR 0x27] @ k @ [CHR 0x27] @ '' fehlt''))"

definition load_module_spec :: "pyval \<Rightarrow> exc + module_spec" where
  "load_module_spec data = (case data of
     PDict d \<Rightarrow>
       and_then (require_fields d required_top_level) (\<lambda>_.
       and_then (healthcheck_spec (dget d ''healthcheck'')) (\<lambda>(h, n).
       and_then (update_policy_spec (dget d ''update_policy'')) (\<lambda>(c, i, r).
       and_then (require_str d ''module_id'') (\<lambda>m. and_then (require_str d ''name'') (\<lambda>a.
       and_then (require_str d ''version'') (\<lambda>v. and_then (require_str d ''api_version'') (\<lambda>w.
       and_then (require_bool d ''enabled'') (\<lambda>e. and_then (require_str_list d ''platforms'') (\<lambda>p.
       and_then (require_str_list d ''capabilities'') (\<lambda>q. and_then (require_str_list d ''permissions'') (\<lambda>s.
       Inr \<lparr>module_id = m, module_title = a, module_version = v, api_version = w, module_enabled = e, platforms = p,
          module_capabilities = q, permissions = s, check_enabled = h, check_interval = n, automatic_check = c,
          automatic_install = i, rollback_required = r\<rparr>)))))))))))
   | _ \<Rightarrow> raise ValueError ''module.json: oberste Ebene muss ein JSON-Objekt sein'')"

definition spec_dict :: "module_spec \<Rightarrow> pydict" where
  "spec_dict s = [(''module_id'', PStr (module_id s)), (''name'', PStr (module_title s)), (''version'', PStr (module_version s)),
     (''api_version'', PStr (api_version s)), (''enabled'', PBool (module_enabled s)),
     (''platforms'', PList (List.map PStr (platforms s))), (''capabilities'', PList (List.map PStr (module_capabilities s))),
     (''permissions'', PList (List.map PStr (permissions s))),
     (''healthcheck'', PDict [(''enabled'', PBool (check_enabled s)), (''interval_seconds'', check_interval s)]),
     (''update_policy'', PDict [(''automatic_check'', PBool (automatic_check s)), (''automatic_install'', PBool (automatic_install s)),
        (''rollback_required'', PBool (rollback_required s))])]"

text \<open>What a loaded description promises.\<close>

definition well_typed_spec :: "module_spec \<Rightarrow> bool" where
  "well_typed_spec s \<longleftrightarrow> list_all (\<lambda>t. \<not> blank t) [module_id s, module_title s, module_version s, api_version s]
     \<and> list_all (\<lambda>t. t \<noteq> []) (platforms s @ module_capabilities s @ permissions s) \<and> positive_integer (check_interval s)"

lemma require_str_Inr: "require_str d k = Inr s \<longleftrightarrow> dget d k = PStr s \<and> \<not> blank s"
  by (auto simp: require_str_def split: pyval.splits)

lemma require_bool_Inr: "require_bool d k = Inr b \<longleftrightarrow> dget d k = PBool b"
  by (auto simp: require_bool_def split: pyval.splits)

lemma nonempty_strs: "list_all nonempty_str vs \<Longrightarrow> vs = List.map PStr (List.map_filter as_str vs) \<and> list_all (\<lambda>t. t \<noteq> []) (List.map_filter as_str vs)"
  by (induction vs) (auto simp: nonempty_str_iff List.map_filter_simps)

lemma map_filter_strs [simp]: "List.map_filter as_str (List.map PStr ss) = ss"
  by (induction ss) (auto simp: List.map_filter_simps)

lemma nonempty_map_strs [simp]: "list_all nonempty_str (List.map PStr ss) \<longleftrightarrow> list_all (\<lambda>t. t \<noteq> []) ss"
  by (induction ss) auto

lemma strs_inj [simp]: "List.map PStr xs = List.map PStr ys \<longleftrightarrow> xs = ys"
  by (rule inj_map_eq_map) (simp add: inj_def)

lemma require_str_list_Inr: "require_str_list d k = Inr ss \<longleftrightarrow> dget d k = PList (List.map PStr ss) \<and> list_all (\<lambda>t. t \<noteq> []) ss"
  unfolding require_str_list_def by (auto split: pyval.splits if_splits dest!: nonempty_strs)

lemma healthcheck_spec_Inr:
  "healthcheck_spec v = Inr (b, n) \<longleftrightarrow> (\<exists>h. v = PDict h \<and> dget h ''enabled'' = PBool b \<and> dget h ''interval_seconds'' = n \<and> positive_integer n)"
  unfolding healthcheck_spec_def by (cases v) (auto split: pyval.splits)

lemma policy_flag_Inr: "policy_flag u k = Inr b \<longleftrightarrow> dget u k = PBool b"
  by (auto simp: policy_flag_def split: pyval.splits)

lemma update_policy_spec_Inr:
  "update_policy_spec v = Inr (c, i, r) \<longleftrightarrow> (\<exists>u. v = PDict u \<and> dget u ''automatic_check'' = PBool c
     \<and> dget u ''automatic_install'' = PBool i \<and> dget u ''rollback_required'' = PBool r)"
  unfolding update_policy_spec_def by (cases v) (auto simp: and_then_Inr policy_flag_Inr)

lemmas spec_readers = require_str_Inr require_bool_Inr require_str_list_Inr healthcheck_spec_Inr update_policy_spec_Inr

lemma load_raises_only_ValueError: "load_module_spec v = Inl e \<Longrightarrow> fst e = ValueError"
proof -
  have fields: "require_fields d ks = Inl e \<Longrightarrow> fst e = ValueError" for d ks by (induction ks) (auto split: if_splits)
  have reads: "require_str d k = Inl e \<Longrightarrow> fst e = ValueError" "require_bool d k = Inl e \<Longrightarrow> fst e = ValueError"
    "require_str_list d k = Inl e \<Longrightarrow> fst e = ValueError" "policy_flag d k = Inl e \<Longrightarrow> fst e = ValueError" for d k
    by (auto simp: require_str_def require_bool_def require_str_list_def policy_flag_def split: pyval.splits if_splits)
  have groups: "healthcheck_spec w = Inl e \<Longrightarrow> fst e = ValueError" "update_policy_spec w = Inl e \<Longrightarrow> fst e = ValueError" for w
    by (auto simp: healthcheck_spec_def update_policy_spec_def and_then_Inl reads split: pyval.splits if_splits)
  assume "load_module_spec v = Inl e"
  then show ?thesis unfolding load_module_spec_def
    by (cases v) (auto simp: and_then_Inl dest: fields reads groups)
qed

lemma load_well_typed: "load_module_spec v = Inr s \<Longrightarrow> well_typed_spec s"
  unfolding load_module_spec_def by (cases v) (auto simp: and_then_Inr spec_readers well_typed_spec_def)

lemma load_spec_dict: "well_typed_spec s \<Longrightarrow> load_module_spec (PDict (spec_dict s)) = Inr s"
  by (simp add: load_module_spec_def and_then_Inr spec_readers well_typed_spec_def spec_dict_def required_top_level_def)

text \<open>
  C35: \<open>load_module_spec\<close> refuses with \<open>ValueError\<close> or returns a well-typed description: its
  identifiers are not blank, its lists hold non-empty texts, its check interval is a positive
  integer; and \<open>to_dict\<close> of what it returns loads as the same description.
\<close>

theorem loaded_spec_is_well_typed:
  "case load_module_spec v of
     Inl e \<Rightarrow> fst e = ValueError
   | Inr s \<Rightarrow> well_typed_spec s \<and> load_module_spec (PDict (spec_dict s)) = Inr s"
  using load_raises_only_ValueError [of v] load_well_typed [of v] load_spec_dict
  by (auto split: sum.splits)

section \<open>The lifecycle\<close>

datatype lifecycle_state = INITIALIZING | RUNNING | PAUSED | HALTED

fun state_value :: "lifecycle_state \<Rightarrow> string" where
  "state_value INITIALIZING = ''INITIALIZING''"
| "state_value RUNNING = ''RUNNING''"
| "state_value PAUSED = ''PAUSED''"
| "state_value HALTED = ''HALTED''"

fun allowed_transitions :: "lifecycle_state \<Rightarrow> lifecycle_state list" where
  "allowed_transitions INITIALIZING = [RUNNING, HALTED]"
| "allowed_transitions RUNNING = [PAUSED, HALTED]"
| "allowed_transitions PAUSED = [RUNNING, HALTED]"
| "allowed_transitions HALTED = []"

text \<open>The argument is \<open>None\<close> when it is no \<open>LifecycleState\<close>.\<close>

definition transition :: "lifecycle_state option \<Rightarrow> lifecycle_state \<Rightarrow> lifecycle_state \<times> (exc + lifecycle_state)" where
  "transition new_state s = (case new_state of
     None \<Rightarrow> (s, raise TypeError ''new_state muss ein LifecycleState sein'')
   | Some t \<Rightarrow> if t \<notin> set (allowed_transitions s)
       then (s, raise ValueError (''Uebergang '' @ state_value s @ '' -> '' @ state_value t @ '' ist nicht erlaubt''))
       else (t, Inr t))"

definition reset_lifecycle :: "lifecycle_state \<Rightarrow> lifecycle_state \<times> (exc + lifecycle_state)" where
  "reset_lifecycle s = (INITIALIZING, Inr INITIALIZING)"

text \<open>The specification: the moves a module may make.\<close>

inductive moves :: "lifecycle_state \<Rightarrow> lifecycle_state \<Rightarrow> bool" where
  start: "moves INITIALIZING RUNNING"
| pause: "moves RUNNING PAUSED"
| resume: "moves PAUSED RUNNING"
| halt: "s \<noteq> HALTED \<Longrightarrow> moves s HALTED"

code_pred moves .

inductive_cases from_halted: "moves HALTED t"
inductive_simps moves_iff: "moves s t"

text \<open>A run of calls of \<open>transition\<close>, exceptions included, and the states it can end in.\<close>

definition transitions :: "lifecycle_state option list \<Rightarrow> lifecycle_state \<Rightarrow> lifecycle_state" where
  "transitions calls s = fold (\<lambda>c s. fst (transition c s)) calls s"

lemma transition_moves: "snd (transition (Some t) s) = Inr t \<longleftrightarrow> moves s t"
  by (cases s; cases t) (auto simp: transition_def moves_iff)

lemma transition_state: "fst (transition c s) = s \<or> moves s (fst (transition c s))"
  by (cases s) (auto simp: transition_def moves_iff split: option.splits)

lemma transitions_moves: "moves\<^sup>*\<^sup>* s (transitions calls s)"
proof (induction calls arbitrary: s)
  case Nil
  show ?case by (simp add: transitions_def)
next
  case (Cons c calls)
  have "moves\<^sup>*\<^sup>* s (fst (transition c s))" using transition_state [of c s] by auto
  moreover have "moves\<^sup>*\<^sup>* (fst (transition c s)) (transitions calls (fst (transition c s)))" by (rule Cons)
  ultimately show ?case by (simp add: transitions_def)
qed

lemma moves_transitions: "moves\<^sup>*\<^sup>* s t \<Longrightarrow> \<exists>calls. transitions calls s = t"
proof (induction rule: rtranclp_induct)
  case base
  show ?case by (rule exI [of _ "[]"]) (simp add: transitions_def)
next
  case (step t u)
  then obtain calls where "transitions calls s = t" by blast
  moreover have "fst (transition (Some u) t) = u" using transition_moves [of u t] step(2)
    by (simp add: transition_def split: if_splits)
  ultimately have "transitions (calls @ [Some u]) s = u" by (simp add: transitions_def)
  then show ?case by blast
qed

lemma halted_absorbs: "moves\<^sup>*\<^sup>* HALTED t \<longleftrightarrow> t = HALTED"
  by (metis converse_rtranclpE from_halted rtranclp.rtrancl_refl)

text \<open>
  the states runs of \<open>transition\<close> can end in are those the moves reach, a call returns exactly
  when its target is a move, from \<open>HALTED\<close> no run leaves, and only \<open>reset\<close> does.
\<close>

theorem lifecycle_follows_its_moves:
  "((\<exists>calls. transitions calls s = t) \<longleftrightarrow> moves\<^sup>*\<^sup>* s t)
   \<and> (snd (transition (Some t) s) = Inr t \<longleftrightarrow> moves s t)
   \<and> transitions calls HALTED = HALTED
   \<and> transitions [Some RUNNING] (fst (reset_lifecycle HALTED)) = RUNNING"
proof (intro conjI)
  show "(\<exists>calls. transitions calls s = t) \<longleftrightarrow> moves\<^sup>*\<^sup>* s t" using transitions_moves moves_transitions by blast
  show "transitions calls HALTED = HALTED" using transitions_moves [of HALTED] by (simp add: halted_absorbs)
  show "(snd (transition (Some t) s) = Inr t) = moves s t" by (rule transition_moves)
qed (simp add: reset_lifecycle_def transitions_def transition_def)

section \<open>Reports, proposals and adapters\<close>

text \<open>
  A status is a \<open>Status\<close> member or whatever an adapter puts there. An adapter is a record of calls
  on an outside world \<open>'w\<close>; a call may raise. \<open>execute\<close> answers with the truth of its result.
\<close>

record report =
  report_id :: string
  report_version :: string
  report_status :: pyval
  report_details :: string

record proposal =
  proposal_id :: string
  proposed_action :: string
  proposal_reason :: string
  reversible :: bool
  requires_approval :: bool

record 'w adapter =
  inspect :: "'w \<Rightarrow> 'w \<times> (exc + report)"
  propose_repair :: "'w \<Rightarrow> 'w \<times> (exc + proposal option)"
  execute :: "proposal \<Rightarrow> 'w \<Rightarrow> 'w \<times> (exc + bool)"

section \<open>The registry\<close>

record 'w module_registry =
  allowed_permissions :: "string list"
  specs :: "(string \<times> module_spec) list"
  adapters :: "(string \<times> 'w adapter option) list"

definition default_allowed_permissions :: "string list" where
  "default_allowed_permissions = [''read_module_status'']"

definition new_module_registry :: "string list \<Rightarrow> 'w module_registry" where
  "new_module_registry allowed = \<lparr>allowed_permissions = allowed, specs = [], adapters = []\<rparr>"

definition register :: "module_spec \<Rightarrow> 'w adapter option \<Rightarrow> 'w module_registry \<Rightarrow> 'w module_registry \<times> (exc + unit)" where
  "register spec adapter r =
     (if module_id spec \<in> fst ` set (specs r)
      then (r, raise ValueError (''Doppelte Registrierung: '' @ [CHR 0x27] @ module_id spec @ [CHR 0x27] @ '' ist bereits registriert''))
      else let refused = List.filter (\<lambda>p. p \<notin> set (allowed_permissions r)) (remdups (permissions spec)) in
        if refused \<noteq> []
        then (r, raise PermissionError (''Rechteausweitung verweigert (Modul darf sich keine Rechte selbst erteilen): ''
          @ join '', '' (sort refused)))
        else (r\<lparr>specs := specs r @ [(module_id spec, spec)], adapters := adapters r @ [(module_id spec, adapter)]\<rparr>, Inr ()))"

definition get_spec :: "'w module_registry \<Rightarrow> string \<Rightarrow> exc + module_spec" where
  "get_spec r k = (case map_of (specs r) k of Some s \<Rightarrow> Inr s | None \<Rightarrow> raise KeyError ([CHR 0x27] @ k @ [CHR 0x27]))"

definition get_adapter :: "'w module_registry \<Rightarrow> string \<Rightarrow> 'w adapter option" where
  "get_adapter r k = (case map_of (adapters r) k of Some a \<Rightarrow> a | None \<Rightarrow> None)"

definition has_module :: "'w module_registry \<Rightarrow> string \<Rightarrow> bool" where
  "has_module r k \<longleftrightarrow> k \<in> fst ` set (specs r)"

definition list_module_ids :: "'w module_registry \<Rightarrow> string list" where
  "list_module_ids r = sort (List.map fst (specs r))"

definition registry_size :: "'w module_registry \<Rightarrow> nat" where
  "registry_size r = length (specs r)"

definition registry_inv :: "'w module_registry \<Rightarrow> bool" where
  "registry_inv r \<longleftrightarrow> distinct (List.map fst (specs r)) \<and> List.map fst (adapters r) = List.map fst (specs r)
     \<and> list_all (\<lambda>(k, s). module_id s = k \<and> set (permissions s) \<subseteq> set (allowed_permissions r)) (specs r)"

definition register_step :: "module_spec \<times> 'w adapter option \<Rightarrow> 'w module_registry \<Rightarrow> 'w module_registry" where
  "register_step c r = fst (register (fst c) (snd c) r)"

text \<open>What a registry grants and names never changes: later registries only add modules.\<close>

definition registry_extends :: "'w module_registry \<Rightarrow> 'w module_registry \<Rightarrow> bool" where
  "registry_extends r r' \<longleftrightarrow> allowed_permissions r' = allowed_permissions r
     \<and> (\<exists>xs. specs r' = specs r @ xs) \<and> (\<exists>ys. adapters r' = adapters r @ ys)"

lemma refused_Nil: "List.filter (\<lambda>p. p \<notin> A) (remdups ps) = [] \<longleftrightarrow> set ps \<subseteq> A"
  by (auto simp: filter_empty_conv)

lemma register_keeps_inv: "registry_inv r \<Longrightarrow> registry_inv (fst (register spec a r))"
  unfolding register_def Let_def by (auto simp: registry_inv_def refused_Nil)

lemma register_only_adds: "registry_extends r (fst (register spec a r))"
  unfolding register_def Let_def by (auto simp: registry_extends_def)

lemma registry_extends_trans: "registry_extends r s \<Longrightarrow> registry_extends s t \<Longrightarrow> registry_extends r t"
  by (auto simp: registry_extends_def)

interpretation registrations: growing_machine register_step registry_inv registry_extends
proof unfold_locales
  fix r s t :: "'w module_registry" and e
  show "registry_inv (register_step e r)" if "registry_inv r" using that by (simp add: register_step_def register_keeps_inv)
  show "registry_extends r r" by (simp add: registry_extends_def)
  show "registry_extends r t" if "registry_extends r s" "registry_extends s t" using that by (rule registry_extends_trans)
  show "registry_extends r (register_step e r)" if "registry_inv r" by (simp add: register_step_def register_only_adds)
qed

lemma new_modules_inv [simp]: "registry_inv (new_module_registry A)"
  by (simp add: registry_inv_def new_module_registry_def)

lemma get_spec_in: "registry_inv r \<Longrightarrow> k \<in> set (list_module_ids r) \<Longrightarrow>
    \<exists>s. get_spec r k = Inr s \<and> module_id s = k \<and> set (permissions s) \<subseteq> set (allowed_permissions r)"
  by (auto simp: get_spec_def list_module_ids_def registry_inv_def list_all_iff split: option.splits
      dest: map_of_SomeD)

definition held :: "string list \<Rightarrow> (module_spec \<times> 'w adapter option) list \<Rightarrow> 'w module_registry" where
  "held allowed calls = fold register_step calls (new_module_registry allowed)"

text \<open>
  whatever is registered, in any order and with any refusals, every module held carries its
  own identifier and permissions of the allow-list only, and no later registration changes a
  module already held, the allow-list, or an adapter.
\<close>

theorem modules_never_gain_permissions:
  "list_all (\<lambda>(k, s). module_id s = k \<and> set (permissions s) \<subseteq> set allowed) (specs (held allowed (cs @ ds)))
   \<and> (\<exists>xs. specs (held allowed (cs @ ds)) = specs (held allowed cs) @ xs) \<and> (\<exists>ys. adapters (held allowed (cs @ ds)) = adapters (held allowed cs) @ ys)
   \<and> distinct (list_module_ids (held allowed (cs @ ds)))"
proof -
  have inv: "registry_inv (held allowed cs)" for cs unfolding held_def by (rule registrations.run_inv) simp
  have new: "registry_extends (new_module_registry allowed) (held allowed cs)" for cs
    unfolding held_def by (rule registrations.run_le) simp
  have "registry_extends (held allowed cs) (held allowed (cs @ ds))"
    using registrations.run_le [OF inv [of cs], of ds] by (simp add: held_def)
  then show ?thesis using inv [of "cs @ ds"] new [of "cs @ ds"]
    by (auto simp: registry_inv_def registry_extends_def list_module_ids_def new_module_registry_def)
qed

section \<open>The agent\<close>

definition policy_allowed :: "proposal \<Rightarrow> bool" where
  "policy_allowed p = (if \<not> reversible p then False else if requires_approval p then False else True)"

record 'w agent =
  agent_registry :: "'w module_registry"
  agent_policy :: "proposal \<Rightarrow> bool"

definition new_agent :: "'w module_registry \<Rightarrow> (proposal \<Rightarrow> bool) option \<Rightarrow> 'w agent" where
  "new_agent r policy = \<lparr>agent_registry = r, agent_policy = (case policy of None \<Rightarrow> policy_allowed | Some p \<Rightarrow> p)\<rparr>"

definition unknown_report :: "string \<Rightarrow> module_spec \<Rightarrow> string \<Rightarrow> report" where
  "unknown_report k spec why = \<lparr>report_id = k, report_version = module_version spec, report_status = PStr ''UNKNOWN'', report_details = why\<rparr>"

text \<open>One turn of the loop of \<open>inspect_all\<close>.\<close>

definition inspect_module :: "'w agent \<Rightarrow> string \<Rightarrow> 'w \<Rightarrow> 'w \<times> (exc + report)" where
  "inspect_module a k w = (case get_spec (agent_registry a) k of
     Inl e \<Rightarrow> (w, Inl e)
   | Inr spec \<Rightarrow> (case get_adapter (agent_registry a) k of
       None \<Rightarrow> (w, Inr (unknown_report k spec ''Kein Adapter registriert''))
     | Some ad \<Rightarrow> (case inspect ad w of
         (w', Inl e) \<Rightarrow> (w', Inr (unknown_report k spec (''Inspektion fehlgeschlagen: '' @ snd e)))
       | (w', Inr rep) \<Rightarrow> (w', Inr (if report_id rep \<noteq> k
           then unknown_report k spec (''Identitaetsabweichung: gemeldet '' @ [CHR 0x27] @ report_id rep @ [CHR 0x27]) else rep)))))"

fun inspect_ids :: "'w agent \<Rightarrow> string list \<Rightarrow> 'w \<Rightarrow> 'w \<times> (exc + report list)" where
  "inspect_ids a [] w = (w, Inr [])"
| "inspect_ids a (k # ks) w = then_call (inspect_module a k w) (\<lambda>w rep.
     then_call (inspect_ids a ks w) (\<lambda>w reps. (w, Inr (rep # reps))))"

definition inspect_all :: "'w agent \<Rightarrow> 'w \<Rightarrow> 'w \<times> (exc + report list)" where
  "inspect_all a w = inspect_ids a (list_module_ids (agent_registry a)) w"

fun prepare_ids :: "'w agent \<Rightarrow> string list \<Rightarrow> 'w \<Rightarrow> 'w \<times> proposal list" where
  "prepare_ids a [] w = (w, [])"
| "prepare_ids a (k # ks) w = (case get_adapter (agent_registry a) k of
     None \<Rightarrow> prepare_ids a ks w
   | Some ad \<Rightarrow> (case propose_repair ad w of
       (w', Inl e) \<Rightarrow> prepare_ids a ks w'
     | (w', Inr None) \<Rightarrow> prepare_ids a ks w'
     | (w', Inr (Some p)) \<Rightarrow> if proposal_id p \<noteq> k then prepare_ids a ks w'
         else (let (w'', ps) = prepare_ids a ks w' in (w'', p # ps))))"

definition prepare_repairs :: "'w agent \<Rightarrow> 'w \<Rightarrow> 'w \<times> proposal list" where
  "prepare_repairs a w = prepare_ids a (list_module_ids (agent_registry a)) w"

text \<open>One turn of the loop of \<open>execute_safe_repairs\<close>.\<close>

definition execute_proposal :: "'w agent \<Rightarrow> proposal \<Rightarrow> 'w \<Rightarrow> 'w \<times> string" where
  "execute_proposal a p w =
     (if \<not> agent_policy a p then (w, ''NOT_AUTHORIZED'')
      else case get_adapter (agent_registry a) (proposal_id p) of
        None \<Rightarrow> (w, ''NO_ADAPTER'')
      | Some ad \<Rightarrow> (case execute ad p w of
          (w', Inr success) \<Rightarrow> (w', if success then ''SUCCESS'' else ''FAILED'')
        | (w', Inl e) \<Rightarrow> (w', ''FAILED: '' @ snd e)))"

fun execute_safe_repairs :: "'w agent \<Rightarrow> proposal list \<Rightarrow> 'w \<Rightarrow> 'w \<times> (string \<times> string) list" where
  "execute_safe_repairs a [] w = (w, [])"
| "execute_safe_repairs a (p # ps) w = (let (w', res) = execute_proposal a p w;
     (w'', rs) = execute_safe_repairs a ps w' in (w'', (proposal_id p, res) # rs))"

text \<open>The reference: the calls of \<open>execute\<close> that may happen, and what each does to the world.\<close>

definition may_run :: "'w module_registry \<Rightarrow> proposal \<Rightarrow> bool" where
  "may_run r p \<longleftrightarrow> reversible p \<and> \<not> requires_approval p \<and> get_adapter r (proposal_id p) \<noteq> None"

definition run_repair :: "'w module_registry \<Rightarrow> proposal \<Rightarrow> 'w \<Rightarrow> 'w" where
  "run_repair r p w = (case get_adapter r (proposal_id p) of None \<Rightarrow> w | Some ad \<Rightarrow> fst (execute ad p w))"

text \<open>
  A result tells its proposal's fate: refused, without an adapter, or run, and then what \<open>execute\<close> answered
  in the world w it was called in.
\<close>

definition truthful_result :: "'w module_registry \<Rightarrow> 'w \<Rightarrow> proposal \<Rightarrow> string \<times> string \<Rightarrow> bool" where
  "truthful_result r w p res \<longleftrightarrow> fst res = proposal_id p
     \<and> (snd res = ''NOT_AUTHORIZED'' \<longleftrightarrow> \<not> reversible p \<or> requires_approval p)
     \<and> (snd res = ''NO_ADAPTER'' \<longleftrightarrow> reversible p \<and> \<not> requires_approval p \<and> get_adapter r (proposal_id p) = None)
     \<and> (snd res = ''SUCCESS'' \<longleftrightarrow> may_run r p \<and> snd (execute (the (get_adapter r (proposal_id p))) p w) = Inr True)
     \<and> (snd res = ''FAILED'' \<longleftrightarrow> may_run r p \<and> snd (execute (the (get_adapter r (proposal_id p))) p w) = Inr False)
     \<and> (starts_with ''FAILED: '' (snd res) \<longleftrightarrow> may_run r p
          \<and> (\<exists>e. snd (execute (the (get_adapter r (proposal_id p))) p w) = Inl e \<and> snd res = ''FAILED: '' @ snd e))"

lemma starts_with_append [simp]: "starts_with p (p @ s)"
  by (simp add: starts_with_def)

lemma execute_proposal_result:
  "truthful_result r w p (proposal_id p, snd (execute_proposal (new_agent r None) p w))"
proof (cases "may_run r p")
  case True
  then obtain ad where "get_adapter r (proposal_id p) = Some ad" "policy_allowed p"
    by (auto simp: may_run_def policy_allowed_def)
  moreover obtain w' res where "execute ad p w = (w', res)" by fastforce
  ultimately show ?thesis using True
    by (cases res) (auto simp: truthful_result_def execute_proposal_def new_agent_def may_run_def starts_with_def)
next
  case False
  then show ?thesis
    by (auto simp: truthful_result_def execute_proposal_def new_agent_def policy_allowed_def may_run_def starts_with_def)
qed

lemma execute_proposal_world:
  "fst (execute_proposal (new_agent r None) p w) = (if may_run r p then run_repair r p w else w)"
  by (auto simp: execute_proposal_def new_agent_def policy_allowed_def may_run_def run_repair_def
      split: option.splits prod.splits sum.splits)

text \<open>The world in which the i-th proposal is taken up, and the results in order\<close>

definition world_before :: "'w module_registry \<Rightarrow> proposal list \<Rightarrow> 'w \<Rightarrow> nat \<Rightarrow> 'w" where
  "world_before r ps w i = fold (run_repair r) (List.filter (may_run r) (take i ps)) w"

lemma execute_safe_repairs_fates:
  "fst (execute_safe_repairs (new_agent r None) ps w) = fold (run_repair r) (List.filter (may_run r) ps) w
   \<and> length (snd (execute_safe_repairs (new_agent r None) ps w)) = length ps
   \<and> (\<forall>i < length ps. truthful_result r (world_before r ps w i) (ps ! i) (snd (execute_safe_repairs (new_agent r None) ps w) ! i))"
proof (induction ps arbitrary: w)
  case (Cons p ps)
  let ?w1 = "fst (execute_proposal (new_agent r None) p w)"
  have shift: "world_before r (p # ps) w (Suc i) = world_before r ps ?w1 i" for i
    by (simp add: world_before_def execute_proposal_world)
  have first: "world_before r (p # ps) w 0 = w" by (simp add: world_before_def)
  have "truthful_result r (world_before r (p # ps) w i) ((p # ps) ! i) (snd (execute_safe_repairs (new_agent r None) (p # ps) w) ! i)"
    if "i < length (p # ps)" for i
    using that Cons.IH [of ?w1] execute_proposal_result [of r w p]
    by (cases i) (simp_all add: shift first case_prod_beta Let_def)
  then show ?case using Cons.IH [of ?w1] execute_proposal_world [of r p w]
    by (simp add: case_prod_beta Let_def)
qed simp

text \<open>
  C24: under the standard policy the world changes exactly by the \<open>execute\<close> calls, in order, for the
  proposals that are reversible, need no approval and belong to a module with an adapter; and there is
  one result per proposal, in order, which is NOT_AUTHORIZED, NO_ADAPTER, SUCCESS, FAILED or FAILED with
  the message exactly when the proposal was refused, had no adapter, or its \<open>execute\<close>, called in the world
  its predecessors left, answered True, answered False or raised.
\<close>

theorem only_reversible_approved_repairs_run:
  "case execute_safe_repairs (new_agent r None) ps w of (w', results) \<Rightarrow>
     w' = fold (run_repair r) (List.filter (may_run r) ps) w \<and> length results = length ps
     \<and> list_all (\<lambda>i. truthful_result r (world_before r ps w i) (ps ! i) (results ! i)) [0..<length ps]"
  using execute_safe_repairs_fates [of r ps w] by (simp add: case_prod_beta list_all_iff)

text \<open>Inspection never raises and reports on every module, in the order of the identifiers.\<close>

lemma inspect_module_returns:
  assumes "registry_inv (agent_registry a)" "k \<in> set (list_module_ids (agent_registry a))"
  shows "\<exists>rep. snd (inspect_module a k w) = Inr rep \<and> report_id rep = k"
  using get_spec_in [OF assms]
  by (auto simp: inspect_module_def unknown_report_def split: option.splits prod.splits sum.splits)

lemma inspect_ids_returns:
  assumes "registry_inv (agent_registry a)" "set ks \<subseteq> set (list_module_ids (agent_registry a))"
  shows "\<exists>reps. snd (inspect_ids a ks w) = Inr reps \<and> List.map report_id reps = ks"
  using assms(2)
proof (induction ks arbitrary: w)
  case Nil
  show ?case by simp
next
  case (Cons k ks)
  obtain w1 rep where 1: "inspect_module a k w = (w1, Inr rep)" "report_id rep = k"
    using inspect_module_returns [OF assms(1), of k w] Cons.prems by (cases "inspect_module a k w") auto
  obtain w2 reps where "inspect_ids a ks w1 = (w2, Inr reps)" "List.map report_id reps = ks"
    using Cons.IH [of w1] Cons.prems by (cases "inspect_ids a ks w1") auto
  with 1 show ?case by simp
qed

lemma inspect_all_returns:
  "registry_inv (agent_registry a) \<Longrightarrow> \<exists>w' reps. inspect_all a w = (w', Inr reps) \<and> List.map report_id reps = list_module_ids (agent_registry a)"
  using inspect_ids_returns [of a "list_module_ids (agent_registry a)" w]
  by (cases "inspect_all a w") (auto simp: inspect_all_def)

section \<open>The scheduler\<close>

text \<open>
  The clock answers with an instant (microseconds since the epoch) that carries a time zone or
  not; \<open>iso_text\<close> is its \<open>isoformat()\<close>.
\<close>

record moment =
  has_timezone :: bool
  micros :: int

record 'w clock =
  read_clock :: "'w \<Rightarrow> 'w \<times> (exc + moment)"
  iso_text :: "moment \<Rightarrow> string"

definition max_history :: nat where "max_history = 100"

record cycle_result =
  started_at :: string
  finished_at :: string
  aggregate :: string
  module_statuses :: "(string \<times> string) list"
  proposals :: nat
  executed :: "(string \<times> string) list"

record 'w scheduler =
  sched_agent :: "'w agent"
  interval_seconds :: int
  history :: "cycle_result list"
  last_run :: "moment option"

fun int_value :: "pyval \<Rightarrow> int" where
  "int_value (PInt i) = i"
| "int_value (PBool b) = of_bool b"
| "int_value _ = 0"

definition new_scheduler :: "'w agent \<Rightarrow> pyval \<Rightarrow> exc + 'w scheduler" where
  "new_scheduler a interval = (if \<not> positive_integer interval
     then raise ValueError ''interval_seconds muss eine positive Ganzzahl sein''
     else Inr \<lparr>sched_agent = a, interval_seconds = int_value interval, history = [], last_run = None\<rparr>)"

definition clock_now :: "'w clock \<Rightarrow> 'w \<Rightarrow> 'w \<times> (exc + moment)" where
  "clock_now C w = then_call (read_clock C w) (\<lambda>w m.
     if \<not> has_timezone m then (w, raise ValueError ''Clock muss zeitzonenbewusste Zeit liefern'') else (w, Inr m))"

definition total_seconds :: "moment \<Rightarrow> moment \<Rightarrow> pyfloat" where
  "total_seconds t0 t1 = to_pf (of_int (micros t1 - micros t0) / 1000000)"

text \<open>\<open>int(v // w)\<close> on floats, \<open>w > 0\<close>: the remainder is exact, the quotient is rounded twice.\<close>

definition rat_trunc :: "rat \<Rightarrow> int" where
  "rat_trunc q = (if 0 \<le> q then \<lfloor>q\<rfloor> else \<lceil>q\<rceil>)"

definition float_floor_div :: "rat \<Rightarrow> rat \<Rightarrow> int" where
  "float_floor_div v w =
     (let m = v - w * of_int (rat_trunc (v / w));
          d = rnd (rnd (v - m) / w);
          q = (if m < 0 then rnd (d - 1) else d);
          f = \<lfloor>q\<rfloor>
      in if 1 / 2 < rnd (q - of_int f) then \<lfloor>rnd (of_int f + 1)\<rfloor> else f)"

definition missed_intervals :: "'w clock \<Rightarrow> 'w scheduler \<Rightarrow> 'w \<Rightarrow> 'w \<times> (exc + int)" where
  "missed_intervals C s w = (case last_run s of
     None \<Rightarrow> (w, Inr 0)
   | Some t0 \<Rightarrow> then_call (clock_now C w) (\<lambda>w t1. (w,
       and_then (py_float (NInt (interval_seconds s))) (\<lambda>i.
       case (total_seconds t0 t1, i) of
         (Fin v, Fin n) \<Rightarrow> Inr (max 0 (float_floor_div v n))
       | _ \<Rightarrow> raise ValueError ''cannot convert float NaN to integer''))))"

definition due :: "'w clock \<Rightarrow> 'w scheduler \<Rightarrow> 'w \<Rightarrow> 'w \<times> (exc + bool)" where
  "due C s w = (case last_run s of
     None \<Rightarrow> (w, Inr True)
   | Some t0 \<Rightarrow> then_call (clock_now C w) (\<lambda>w t1. (w,
       Inr (fle (Fin (of_int (interval_seconds s))) (total_seconds t0 t1)))))"

text \<open>\<open>{r.module_id: status for r in reports}\<close>\<close>

definition statuses_of :: "runtime \<Rightarrow> report list \<Rightarrow> (string \<times> string) list" where
  "statuses_of R reports = fold (\<lambda>r d. AList.update (report_id r) (py_str R (report_status r)) d) reports []"

text \<open>\<open>run_check_cycle\<close> up to the record of the cycle.\<close>

definition cycle_repairs :: "'w agent \<Rightarrow> 'w \<Rightarrow> 'w \<times> nat \<times> (string \<times> string) list" where
  "cycle_repairs a w = (let (w1, props) = prepare_repairs a w;
     (w2, outs) = (if props \<noteq> [] then execute_safe_repairs a props w1 else (w1, [])) in (w2, length props, outs))"

definition cycle_aggregate :: "runtime \<Rightarrow> report list \<Rightarrow> exc + string" where
  "cycle_aggregate R reports = (if reports \<noteq> [] then aggregate_status R (List.map report_status reports) else Inr ''UNKNOWN'')"

definition cycle_body :: "runtime \<Rightarrow> 'w clock \<Rightarrow> 'w agent \<Rightarrow> 'w \<Rightarrow> 'w \<times> (exc + cycle_result)" where
  "cycle_body R C a w =
     then_call (clock_now C w) (\<lambda>w started.
     then_call (inspect_all a w) (\<lambda>w reports.
     case cycle_repairs a w of (w, n, outs) \<Rightarrow>
     then_call (w, cycle_aggregate R reports) (\<lambda>w agg.
     then_call (clock_now C w) (\<lambda>w finished.
     (w, Inr \<lparr>started_at = iso_text C started, finished_at = iso_text C finished, aggregate = agg,
        module_statuses = statuses_of R reports, proposals = n, executed = outs\<rparr>)))))"

definition run_check_cycle :: "runtime \<Rightarrow> 'w clock \<Rightarrow> 'w \<times> 'w scheduler \<Rightarrow> ('w \<times> 'w scheduler) \<times> (exc + cycle_result)" where
  "run_check_cycle R C ws = (case ws of (w, s) \<Rightarrow> (case cycle_body R C (sched_agent s) w of
     (w1, Inl e) \<Rightarrow> ((w1, s), Inl e)
   | (w1, Inr res) \<Rightarrow>
       let grown = history s @ [res];
           s1 = s\<lparr>history := if max_history < length grown then last_n max_history grown else grown\<rparr>
       in (case clock_now C w1 of
            (w2, Inl e) \<Rightarrow> ((w2, s1), Inl e)
          | (w2, Inr t) \<Rightarrow> ((w2, s1\<lparr>last_run := Some t\<rparr>), Inr res))))"

text \<open>Any number of calls, whether they return or raise.\<close>

definition cycles :: "runtime \<Rightarrow> 'w clock \<Rightarrow> nat \<Rightarrow> 'w \<times> 'w scheduler \<Rightarrow> 'w \<times> 'w scheduler" where
  "cycles R C n ws = (((\<lambda>ws. fst (run_check_cycle R C ws)) ^^ n) ws)"

text \<open>What a recorded cycle says about a registry.\<close>

definition cycle_covers :: "'w module_registry \<Rightarrow> cycle_result \<Rightarrow> bool" where
  "cycle_covers r res \<longleftrightarrow> List.map fst (module_statuses res) = list_module_ids r
     \<and> aggregate res = worst_level (List.map snd (module_statuses res))
     \<and> length (executed res) = proposals res"

lemma update_new: "k \<notin> fst ` set d \<Longrightarrow> AList.update k v d = d @ [(k, v)]"
  by (induction d) auto

lemma statuses_of_distinct:
  "distinct (List.map report_id reports) \<Longrightarrow> statuses_of R reports = List.map (\<lambda>r. (report_id r, py_str R (report_status r))) reports"
proof (induction reports rule: rev_induct)
  case Nil
  show ?case by (simp add: statuses_of_def)
next
  case (snoc r rs)
  then have "report_id r \<notin> fst ` set (statuses_of R rs)" by force
  with snoc show ?case by (simp add: statuses_of_def update_new)
qed

lemma execute_safe_repairs_length: "length (snd (execute_safe_repairs a ps w)) = length ps"
  by (induction ps arbitrary: w) (simp_all add: case_prod_beta Let_def)

lemma cycle_repairs_length: "cycle_repairs a w = (w', n, outs) \<Longrightarrow> length outs = n"
  by (auto simp: cycle_repairs_def case_prod_beta Let_def execute_safe_repairs_length split: if_splits)

lemma cycle_aggregate_worst:
  assumes "cycle_aggregate R reports = Inr agg"
  shows "agg = worst_level (List.map (\<lambda>r. py_str R (report_status r)) reports)"
proof (cases "reports = []")
  case True
  then show ?thesis using assms by (simp add: cycle_aggregate_def worst_level_cases)
next
  case False
  then obtain vs where vs: "List.map report_status reports = List.map PStr vs" "agg = worst_level vs"
    using assms by (auto simp: cycle_aggregate_def aggregate_status_def and_then_Inr dest: status_texts_Inr)
  have "List.map (py_str R) (List.map report_status reports) = vs" by (simp add: vs(1) o_def)
  with vs(2) show ?thesis by (simp add: o_def)
qed

lemma cycle_body_Inr:
  assumes "cycle_body R C a w = (w', Inr res)"
  obtains w1 w2 w3 reports where "inspect_all a w1 = (w2, Inr reports)" "cycle_aggregate R reports = Inr (aggregate res)"
    "module_statuses res = statuses_of R reports" "cycle_repairs a w2 = (w3, proposals res, executed res)"
proof -
  obtain w1 t0 where "clock_now C w = (w1, Inr t0)"
    using assms by (auto simp: cycle_body_def then_call_Inr)
  moreover obtain w2 reports where "inspect_all a w1 = (w2, Inr reports)"
    using assms calculation by (auto simp: cycle_body_def then_call_Inr)
  moreover obtain w3 n outs where "cycle_repairs a w2 = (w3, n, outs)" by (cases "cycle_repairs a w2") auto
  ultimately show ?thesis using assms that
    by (auto simp: cycle_body_def then_call_Inr)
qed

lemma cycle_body_covers:
  assumes inv: "registry_inv (agent_registry a)" and body: "cycle_body R C a w = (w', Inr res)"
  shows "cycle_covers (agent_registry a) res"
proof -
  obtain w1 w2 w3 reports where reports: "inspect_all a w1 = (w2, Inr reports)" and agg: "cycle_aggregate R reports = Inr (aggregate res)"
    and res: "module_statuses res = statuses_of R reports" "cycle_repairs a w2 = (w3, proposals res, executed res)"
    using body by (rule cycle_body_Inr)
  have ids: "List.map report_id reports = list_module_ids (agent_registry a)"
    using inspect_all_returns [OF inv, of w1] reports by auto
  then have "distinct (List.map report_id reports)" using inv by (simp add: registry_inv_def list_module_ids_def)
  then have "statuses_of R reports = List.map (\<lambda>r. (report_id r, py_str R (report_status r))) reports"
    by (rule statuses_of_distinct)
  with ids res(1) cycle_repairs_length [OF res(2)] cycle_aggregate_worst [OF agg] show ?thesis
    by (simp add: cycle_covers_def o_def)
qed

lemma last_n_last_n_append: "0 < n \<Longrightarrow> last_n n (last_n n xs @ [x]) = last_n n (xs @ [x])"
proof -
  assume "0 < n"
  then have "Suc (length xs) - (length xs - n + n) + (length xs - n) = Suc (length xs) - n" by linarith
  then show ?thesis by (simp add: last_n_def)
qed

text \<open>
  The entry a call adds: the result of its body, when that returns. The entries of n calls, in order,
  are the log; what the history keeps of it is the question.
\<close>

definition cycle_entry :: "runtime \<Rightarrow> 'w clock \<Rightarrow> 'w \<times> 'w scheduler \<Rightarrow> cycle_result list" where
  "cycle_entry R C ws = (case snd (cycle_body R C (sched_agent (snd ws)) (fst ws)) of Inl e \<Rightarrow> [] | Inr res \<Rightarrow> [res])"

fun cycle_log :: "runtime \<Rightarrow> 'w clock \<Rightarrow> nat \<Rightarrow> 'w \<times> 'w scheduler \<Rightarrow> cycle_result list" where
  "cycle_log R C 0 ws = []"
| "cycle_log R C (Suc n) ws = cycle_log R C n ws @ cycle_entry R C (cycles R C n ws)"

lemma check_cycle_records:
  assumes inv: "registry_inv (agent_registry (sched_agent (snd ws)))" and h: "history (snd ws) = last_n max_history xs"
  shows "history (snd (fst (run_check_cycle R C ws))) = last_n max_history (xs @ cycle_entry R C ws)
     \<and> list_all (cycle_covers (agent_registry (sched_agent (snd ws)))) (cycle_entry R C ws)
     \<and> sched_agent (snd (fst (run_check_cycle R C ws))) = sched_agent (snd ws)"
proof (cases "cycle_body R C (sched_agent (snd ws)) (fst ws)")
  case (Pair w1 r)
  show ?thesis
  proof (cases r)
    case (Inl e)
    then show ?thesis using Pair h by (simp add: cycle_entry_def run_check_cycle_def case_prod_beta)
  next
    case (Inr res)
    have "cycle_covers (agent_registry (sched_agent (snd ws))) res"
      using cycle_body_covers [OF inv] Pair Inr by blast
    moreover have "(if max_history < length (history (snd ws) @ [res]) then last_n max_history (history (snd ws) @ [res])
        else history (snd ws) @ [res]) = last_n max_history (xs @ [res])"
      using last_n_last_n_append [of max_history xs res] h
      by (metis last_n_all length_append_singleton max_history_def not_less zero_less_numeral)
    ultimately show ?thesis using Pair Inr
      by (auto simp: cycle_entry_def run_check_cycle_def case_prod_beta Let_def del: length_append_singleton length_append split: sum.splits if_splits)
  qed
qed

lemma cycles_record:
  assumes inv: "registry_inv (agent_registry (sched_agent (snd ws)))" and h: "history (snd ws) = []"
  shows "history (snd (cycles R C n ws)) = last_n max_history (cycle_log R C n ws)
     \<and> list_all (cycle_covers (agent_registry (sched_agent (snd ws)))) (cycle_log R C n ws)
     \<and> sched_agent (snd (cycles R C n ws)) = sched_agent (snd ws)"
proof (induction n)
  case 0
  show ?case using h by (simp add: cycles_def last_n_def)
next
  case (Suc n)
  have "cycles R C (Suc n) ws = fst (run_check_cycle R C (cycles R C n ws))" by (simp add: cycles_def)
  then show ?case using check_cycle_records [of "cycles R C n ws" "cycle_log R C n ws" R C] Suc inv by simp
qed

text \<open>A call that returns answers with the entry it added.\<close>

lemma returned_is_entry:
  "case snd (run_check_cycle R C ws) of Inl e \<Rightarrow> True | Inr res \<Rightarrow> cycle_entry R C ws = [res]"
proof (cases "cycle_body R C (sched_agent (snd ws)) (fst ws)")
  case (Pair w1 r)
  then show ?thesis
    by (cases r) (auto simp: cycle_entry_def run_check_cycle_def case_prod_beta Let_def split: sum.splits)
qed

lemma new_scheduler_Inr: "new_scheduler a v = Inr s \<longleftrightarrow> positive_integer v
    \<and> s = \<lparr>sched_agent = a, interval_seconds = int_value v, history = [], last_run = None\<rparr>"
  by (auto simp: new_scheduler_def)

text \<open>
  C38: a scheduler exists exactly for a positive integer interval. After any number n of calls, whatever the
  adapters and the clock do, its history is the newest 100 of the entries the calls added, oldest
  first; a call adds the result of its cycle, also when the clock fails afterwards, and a call that
  returns answers with the entry it added; and each entry lists every registered module once, in
  order, with the worst of the listed statuses as its aggregate.
\<close>

theorem history_is_bounded_and_complete:
  "case new_scheduler (new_agent (held allowed cs) policy) interval of
     Inl e \<Rightarrow> fst e = ValueError \<and> \<not> positive_integer interval
   | Inr s \<Rightarrow> positive_integer interval
       \<and> history (snd (cycles R C n (w, s))) = drop (length (cycle_log R C n (w, s)) - 100) (cycle_log R C n (w, s))
       \<and> length (history (snd (cycles R C n (w, s)))) \<le> 100
       \<and> list_all (cycle_covers (held allowed cs)) (cycle_log R C n (w, s))
       \<and> (case snd (run_check_cycle R C (cycles R C n (w, s))) of Inl e \<Rightarrow> True
          | Inr res \<Rightarrow> cycle_log R C (Suc n) (w, s) = cycle_log R C n (w, s) @ [res])"
proof (cases "new_scheduler (new_agent (held allowed cs) policy) interval")
  case (Inl e)
  then show ?thesis by (auto simp: new_scheduler_def split: if_splits)
next
  case (Inr s)
  have inv: "registry_inv (held allowed cs)" unfolding held_def by (rule registrations.run_inv) simp
  have "agent_registry (sched_agent s) = held allowed cs" "history s = []" "positive_integer interval"
    using Inr by (auto simp: new_scheduler_Inr new_agent_def)
  with cycles_record [of "(w, s)" R C n] inv Inr returned_is_entry [of R C "cycles R C n (w, s)"] show ?thesis
    by (auto simp: max_history_def last_n_def split: sum.splits)
qed

text \<open>\<open>due\<close> and \<open>missed_intervals\<close> agree although one rounds and the other compares exactly.\<close>

lemma float_floor_div_pos:
  assumes w: "0 < w" "rnd w = w" and le: "w \<le> v"
  shows "1 \<le> float_floor_div v w"
proof -
  have one: "rnd 1 = 1" using rnd_small_int [of 1] by simp
  have quot: "1 \<le> v / w" using w le by simp
  then have k: "1 \<le> rat_trunc (v / w)" by (simp add: rat_trunc_def)
  define m where "m = v - w * of_int (rat_trunc (v / w))"
  have "of_int (rat_trunc (v / w)) \<le> v / w" using quot by (simp add: rat_trunc_def)
  then have "w * of_int (rat_trunc (v / w)) \<le> v" using w by (simp add: field_simps)
  then have m: "0 \<le> m" by (simp add: m_def)
  have "w * 1 \<le> w * of_int (rat_trunc (v / w))" using w k by (intro mult_left_mono) auto
  then have "w \<le> rnd (v - m)" using w by (intro rnd_ge_repr) (simp_all add: m_def)
  then have "1 \<le> rnd (v - m) / w" using w by simp
  then have d: "1 \<le> rnd (rnd (v - m) / w)" by (intro rnd_ge_repr one)
  then have f: "1 \<le> \<lfloor>rnd (rnd (v - m) / w)\<rfloor>" by simp
  have "(1::rat) \<le> of_int \<lfloor>rnd (rnd (v - m) / w)\<rfloor> + 1" using f by simp
  then have "1 \<le> rnd (of_int \<lfloor>rnd (rnd (v - m) / w)\<rfloor> + 1)" by (intro rnd_ge_repr one)
  then have "1 \<le> \<lfloor>rnd (of_int \<lfloor>rnd (rnd (v - m) / w)\<rfloor> + 1)\<rfloor>" by simp
  with f m show ?thesis unfolding float_floor_div_def Let_def m_def [symmetric] by auto
qed

lemma float_floor_div_nonpos:
  assumes w: "0 < w" and less: "v < w"
  shows "float_floor_div v w \<le> 0"
proof (cases "0 \<le> v")
  case True
  then have "\<lfloor>v / w\<rfloor> = 0" using w less by (simp add: floor_eq_iff)
  then have "rat_trunc (v / w) = 0" using True w by (simp add: rat_trunc_def)
  then show ?thesis using True by (simp add: float_floor_div_def)
next
  case False
  define m where "m = v - w * of_int (rat_trunc (v / w))"
  have neg: "v / w < 0" using False w by (simp add: divide_neg_pos)
  then have k: "rat_trunc (v / w) \<le> 0" "v / w \<le> of_int (rat_trunc (v / w))" by (auto simp: rat_trunc_def ceiling_le_iff)
  have "v - m \<le> 0" using k w by (simp add: m_def mult_nonneg_nonpos)
  then have "rnd (v - m) \<le> 0" by (rule rnd_le_repr) simp
  then have "rnd (v - m) / w \<le> 0" using w by (simp add: divide_nonpos_pos)
  then have d: "rnd (rnd (v - m) / w) \<le> 0" by (rule rnd_le_repr) simp
  then have d1: "rnd (rnd (rnd (v - m) / w) - 1) \<le> 0" by (intro rnd_le_repr) simp_all
  define q where "q = (if m < 0 then rnd (rnd (rnd (v - m) / w) - 1) else rnd (rnd (v - m) / w))"
  have q: "q \<le> 0" using d d1 by (simp add: q_def)
  have "\<lfloor>rnd (of_int \<lfloor>q\<rfloor> + 1)\<rfloor> \<le> 0" if "1 / 2 < rnd (q - of_int \<lfloor>q\<rfloor>)"
  proof -
    have "q \<noteq> 0" using that by auto
    then have "\<lfloor>q\<rfloor> \<le> -1" using q by (simp add: floor_le_iff)
    then have "(of_int \<lfloor>q\<rfloor> + 1 :: rat) \<le> 0" by linarith
    then have "rnd (of_int \<lfloor>q\<rfloor> + 1) \<le> 0" by (rule rnd_le_repr) simp
    then show ?thesis by (simp add: floor_le_iff)
  qed
  moreover have "\<lfloor>q\<rfloor> \<le> 0" using q by (simp add: floor_le_iff)
  ultimately show ?thesis unfolding float_floor_div_def Let_def m_def [symmetric] q_def [symmetric] by auto
qed

lemma due_iff_missed:
  assumes "last_run s = Some t0" and i: "1 \<le> interval_seconds s" "interval_seconds s < 2 ^ 53"
    and "read_clock C w = (w', Inr t1)" "has_timezone t1" and v: "total_seconds t0 t1 = Fin v"
  shows "\<exists>b n. due C s w = (w', Inr b) \<and> missed_intervals C s w = (w', Inr n) \<and> (b \<longleftrightarrow> 1 \<le> n)"
proof -
  let ?i = "of_int (interval_seconds s) :: rat"
  have f: "py_float (NInt (interval_seconds s)) = Inr (Fin ?i)" using i by (intro py_float_small) simp
  have r: "rnd ?i = ?i" using i by (intro rnd_small_int) simp
  have "?i \<le> v \<longleftrightarrow> 1 \<le> max 0 (float_floor_div v ?i)"
    using float_floor_div_pos [of ?i v] float_floor_div_nonpos [of ?i v] i r by (cases "?i \<le> v") auto
  then show ?thesis using assms f by (auto simp: due_def missed_intervals_def clock_now_def fle_def le_less)
qed

section \<open>The driver\<close>

text \<open>
  The configuration directory is the list of its file names, each with the value
  \<open>json.load\<close> gives (or the exception of opening, decoding or parsing it).
\<close>

definition config_files :: "string list \<Rightarrow> string list" where
  "config_files names = List.filter (\<lambda>p. \<not> ends_with ''.example.json'' p)
     (sort (List.filter (\<lambda>p. ends_with ''.json'' p \<and> \<not> starts_with ''.'' p) names))"

fun register_files :: "(string \<Rightarrow> exc + pyval) \<Rightarrow> string list \<Rightarrow> 'w module_registry \<Rightarrow> exc + 'w module_registry" where
  "register_files read [] r = Inr r"
| "register_files read (p # ps) r = and_then (read p) (\<lambda>data. and_then (load_module_spec data) (\<lambda>spec.
     (case register spec None r of (r', Inl e) \<Rightarrow> Inl e | (r', Inr u) \<Rightarrow> register_files read ps r')))"

definition build_registry_from_config :: "(string \<Rightarrow> exc + pyval) \<Rightarrow> string list \<Rightarrow> exc + 'w module_registry" where
  "build_registry_from_config read names = register_files read (config_files names) (new_module_registry default_allowed_permissions)"

fun run_cycles :: "runtime \<Rightarrow> 'w clock \<Rightarrow> nat \<Rightarrow> cycle_result option \<Rightarrow> 'w \<times> 'w scheduler \<Rightarrow> ('w \<times> 'w scheduler) \<times> (exc + cycle_result option)" where
  "run_cycles R C 0 final ws = (ws, Inr final)"
| "run_cycles R C (Suc n) final ws = then_call (run_check_cycle R C ws) (\<lambda>ws res. run_cycles R C n (Some res) ws)"

definition result_dict :: "cycle_result \<Rightarrow> pydict" where
  "result_dict c = [(''aggregate'', PStr (aggregate c)), (''modules'', PDict (List.map (\<lambda>(k, v). (k, PStr v)) (module_statuses c))),
     (''proposals'', PInt (int (proposals c))), (''executed'', PList (List.map (\<lambda>(k, v). PList [PStr k, PStr v]) (executed c))),
     (''started_at'', PStr (started_at c)), (''finished_at'', PStr (finished_at c))]"

definition run_once :: "runtime \<Rightarrow> 'w clock \<Rightarrow> 'w module_registry \<Rightarrow> pyval \<Rightarrow> pyval \<Rightarrow> 'w \<Rightarrow> 'w \<times> (exc + pydict)" where
  "run_once R C r max_cycles interval w =
     (if \<not> positive_integer max_cycles then (w, raise ValueError ''max_cycles muss >= 1 sein'')
      else case new_scheduler (new_agent r None) interval of
        Inl e \<Rightarrow> (w, Inl e)
      | Inr s \<Rightarrow> (case run_cycles R C (nat (int_value max_cycles)) None (w, s) of
          ((w', _), Inl e) \<Rightarrow> (w', Inl e)
        | ((w', _), Inr None) \<Rightarrow> (w', raise RuntimeError ''Kein Zyklus ausgefuehrt'')
        | ((w', _), Inr (Some c)) \<Rightarrow> (w', Inr (result_dict c))))"

text \<open>\<open>main\<close> after argument parsing: the exit code and the object it prints.\<close>

definition error_output :: "string \<Rightarrow> int \<times> pyval" where
  "error_output why = (1, PDict [(''error'', PStr why), (''status'', PStr ''FAILED'')])"

definition cycle_main :: "runtime \<Rightarrow> 'w clock \<Rightarrow> (string \<Rightarrow> exc + pyval) \<Rightarrow> string \<Rightarrow> string list option \<Rightarrow> int \<Rightarrow> int \<Rightarrow> 'w \<Rightarrow> 'w \<times> (int \<times> pyval)" where
  "cycle_main R C read config_dir names max_cycles interval w = (case names of
     None \<Rightarrow> (w, error_output (''Konfigurationsverzeichnis fehlt: '' @ config_dir))
   | Some ns \<Rightarrow> (case build_registry_from_config read ns of
       Inl e \<Rightarrow> (w, error_output (snd e))
     | Inr r \<Rightarrow> (case run_once R C r (PInt max_cycles) (PInt interval) w of
         (w', Inl e) \<Rightarrow> (w', error_output (snd e))
       | (w', Inr d) \<Rightarrow> (w', (if dget d ''aggregate'' \<noteq> PStr ''FAILED'' then 0 else 1, PDict d)))))"

text \<open>The default clock \<open>datetime.now(timezone.utc)\<close>, and what a cycle without adapters records.\<close>

definition utc_clock :: "('w \<Rightarrow> 'w) \<Rightarrow> ('w \<Rightarrow> int) \<Rightarrow> (moment \<Rightarrow> string) \<Rightarrow> 'w clock" where
  "utc_clock tick instant fmt = \<lparr>read_clock = (\<lambda>w. (tick w, Inr \<lparr>has_timezone = True, micros = instant w\<rparr>)), iso_text = fmt\<rparr>"

definition bare_registry :: "'w module_registry \<Rightarrow> bool" where
  "bare_registry r \<longleftrightarrow> registry_inv r \<and> list_all (\<lambda>(k, a). a = None) (adapters r)"

definition bare_result :: "'w module_registry \<Rightarrow> cycle_result \<Rightarrow> bool" where
  "bare_result r c \<longleftrightarrow> aggregate c = ''UNKNOWN'' \<and> proposals c = 0 \<and> executed c = []
     \<and> module_statuses c = List.map (\<lambda>k. (k, ''UNKNOWN'')) (list_module_ids r)"

lemma bare_no_adapter [simp]: "bare_registry r \<Longrightarrow> get_adapter r k = None"
  by (auto simp: bare_registry_def get_adapter_def list_all_iff split: option.splits dest: map_of_SomeD)

lemma register_bare: "bare_registry r \<Longrightarrow> bare_registry (fst (register spec None r))"
  using register_keeps_inv [of r spec None] by (auto simp: bare_registry_def register_def Let_def)

lemma register_files_bare: "register_files read ps r = Inr r' \<Longrightarrow> bare_registry r \<Longrightarrow> bare_registry r'"
proof (induction ps arbitrary: r)
  case Nil
  then show ?case by simp
next
  case (Cons p ps)
  obtain spec where rest: "(case register spec None r of (r', Inl e) \<Rightarrow> Inl e | (r', Inr u) \<Rightarrow> register_files read ps r') = Inr r'"
    using Cons.prems(1) by (auto simp: and_then_Inr)
  then show ?case using Cons.IH register_bare [OF Cons.prems(2), of spec]
    by (cases "register spec None r"; cases "snd (register spec None r)") auto
qed

lemma build_registry_bare: "build_registry_from_config read names = Inr r \<Longrightarrow> bare_registry r"
  unfolding build_registry_from_config_def
  by (erule register_files_bare) (simp add: bare_registry_def, simp add: new_module_registry_def)

lemma inspect_ids_bare:
  assumes bare: "bare_registry (agent_registry a)" and "set ks \<subseteq> set (list_module_ids (agent_registry a))"
  shows "\<exists>reps. inspect_ids a ks w = (w, Inr reps) \<and> List.map report_id reps = ks
     \<and> list_all (\<lambda>r. report_status r = PStr ''UNKNOWN'') reps"
  using assms(2)
proof (induction ks)
  case Nil
  show ?case by simp
next
  case (Cons k ks)
  then obtain spec where "get_spec (agent_registry a) k = Inr spec"
    using get_spec_in [of "agent_registry a" k] bare by (auto simp: bare_registry_def)
  with Cons bare show ?case by (auto simp: inspect_module_def unknown_report_def)
qed

lemma prepare_ids_bare: "bare_registry (agent_registry a) \<Longrightarrow> prepare_ids a ks w = (w, [])"
  by (induction ks) simp_all

lemma unknown_statuses:
  "list_all (\<lambda>r. report_status r = PStr ''UNKNOWN'') reps \<Longrightarrow>
   List.map (\<lambda>r. (report_id r, py_str R (report_status r))) reps = List.map (\<lambda>k. (k, ''UNKNOWN'')) (List.map report_id reps)"
  by (induction reps) auto

lemma worst_level_unknown: "worst_level (List.map (\<lambda>x. ''UNKNOWN'') xs) = ''UNKNOWN''"
  by (auto simp: worst_level_cases)

lemma cycle_body_bare:
  assumes bare: "bare_registry (agent_registry a)"
  shows "\<exists>c. cycle_body R (utc_clock tick instant fmt) a w = (tick (tick w), Inr c) \<and> bare_result (agent_registry a) c"
proof -
  let ?ids = "list_module_ids (agent_registry a)"
  obtain reps where reps: "inspect_all a (tick w) = (tick w, Inr reps)" "List.map report_id reps = ?ids"
      "list_all (\<lambda>r. report_status r = PStr ''UNKNOWN'') reps"
    using inspect_ids_bare [OF bare, of ?ids "tick w"] by (auto simp: inspect_all_def)
  have "distinct (List.map report_id reps)" using bare reps(2) by (simp add: bare_registry_def registry_inv_def list_module_ids_def)
  then have st: "statuses_of R reps = List.map (\<lambda>k. (k, ''UNKNOWN'')) ?ids"
    using unknown_statuses [OF reps(3)] reps(2) by (simp add: statuses_of_distinct)
  have "List.map report_status reps = List.map PStr (List.map (\<lambda>x. ''UNKNOWN'') reps)"
    using reps(3) by (induction reps) auto
  then have "cycle_aggregate R reps = Inr ''UNKNOWN''"
    by (simp add: cycle_aggregate_def aggregate_status_def worst_level_unknown del: map_map)
  with reps(1) st show ?thesis
    by (simp add: cycle_body_def clock_now_def utc_clock_def cycle_repairs_def prepare_repairs_def prepare_ids_bare [OF bare] bare_result_def)
qed

lemma check_cycle_bare:
  assumes bare: "bare_registry (agent_registry (sched_agent s))"
  shows "\<exists>c s'. run_check_cycle R (utc_clock tick instant fmt) (w, s) = ((tick (tick (tick w)), s'), Inr c)
     \<and> bare_result (agent_registry (sched_agent s)) c \<and> sched_agent s' = sched_agent s"
  using cycle_body_bare [OF bare, of R tick instant fmt w]
  by (auto simp: run_check_cycle_def Let_def clock_now_def utc_clock_def)

lemma run_cycles_bare:
  assumes "bare_registry (agent_registry (sched_agent s))"
  shows "\<exists>c s'. run_cycles R (utc_clock tick instant fmt) (Suc n) final (w, s) = (((tick ^^ (3 * Suc n)) w, s'), Inr (Some c))
     \<and> bare_result (agent_registry (sched_agent s)) c"
  using assms
proof (induction n arbitrary: final w s)
  case 0
  then show ?case using check_cycle_bare [OF 0, of R tick instant fmt w] by (auto simp: numeral_3_eq_3)
next
  case (Suc n)
  obtain c s1 where 1: "run_check_cycle R (utc_clock tick instant fmt) (w, s) = (((tick ^^ 3) w, s1), Inr c)"
      "sched_agent s1 = sched_agent s"
    using check_cycle_bare [OF Suc.prems, of R tick instant fmt w] by (auto simp: numeral_3_eq_3)
  then have "bare_registry (agent_registry (sched_agent s1))" using Suc.prems by simp
  from Suc.IH [OF this, of "Some c" "(tick ^^ 3) w"] obtain d s2 where
    "run_cycles R (utc_clock tick instant fmt) (Suc n) (Some c) ((tick ^^ 3) w, s1) = (((tick ^^ (3 * Suc n)) ((tick ^^ 3) w), s2), Inr (Some d))"
    "bare_result (agent_registry (sched_agent s)) d" using 1(2) by auto
  moreover have "(tick ^^ (3 * Suc n)) ((tick ^^ 3) w) = (tick ^^ (3 * Suc (Suc n))) w"
    by (simp add: funpow_add [symmetric, THEN fun_cong, unfolded o_apply] del: funpow.simps)
  ultimately show ?case using 1(1) by (subst run_cycles.simps) auto
qed

text \<open>The registry of a directory holds the modules its files describe.\<close>

lemma register_None_specs:
  "register spec None r = (r', Inr u) \<Longrightarrow> List.map fst (specs r') = List.map fst (specs r) @ [module_id spec]"
  by (auto simp: register_def Let_def split: if_splits)

lemma register_files_specs:
  "register_files read ps r = Inr r' \<Longrightarrow> \<exists>ss. List.map (\<lambda>p. and_then (read p) load_module_spec) ps = List.map Inr ss
     \<and> List.map fst (specs r') = List.map fst (specs r) @ List.map module_id ss"
proof (induction ps arbitrary: r)
  case Nil
  then show ?case by (intro exI [of _ "[]"]) simp
next
  case (Cons p ps)
  obtain data spec where read: "read p = Inr data" "load_module_spec data = Inr spec"
    and rest: "(case register spec None r of (r', Inl e) \<Rightarrow> Inl e | (r', Inr u) \<Rightarrow> register_files read ps r') = Inr r'"
    using Cons.prems by (auto simp: and_then_Inr)
  then obtain r1 u where r1: "register spec None r = (r1, Inr u)" "register_files read ps r1 = Inr r'"
    by (cases "register spec None r"; cases "snd (register spec None r)") auto
  from Cons.IH [OF r1(2)] obtain ss where "List.map (\<lambda>p. and_then (read p) load_module_spec) ps = List.map Inr ss"
    "List.map fst (specs r') = List.map fst (specs r1) @ List.map module_id ss" by blast
  then show ?case using read register_None_specs [OF r1(1)] by (intro exI [of _ "spec # ss"]) simp
qed

lemma build_registry_modules:
  "build_registry_from_config read names = Inr r \<Longrightarrow> \<exists>ss. List.map (\<lambda>p. and_then (read p) load_module_spec) (config_files names) = List.map Inr ss
     \<and> list_module_ids r = sort (List.map module_id ss)"
  unfolding build_registry_from_config_def list_module_ids_def
  by (drule register_files_specs) (auto simp: new_module_registry_def)

text \<open>
  C20: on the UTC clock \<open>main\<close> succeeds exactly when the directory exists, every module file in it
  can be registered, and both numbers are positive; it then reads the clock three times per cycle,
  touches nothing else, and its table of modules has the identifier of every specification in the
  directory (the examples apart), sorted, each with the status \<open>UNKNOWN\<close>, which is also the aggregate;
  nothing is proposed or executed. Otherwise it prints the FAILED object.
\<close>

theorem described_modules_stay_unknown:
  "case cycle_main R (utc_clock tick instant fmt) read config_dir names max_cycles interval (w :: 'w) of (w', status, out) \<Rightarrow>
     (status = 0 \<longleftrightarrow> 1 \<le> max_cycles \<and> 1 \<le> interval
        \<and> (\<exists>ns (r :: 'w module_registry). names = Some ns \<and> build_registry_from_config read ns = Inr r))
     \<and> (status = 1 \<and> w' = w \<and> get_in out ''status'' = PStr ''FAILED''
        \<or> status = 0 \<and> w' = (tick ^^ (3 * nat max_cycles)) w \<and> get_in out ''aggregate'' = PStr ''UNKNOWN''
          \<and> get_in out ''proposals'' = PInt 0 \<and> get_in out ''executed'' = PList []
          \<and> (\<exists>ns ss. names = Some ns \<and> List.map (\<lambda>p. and_then (read p) load_module_spec) (config_files ns) = List.map Inr ss
               \<and> get_in out ''modules'' = PDict (List.map (\<lambda>k. (k, PStr ''UNKNOWN'')) (sort (List.map module_id ss)))))"
proof (cases names)
  case None
  then show ?thesis by (simp add: cycle_main_def error_output_def)
next
  case (Some ns)
  show ?thesis
  proof (cases "build_registry_from_config read ns :: exc + 'w module_registry")
    case (Inl e)
    then show ?thesis using Some by (simp add: cycle_main_def error_output_def)
  next
    case (Inr r)
    let ?s = "\<lparr>sched_agent = new_agent r None, interval_seconds = interval, history = [], last_run = None\<rparr>"
    have "agent_registry (sched_agent ?s) = r" by (simp add: new_agent_def)
    then obtain c s' where run: "run_cycles R (utc_clock tick instant fmt) (Suc (nat max_cycles - 1)) None (w, ?s)
        = (((tick ^^ (3 * Suc (nat max_cycles - 1))) w, s'), Inr (Some c))" and c: "bare_result r c"
      using run_cycles_bare [of ?s R tick instant fmt "nat max_cycles - 1" None w] build_registry_bare [OF Inr] by metis
    have "Suc (nat max_cycles - 1) = nat max_cycles" if "1 \<le> max_cycles" using that by simp
    then have cycles: "run_cycles R (utc_clock tick instant fmt) (nat max_cycles) None (w, ?s)
        = (((tick ^^ (3 * nat max_cycles)) w, s'), Inr (Some c))" if "1 \<le> max_cycles" using run that by metis
    obtain ss where ss: "List.map (\<lambda>p. and_then (read p) load_module_spec) (config_files ns) = List.map Inr ss"
        "list_module_ids r = sort (List.map module_id ss)"
      using build_registry_modules [OF Inr] by blast
    have table: "get_in (PDict (result_dict c)) ''modules'' = PDict (List.map (\<lambda>k. (k, PStr ''UNKNOWN'')) (sort (List.map module_id ss)))"
      using c by (simp add: result_dict_def bare_result_def ss(2) comp_def)
    show ?thesis
    proof (cases "1 \<le> max_cycles \<and> 1 \<le> interval")
      case True
      have "cycle_main R (utc_clock tick instant fmt) read config_dir names max_cycles interval w
          = ((tick ^^ (3 * nat max_cycles)) w, 0, PDict (result_dict c))"
        using True Some Inr cycles c by (simp add: cycle_main_def run_once_def new_scheduler_def result_dict_def bare_result_def)
      moreover have "get_in (PDict (result_dict c)) ''aggregate'' = PStr ''UNKNOWN''" "get_in (PDict (result_dict c)) ''proposals'' = PInt 0"
          "get_in (PDict (result_dict c)) ''executed'' = PList []"
        using c by (simp_all add: result_dict_def bare_result_def)
      ultimately show ?thesis using True Some Inr ss(1) table by auto
    next
      case False
      then show ?thesis using Some Inr
        by (auto simp: cycle_main_def run_once_def new_scheduler_def error_output_def)
    qed
  qed
qed

end
