(* ===== verification/V99Recovery.thy ===== *)
theory V99Recovery
  imports PyText
begin

text \<open>
  The packages \<open>v99/recovery\<close> and \<open>v99/security\<close>: digests of files (\<open>integrity.py\<close>), backups that are
  never overwritten and restores that are verified (\<open>backup.py\<close>), the secret stores
  (\<open>secret_store.py\<close>) and the rotation contract (\<open>key_rotation.py\<close>). The two stores are two
  interpretations of one interface; the provider of a rotation is code of others.
\<close>

section \<open>Files\<close>

text \<open>
  The file system of a backup: the bytes at each file path and the directories. Faults of the
  operating system are inputs of each call: an exception of \<open>makedirs\<close>, of reading, and of
  \<open>copy2\<close> with what it left at the destination.
\<close>

record disk =
  disk_files :: "(string \<times> string) list"
  disk_dirs :: "string list"

record disk_faults =
  dir_fault :: "exc option"
  copy_fault :: "(string option \<times> exc) option"
  read_fault :: "exc option"

definition no_faults :: disk_faults where
  "no_faults = \<lparr>dir_fault = None, copy_fault = None, read_fault = None\<rparr>"

definition file_at :: "disk \<Rightarrow> string \<Rightarrow> string option" where
  "file_at d p = map_of (disk_files d) p"

definition path_exists :: "disk \<Rightarrow> string \<Rightarrow> bool" where
  "path_exists d p \<longleftrightarrow> p \<in> fst ` set (disk_files d) \<or> p \<in> set (disk_dirs d)"

definition put_file :: "string \<Rightarrow> string \<Rightarrow> disk \<Rightarrow> disk" where
  "put_file p b d = d\<lparr>disk_files := AList.update p b (disk_files d)\<rparr>"

text \<open>\<open>os.path.join\<close>, \<open>os.path.basename\<close> and \<open>os.path.dirname\<close> on POSIX paths\<close>

definition join_path :: "string \<Rightarrow> string \<Rightarrow> string" where
  "join_path a b = (if starts_with ''/'' b then b else if a = [] \<or> ends_with ''/'' a then a @ b else a @ ''/'' @ b)"

definition base_name :: "string \<Rightarrow> string" where
  "base_name p = last (split_on (CHR 0x2F) p)"

definition dir_name :: "string \<Rightarrow> string" where
  "dir_name p = (let head = take (length p - length (base_name p)) p in
     if list_all (\<lambda>c. c = CHR 0x2F) head then head
     else rev (dropWhile (\<lambda>c. c = CHR 0x2F) (rev head)))"

text \<open>\<open>os.path.abspath\<close> for a current directory \<open>cwd\<close>\<close>

fun norm_parts :: "string list \<Rightarrow> string list \<Rightarrow> string list" where
  "norm_parts acc [] = rev acc"
| "norm_parts acc (q # qs) = (if q = [] \<or> q = ''.'' then norm_parts acc qs
     else if q = ''..'' then norm_parts (drop 1 acc) qs else norm_parts (q # acc) qs)"

definition abs_path :: "string \<Rightarrow> string \<Rightarrow> string" where
  "abs_path cwd p = ''/'' @ join ''/'' (norm_parts [] (split_on (CHR 0x2F) (join_path cwd p)))"

text \<open>\<open>os.makedirs(path, exist_ok=True)\<close> creates every missing directory on the way.\<close>

definition path_prefixes :: "string \<Rightarrow> string list" where
  "path_prefixes p = List.map (\<lambda>i. take i p) (List.filter (\<lambda>i. p ! i = CHR 0x2F) [1..<length p]) @ [p]"

definition make_dirs :: "disk_faults \<Rightarrow> string \<Rightarrow> disk \<Rightarrow> disk \<times> (exc + unit)" where
  "make_dirs f p d = (case dir_fault f of
     Some e \<Rightarrow> (d, Inl e)
   | None \<Rightarrow> if p = [] then (d, raise FileNotFoundError ''No such file or directory'')
       else if list_ex (\<lambda>q. q \<in> fst ` set (disk_files d)) (path_prefixes p)
       then (d, raise FileExistsError (''File exists: '' @ p))
       else (d\<lparr>disk_dirs := remdups (disk_dirs d @ path_prefixes p)\<rparr>, Inr ()))"

text \<open>\<open>shutil.copy2\<close>: into a directory under the same name, never onto itself.\<close>

definition copy_target :: "disk \<Rightarrow> string \<Rightarrow> string \<Rightarrow> string" where
  "copy_target d src dst = (if dst \<in> set (disk_dirs d) then join_path dst (base_name src) else dst)"

definition copy_file :: "disk_faults \<Rightarrow> string \<Rightarrow> string \<Rightarrow> disk \<Rightarrow> disk \<times> (exc + unit)" where
  "copy_file f src dst d = (let target = copy_target d src dst in
     case file_at d src of
       None \<Rightarrow> (d, raise FileNotFoundError (''No such file or directory: '' @ src))
     | Some b \<Rightarrow> if src = target then (d, raise OSError (''same file: '' @ src))
         else if target \<in> set (disk_dirs d) then (d, raise OSError (''Is a directory: '' @ target))
         else (case copy_fault f of
             None \<Rightarrow> (put_file target b d, Inr ())
           | Some (left, e) \<Rightarrow> ((case left of None \<Rightarrow> d | Some x \<Rightarrow> put_file target x d), Inl e)))"

section \<open>Digests\<close>

text \<open>The chunks the hash is fed with.\<close>

function read_chunks :: "nat \<Rightarrow> string \<Rightarrow> string list" where
  "read_chunks n s = (if s = [] \<or> n = 0 then [] else take n s # read_chunks n (drop n s))"
  by pat_completeness auto
termination by (relation "measure (\<lambda>(n, s). length s)") auto

declare read_chunks.simps [simp del]

definition file_sha256 :: "runtime \<Rightarrow> disk_faults \<Rightarrow> disk \<Rightarrow> string \<Rightarrow> exc + string" where
  "file_sha256 R f d p = (case file_at d p of
     None \<Rightarrow> if p \<in> set (disk_dirs d) then raise OSError (''Is a directory: '' @ p)
       else raise FileNotFoundError (''No such file or directory: '' @ p)
   | Some b \<Rightarrow> (case read_fault f of Some e \<Rightarrow> Inl e | None \<Rightarrow> Inr (sha256_hex R (concat (read_chunks 65536 b)))))"

definition verify_file :: "runtime \<Rightarrow> disk_faults \<Rightarrow> disk \<Rightarrow> string \<Rightarrow> pyval \<Rightarrow> exc + bool" where
  "verify_file R f d p expected = (case expected of
     PStr e \<Rightarrow> if length e \<noteq> 64 then Inr False else and_then (file_sha256 R f d p) (\<lambda>h. Inr (h = e))
   | _ \<Rightarrow> Inr False)"

lemma concat_read_chunks: "0 < n \<Longrightarrow> concat (read_chunks n s) = s"
proof (induction n s rule: read_chunks.induct)
  case (1 n s)
  show ?case
  proof (cases "s = []")
    case True
    then show ?thesis by (simp add: read_chunks.simps)
  next
    case False
    with 1 have "concat (read_chunks n (drop n s)) = drop n s" by simp
    with False 1(2) show ?thesis by (subst read_chunks.simps) simp
  qed
qed

lemma file_sha256_Inr: "file_sha256 R f d p = Inr h \<longleftrightarrow> (\<exists>b. file_at d p = Some b \<and> read_fault f = None \<and> h = sha256_hex R b)"
  by (auto simp: file_sha256_def concat_read_chunks split: option.splits)

lemma verify_file_True: "verify_file R f d p v = Inr True \<longleftrightarrow>
    (\<exists>b e. v = PStr e \<and> length e = 64 \<and> file_at d p = Some b \<and> read_fault f = None \<and> sha256_hex R b = e)"
  by (cases v) (auto simp: verify_file_def and_then_Inr file_sha256_Inr)

section \<open>Backups\<close>

record backup_result =
  backup_source :: string
  backup_path :: string
  backup_sha256 :: string
  size_bytes :: nat

definition numbered_backup :: "string \<Rightarrow> string \<Rightarrow> nat \<Rightarrow> string" where
  "numbered_backup dir base n = join_path dir (base @ ''.'' @ show_nat n @ ''.bak'')"

text \<open>The search for a free number ends because only finitely many paths exist.\<close>

lemma numbered_backup_inj: "numbered_backup dir base m = numbered_backup dir base n \<longleftrightarrow> m = n"
proof -
  have "starts_with ''/'' (base @ ''.'' @ x) \<longleftrightarrow> starts_with ''/'' (base @ ''.'' @ y)" for x y
    by (cases base) (auto simp: starts_with_def)
  then show ?thesis unfolding numbered_backup_def join_path_def by (auto simp: show_nat_inj)
qed

definition taken_numbers :: "disk \<Rightarrow> string \<Rightarrow> string \<Rightarrow> nat \<Rightarrow> nat set" where
  "taken_numbers d dir base n = {m. n \<le> m \<and> path_exists d (numbered_backup dir base m)}"

lemma finite_taken: "finite (taken_numbers d dir base n)"
proof -
  have "numbered_backup dir base ` taken_numbers d dir base n \<subseteq> fst ` set (disk_files d) \<union> set (disk_dirs d)"
    by (auto simp: taken_numbers_def path_exists_def)
  then have "finite (numbered_backup dir base ` taken_numbers d dir base n)" by (rule finite_subset) simp
  then show ?thesis by (rule finite_imageD) (simp add: inj_on_def numbered_backup_inj)
qed

lemma taken_decreases:
  "path_exists d (numbered_backup dir base n) \<Longrightarrow> card (taken_numbers d dir base (Suc n)) < card (taken_numbers d dir base n)"
proof (rule psubset_card_mono [OF finite_taken])
  assume "path_exists d (numbered_backup dir base n)"
  then have "n \<in> taken_numbers d dir base n" "n \<notin> taken_numbers d dir base (Suc n)"
    "taken_numbers d dir base (Suc n) \<subseteq> taken_numbers d dir base n" by (auto simp: taken_numbers_def)
  then show "taken_numbers d dir base (Suc n) \<subset> taken_numbers d dir base n" by blast
qed

function free_number :: "disk \<Rightarrow> string \<Rightarrow> string \<Rightarrow> nat \<Rightarrow> nat" where
  "free_number d dir base n = (if path_exists d (numbered_backup dir base n) then free_number d dir base (Suc n) else n)"
  by pat_completeness auto
termination by (relation "measure (\<lambda>(d, dir, base, n). card (taken_numbers d dir base n))") (simp_all add: taken_decreases)

declare free_number.simps [simp del]

definition backup_name :: "disk \<Rightarrow> string \<Rightarrow> string \<Rightarrow> string" where
  "backup_name d dir base = (let p = join_path dir (base @ ''.bak'') in
     if path_exists d p then numbered_backup dir base (free_number d dir base 1) else p)"

definition create_backup :: "runtime \<Rightarrow> disk_faults \<Rightarrow> string \<Rightarrow> string \<Rightarrow> disk \<Rightarrow> disk \<times> (exc + backup_result)" where
  "create_backup R f src backup_dir d =
     (if file_at d src = None then (d, raise FileNotFoundError (''Quelldatei fehlt: '' @ src))
      else then_call (make_dirs f backup_dir d) (\<lambda>d _.
        let p = backup_name d backup_dir (base_name src) in
        then_call (copy_file f src p d) (\<lambda>d _.
        attempt d (file_sha256 R f d p) (\<lambda>h.
        attempt d (case file_at d p of Some b \<Rightarrow> Inr (length b) | None \<Rightarrow> raise FileNotFoundError p) (\<lambda>n.
        (d, Inr \<lparr>backup_source = src, backup_path = p, backup_sha256 = h, size_bytes = n\<rparr>))))))"

definition restore_backup :: "runtime \<Rightarrow> disk_faults \<Rightarrow> string \<Rightarrow> string \<Rightarrow> string \<Rightarrow> pyval \<Rightarrow> bool \<Rightarrow> disk \<Rightarrow> disk \<times> (exc + bool)" where
  "restore_backup R f cwd bak dst expected allow_overwrite d =
     (if file_at d bak = None then (d, raise FileNotFoundError (''Backup fehlt: '' @ bak))
      else attempt d (verify_file R f d bak expected) (\<lambda>ok.
        if \<not> ok then (d, Inr False)
        else if path_exists d dst \<and> \<not> allow_overwrite
        then (d, raise FileExistsError (''Ziel existiert bereits: '' @ dst
          @ '' (allow_overwrite=True noetig '' @ [CHR 0x2D] @ '' keine stillschweigende Ueberschreibung)''))
        else then_call (make_dirs f (let p = dir_name (abs_path cwd dst) in if p = [] then ''.'' else p) d) (\<lambda>d _.
          then_call (copy_file f bak dst d) (\<lambda>d _.
          (d, verify_file R f d dst expected)))))"

lemma free_number_free: "\<not> path_exists d (numbered_backup dir base (free_number d dir base n))"
proof (induction d dir base n rule: free_number.induct)
  case (1 d dir base n)
  then show ?case by (cases "path_exists d (numbered_backup dir base n)") (subst free_number.simps, simp)+
qed

lemma backup_name_free: "\<not> path_exists d (backup_name d dir base)"
  by (simp add: backup_name_def Let_def free_number_free)

lemma file_at_exists: "file_at d p = Some b \<Longrightarrow> path_exists d p"
  by (force simp: file_at_def path_exists_def dest: map_of_SomeD)

lemma file_at_put [simp]: "file_at (put_file p b d) q = (if q = p then Some b else file_at d q)"
  by (simp add: file_at_def put_file_def update_conv)

lemma make_dirs_files [simp]: "file_at (fst (make_dirs f p d)) q = file_at d q"
  by (simp add: make_dirs_def file_at_def split: option.splits)

lemma make_dirs_Inr: "make_dirs f p d = (d', Inr u) \<Longrightarrow> file_at d' q = file_at d q"
  using make_dirs_files [of f p d q] by simp

lemma copy_file_others: "q \<noteq> copy_target d src dst \<Longrightarrow> file_at (fst (copy_file f src dst d)) q = file_at d q"
  by (auto simp: copy_file_def Let_def split: option.splits)

lemma copy_file_Inr: "copy_file f src dst d = (d', Inr u) \<longleftrightarrow> (\<exists>b. file_at d src = Some b \<and> src \<noteq> copy_target d src dst
    \<and> copy_target d src dst \<notin> set (disk_dirs d) \<and> copy_fault f = None \<and> d' = put_file (copy_target d src dst) b d)"
  by (auto simp: copy_file_def Let_def split: option.splits)

text \<open>Every file of \<open>d\<close> is in \<open>d'\<close> with the same bytes.\<close>

definition files_kept :: "disk \<Rightarrow> disk \<Rightarrow> bool" where
  "files_kept d d' \<longleftrightarrow> list_all (\<lambda>p. file_at d' p = file_at d p) (List.map fst (disk_files d))"

lemma files_kept_iff: "files_kept d d' \<longleftrightarrow> (\<forall>p. file_at d p \<noteq> None \<longrightarrow> file_at d' p = file_at d p)"
  by (force simp: files_kept_def list_all_iff file_at_def map_of_eq_None_iff)

lemma files_kept_refl [simp]: "files_kept d d"
  by (simp add: files_kept_iff)

lemma files_kept_trans: "files_kept d d1 \<Longrightarrow> files_kept d1 d2 \<Longrightarrow> files_kept d d2"
  by (simp add: files_kept_iff)

lemma kept_then_call:
  assumes "files_kept d (fst r)" "\<And>d1 x. r = (d1, Inr x) \<Longrightarrow> files_kept d1 (fst (f d1 x))"
  shows "files_kept d (fst (then_call r f))"
  using assms by (cases "(r, f)" rule: then_call.cases) (auto intro: files_kept_trans)

lemma kept_attempt:
  assumes "files_kept d d1" "\<And>x. r = Inr x \<Longrightarrow> files_kept d1 (fst (f x))"
  shows "files_kept d (fst (attempt d1 r f))"
  using assms by (cases r) (auto intro: files_kept_trans)

lemma copy_to_free_keeps: "\<not> path_exists d p \<Longrightarrow> files_kept d (fst (copy_file f src p d))"
  unfolding files_kept_iff
  using copy_file_others [of _ d src p f] file_at_exists [of d p]
  by (metis (full_types) copy_target_def not_Some_eq path_exists_def)

lemma make_dirs_keeps [simp]: "files_kept d (fst (make_dirs f p d))"
  by (simp add: files_kept_iff)

lemma create_backup_keeps: "files_kept d (fst (create_backup R f src dir d))"
  by (simp add: create_backup_def Let_def kept_then_call kept_attempt copy_to_free_keeps backup_name_free)

text \<open>What a returned backup is.\<close>

definition true_backup :: "runtime \<Rightarrow> string \<Rightarrow> disk \<Rightarrow> disk \<Rightarrow> backup_result \<Rightarrow> bool" where
  "true_backup R src d d' b \<longleftrightarrow> backup_source b = src \<and> file_at d (backup_path b) = None
     \<and> file_at d src \<noteq> None \<and> file_at d' (backup_path b) = file_at d src
     \<and> backup_sha256 b = sha256_hex R (the (file_at d src)) \<and> size_bytes b = length (the (file_at d src))"

lemma create_backup_true: "create_backup R f src dir d = (d', Inr b) \<Longrightarrow> true_backup R src d d' b"
proof -
  assume r: "create_backup R f src dir d = (d', Inr b)"
  then obtain d1 where 1: "make_dirs f dir d = (d1, Inr ())" and src: "file_at d src \<noteq> None"
    by (auto simp: create_backup_def then_call_Inr split: if_splits)
  let ?p = "backup_name d1 dir (base_name src)"
  have free: "\<not> path_exists d1 ?p" by (rule backup_name_free)
  then have target: "copy_target d1 src ?p = ?p" by (simp add: copy_target_def path_exists_def)
  obtain d2 where 2: "copy_file f src ?p d1 = (d2, Inr ())" and rest: "attempt d2 (file_sha256 R f d2 ?p) (\<lambda>h.
        attempt d2 (case file_at d2 ?p of Some b \<Rightarrow> Inr (length b) | None \<Rightarrow> raise FileNotFoundError ?p) (\<lambda>n.
        (d2, Inr \<lparr>backup_source = src, backup_path = ?p, backup_sha256 = h, size_bytes = n\<rparr>))) = (d', Inr b)"
    using r 1 src by (auto simp: create_backup_def then_call_Inr Let_def)
  from 2 obtain c where c: "file_at d1 src = Some c" "d2 = put_file ?p c d1" by (auto simp: copy_file_Inr target)
  then have "file_at d src = Some c" using make_dirs_Inr [OF 1] by simp
  moreover have "file_at d ?p = None" using make_dirs_Inr [OF 1, of ?p] free file_at_exists [of d1 ?p] by fastforce
  moreover obtain h where h: "file_sha256 R f d2 ?p = Inr h" using rest by (cases "file_sha256 R f d2 ?p") auto
  moreover have "h = sha256_hex R c" "file_at d2 ?p = Some c" using h c(2) by (auto simp: file_sha256_Inr)
  ultimately show ?thesis using rest by (auto simp: true_backup_def)
qed

lemma unobstructed: "list_ex (\<lambda>q. q \<in> fst ` set (disk_files d)) ps \<longleftrightarrow> \<not> list_all (\<lambda>q. file_at d q = None) ps"
  by (induction ps) (auto simp: file_at_def map_of_eq_None_iff)

lemma make_dirs_no_faults: "(\<exists>d'. make_dirs no_faults p d = (d', Inr ())) \<longleftrightarrow> p \<noteq> [] \<and> list_all (\<lambda>q. file_at d q = None) (path_prefixes p)"
  by (auto simp: make_dirs_def no_faults_def unobstructed)

lemma create_backup_works:
  "\<not> isl (snd (create_backup R no_faults src dir d)) \<longleftrightarrow>
   file_at d src \<noteq> None \<and> dir \<noteq> [] \<and> list_all (\<lambda>q. file_at d q = None) (path_prefixes dir)"
proof (cases "file_at d src")
  case None
  then show ?thesis by (simp add: create_backup_def)
next
  case (Some c)
  show ?thesis
  proof (cases "make_dirs no_faults dir d")
    case (Pair d1 r)
    show ?thesis
    proof (cases r)
      case (Inl e)
      then show ?thesis using Some Pair make_dirs_no_faults [of dir d] by (simp add: create_backup_def)
    next
      case (Inr u)
      let ?p = "backup_name d1 dir (base_name src)"
      have 1: "make_dirs no_faults dir d = (d1, Inr ())" using Pair Inr by simp
      have free: "\<not> path_exists d1 ?p" by (rule backup_name_free)
      have src: "file_at d1 src = Some c" using make_dirs_Inr [OF 1, of src] Some by simp
      have "src \<noteq> ?p" using free file_at_exists [OF src] by metis
      then have "copy_file no_faults src ?p d1 = (put_file ?p c d1, Inr ())"
        using src free by (simp add: copy_file_Inr no_faults_def copy_target_def path_exists_def)
      then show ?thesis using Some 1 make_dirs_no_faults [of dir d]
        by (simp add: create_backup_def Let_def file_sha256_def no_faults_def)
    qed
  qed
qed

text \<open>
  C28: \<open>create_backup\<close> ends and never changes or removes a file that was there, whatever fails; the
  path it returns was free, holds the bytes of the source, and its digest and size are theirs; and
  without faults it returns exactly for an existing source whose backup directory no file obstructs.
\<close>

theorem backup_never_overwrites:
  "files_kept d (fst (create_backup R f src dir d))
   \<and> (case create_backup R f src dir d of (d', Inl e) \<Rightarrow> True | (d', Inr b) \<Rightarrow> true_backup R src d d' b)
   \<and> (\<not> isl (snd (create_backup R no_faults src dir d)) \<longleftrightarrow>
        file_at d src \<noteq> None \<and> dir \<noteq> [] \<and> list_all (\<lambda>q. file_at d q = None) (path_prefixes dir))"
  using create_backup_keeps create_backup_works create_backup_true [of R f src dir d]
  by (auto split: prod.splits sum.splits)

text \<open>Restores\<close>

definition digest_is :: "runtime \<Rightarrow> disk \<Rightarrow> string \<Rightarrow> pyval \<Rightarrow> bool" where
  "digest_is R d p expected \<longleftrightarrow> (case file_at d p of None \<Rightarrow> False | Some b \<Rightarrow> expected = PStr (sha256_hex R b))"

definition may_restore :: "runtime \<Rightarrow> disk \<Rightarrow> string \<Rightarrow> string \<Rightarrow> pyval \<Rightarrow> bool \<Rightarrow> bool" where
  "may_restore R d bak dst expected allow \<longleftrightarrow> digest_is R d bak expected \<and> (allow \<or> \<not> path_exists d dst)"

text \<open>All files but one are the same.\<close>

definition same_except :: "string \<Rightarrow> disk \<Rightarrow> disk \<Rightarrow> bool" where
  "same_except q d d' \<longleftrightarrow> (file_at d)(q := None) = (file_at d')(q := None)"

definition restore_dirs :: "string \<Rightarrow> string \<Rightarrow> string" where
  "restore_dirs cwd dst = (let p = dir_name (abs_path cwd dst) in if p = [] then ''.'' else p)"

lemma verify_digest: "verify_file R f d p v = Inr True \<Longrightarrow> digest_is R d p v"
  by (auto simp: verify_file_True digest_is_def)

lemma restore_backup_cases:
  assumes "restore_backup R f cwd bak dst expected allow d = (d', r)"
  obtains (untouched) "d' = d" "r \<noteq> Inr True"
  | (dirs) "may_restore R d bak dst expected allow" "d' = fst (make_dirs f (restore_dirs cwd dst) d)" "r \<noteq> Inr True"
  | (copied) d1 where "may_restore R d bak dst expected allow" "make_dirs f (restore_dirs cwd dst) d = (d1, Inr ())"
      "d' = fst (copy_file f bak dst d1)" "r = Inr True \<Longrightarrow> verify_file R f d' dst expected = Inr True"
proof (cases "file_at d bak = None \<or> verify_file R f d bak expected \<noteq> Inr True \<or> (path_exists d dst \<and> \<not> allow)")
  case True
  then have "d' = d \<and> r \<noteq> Inr True" using assms
    by (cases "verify_file R f d bak expected") (auto simp: restore_backup_def split: if_splits)
  then show ?thesis using untouched by blast
next
  case False
  then have may: "may_restore R d bak dst expected allow" using verify_digest by (auto simp: may_restore_def)
  have eq: "then_call (make_dirs f (restore_dirs cwd dst) d) (\<lambda>d _. then_call (copy_file f bak dst d) (\<lambda>d _.
      (d, verify_file R f d dst expected))) = (d', r)"
    using assms False by (auto simp: restore_backup_def restore_dirs_def)
  show ?thesis using eq
  proof (cases rule: then_call_cases)
    case (raised d1 e)
    then show ?thesis using may dirs by simp
  next
    case (returned d1 u)
    from returned(2) show ?thesis
    proof (cases rule: then_call_cases)
      case (raised d2 e)
      then show ?thesis using may returned(1) copied [of d1] by simp
    next
      case (returned d2 v)
      then have "d2 = d'" "verify_file R f d' dst expected = r" by auto
      with returned(1) show ?thesis using may \<open>make_dirs f _ d = (d1, Inr u)\<close> by (intro copied [of d1]) auto
    qed
  qed
qed

text \<open>
  C29: a restore leaves every file alone unless the backup has the expected digest and the
  destination is free or may be overwritten; then it can change the destination only (or the entry
  of that name inside it, when it is a directory); and it answers \<open>True\<close> only when backup and
  destination both have the expected digest.
\<close>

theorem only_verified_backups_are_restored:
  "case restore_backup R f cwd bak dst expected allow d of (d', r) \<Rightarrow>
     (if may_restore R d bak dst expected allow
      then same_except (copy_target (fst (make_dirs f (restore_dirs cwd dst) d)) bak dst) d d' else d' = d)
     \<and> (if r = Inr True then may_restore R d bak dst expected allow \<and> digest_is R d' dst expected else True)"
proof (cases "restore_backup R f cwd bak dst expected allow d")
  case (Pair d' r)
  have copy: "same_except (copy_target d1 bak dst) d (fst (copy_file f bak dst d1))"
    if "make_dirs f (restore_dirs cwd dst) d = (d1, Inr ())" for d1
    using copy_file_others [of _ d1 bak dst f] make_dirs_Inr [OF that] by (auto simp: same_except_def)
  from Pair show ?thesis
  proof (cases rule: restore_backup_cases)
    case dirs
    then show ?thesis using Pair by (simp add: same_except_def fun_eq_iff)
  next
    case (copied d1)
    then show ?thesis using Pair copy [of d1] verify_digest by auto
  qed (simp add: Pair same_except_def)
qed

lemma restore_backup_returns:
  assumes "digest_is R d bak (PStr e)" "length e = 64" "\<not> path_exists d dst" "restore_dirs cwd dst \<noteq> []"
    and "list_all (\<lambda>q. file_at d q = None) (path_prefixes (restore_dirs cwd dst))" "dst \<notin> set (path_prefixes (restore_dirs cwd dst))"
  shows "\<exists>d'. restore_backup R no_faults cwd bak dst (PStr e) allow d = (d', Inr True) \<and> file_at d' dst = file_at d bak"
proof -
  obtain c where c: "file_at d bak = Some c" "sha256_hex R c = e"
    using assms(1) by (auto simp: digest_is_def split: option.splits)
  obtain d1 where 1: "make_dirs no_faults (restore_dirs cwd dst) d = (d1, Inr ())"
    using make_dirs_no_faults assms(4,5) by blast
  then have "set (disk_dirs d1) \<subseteq> set (disk_dirs d) \<union> set (path_prefixes (restore_dirs cwd dst))"
    by (auto simp: make_dirs_def no_faults_def split: if_splits)
  then have dst: "dst \<notin> set (disk_dirs d1)" using assms(3,6) by (auto simp: path_exists_def)
  then have target: "copy_target d1 bak dst = dst" by (simp add: copy_target_def)
  have "bak \<noteq> dst" using assms(3) file_at_exists [OF c(1)] by metis
  then have "copy_file no_faults bak dst d1 = (put_file dst c d1, Inr ())"
    using c dst make_dirs_Inr [OF 1, of bak] by (simp add: copy_file_Inr target no_faults_def)
  moreover have "verify_file R no_faults d bak (PStr e) = Inr True" "verify_file R no_faults (put_file dst c d1) dst (PStr e) = Inr True"
    using c assms(2) by (simp_all add: verify_file_True no_faults_def)
  ultimately show ?thesis using c 1 assms(3) by (simp add: restore_backup_def restore_dirs_def)
qed

text \<open>
  what \<open>create_backup\<close> returned restores the source's bytes into any free destination of any
  later disk that still has the backup file, with the digest the backup result carries.
\<close>

theorem backup_restores_the_source:
  assumes "create_backup R f src dir d = (d1, Inr b)" and "file_at d2 (backup_path b) = file_at d1 (backup_path b)"
    and "length (backup_sha256 b) = 64" and "\<not> path_exists d2 dst" and "restore_dirs cwd dst \<noteq> []"
    and "list_all (\<lambda>q. file_at d2 q = None) (path_prefixes (restore_dirs cwd dst))" "dst \<notin> set (path_prefixes (restore_dirs cwd dst))"
  shows "\<exists>d3. restore_backup R no_faults cwd (backup_path b) dst (PStr (backup_sha256 b)) allow d2 = (d3, Inr True)
     \<and> file_at d3 dst = file_at d src"
proof -
  have b: "true_backup R src d d1 b" by (rule create_backup_true [OF assms(1)])
  then have "file_at d2 (backup_path b) = file_at d src" "digest_is R d2 (backup_path b) (PStr (backup_sha256 b))"
    using assms(2) by (auto simp: true_backup_def digest_is_def)
  with restore_backup_returns [of R d2 "backup_path b" "backup_sha256 b" dst cwd allow] assms(3-7) show ?thesis by simp
qed

definition sample_disk :: disk where
  "sample_disk = \<lparr>disk_files = [(''data/a'', ''abc''), (''bak/a.bak'', ''old''), (''bak/a.1.bak'', ''older'')], disk_dirs = [''data'', ''bak'']\<rparr>"

lemma sample_backup_made:
  "create_backup R no_faults ''data/a'' ''bak'' sample_disk = (put_file ''bak/a.2.bak'' ''abc'' sample_disk,
     Inr \<lparr>backup_source = ''data/a'', backup_path = ''bak/a.2.bak'', backup_sha256 = sha256_hex R ''abc'', size_bytes = 3\<rparr>)"
proof -
  let ?d = "put_file ''bak/a.2.bak'' ''abc'' sample_disk"
  have "make_dirs no_faults ''bak'' sample_disk = (sample_disk, Inr ())" by code_simp
  moreover have "backup_name sample_disk ''bak'' (base_name ''data/a'') = ''bak/a.2.bak''" by code_simp
  moreover have "copy_file no_faults ''data/a'' ''bak/a.2.bak'' sample_disk = (?d, Inr ())" by code_simp
  moreover have "file_sha256 R no_faults ?d ''bak/a.2.bak'' = Inr (sha256_hex R ''abc'')"
    by (simp add: file_sha256_Inr no_faults_def)
  moreover have "file_at sample_disk ''data/a'' = Some ''abc''" by code_simp
  ultimately show ?thesis by (simp add: create_backup_def Let_def)
qed

theorem backup_restores_the_source_witness:
  "\<exists>d. restore_backup sample_runtime no_faults ''/srv'' ''bak/a.2.bak'' ''new/a'' (PStr (sha256_hex sample_runtime ''abc'')) False
      (put_file ''bak/a.2.bak'' ''abc'' sample_disk) = (d, Inr True) \<and> file_at d ''new/a'' = file_at sample_disk ''data/a''"
proof -
  let ?d = "put_file ''bak/a.2.bak'' ''abc'' sample_disk"
  have "\<not> path_exists ?d ''new/a''" "restore_dirs ''/srv'' ''new/a'' \<noteq> []" by code_simp+
  moreover have "list_all (\<lambda>q. file_at ?d q = None) (path_prefixes (restore_dirs ''/srv'' ''new/a''))" by code_simp
  moreover have "''new/a'' \<notin> set (path_prefixes (restore_dirs ''/srv'' ''new/a''))" by code_simp
  moreover have "length (sha256_hex sample_runtime ''abc'') = 64"
    using sample_runtime_ok by (simp add: runtime_ok_def is_sha256_hex_def)
  ultimately show ?thesis
    using backup_restores_the_source [OF sample_backup_made [of sample_runtime], of ?d "''new/a''" "''/srv''" False] by simp
qed

section \<open>Secret stores\<close>

text \<open>
  The interface both stores promise: under a legal name a non-empty secret is kept (as \<open>keep\<close> of
  it), the other names are not affected, and \<open>activate\<close> answers whether a secret is present.
\<close>

locale secret_store =
  fixes put :: "string \<Rightarrow> string \<Rightarrow> 's \<Rightarrow> 's \<times> (exc + unit)"
    and get :: "'s \<Rightarrow> string \<Rightarrow> exc + string"
    and active :: "'s \<Rightarrow> string \<Rightarrow> exc + bool"
    and legal :: "string \<Rightarrow> bool"
    and keep :: "string \<Rightarrow> string"
    and good :: "'s \<Rightarrow> bool"
  assumes put_get: "good s \<Longrightarrow> legal n \<Longrightarrow> v \<noteq> [] \<Longrightarrow>
      \<exists>s'. put n v s = (s', Inr ()) \<and> get s' n = Inr (keep v) \<and> active s' n = Inr True"
    and put_good: "good s \<Longrightarrow> good (fst (put n v s))"
    and put_other: "legal m \<Longrightarrow> m \<noteq> n \<Longrightarrow> get (fst (put n v s)) m = get s m"
begin

text \<open>The last secret stored under a name is the one read, whatever is stored under other names after it.\<close>

definition puts :: "(string \<times> string) list \<Rightarrow> 's \<Rightarrow> 's" where
  "puts ps s = fold (\<lambda>(n, v) s. fst (put n v s)) ps s"

lemma puts_other: "legal n \<Longrightarrow> n \<notin> fst ` set ps \<Longrightarrow> get (puts ps s) n = get s n"
proof (induction ps arbitrary: s)
  case Nil
  show ?case by (simp add: puts_def)
next
  case (Cons p ps)
  have "get (puts ps (fst (put (fst p) (snd p) s))) n = get (fst (put (fst p) (snd p) s)) n"
    using Cons.prems by (intro Cons.IH) auto
  then show ?case using Cons.prems put_other [of n "fst p" "snd p" s] by (auto simp: puts_def case_prod_beta)
qed

lemma last_put_is_read: "good s \<Longrightarrow> legal n \<Longrightarrow> v \<noteq> [] \<Longrightarrow> n \<notin> fst ` set ps \<Longrightarrow> get (puts ps (fst (put n v s))) n = Inr (keep v)"
  using put_get [of s n v] puts_other [of n ps "fst (put n v s)"] by auto

end

text \<open>The store in memory\<close>

record memory_store =
  secrets :: "(string \<times> string) list"

definition valid_name :: "pyval \<Rightarrow> exc + string" where
  "valid_name name = (case name of
     PStr n \<Rightarrow> if blank n then raise SecretStoreError ''Secret-Name muss ein nicht-leerer String sein'' else Inr n
   | _ \<Rightarrow> raise SecretStoreError ''Secret-Name muss ein nicht-leerer String sein'')"

definition valid_secret :: "pyval \<Rightarrow> exc + string" where
  "valid_secret v = (case v of
     PStr s \<Rightarrow> if s = [] then raise SecretStoreError ''Secret darf nicht leer sein'' else Inr s
   | _ \<Rightarrow> raise SecretStoreError ''Secret darf nicht leer sein'')"

definition memory_put :: "pyval \<Rightarrow> pyval \<Rightarrow> memory_store \<Rightarrow> memory_store \<times> (exc + unit)" where
  "memory_put name v s = attempt s (valid_name name) (\<lambda>n. attempt s (valid_secret v) (\<lambda>x.
     (s\<lparr>secrets := AList.update n x (secrets s)\<rparr>, Inr ())))"

definition memory_activate :: "memory_store \<Rightarrow> string \<Rightarrow> bool" where
  "memory_activate s n \<longleftrightarrow> (case map_of (secrets s) n of None \<Rightarrow> False | Some x \<Rightarrow> x \<noteq> [])"

definition memory_read :: "memory_store \<Rightarrow> pyval \<Rightarrow> exc + string" where
  "memory_read s name = and_then (valid_name name) (\<lambda>n. case map_of (secrets s) n of
     None \<Rightarrow> raise SecretStoreError (''Secret '' @ [CHR 0x27] @ n @ [CHR 0x27] @ '' existiert nicht'') | Some x \<Rightarrow> Inr x)"

definition memory_names :: "memory_store \<Rightarrow> string list" where
  "memory_names s = sort (List.map fst (secrets s))"

interpretation memory_secrets: secret_store "\<lambda>n v. memory_put (PStr n) (PStr v)" "\<lambda>s n. memory_read s (PStr n)"
  "\<lambda>s n. Inr (memory_activate s n)" "\<lambda>n. \<not> blank n" "\<lambda>v. v" "\<lambda>s. True"
  by unfold_locales
    (auto simp: memory_put_def memory_read_def memory_activate_def valid_name_def valid_secret_def update_conv' split: option.splits)

text \<open>
  The store in files: text and permission bits of each file; \<open>None\<close> stands for bytes that are
  not UTF-8. Text mode translates line ends: on writing outside POSIX, and always on reading.
\<close>

record secret_file =
  secret_text :: "string option"
  file_mode :: nat

record secret_dir =
  on_posix :: bool
  directory :: string
  secret_files :: "(string \<times> secret_file) list"

fun universal_newlines :: "string \<Rightarrow> string" where
  "universal_newlines [] = []"
| "universal_newlines (c # s) = (if c = CHR 0x0D then
     CHR 0x0A # (case s of [] \<Rightarrow> [] | d # s' \<Rightarrow> if d = CHR 0x0A then universal_newlines s' else universal_newlines s)
     else c # universal_newlines s)"

definition written_text :: "bool \<Rightarrow> string \<Rightarrow> string" where
  "written_text posix v = (if posix then v
     else concat (List.map (\<lambda>c. if c = CHR 0x0A then [CHR 0x0D, CHR 0x0A] else [c]) v))"

definition new_secret_dir :: "bool \<Rightarrow> pyval \<Rightarrow> exc + secret_dir" where
  "new_secret_dir posix d = (case d of
     PStr p \<Rightarrow> if p = [] then raise SecretStoreError ''Secret-Verzeichnis muss benannt sein''
       else if CHR 0x00 \<in> set p then raise ValueError ''embedded null byte''
       else Inr \<lparr>on_posix = posix, directory = p, secret_files = []\<rparr>
   | _ \<Rightarrow> raise SecretStoreError ''Secret-Verzeichnis muss benannt sein'')"

definition legal_secret_name :: "string \<Rightarrow> bool" where
  "legal_secret_name n \<longleftrightarrow> \<not> blank n \<and> CHR 0x2F \<notin> set n \<and> CHR 0x5C \<notin> set n"

definition secret_path :: "secret_dir \<Rightarrow> pyval \<Rightarrow> exc + string" where
  "secret_path s name = (case name of
     PStr n \<Rightarrow> if legal_secret_name n then Inr (join_path (directory s) (n @ ''.secret'')) else raise SecretStoreError ''Ungueltiger Secret-Name''
   | _ \<Rightarrow> raise SecretStoreError ''Ungueltiger Secret-Name'')"

definition mode_600 :: nat where "mode_600 = 384"
definition mode_644 :: nat where "mode_644 = 420"

text \<open>
  \<open>os.open\<close> gives the mode to a new file only; elsewhere the default mode applies. A fault is an
  exception before the file is opened, or after: then the file was truncated and holds what had
  been written. A NUL in the path is a \<open>ValueError\<close>.
\<close>

definition secret_write :: "string \<Rightarrow> string \<Rightarrow> secret_dir \<Rightarrow> secret_dir" where
  "secret_write p x s = (let mode = (case map_of (secret_files s) p of
       Some f \<Rightarrow> file_mode f | None \<Rightarrow> if on_posix s then mode_600 else mode_644) in
     s\<lparr>secret_files := AList.update p \<lparr>secret_text = Some x, file_mode = mode\<rparr> (secret_files s)\<rparr>)"

definition secret_put :: "(string option \<times> exc) option \<Rightarrow> pyval \<Rightarrow> pyval \<Rightarrow> secret_dir \<Rightarrow> secret_dir \<times> (exc + unit)" where
  "secret_put fault name v s = attempt s (valid_secret v) (\<lambda>x. attempt s (secret_path s name) (\<lambda>p.
     if CHR 0x00 \<in> set p then (s, raise ValueError ''embedded null byte'')
     else (case fault of
         None \<Rightarrow> (secret_write p (written_text (on_posix s) x) s, Inr ())
       | Some (None, e) \<Rightarrow> (s, Inl e)
       | Some (Some left, e) \<Rightarrow> (secret_write p left s, Inl e))))"

definition secret_activate :: "secret_dir \<Rightarrow> pyval \<Rightarrow> exc + bool" where
  "secret_activate s name = and_then (secret_path s name) (\<lambda>p. Inr (case map_of (secret_files s) p of
     None \<Rightarrow> False | Some f \<Rightarrow> secret_text f \<noteq> Some []))"

definition secret_read :: "secret_dir \<Rightarrow> pyval \<Rightarrow> exc + string" where
  "secret_read s name = and_then (secret_path s name) (\<lambda>p. case map_of (secret_files s) p of
     None \<Rightarrow> raise SecretStoreError (''Secret '' @ [CHR 0x27] @ (case name of PStr n \<Rightarrow> n | _ \<Rightarrow> []) @ [CHR 0x27] @ '' existiert nicht'')
   | Some f \<Rightarrow> (case secret_text f of
       None \<Rightarrow> raise UnicodeDecodeError ''invalid start byte''
     | Some x \<Rightarrow> if universal_newlines x = []
         then raise SecretStoreError (''Secret '' @ [CHR 0x27] @ (case name of PStr n \<Rightarrow> n | _ \<Rightarrow> []) @ [CHR 0x27] @ '' ist leer'')
         else Inr (universal_newlines x)))"

text \<open>What reading gives back: the text without its carriage returns.\<close>

definition kept_text :: "bool \<Rightarrow> string \<Rightarrow> string" where
  "kept_text posix v = universal_newlines (written_text posix v)"

lemma universal_newlines_Nil [simp]: "universal_newlines v = [] \<longleftrightarrow> v = []"
  by (cases v) auto

lemma universal_newlines_no_cr: "CHR 0x0D \<notin> set (universal_newlines v)"
  by (induction v rule: universal_newlines.induct) (auto split: list.splits)

lemma universal_newlines_same: "CHR 0x0D \<notin> set v \<Longrightarrow> universal_newlines v = v"
  by (induction v) auto

lemma written_text_Nil [simp]: "written_text b v = [] \<longleftrightarrow> v = []"
  by (cases v) (auto simp: written_text_def)

lemma universal_newlines_crlf:
  "CHR 0x0D \<notin> set v \<Longrightarrow> universal_newlines (concat (List.map (\<lambda>c. if c = CHR 0x0A then [CHR 0x0D, CHR 0x0A] else [c]) v)) = v"
  by (induction v) auto

lemma kept_text_same: "kept_text b v = v \<longleftrightarrow> CHR 0x0D \<notin> set v"
  using universal_newlines_no_cr [of "written_text b v"]
  by (auto simp: kept_text_def written_text_def universal_newlines_same universal_newlines_crlf)

lemma secret_path_inj: "legal_secret_name m \<Longrightarrow> legal_secret_name n \<Longrightarrow>
    join_path d (m @ ''.secret'') = join_path d (n @ ''.secret'') \<longleftrightarrow> m = n"
proof -
  assume "legal_secret_name m" "legal_secret_name n"
  then have "\<not> starts_with ''/'' (m @ ''.secret'')" "\<not> starts_with ''/'' (n @ ''.secret'')"
    by (cases m; cases n; auto simp: legal_secret_name_def blank_def starts_with_def)+
  then show ?thesis by (simp add: join_path_def)
qed

definition storable_name :: "string \<Rightarrow> bool" where
  "storable_name n \<longleftrightarrow> legal_secret_name n \<and> CHR 0x00 \<notin> set n"

definition good_secret_dir :: "bool \<Rightarrow> secret_dir \<Rightarrow> bool" where
  "good_secret_dir posix s \<longleftrightarrow> on_posix s = posix \<and> CHR 0x00 \<notin> set (directory s)"

lemma nul_in_join: "CHR 0x00 \<in> set (join_path d (n @ ''.secret'')) \<Longrightarrow> CHR 0x00 \<in> set d \<or> CHR 0x00 \<in> set n"
  by (auto simp: join_path_def split: if_splits)

lemma valid_secret_Inr: "valid_secret v = Inr x \<longleftrightarrow> v = PStr x \<and> x \<noteq> []"
  by (cases v) (auto simp: valid_secret_def)

lemma secret_path_Inr: "secret_path s name = Inr p \<longleftrightarrow>
    (\<exists>n. name = PStr n \<and> legal_secret_name n \<and> p = join_path (directory s) (n @ ''.secret''))"
  by (cases name) (auto simp: secret_path_def)

text \<open>The outcomes of \<open>store\<close>.\<close>

abbreviation secret_at :: "secret_dir \<Rightarrow> string \<Rightarrow> string" where
  "secret_at s n \<equiv> join_path (directory s) (n @ ''.secret'')"

lemma secret_put_cases:
  obtains (refused) e where "secret_put fault name v s = (s, Inl e)"
  | (cut) n left e where "name = PStr n" "legal_secret_name n" "secret_put fault name v s = (secret_write (secret_at s n) left s, Inl e)"
  | (stored) n x where "name = PStr n" "v = PStr x" "x \<noteq> []" "legal_secret_name n"
      "secret_put fault name v s = (secret_write (secret_at s n) (written_text (on_posix s) x) s, Inr ())"
proof (cases "\<exists>x n. valid_secret v = Inr x \<and> secret_path s name = Inr (secret_at s n) \<and> name = PStr n \<and> legal_secret_name n
    \<and> CHR 0x00 \<notin> set (secret_at s n)")
  case False
  then have "\<exists>e. secret_put fault name v s = (s, Inl e)"
    by (cases "valid_secret v"; cases "secret_path s name") (auto simp: secret_put_def secret_path_Inr, simp add: secret_path_def)
  then show ?thesis using refused by blast
next
  case True
  then obtain x n where n: "valid_secret v = Inr x" "secret_path s name = Inr (secret_at s n)" "name = PStr n" "legal_secret_name n"
    "CHR 0x00 \<notin> set (secret_at s n)" by blast
  then have v: "v = PStr x" "x \<noteq> []" by (simp_all add: valid_secret_Inr)
  consider "fault = None" | e where "fault = Some (None, e)" | left e where "fault = Some (Some left, e)"
    by (cases fault) (auto, metis option.exhaust)
  then show ?thesis
  proof cases
    case 1
    with n show ?thesis by (intro stored [OF n(3) v n(4)]) (simp add: secret_put_def)
  next
    case 2
    with n show ?thesis by (intro refused) (simp add: secret_put_def)
  next
    case 3
    with n show ?thesis by (intro cut [OF n(3,4)]) (simp add: secret_put_def)
  qed
qed

lemma secret_write_fields [simp]: "on_posix (secret_write p x s) = on_posix s" "directory (secret_write p x s) = directory s"
  by (simp_all add: secret_write_def Let_def)

lemma secret_write_text: "map_of (secret_files (secret_write p x s)) q =
    (if q = p then Some \<lparr>secret_text = Some x, file_mode = (case map_of (secret_files s) p of
       Some f \<Rightarrow> file_mode f | None \<Rightarrow> if on_posix s then mode_600 else mode_644)\<rparr> else map_of (secret_files s) q)"
  by (simp add: secret_write_def Let_def update_conv')

lemma secret_put_stores:
  assumes "good_secret_dir b s" "storable_name n" "v \<noteq> []"
  shows "\<exists>s'. secret_put None (PStr n) (PStr v) s = (s', Inr ())"
  using assms nul_in_join [of "directory s" n]
  by (auto simp: secret_put_def valid_secret_def secret_path_def storable_name_def good_secret_dir_def)

lemma secret_read_stored:
  assumes "secret_put f (PStr n) (PStr v) s = (s', Inr u)"
  shows "secret_read s' (PStr n) = Inr (kept_text (on_posix s) v) \<and> secret_activate s' (PStr n) = Inr True"
  using secret_put_cases [of f "PStr n" "PStr v" s]
proof cases
  case (stored m x)
  then show ?thesis using assms
    by (auto simp: secret_read_def secret_activate_def secret_path_def kept_text_def secret_write_text)
qed (use assms in auto)

lemma secret_put_fields: "on_posix (fst (secret_put f n v s)) = on_posix s \<and> directory (fst (secret_put f n v s)) = directory s"
  by (rule secret_put_cases [of f n v s]) simp_all

lemma secret_read_other_file: "legal_secret_name m \<Longrightarrow> legal_secret_name n \<Longrightarrow> m \<noteq> n \<Longrightarrow>
    secret_read (secret_write (secret_at s n) x s) (PStr m) = secret_read s (PStr m)"
  using secret_path_inj [of m n "directory s"] by (simp add: secret_read_def secret_path_def secret_write_text)

lemma secret_put_other:
  assumes "legal_secret_name m" "m \<noteq> n"
  shows "secret_read (fst (secret_put f (PStr n) v s)) (PStr m) = secret_read s (PStr m)"
  using secret_put_cases [of f "PStr n" v s] by cases (use assms secret_read_other_file in auto)

interpretation file_secrets: secret_store "\<lambda>n v. secret_put None (PStr n) (PStr v)" "\<lambda>s n. secret_read s (PStr n)"
  "\<lambda>s n. secret_activate s (PStr n)" storable_name "kept_text posix" "good_secret_dir posix" for posix
proof unfold_locales
  fix s :: secret_dir and n v :: string assume "good_secret_dir posix s" "storable_name n" "v \<noteq> []"
  then show "\<exists>s'. secret_put None (PStr n) (PStr v) s = (s', Inr ()) \<and> secret_read s' (PStr n) = Inr (kept_text posix v)
      \<and> secret_activate s' (PStr n) = Inr True"
    using secret_put_stores [of posix s n v] secret_read_stored by (auto simp: good_secret_dir_def)
next
  fix s :: secret_dir and n v :: string assume "good_secret_dir posix s"
  then show "good_secret_dir posix (fst (secret_put None (PStr n) (PStr v) s))" by (simp add: good_secret_dir_def secret_put_fields)
next
  fix s :: secret_dir and m n v :: string assume "storable_name m" "m \<noteq> n"
  then show "secret_read (fst (secret_put None (PStr n) (PStr v) s)) (PStr m) = secret_read s (PStr m)"
    by (simp add: storable_name_def secret_put_other)
qed

text \<open>
  Storing in a file makes the secret readable and active under its name: what is read is the secret
  itself exactly when it has no carriage return; a new file on POSIX has mode 0600 and an existing
  file keeps the mode it had. A call that raises changes nothing, or has cut the file of this name.
\<close>

theorem stored_secret_is_read_back:
  "case secret_put fault (PStr n) (PStr v) s of
     (s', Inl e) \<Rightarrow> s' = s \<or> (\<exists>left. s' = secret_write (secret_at s n) left s)
   | (s', Inr u) \<Rightarrow> secret_read s' (PStr n) = Inr (kept_text (on_posix s) v)
       \<and> (kept_text (on_posix s) v = v \<longleftrightarrow> CHR 0x0D \<notin> set v)
       \<and> secret_activate s' (PStr n) = Inr True
       \<and> map_option file_mode (map_of (secret_files s') (secret_at s n))
         = Some (case map_of (secret_files s) (secret_at s n) of
             Some f \<Rightarrow> file_mode f | None \<Rightarrow> if on_posix s then mode_600 else mode_644)"
  using secret_put_cases [of fault "PStr n" "PStr v" s]
proof cases
  case (stored m x)
  then show ?thesis using secret_read_stored [of fault n v s] kept_text_same by (auto simp: secret_write_text)
qed auto

section \<open>Key rotation\<close>

text \<open>The calls of a provider and of a secret store, on an outside world \<open>'w\<close>; each may raise.\<close>

record 'w provider =
  check_status :: "'w \<Rightarrow> 'w \<times> (exc + pyval)"
  create_replacement :: "'w \<Rightarrow> 'w \<times> (exc + pyval)"
  validate_secret :: "pyval \<Rightarrow> 'w \<Rightarrow> 'w \<times> (exc + bool)"
  revoke_old :: "'w \<Rightarrow> 'w \<times> (exc + bool)"

record 'w secret_sink =
  store_new :: "string \<Rightarrow> pyval \<Rightarrow> 'w \<Rightarrow> 'w \<times> (exc + unit)"
  activate_new :: "string \<Rightarrow> 'w \<Rightarrow> 'w \<times> (exc + bool)"

definition finish_rotation :: "'w provider \<Rightarrow> 'w secret_sink \<Rightarrow> string \<Rightarrow> 'w \<Rightarrow> 'w \<times> (exc + string)" where
  "finish_rotation P S name w = then_call (activate_new S name w) (\<lambda>w activated.
     if \<not> activated then (w, Inr ''ACTIVATION_FAILED_OLD_KEY_RETAINED'')
     else then_call (revoke_old P w) (\<lambda>w revoked.
       if \<not> revoked then (w, Inr ''OLD_KEY_REVOCATION_PENDING'')
       else (w, Inr ''ROTATION_SUCCESSFUL'')))"

definition place_secret :: "'w provider \<Rightarrow> 'w secret_sink \<Rightarrow> string \<Rightarrow> pyval \<Rightarrow> 'w \<Rightarrow> 'w \<times> (exc + string)" where
  "place_secret P S name secret w = then_call (validate_secret P secret w) (\<lambda>w valid.
     if \<not> valid then (w, Inr ''VALIDATION_FAILED'')
     else then_call (store_new S name secret w) (\<lambda>w _. finish_rotation P S name w))"

definition rotate_key :: "'w provider \<Rightarrow> 'w secret_sink \<Rightarrow> pyval \<Rightarrow> pyval \<Rightarrow> 'w \<Rightarrow> 'w \<times> (exc + string)" where
  "rotate_key P S secret_name approved w = (case secret_name of
     PStr name \<Rightarrow>
      if name = [] then (w, Inr ''INVALID_SECRET_NAME'')
      else if \<not> truthy approved then (w, Inr ''APPROVAL_REQUIRED'')
      else then_call (check_status P w) (\<lambda>w status.
        if status \<noteq> PStr ''HEALTHY'' then (w, Inr ''PROVIDER_NOT_HEALTHY'')
        else then_call (create_replacement P w) (\<lambda>w secret.
          if \<not> truthy secret then (w, Inr ''CREATION_FAILED'')
          else place_secret P S name secret w))
   | _ \<Rightarrow> (w, Inr ''INVALID_SECRET_NAME''))"

text \<open>
  The same provider and store with a protocol of the calls: an answer is noted when it arrives,
  the revocation when it is asked for.
\<close>

datatype rotation_event =
    Checked pyval
  | Created pyval
  | Validated pyval bool
  | Stored string pyval
  | Activated string bool
  | Revoked

fun noted :: "('w \<Rightarrow> 'w \<times> (exc + 'a)) \<Rightarrow> ('a \<Rightarrow> rotation_event) \<Rightarrow> 'w \<times> rotation_event list
    \<Rightarrow> ('w \<times> rotation_event list) \<times> (exc + 'a)" where
  "noted f ev (w, l) = (case f w of (w', Inl e) \<Rightarrow> ((w', l), Inl e) | (w', Inr x) \<Rightarrow> ((w', l @ [ev x]), Inr x))"

fun noted_before :: "('w \<Rightarrow> 'w \<times> (exc + 'a)) \<Rightarrow> rotation_event \<Rightarrow> 'w \<times> rotation_event list
    \<Rightarrow> ('w \<times> rotation_event list) \<times> (exc + 'a)" where
  "noted_before f ev (w, l) = (case f w of (w', r) \<Rightarrow> ((w', l @ [ev]), r))"

definition noting_provider :: "'w provider \<Rightarrow> ('w \<times> rotation_event list) provider" where
  "noting_provider P = \<lparr>check_status = noted (check_status P) Checked, create_replacement = noted (create_replacement P) Created,
     validate_secret = (\<lambda>s. noted (validate_secret P s) (Validated s)), revoke_old = noted_before (revoke_old P) Revoked\<rparr>"

definition noting_sink :: "'w secret_sink \<Rightarrow> ('w \<times> rotation_event list) secret_sink" where
  "noting_sink S = \<lparr>store_new = (\<lambda>n s. noted (store_new S n s) (\<lambda>_. Stored n s)),
     activate_new = (\<lambda>n. noted (activate_new S n) (Activated n))\<rparr>"

text \<open>The only protocol in which the old key is revoked.\<close>

definition full_protocol :: "pyval \<Rightarrow> pyval \<Rightarrow> rotation_event list \<Rightarrow> bool" where
  "full_protocol name approved l \<longleftrightarrow> (\<exists>n s. name = PStr n \<and> n \<noteq> [] \<and> truthy approved \<and> truthy s
     \<and> l = [Checked (PStr ''HEALTHY''), Created s, Validated s True, Stored n s, Activated n True, Revoked])"

lemma then_call_noted: "then_call (noted f ev (w, l)) k
    = (case f w of (w', Inl e) \<Rightarrow> ((w', l), Inl e) | (w', Inr x) \<Rightarrow> k (w', l @ [ev x]) x)"
  by (auto split: prod.splits sum.splits)

lemma then_call_noted_before: "then_call (noted_before f ev (w, l)) k
    = (case f w of (w', Inl e) \<Rightarrow> ((w', l @ [ev]), Inl e) | (w', Inr x) \<Rightarrow> k (w', l @ [ev]) x)"
  by (auto split: prod.splits sum.splits)

lemma then_call_case: "then_call r k = (case r of (w, Inl e) \<Rightarrow> (w, Inl e) | (w, Inr x) \<Rightarrow> k w x)"
  by (cases "(r, k)" rule: then_call.cases) auto

text \<open>The protocols each part can add, with its answers.\<close>

lemma finish_rotation_noted:
  obtains w' r l' where "finish_rotation (noting_provider P) (noting_sink S) n (w, l) = ((w', l @ l'), r)" "finish_rotation P S n w = (w', r)"
    "l' = [] \<and> isl r \<or> l' = [Activated n False] \<and> r = Inr ''ACTIVATION_FAILED_OLD_KEY_RETAINED''
     \<or> l' = [Activated n True, Revoked] \<and> (isl r \<or> r = Inr ''ROTATION_SUCCESSFUL'' \<or> r = Inr ''OLD_KEY_REVOCATION_PENDING'')"
proof -
  obtain w1 a where 1: "activate_new S n w = (w1, a)" by (cases "activate_new S n w")
  obtain w2 v where 2: "revoke_old P w1 = (w2, v)" by (cases "revoke_old P w1")
  note defs = finish_rotation_def noting_provider_def noting_sink_def
  consider e where "a = Inl e" | "a = Inr False" | e where "a = Inr True" "v = Inl e"
    | b where "a = Inr True" "v = Inr b" by (cases a; cases v) auto
  then show ?thesis
  proof cases
    case 1
    then show ?thesis using \<open>activate_new S n w = _\<close> that [of w1 "[]"] by (simp add: defs)
  next
    case 2
    then show ?thesis using \<open>activate_new S n w = _\<close> that [of w1 "[Activated n False]"] by (simp add: defs)
  next
    case 3
    then show ?thesis using 1 \<open>revoke_old P w1 = _\<close> that [of w2 "[Activated n True, Revoked]"] by (simp add: defs)
  next
    case 4
    then show ?thesis using 1 \<open>revoke_old P w1 = _\<close>
        that [of w2 "[Activated n True, Revoked]" "Inr (if b then ''ROTATION_SUCCESSFUL'' else ''OLD_KEY_REVOCATION_PENDING'')"]
      by (simp add: defs)
  qed
qed

lemma place_secret_noted:
  obtains w' r l' where "place_secret (noting_provider P) (noting_sink S) n s (w, l) = ((w', l @ l'), r)" "place_secret P S n s w = (w', r)"
    "Revoked \<notin> set l' \<and> r \<notin> {Inr ''ROTATION_SUCCESSFUL'', Inr ''OLD_KEY_REVOCATION_PENDING''}
     \<or> l' = [Validated s True, Stored n s, Activated n True, Revoked]
       \<and> (isl r \<or> r = Inr ''ROTATION_SUCCESSFUL'' \<or> r = Inr ''OLD_KEY_REVOCATION_PENDING'')"
proof (cases "validate_secret P s w")
  case (Pair w1 v)
  show ?thesis
  proof (cases "v = Inr True")
    case False
    then show ?thesis using Pair that [of w1 "case v of Inl e \<Rightarrow> [] | Inr b \<Rightarrow> [Validated s b]" "case v of Inl e \<Rightarrow> Inl e | _ \<Rightarrow> Inr ''VALIDATION_FAILED''"]
      by (cases v) (auto simp: place_secret_def noting_provider_def)
  next
    case True
    show ?thesis
    proof (cases "store_new S n s w1")
      case (Pair w2 u)
      show ?thesis
      proof (cases u)
        case (Inl e)
        then show ?thesis using \<open>v = Inr True\<close> \<open>validate_secret P s w = (w1, v)\<close> Pair that [of w2 "[Validated s True]" "Inl e"]
          by (auto simp: place_secret_def noting_provider_def noting_sink_def)
      next
        case (Inr x)
        obtain w' r l' where "finish_rotation (noting_provider P) (noting_sink S) n (w2, l @ [Validated s True, Stored n s]) = ((w', (l @ [Validated s True, Stored n s]) @ l'), r)"
          "finish_rotation P S n w2 = (w', r)"
          "l' = [] \<and> isl r \<or> l' = [Activated n False] \<and> r = Inr ''ACTIVATION_FAILED_OLD_KEY_RETAINED''
           \<or> l' = [Activated n True, Revoked] \<and> (isl r \<or> r = Inr ''ROTATION_SUCCESSFUL'' \<or> r = Inr ''OLD_KEY_REVOCATION_PENDING'')"
          by (rule finish_rotation_noted)
        then show ?thesis using Inr \<open>v = Inr True\<close> \<open>validate_secret P s w = (w1, v)\<close> Pair that [of w' "[Validated s True, Stored n s] @ l'" r]
          by (cases r) (auto simp: place_secret_def noting_provider_def noting_sink_def)
      qed
    qed
  qed
qed

text \<open>
  C31: the protocol changes nothing of what a rotation does, and the old key is revoked exactly in
  the run in which the approved rotation found a healthy provider, created a replacement, had it
  validated, stored it and saw it activated; the two final answers come from such a run only.
\<close>

theorem old_key_is_revoked_last:
  "case rotate_key (noting_provider P) (noting_sink S) name approved (w, []) of ((w', l), r) \<Rightarrow>
     rotate_key P S name approved w = (w', r)
     \<and> (Revoked \<in> set l \<longleftrightarrow> full_protocol name approved l)
     \<and> (case r of Inl e \<Rightarrow> True | Inr answer \<Rightarrow>
          (answer \<in> {''ROTATION_SUCCESSFUL'', ''OLD_KEY_REVOCATION_PENDING''} \<longleftrightarrow> Revoked \<in> set l))"
proof (cases "(\<exists>n. name = PStr n \<and> n \<noteq> []) \<and> truthy approved")
  case False
  then show ?thesis by (auto simp: rotate_key_def full_protocol_def split: pyval.splits)
next
  case True
  then obtain n where n: "name = PStr n" "n \<noteq> []" "truthy approved" by blast
  obtain w1 a where 1: "check_status P w = (w1, a)" by (cases "check_status P w")
  obtain w2 c where 2: "create_replacement P w1 = (w2, c)" by (cases "create_replacement P w1")
  show ?thesis
  proof (cases "a = Inr (PStr ''HEALTHY'') \<and> (\<exists>s. c = Inr s \<and> truthy s)")
    case False
    then show ?thesis using n 1 2
      by (cases a; cases c) (auto simp: rotate_key_def noting_provider_def full_protocol_def)
  next
    case True
    then obtain s where s: "a = Inr (PStr ''HEALTHY'')" "c = Inr s" "truthy s" by blast
    let ?l = "[Checked (PStr ''HEALTHY''), Created s]"
    have 3: "rotate_key P S name approved w = place_secret P S n s w2"
      "rotate_key (noting_provider P) (noting_sink S) name approved (w, []) = place_secret (noting_provider P) (noting_sink S) n s (w2, ?l)"
      using n 1 2 s by (simp_all add: rotate_key_def) (simp_all add: noting_provider_def)
    obtain w' r l' where "place_secret (noting_provider P) (noting_sink S) n s (w2, ?l) = ((w', ?l @ l'), r)" "place_secret P S n s w2 = (w', r)"
      "Revoked \<notin> set l' \<and> r \<notin> {Inr ''ROTATION_SUCCESSFUL'', Inr ''OLD_KEY_REVOCATION_PENDING''}
       \<or> l' = [Validated s True, Stored n s, Activated n True, Revoked]
         \<and> (isl r \<or> r = Inr ''ROTATION_SUCCESSFUL'' \<or> r = Inr ''OLD_KEY_REVOCATION_PENDING'')"
      by (rule place_secret_noted)
    with 3 n s show ?thesis by (auto simp: full_protocol_def split: sum.splits)
  qed
qed

end
