(* ===== verification/ModelRuns.thy ===== *)
theory ModelRuns
  imports PyText Stores
begin

text \<open>
  Pinned model runs: the gate for server models (\<open>controller/model_gate.py\<close>), run manifests and exact
  replay (\<open>model_run_manifest.py\<close>), the pinned runner (\<open>model_runner.py\<close>), the session of two runners
  (\<open>replay_session.py\<close>), signed capability manifests (\<open>signed_manifest.py\<close>) and the registry of
  trusted peer keys (\<open>trusted_peer_registry.py\<close>). The inference is a function on an outside world.
\<close>

section \<open>Printed values\<close>

text \<open>\<open>repr\<close> of a string, of a list of strings, and of any value\<close>

definition repr_char :: "char \<Rightarrow> char \<Rightarrow> string" where
  "repr_char q c = (let n = of_char c :: nat in
     if c = q \<or> c = CHR 0x5C then [CHR 0x5C, c]
     else if n = 10 then [CHR 0x5C, CHR ''n''] else if n = 13 then [CHR 0x5C, CHR ''r''] else if n = 9 then [CHR 0x5C, CHR ''t'']
     else if n < 32 \<or> (127 \<le> n \<and> n \<le> 160) \<or> n = 173
     then [CHR 0x5C, CHR ''x'', hex_digits ! (n div 16), hex_digits ! (n mod 16)] else [c])"

definition repr_str :: "string \<Rightarrow> string" where
  "repr_str s = (let q = (if CHR 0x27 \<in> set s \<and> CHR 0x22 \<notin> set s then CHR 0x22 else CHR 0x27) in
     q # concat (List.map (repr_char q) s) @ [q])"

fun py_repr :: "runtime \<Rightarrow> pyval \<Rightarrow> string" where
  "py_repr R (PStr s) = repr_str s"
| "py_repr R v = py_str R v"

definition repr_strs :: "string list \<Rightarrow> string" where
  "repr_strs ss = ''['' @ join '', '' (List.map repr_str ss) @ '']''"

section \<open>The gate for server models\<close>

text \<open>A membership test in a set hashes its operand: lists and dictionaries cannot be hashed.\<close>

definition unhashable :: "pyval \<Rightarrow> bool" where
  "unhashable v \<longleftrightarrow> is_list v \<or> is_dict v"

record model_gate_result =
  gate_decision :: string
  gate_reason :: string
  safety_status :: string
  metrics_status :: string
  performance_status :: string

definition safety_statuses :: "string list" where
  "safety_statuses = [''FAILED'', ''UNKNOWN'', ''VERIFIED'']"

definition gate_result :: "string \<Rightarrow> string \<Rightarrow> string \<Rightarrow> string \<Rightarrow> string \<Rightarrow> model_gate_result" where
  "gate_result d r s m p = \<lparr>gate_decision = d, gate_reason = r, safety_status = s, metrics_status = m, performance_status = p\<rparr>"

definition evaluate_server_model :: "runtime \<Rightarrow> pyval \<Rightarrow> exc + model_gate_result" where
  "evaluate_server_model R model = (case model of
     PDict m \<Rightarrow>
      if dget m ''available'' \<noteq> PBool True
      then Inr (gate_result ''BLOCKED_UNAVAILABLE'' ''model not available'' ''UNKNOWN'' ''UNKNOWN'' ''UNVERIFIED'')
      else if dget m ''authorization_valid'' \<noteq> PBool True
      then Inr (gate_result ''BLOCKED_UNAUTHORIZED'' ''authorization missing or invalid'' ''UNKNOWN'' ''UNKNOWN'' ''UNVERIFIED'')
      else let safety = dget m ''safety_check'' in
        if unhashable safety then raise TypeError ''unhashable type''
        else if safety \<notin> PStr ` set safety_statuses
        then raise ModelGateError (''safety_check must be one of '' @ repr_strs safety_statuses @ '', got '' @ py_repr R safety)
        else if safety = PStr ''FAILED''
        then Inr (gate_result ''BLOCKED_SAFETY_FAILED'' ''safety check failed'' ''FAILED'' ''UNKNOWN'' ''UNVERIFIED'')
        else if safety = PStr ''UNKNOWN''
        then Inr (gate_result ''BLOCKED_SAFETY_UNKNOWN'' ''safety check has not been performed'' ''UNKNOWN'' ''UNKNOWN'' ''UNVERIFIED'')
        else (case dget m ''metrics'' of
            PNone \<Rightarrow> Inr (gate_result ''ALLOW_WITHOUT_METRICS'' ''safety verified, metrics not provided'' ''VERIFIED'' ''UNKNOWN'' ''UNVERIFIED'')
          | PDict _ \<Rightarrow> Inr (gate_result ''ALLOW_WITH_METRICS'' ''safety verified, metrics provided'' ''VERIFIED'' ''PRESENT'' ''VERIFIED'')
          | _ \<Rightarrow> raise ModelGateError ''metrics must be a mapping or None'')
   | _ \<Rightarrow> raise ModelGateError ''model must be a mapping'')"

definition gate_allows :: "exc + model_gate_result \<Rightarrow> bool" where
  "gate_allows r \<longleftrightarrow> (case r of Inl e \<Rightarrow> False
     | Inr g \<Rightarrow> gate_decision g \<in> {''ALLOW_WITHOUT_METRICS'', ''ALLOW_WITH_METRICS''})"

lemma gate_allows_iff: "gate_allows (evaluate_server_model R model) \<longleftrightarrow> (\<exists>m. model = PDict m \<and> dget m ''available'' = PBool True
    \<and> dget m ''authorization_valid'' = PBool True \<and> dget m ''safety_check'' = PStr ''VERIFIED''
    \<and> (dget m ''metrics'' = PNone \<or> is_dict (dget m ''metrics'')))"
  by (cases model) (auto simp: evaluate_server_model_def gate_allows_def gate_result_def Let_def unhashable_def safety_statuses_def
      split: pyval.splits)

section \<open>Run manifests\<close>

definition digest_fields :: "string list" where
  "digest_fields = [''model_digest'', ''tokenizer_digest'', ''runtime_digest'', ''input_digest'', ''output_digest'', ''settings_digest'']"

definition condition_fields :: "string list" where
  "condition_fields = [''model_digest'', ''tokenizer_digest'', ''runtime_digest'', ''input_digest'', ''settings_digest'', ''seed'', ''precision'', ''backend'']"

abbreviation bad_run :: "string \<Rightarrow> exc + 'a" where
  "bad_run why \<equiv> raise ModelRunManifestError why"

definition sha256_bytes :: "runtime \<Rightarrow> pyval \<Rightarrow> exc + string" where
  "sha256_bytes R data = (case data of PBytes b \<Rightarrow> Inr (sha256_hex R b) | _ \<Rightarrow> bad_run ''artifact content must be bytes'')"

definition canonical_settings :: "runtime \<Rightarrow> pyval \<Rightarrow> exc + string" where
  "canonical_settings R v = (case dumps_canonical R False v of
     Inl e \<Rightarrow> if caught_by e [TypeError, ValueError] then bad_run ''settings must be finite JSON-compatible data'' else Inl e
   | Inr t \<Rightarrow> Inr (utf8 t))"

definition validate_digest :: "string \<Rightarrow> pyval \<Rightarrow> exc + unit" where
  "validate_digest name v = (case v of
     PStr s \<Rightarrow> if length s \<noteq> 64 then bad_run (name @ '' must be a 64-character SHA-256 hex digest'')
       else if \<not> is_lower_hex s then bad_run (name @ '' must be lowercase hexadecimal'') else Inr ()
   | _ \<Rightarrow> bad_run (name @ '' must be a 64-character SHA-256 hex digest''))"

fun validate_digests :: "(string \<times> pyval) list \<Rightarrow> exc + unit" where
  "validate_digests [] = Inr ()"
| "validate_digests ((name, v) # ps) = and_then (validate_digest name v) (\<lambda>_. validate_digests ps)"

definition good_seed :: "pyval \<Rightarrow> bool" where
  "good_seed v \<longleftrightarrow> (case v of PInt i \<Rightarrow> 0 \<le> i | _ \<Rightarrow> False)"

text \<open>What is pinned: three digests, seed, parameters, precision and backend.\<close>

record pins =
  model_digest :: pyval
  tokenizer_digest :: pyval
  runtime_digest :: pyval
  seed :: pyval
  parameters :: pyval
  precision :: pyval
  backend :: pyval

definition build_run_manifest :: "runtime \<Rightarrow> pins \<Rightarrow> pyval \<Rightarrow> pyval \<Rightarrow> exc + pydict" where
  "build_run_manifest R p input output =
     and_then (validate_digests [(''model_digest'', model_digest p), (''tokenizer_digest'', tokenizer_digest p), (''runtime_digest'', runtime_digest p)]) (\<lambda>_.
     and_then (ensure (good_seed (seed p)) ModelRunManifestError ''seed must be a non-negative integer'') (\<lambda>_.
     and_then (ensure (is_dict (parameters p)) ModelRunManifestError ''parameters must be a mapping'') (\<lambda>_.
     and_then (ensure (nonblank_str (precision p)) ModelRunManifestError ''precision is required'') (\<lambda>_.
     and_then (ensure (nonblank_str (backend p)) ModelRunManifestError ''backend is required'') (\<lambda>_.
     and_then (canonical_settings R (parameters p)) (\<lambda>settings.
     and_then (sha256_bytes R input) (\<lambda>i. and_then (sha256_bytes R output) (\<lambda>out.
     Inr [(''schema_version'', PInt 1), (''model_digest'', model_digest p), (''tokenizer_digest'', tokenizer_digest p),
       (''runtime_digest'', runtime_digest p), (''input_digest'', PStr i), (''output_digest'', PStr out), (''settings'', parameters p),
       (''settings_digest'', PStr (sha256_hex R settings)), (''seed'', seed p), (''precision'', precision p), (''backend'', backend p),
       (''status'', PStr ''COMPLETED_UNVERIFIED'')]))))))))"

definition run_fields :: "string list" where
  "run_fields = ''schema_version'' # digest_fields @ [''settings'', ''seed'', ''precision'', ''backend'', ''status'']"

definition validate_run_manifest :: "runtime \<Rightarrow> pyval \<Rightarrow> exc + unit" where
  "validate_run_manifest R manifest = (case manifest of
     PDict m \<Rightarrow>
       and_then (ensure (set (dkeys m) = set run_fields) ModelRunManifestError ''manifest fields do not match schema'') (\<lambda>_.
       and_then (ensure (\<not> is_bool (dget m ''schema_version'') \<and> py_eq_int (dget m ''schema_version'') 1) ModelRunManifestError ''unsupported schema version'') (\<lambda>_.
       and_then (validate_digests (List.map (\<lambda>f. (f, dget m f)) digest_fields)) (\<lambda>_.
       and_then (ensure (is_dict (dget m ''settings'')) ModelRunManifestError ''settings must be a mapping'') (\<lambda>_.
       and_then (canonical_settings R (dget m ''settings'')) (\<lambda>t.
       and_then (ensure (PStr (sha256_hex R t) = dget m ''settings_digest'') ModelRunManifestError ''settings digest mismatch'') (\<lambda>_.
       and_then (ensure (good_seed (dget m ''seed'')) ModelRunManifestError ''invalid seed'') (\<lambda>_.
       and_then (ensure (nonblank_str (dget m ''precision'')) ModelRunManifestError ''invalid precision'') (\<lambda>_.
       and_then (ensure (nonblank_str (dget m ''backend'')) ModelRunManifestError ''invalid backend'') (\<lambda>_.
       ensure (dget m ''status'' = PStr ''COMPLETED_UNVERIFIED'') ModelRunManifestError ''only completed, unverified run records can be replay-compared'')))))))))
   | _ \<Rightarrow> bad_run ''manifest must be a mapping'')"

definition replay_verdict :: "string \<Rightarrow> string \<Rightarrow> pydict" where
  "replay_verdict status reason = [(''status'', PStr status), (''reason'', PStr reason)]"

fun compare_fields :: "pydict \<Rightarrow> pydict \<Rightarrow> string list \<Rightarrow> pydict" where
  "compare_fields a b [] = (if dget a ''output_digest'' = dget b ''output_digest''
     then replay_verdict ''VERIFIED_EXACT'' ''canonical output digests match under pinned conditions''
     else replay_verdict ''NONDETERMINISTIC'' ''output digests differ under matching recorded conditions'')"
| "compare_fields a b (f # fs) = (if dget a f \<noteq> dget b f then replay_verdict ''CONDITIONS_MISMATCH'' (''execution condition differs: '' @ f)
     else compare_fields a b fs)"

definition verify_exact_replay :: "runtime \<Rightarrow> pyval \<Rightarrow> pyval \<Rightarrow> exc + pydict" where
  "verify_exact_replay R reference replay =
     and_then (validate_run_manifest R reference) (\<lambda>_. and_then (validate_run_manifest R replay) (\<lambda>_.
     case (reference, replay) of (PDict a, PDict b) \<Rightarrow> Inr (compare_fields a b condition_fields)
     | _ \<Rightarrow> bad_run ''manifest must be a mapping''))"

lemma good_digests: "validate_digests ps = Inr () \<longleftrightarrow> list_all (\<lambda>(name, v). validate_digest name v = Inr ()) ps"
  by (induction ps rule: validate_digests.induct) (auto simp: and_then_Inr)

lemma validate_digest_hex [simp]: "runtime_ok R \<Longrightarrow> validate_digest name (PStr (sha256_hex R b)) = Inr ()"
  by (simp add: validate_digest_def runtime_ok_def is_sha256_hex_def)

lemma validate_digest_Inr: "validate_digest name v = Inr u \<longleftrightarrow> (\<exists>s. v = PStr s \<and> is_sha256_hex s)"
  by (cases v) (auto simp: validate_digest_def is_sha256_hex_def)

definition good_pins :: "runtime \<Rightarrow> pins \<Rightarrow> bool" where
  "good_pins R p \<longleftrightarrow> list_all (\<lambda>v. \<exists>s. v = PStr s \<and> is_sha256_hex s) [model_digest p, tokenizer_digest p, runtime_digest p]
     \<and> good_seed (seed p) \<and> is_dict (parameters p) \<and> serialisable (parameters p) \<and> all_finite (parameters p)
     \<and> nonblank_str (precision p) \<and> nonblank_str (backend p)"

definition settings_digest :: "runtime \<Rightarrow> pins \<Rightarrow> string" where
  "settings_digest R p = sha256_hex R (utf8 (canonical_text R (parameters p)))"

definition run_record :: "runtime \<Rightarrow> pins \<Rightarrow> string \<Rightarrow> string \<Rightarrow> pydict" where
  "run_record R p i out =
     [(''schema_version'', PInt 1), (''model_digest'', model_digest p), (''tokenizer_digest'', tokenizer_digest p),
      (''runtime_digest'', runtime_digest p), (''input_digest'', PStr (sha256_hex R i)), (''output_digest'', PStr (sha256_hex R out)),
      (''settings'', parameters p), (''settings_digest'', PStr (settings_digest R p)), (''seed'', seed p), (''precision'', precision p),
      (''backend'', backend p), (''status'', PStr ''COMPLETED_UNVERIFIED'')]"

lemma canonical_settings_Inr: "canonical_settings R v = Inr t \<longleftrightarrow> serialisable v \<and> all_finite v \<and> t = utf8 (canonical_text R v)"
  by (auto simp: canonical_settings_def dumps_canonical_def dumps_checked_def split: if_splits)

lemma build_run_manifest_Inr:
  "build_run_manifest R p (PBytes i) (PBytes out) = Inr m \<longleftrightarrow> good_pins R p \<and> m = run_record R p i out"
  by (auto simp: build_run_manifest_def and_then_Inr good_digests validate_digest_Inr canonical_settings_Inr sha256_bytes_def
      good_pins_def run_record_def settings_digest_def)

lemma run_record_valid: "runtime_ok R \<Longrightarrow> good_pins R p \<Longrightarrow> validate_run_manifest R (PDict (run_record R p i out)) = Inr ()"
  by (auto simp: validate_run_manifest_def run_record_def good_pins_def and_then_Inr good_digests validate_digest_Inr
      canonical_settings_Inr settings_digest_def run_fields_def digest_fields_def dkeys_def runtime_ok_def)

definition same_conditions :: "runtime \<Rightarrow> pins \<Rightarrow> pins \<Rightarrow> string \<Rightarrow> string \<Rightarrow> bool" where
  "same_conditions R p q i j \<longleftrightarrow> model_digest p = model_digest q \<and> tokenizer_digest p = tokenizer_digest q
     \<and> runtime_digest p = runtime_digest q \<and> sha256_hex R i = sha256_hex R j \<and> settings_digest R p = settings_digest R q
     \<and> seed p = seed q \<and> precision p = precision q \<and> backend p = backend q"

definition replay_status :: "runtime \<Rightarrow> pins \<Rightarrow> pins \<Rightarrow> string \<Rightarrow> string \<Rightarrow> string \<Rightarrow> string \<Rightarrow> string" where
  "replay_status R p q i j x y = (if \<not> same_conditions R p q i j then ''CONDITIONS_MISMATCH''
     else if sha256_hex R x = sha256_hex R y then ''VERIFIED_EXACT'' else ''NONDETERMINISTIC'')"

lemma replay_of_records:
  assumes "runtime_ok R" "good_pins R p" "good_pins R q"
  shows "\<exists>v. verify_exact_replay R (PDict (run_record R p i x)) (PDict (run_record R q j y)) = Inr v
     \<and> dget v ''status'' = PStr (replay_status R p q i j x y) \<and> dhas v ''reason''"
proof -
  have "verify_exact_replay R (PDict (run_record R p i x)) (PDict (run_record R q j y))
      = Inr (compare_fields (run_record R p i x) (run_record R q j y) condition_fields)"
    using assms by (simp add: verify_exact_replay_def run_record_valid)
  moreover have "dget (compare_fields (run_record R p i x) (run_record R q j y) condition_fields) ''status'' = PStr (replay_status R p q i j x y)"
    by (simp add: condition_fields_def run_record_def replay_status_def same_conditions_def replay_verdict_def)
  moreover have "dhas (compare_fields a b fs) ''reason''" for a b fs
    by (induction fs) (simp_all add: replay_verdict_def)
  ultimately show ?thesis by blast
qed

text \<open>
  C21: a run record is built exactly for pins of the stated form; and the comparison of two built
  records never raises and answers by the digests: a mismatch when a pinned condition differs,
  verified when the outputs have one digest, nondeterministic otherwise.
\<close>

theorem replay_verdict_is_by_digests:
  assumes "runtime_ok R"
  shows "case (build_run_manifest R p (PBytes i) (PBytes x), build_run_manifest R q (PBytes j) (PBytes y)) of
     (Inr a, Inr b) \<Rightarrow> good_pins R p \<and> good_pins R q
       \<and> (case verify_exact_replay R (PDict a) (PDict b) of Inl e \<Rightarrow> False
          | Inr v \<Rightarrow> dget v ''status'' = PStr (replay_status R p q i j x y))
   | _ \<Rightarrow> \<not> (good_pins R p \<and> good_pins R q)"
proof (cases "good_pins R p \<and> good_pins R q")
  case True
  then have "build_run_manifest R p (PBytes i) (PBytes x) = Inr (run_record R p i x)"
    "build_run_manifest R q (PBytes j) (PBytes y) = Inr (run_record R q j y)" by (simp_all add: build_run_manifest_Inr)
  with True replay_of_records [OF assms, of p q i x j y] show ?thesis by auto
next
  case False
  then show ?thesis
    using build_run_manifest_Inr [of R p i x] build_run_manifest_Inr [of R q j y] by (auto split: sum.splits)
qed

definition sample_pins :: pins where
  "sample_pins = \<lparr>model_digest = PStr (replicate 64 (CHR ''a'')), tokenizer_digest = PStr (replicate 64 (CHR ''b'')),
     runtime_digest = PStr (replicate 64 (CHR ''c'')), seed = PInt 7, parameters = PDict [(''temperature'', PInt 0)],
     precision = PStr ''fp32'', backend = PStr ''cpu''\<rparr>"

lemma sample_pins_good: "good_pins R sample_pins"
proof -
  have "is_sha256_hex (replicate 64 (CHR ''a''))" "is_sha256_hex (replicate 64 (CHR ''b''))" "is_sha256_hex (replicate 64 (CHR ''c''))"
    by (simp_all add: is_sha256_hex_def is_lower_hex_def hex_digits_def list_all_iff)
  then show ?thesis by (simp add: good_pins_def sample_pins_def good_seed_def blank_def is_space_def)
qed

theorem replay_verdict_is_by_digests_witness:
  "\<exists>a v. build_run_manifest sample_runtime sample_pins (PBytes ''in'') (PBytes ''out'') = Inr a
     \<and> verify_exact_replay sample_runtime (PDict a) (PDict a) = Inr v \<and> dget v ''status'' = PStr ''VERIFIED_EXACT''"
proof -
  let ?m = "run_record sample_runtime sample_pins ''in'' ''out''"
  have b: "build_run_manifest sample_runtime sample_pins (PBytes ''in'') (PBytes ''out'') = Inr ?m"
    by (simp add: build_run_manifest_Inr sample_pins_good)
  show ?thesis
    using replay_verdict_is_by_digests [OF sample_runtime_ok, where p = sample_pins and q = sample_pins and i = "''in''" and j = "''in''" and x = "''out''" and y = "''out''"] b
    by (auto simp: replay_status_def same_conditions_def split: sum.splits)
qed

section \<open>The pinned runner\<close>

text \<open>
  The callable is code of others: a function of the bytes on the outside world. \<open>inference_id\<close> is
  its object identity. The set of emitted pairs is a list.
\<close>

record 'w pinned_runner =
  inference_id :: nat
  inference :: "string \<Rightarrow> 'w \<Rightarrow> 'w \<times> (exc + pyval)"
  run_pins :: pins
  emitted :: "(string \<times> string) list"

abbreviation bad_runner :: "string \<Rightarrow> exc + 'a" where
  "bad_runner why \<equiv> raise ModelRunnerError why"

definition require_digest :: "string \<Rightarrow> pyval \<Rightarrow> exc + unit" where
  "require_digest name v = (case v of
     PStr s \<Rightarrow> if length s \<noteq> 64 \<or> \<not> is_lower_hex s then bad_runner (name @ '' must be a 64-character lowercase SHA-256 hex digest'') else Inr ()
   | _ \<Rightarrow> bad_runner (name @ '' must be a 64-character lowercase SHA-256 hex digest''))"

definition sampled :: "pydict \<Rightarrow> exc + unit" where
  "sampled d = (let t = dget d ''temperature'' in
     if is_bool t \<or> (case as_num t of None \<Rightarrow> False | Some n \<Rightarrow> \<not> num_eq n (NInt 0))
     then bad_runner ''temperature != 0 makes exact replay unlikely; pass allow_nondeterministic=True to record such runs honestly''
     else if dget d ''do_sample'' = PBool True
     then bad_runner ''do_sample=True makes exact replay unlikely; pass allow_nondeterministic=True to record such runs honestly''
     else Inr ())"

definition new_pinned_runner :: "(nat \<times> (string \<Rightarrow> 'w \<Rightarrow> 'w \<times> (exc + pyval))) option \<Rightarrow> pins \<Rightarrow> pyval \<Rightarrow> exc + 'w pinned_runner" where
  "new_pinned_runner callable p allow = (case callable of
     None \<Rightarrow> bad_runner ''inference must be a callable accepting bytes and returning bytes''
   | Some (i, f) \<Rightarrow>
       and_then (require_digest ''model_digest'' (model_digest p)) (\<lambda>_.
       and_then (require_digest ''tokenizer_digest'' (tokenizer_digest p)) (\<lambda>_.
       and_then (require_digest ''runtime_digest'' (runtime_digest p)) (\<lambda>_.
       and_then (ensure (good_seed (seed p)) ModelRunnerError ''seed must be a non-negative integer'') (\<lambda>_.
       case parameters p of
         PDict d \<Rightarrow>
           and_then (ensure (nonblank_str (precision p)) ModelRunnerError ''precision is required'') (\<lambda>_.
           and_then (ensure (nonblank_str (backend p)) ModelRunnerError ''backend is required'') (\<lambda>_.
           and_then (if truthy allow then Inr () else sampled d) (\<lambda>_.
           Inr \<lparr>inference_id = i, inference = f, run_pins = p, emitted = []\<rparr>)))
       | _ \<Rightarrow> bad_runner ''parameters must be a mapping'')))))"

definition run_pinned :: "runtime \<Rightarrow> pyval \<Rightarrow> 'w \<times> 'w pinned_runner \<Rightarrow> ('w \<times> 'w pinned_runner) \<times> (exc + pydict)" where
  "run_pinned R input ws = (case ws of (w, r) \<Rightarrow> (case input of
     PBytes b \<Rightarrow> (case inference r b w of
         (w', Inl e) \<Rightarrow> ((w', r), Inl e)
       | (w', Inr out) \<Rightarrow> (case out of
           PBytes x \<Rightarrow> (case build_run_manifest R (run_pins r) (PBytes b) (PBytes x) of
               Inl e \<Rightarrow> ((w', r), Inl e)
             | Inr m \<Rightarrow> ((w', r\<lparr>emitted := emitted r @ [(sha256_hex R b, sha256_hex R x)]\<rparr>), Inr m))
         | _ \<Rightarrow> ((w', r), bad_runner ''inference output must be bytes'')))
   | _ \<Rightarrow> ((w, r), bad_runner ''input must be bytes'')))"

definition produced_here :: "'w pinned_runner \<Rightarrow> pyval \<Rightarrow> exc + bool" where
  "produced_here r manifest = (case manifest of
     PDict m \<Rightarrow> if \<not> dhas m ''input_digest'' \<or> \<not> dhas m ''output_digest'' then bad_runner ''not a run manifest''
       else let a = dget m ''input_digest''; b = dget m ''output_digest'' in
         if unhashable a \<or> unhashable b then raise TypeError ''unhashable type''
         else Inr (list_ex (\<lambda>(i, j). a = PStr i \<and> b = PStr j) (emitted r))
   | _ \<Rightarrow> bad_runner ''not a run manifest'')"

definition shares_inference_with :: "'w pinned_runner \<Rightarrow> 'w pinned_runner option \<Rightarrow> bool" where
  "shares_inference_with r other = (case other of None \<Rightarrow> False | Some q \<Rightarrow> inference_id r = inference_id q)"

definition verify_independent_replay :: "runtime \<Rightarrow> 'w pinned_runner \<Rightarrow> pyval \<Rightarrow> pyval \<Rightarrow> exc + pydict" where
  "verify_independent_replay R r reference replay =
     and_then (produced_here r reference) (\<lambda>a.
     and_then (if a then produced_here r replay else Inr False) (\<lambda>b.
     if b then Inr (replay_verdict ''SELF_VERIFICATION_REFUSED'' ''both records were produced by this runner; a runner cannot verify itself - an independent node must produce the replay'')
     else verify_exact_replay R reference replay))"

text \<open>Any number of calls, of which some raise: the records returned, and the state reached.\<close>

fun run_all :: "runtime \<Rightarrow> pyval list \<Rightarrow> 'w \<times> 'w pinned_runner \<Rightarrow> ('w \<times> 'w pinned_runner) \<times> pydict list" where
  "run_all R [] ws = (ws, [])"
| "run_all R (b # bs) ws = (case run_pinned R b ws of (ws1, res) \<Rightarrow>
     (case run_all R bs ws1 of (ws2, ms) \<Rightarrow> (ws2, (case res of Inl e \<Rightarrow> ms | Inr m \<Rightarrow> m # ms))))"

definition knows :: "'w pinned_runner \<Rightarrow> pydict \<Rightarrow> bool" where
  "knows r m \<longleftrightarrow> produced_here r (PDict m) = Inr True"

lemma run_pinned_cases:
  obtains (raised) w' e where "run_pinned R input (w, r) = ((w', r), Inl e)"
  | (returned) w' b x where "input = PBytes b" "inference r b w = (w', Inr (PBytes x))" "good_pins R (run_pins r)"
      "run_pinned R input (w, r) = ((w', r\<lparr>emitted := emitted r @ [(sha256_hex R b, sha256_hex R x)]\<rparr>), Inr (run_record R (run_pins r) b x))"
proof (cases input)
  case (PBytes b)
  obtain w' res where inf: "inference r b w = (w', res)" by (cases "inference r b w")
  show ?thesis
  proof (cases "\<exists>x. res = Inr (PBytes x) \<and> good_pins R (run_pins r)")
    case True
    then obtain x where "res = Inr (PBytes x)" "good_pins R (run_pins r)" by blast
    moreover from this have "build_run_manifest R (run_pins r) (PBytes b) (PBytes x) = Inr (run_record R (run_pins r) b x)"
      by (simp add: build_run_manifest_Inr)
    ultimately show ?thesis using PBytes inf by (intro returned [of b w' x]) (simp_all add: run_pinned_def)
  next
    case False
    have "\<exists>e. run_pinned R input (w, r) = ((w', r), Inl e)"
    proof (cases "\<exists>x. res = Inr (PBytes x)")
      case True
      then obtain x where x: "res = Inr (PBytes x)" by blast
      then obtain e where "build_run_manifest R (run_pins r) (PBytes b) (PBytes x) = Inl e"
        using False build_run_manifest_Inr [of R "run_pins r" b x] by (cases "build_run_manifest R (run_pins r) (PBytes b) (PBytes x)") auto
      with x PBytes inf show ?thesis by (simp add: run_pinned_def)
    next
      case False
      then show ?thesis using PBytes inf by (cases res) (auto simp: run_pinned_def split: pyval.splits)
    qed
    then show ?thesis using raised by blast
  qed
qed (rule raised [of w "(ModelRunnerError, ''input must be bytes'')"], simp add: run_pinned_def)+

lemma knows_record: "knows r (run_record R p b x) \<longleftrightarrow> (sha256_hex R b, sha256_hex R x) \<in> set (emitted r)"
  by (auto simp: knows_def produced_here_def run_record_def unhashable_def list_ex_iff)

lemma knows_grows: "knows r m \<Longrightarrow> set (emitted r) \<subseteq> set (emitted r') \<Longrightarrow> knows r' m"
  by (auto simp: knows_def produced_here_def list_ex_iff Let_def split: if_splits)

lemma run_all_known: "set (emitted r) \<subseteq> set (emitted (snd (fst (run_all R bs (w, r)))))
    \<and> list_all (knows (snd (fst (run_all R bs (w, r))))) (snd (run_all R bs (w, r)))"
proof (induction bs arbitrary: w r)
  case Nil
  show ?case by simp
next
  case (Cons b bs)
  show ?case
  proof (rule run_pinned_cases [of R b w r])
    fix w' e assume "run_pinned R b (w, r) = ((w', r), Inl e)"
    then show ?thesis using Cons.IH [where w = w' and r = r] by (simp add: case_prod_beta)
  next
    fix w' c x let ?r = "r\<lparr>emitted := emitted r @ [(sha256_hex R c, sha256_hex R x)]\<rparr>"
    assume run: "run_pinned R b (w, r) = ((w', ?r), Inr (run_record R (run_pins r) c x))"
    have "knows ?r (run_record R (run_pins r) c x)" by (simp add: knows_record)
    then show ?thesis using run Cons.IH [where w = w' and r = ?r] by (auto simp: case_prod_beta knows_record)
  qed
qed

lemma known_pair_refused: "knows r a \<Longrightarrow> knows r b \<Longrightarrow> verify_independent_replay R r (PDict a) (PDict b)
    = Inr (replay_verdict ''SELF_VERIFICATION_REFUSED'' ''both records were produced by this runner; a runner cannot verify itself - an independent node must produce the replay'')"
  by (simp add: knows_def verify_independent_replay_def)

text \<open>
  whatever a runner is fed with and whatever its callable does, every pair of records it has
  returned is refused by its own verification.
\<close>

theorem runner_never_verifies_itself:
  "case run_all R inputs (w, r) of ((w', r'), records) \<Rightarrow>
     list_all (\<lambda>(a, b). verify_independent_replay R r' (PDict a) (PDict b)
       = Inr (replay_verdict ''SELF_VERIFICATION_REFUSED'' ''both records were produced by this runner; a runner cannot verify itself - an independent node must produce the replay''))
       (List.product records records)"
  using run_all_known [of r R inputs w] by (auto simp: list_all_iff known_pair_refused split: prod.splits)

section \<open>A session of two runners\<close>

text \<open>
  Runners are objects: a heap holds them, a session their addresses, so that "the same instance"
  is the same address. The argument of the constructor is \<open>None\<close> when it is no runner.
\<close>

record replay_session =
  reference_at :: nat
  replay_at :: nat

definition independence_claim :: string where
  "independence_claim = ''NODE_INDEPENDENCE_NOT_PROVABLE_BY_CODE''"

definition combined_byte_match :: string where
  "combined_byte_match = ''VERIFIED_EXACT_BYTE_MATCH_INDEPENDENCE_UNPROVEN''"

definition new_session :: "nat option \<Rightarrow> nat option \<Rightarrow> exc + replay_session" where
  "new_session ref_runner rep_runner = (case (ref_runner, rep_runner) of
     (Some a, Some b) \<Rightarrow> if a = b
       then raise ReplaySessionError ''reference and replay must be two different runner instances; a runner cannot replay itself''
       else Inr \<lparr>reference_at = a, replay_at = b\<rparr>
   | _ \<Rightarrow> raise ReplaySessionError ''both nodes must be PinnedModelRunner instances'')"

definition run_at :: "runtime \<Rightarrow> nat \<Rightarrow> pyval \<Rightarrow> 'w \<times> 'w pinned_runner list \<Rightarrow> ('w \<times> 'w pinned_runner list) \<times> (exc + pydict)" where
  "run_at R a input wh = (case wh of (w, h) \<Rightarrow>
     if length h \<le> a then ((w, h), raise AttributeError ''run'')
     else (case run_pinned R input (w, h ! a) of ((w', r), res) \<Rightarrow> ((w', h[a := r]), res)))"

definition session_result :: "pydict \<Rightarrow> pydict \<Rightarrow> pydict \<Rightarrow> bool \<Rightarrow> pydict" where
  "session_result v reference replay shared =
     [(''status'', dget v ''status''), (''reason'', dget_or v ''reason'' (PStr [])),
      (''combined_status'', if dget v ''status'' = PStr ''VERIFIED_EXACT'' then PStr combined_byte_match else dget v ''status''),
      (''reference'', PDict reference), (''replay'', PDict replay), (''shared_inference_callable'', PBool shared),
      (''node_independence'', PStr independence_claim)]"

definition execute_session :: "runtime \<Rightarrow> replay_session \<Rightarrow> pyval \<Rightarrow> 'w \<times> 'w pinned_runner list
    \<Rightarrow> ('w \<times> 'w pinned_runner list) \<times> (exc + pydict)" where
  "execute_session R S input wh =
     (case input of PBytes b \<Rightarrow>
        then_call (run_at R (reference_at S) input wh) (\<lambda>wh m1.
        then_call (run_at R (replay_at S) input wh) (\<lambda>wh m2.
        attempt wh (verify_exact_replay R (PDict m1) (PDict m2)) (\<lambda>v.
        (wh, Inr (session_result v m1 m2 (shares_inference_with (snd wh ! reference_at S) (Some (snd wh ! replay_at S))))))))
      | _ \<Rightarrow> (wh, raise ReplaySessionError ''input must be bytes''))"

text \<open>A runner whose callable is a pure function of the bytes.\<close>

definition pure_runner :: "nat \<Rightarrow> (string \<Rightarrow> string) \<Rightarrow> pins \<Rightarrow> 'w pinned_runner" where
  "pure_runner i f p = \<lparr>inference_id = i, inference = (\<lambda>b w. (w, Inr (PBytes (f b)))), run_pins = p, emitted = []\<rparr>"

lemma run_pure: "good_pins R p \<Longrightarrow> run_pinned R (PBytes b) (w, (pure_runner i f p)\<lparr>emitted := es\<rparr>)
    = ((w, (pure_runner i f p)\<lparr>emitted := es @ [(sha256_hex R b, sha256_hex R (f b))]\<rparr>), Inr (run_record R p b (f b)))"
proof -
  assume "good_pins R p"
  then have "build_run_manifest R p (PBytes b) (PBytes (f b)) = Inr (run_record R p b (f b))" by (simp add: build_run_manifest_Inr)
  then show ?thesis by (simp add: run_pinned_def pure_runner_def)
qed

text \<open>
  two pure runners replay each other to the replay_verdict their outputs deserve; byte equality is
  reported as such, a shared callable is disclosed, independence is never claimed, each runner
  records its own run, and the world is not touched.
\<close>

theorem session_tells_what_it_saw:
  assumes "runtime_ok R" "good_pins R p" "good_pins R q"
  shows "case execute_session R \<lparr>reference_at = 0, replay_at = 1\<rparr> (PBytes b) (w, [pure_runner i f p, pure_runner j g q]) of
     (_, Inl e) \<Rightarrow> False
   | ((w', h), Inr res) \<Rightarrow> w' = w
       \<and> dget res ''status'' = PStr (replay_status R p q b b (f b) (g b))
       \<and> (dget res ''combined_status'' = PStr combined_byte_match \<longleftrightarrow> same_conditions R p q b b \<and> sha256_hex R (f b) = sha256_hex R (g b))
       \<and> dget res ''shared_inference_callable'' = PBool (i = j) \<and> dget res ''node_independence'' = PStr independence_claim
       \<and> List.map emitted h = [[(sha256_hex R b, sha256_hex R (f b))], [(sha256_hex R b, sha256_hex R (g b))]]"
proof -
  obtain v where v: "verify_exact_replay R (PDict (run_record R p b (f b))) (PDict (run_record R q b (g b))) = Inr v"
      "dget v ''status'' = PStr (replay_status R p q b b (f b) (g b))"
    using replay_of_records [OF assms, of b "f b" b "g b"] by blast
  have "run_pinned R (PBytes b) (w, pure_runner i f p) = ((w, (pure_runner i f p)\<lparr>emitted := [(sha256_hex R b, sha256_hex R (f b))]\<rparr>), Inr (run_record R p b (f b)))"
    "run_pinned R (PBytes b) (w, pure_runner j g q) = ((w, (pure_runner j g q)\<lparr>emitted := [(sha256_hex R b, sha256_hex R (g b))]\<rparr>), Inr (run_record R q b (g b)))"
    using run_pure [OF assms(2), where es = "[]" and w = w and i = i and f = f and b = b] run_pure [OF assms(3), where es = "[]" and w = w and i = j and f = g and b = b] by (simp_all add: pure_runner_def)
  then show ?thesis using v
    by (simp add: execute_session_def run_at_def session_result_def shares_inference_with_def replay_status_def
        pure_runner_def combined_byte_match_def)
qed

theorem session_tells_what_it_saw_witness:
  "case execute_session sample_runtime \<lparr>reference_at = 0, replay_at = 1\<rparr> (PBytes ''in'') ((), [pure_runner 1 rev sample_pins, pure_runner 2 rev sample_pins]) of
     (_, Inl e) \<Rightarrow> False
   | (_, Inr res) \<Rightarrow> dget res ''combined_status'' = PStr combined_byte_match \<and> dget res ''shared_inference_callable'' = PBool False"
  using session_tells_what_it_saw [OF sample_runtime_ok sample_pins_good sample_pins_good, where b = "''in''" and w = "()" and i = 1 and j = 2 and f = rev and g = rev]
  by (auto simp: same_conditions_def split: prod.splits sum.splits)

section \<open>Trusted peer keys\<close>

text \<open>
  \<open>base64.b64decode(s, validate=True)\<close>: the standard alphabet, complete groups of four, padding at
  the end only. (Padding after a complete group never yields 32 bytes and is refused here.)
\<close>

definition base64_alphabet :: string where
  "base64_alphabet = ''ABCDEFGHIJKLMNOPQRSTUVWXYZabcdefghijklmnopqrstuvwxyz0123456789+/''"

definition base64_value :: "char \<Rightarrow> nat option" where
  "base64_value c = map_of (zip base64_alphabet [0..<64]) c"

fun base64_groups :: "nat list \<Rightarrow> nat list option" where
  "base64_groups [] = Some []"
| "base64_groups [a] = None"
| "base64_groups [a, b] = Some [4 * a + b div 16]"
| "base64_groups [a, b, c] = Some [4 * a + b div 16, b mod 16 * 16 + c div 4]"
| "base64_groups (a # b # c # d # s) = map_option (\<lambda>r. [4 * a + b div 16, b mod 16 * 16 + c div 4, c mod 4 * 64 + d] @ r) (base64_groups s)"

definition b64decode :: "string \<Rightarrow> string option" where
  "b64decode s = (let body = takeWhile (\<lambda>c. c \<noteq> CHR ''='') s; pad = dropWhile (\<lambda>c. c \<noteq> CHR ''='') s in
     if list_all (\<lambda>c. c = CHR ''='') pad \<and> (length body mod 4, length pad) \<in> {(0, 0), (2, 2), (3, 1)} \<and> list_all (\<lambda>c. base64_value c \<noteq> None) body
     then map_option (List.map char_of) (base64_groups (List.map (\<lambda>c. the (base64_value c)) body)) else None)"

definition ed25519_public_key_bytes :: nat where
  "ed25519_public_key_bytes = 32"

definition resolve_trusted_ed25519_key :: "pyval \<Rightarrow> pyval \<Rightarrow> pyval \<Rightarrow> string option" where
  "resolve_trusted_ed25519_key registry peer_id key_id =
     (case (registry, peer_id, key_id) of (PDict r, PStr p, PStr k) \<Rightarrow>
        if blank p \<or> blank k then None
        else (case get_in (get_in (get_in (dget r ''peers'') p) ''keys'') k of PDict entry \<Rightarrow>
          if dget entry ''status'' \<noteq> PStr ''active'' \<or> dget entry ''algorithm'' \<noteq> PStr ''Ed25519'' then None
          else (case dget entry ''public_key_b64'' of
              PStr encoded \<Rightarrow> if encoded = [] then None
                else (case b64decode encoded of None \<Rightarrow> None
                  | Some raw \<Rightarrow> if length raw \<noteq> ed25519_public_key_bytes then None else Some raw)
            | _ \<Rightarrow> None)
          | _ \<Rightarrow> None)
      | _ \<Rightarrow> None)"

text \<open>The encoder of the standard, as a specification.\<close>

fun base64_sextets :: "nat list \<Rightarrow> nat list" where
  "base64_sextets [] = []"
| "base64_sextets [x] = [x div 4, x mod 4 * 16]"
| "base64_sextets [x, y] = [x div 4, x mod 4 * 16 + y div 16, y mod 16 * 4]"
| "base64_sextets (x # y # z # s) = [x div 4, x mod 4 * 16 + y div 16, y mod 16 * 4 + z div 64, z mod 64] @ base64_sextets s"

definition b64encode :: "string \<Rightarrow> string" where
  "b64encode bs = List.map (\<lambda>n. base64_alphabet ! n) (base64_sextets (List.map of_char bs))
     @ replicate ((3 - length bs mod 3) mod 3) (CHR ''='')"

lemma base64_groups_sextets: "list_all (\<lambda>n. n < 256) ns \<Longrightarrow> base64_groups (base64_sextets ns) = Some ns"
proof (induction ns rule: base64_sextets.induct)
  case (2 x)
  have "4 * (x div 4) + x mod 4 * 16 div 16 = x" by simp
  then show ?case by simp
next
  case (3 x y)
  have "y div 16 < 16" using 3 by (simp add: div_less_iff_less_mult)
  then have "(x mod 4 * 16 + y div 16) div 16 = x mod 4" "(x mod 4 * 16 + y div 16) mod 16 = y div 16" by simp_all
  then show ?case by simp
next
  case (4 x y z s)
  have "y div 16 < 16" "z div 64 < 4" using 4 by (simp_all add: div_less_iff_less_mult)
  then have "(x mod 4 * 16 + y div 16) div 16 = x mod 4" "(x mod 4 * 16 + y div 16) mod 16 = y div 16"
    "(y mod 16 * 4 + z div 64) div 4 = y mod 16" "(y mod 16 * 4 + z div 64) mod 4 = z div 64" by simp_all
  then show ?case using 4 by simp
qed simp

lemma sextets_small: "list_all (\<lambda>n. n < 256) ns \<Longrightarrow> list_all (\<lambda>n. n < 64) (base64_sextets ns)"
proof (induction ns rule: base64_sextets.induct)
  case (3 x y)
  then have "y div 16 < 16" "x div 4 < 64" by (simp_all add: div_less_iff_less_mult)
  moreover have "x mod 4 \<le> 3" "y mod 16 \<le> 15" by simp_all
  ultimately show ?case by simp
next
  case (4 x y z s)
  then have "y div 16 < 16" "z div 64 < 4" "x div 4 < 64" by (simp_all add: div_less_iff_less_mult)
  moreover have "x mod 4 \<le> 3" "y mod 16 \<le> 15" by simp_all
  ultimately show ?case using 4 by simp
qed (auto simp: div_less_iff_less_mult)

lemma length_sextets: "length (base64_sextets ns) mod 4 = (if length ns mod 3 = 0 then 0 else Suc (length ns mod 3))"
  by (induction ns rule: base64_sextets.induct) simp_all

lemma alphabet_value: "n < 64 \<Longrightarrow> base64_value (base64_alphabet ! n) = Some n \<and> base64_alphabet ! n \<noteq> CHR ''=''"
proof -
  assume n: "n < 64"
  have "list_all (\<lambda>n. base64_value (base64_alphabet ! n) = Some n \<and> base64_alphabet ! n \<noteq> CHR ''='') [0..<64]" by code_simp
  with n show ?thesis by (simp add: list_all_iff del: upt_conv_Cons)
qed

lemma b64decode_encode: "b64decode (b64encode bs) = Some bs"
proof -
  define ns where "ns = base64_sextets (List.map of_char bs)"
  have small: "list_all (\<lambda>n. n < 64) ns" unfolding ns_def by (rule sextets_small) (simp add: list_all_iff)
  let ?body = "List.map (\<lambda>n. base64_alphabet ! n) ns" and ?k = "(3 - length bs mod 3) mod 3"
  have body: "list_all (\<lambda>c. c \<noteq> CHR ''='' \<and> base64_value c \<noteq> None) ?body" "List.map (\<lambda>c. the (base64_value c)) ?body = ns"
    using small by (auto simp: list_all_iff alphabet_value intro: map_idI)
  have split: "takeWhile (\<lambda>c. c \<noteq> CHR ''='') (?body @ replicate ?k (CHR ''='')) = ?body"
    "dropWhile (\<lambda>c. c \<noteq> CHR ''='') (?body @ replicate ?k (CHR ''='')) = replicate ?k (CHR ''='')"
    using body(1) by (auto simp: takeWhile_append dropWhile_append list_all_iff)
  have "length ns mod 4 = (if length bs mod 3 = 0 then 0 else Suc (length bs mod 3))" by (simp add: ns_def length_sextets)
  moreover have "length bs mod 3 = 0 \<or> length bs mod 3 = 1 \<or> length bs mod 3 = 2" by linarith
  ultimately have lens: "(length ?body mod 4, ?k) \<in> {(0, 0), (2, 2), (3, 1)}" by auto
  have "base64_groups ns = Some (List.map of_char bs)"
    unfolding ns_def by (rule base64_groups_sextets) (simp add: list_all_iff)
  then show ?thesis using body split lens
    by (simp add: b64decode_def b64encode_def ns_def [symmetric] Let_def list_all_iff o_def)
qed

lemma resolved_key_is_active:
  assumes "resolve_trusted_ed25519_key registry peer_id key_id = Some k"
  shows "length k = 32 \<and> (\<exists>r p i. registry = PDict r \<and> peer_id = PStr p \<and> key_id = PStr i
     \<and> get_in (get_in (get_in (get_in (dget r ''peers'') p) ''keys'') i) ''status'' = PStr ''active'')"
  using assms unfolding resolve_trusted_ed25519_key_def ed25519_public_key_bytes_def
  by (auto split: pyval.splits option.splits if_splits)

section \<open>Signed capability manifests\<close>

text \<open>
  \<open>rd s\<close> is \<open>datetime.fromisoformat\<close>: whether the instant carries a time zone, and its microseconds
  since the epoch; \<open>None\<close> is its \<open>ValueError\<close>.
\<close>

type_synonym iso_reader = "string \<Rightarrow> (bool \<times> int) option"

abbreviation bad_manifest :: "string \<Rightarrow> exc + 'a" where
  "bad_manifest why \<equiv> raise ManifestError why"

definition signature_algorithm :: string where "signature_algorithm = ''Ed25519''"

definition required_manifest_fields :: "string list" where
  "required_manifest_fields = [''schema_version'', ''node_id'', ''key_id'', ''software_version'', ''issued_at'', ''expires_at'',
     ''resources'', ''contributions'', ''policy_version'']"

definition required_resources :: "string list" where
  "required_resources = [''cpu_cores_available'', ''ram_mb_available'', ''vram_mb_available'', ''disk_mb_available'']"

definition required_contributions :: "string list" where
  "required_contributions = [''compute'', ''verification'', ''encrypted_storage'', ''metadata_index'']"

definition replace_z :: "string \<Rightarrow> string" where
  "replace_z s = concat (List.map (\<lambda>c. if c = CHR ''Z'' then ''+00:00'' else [c]) s)"

definition parse_instant :: "iso_reader \<Rightarrow> pyval \<Rightarrow> exc + int" where
  "parse_instant rd v = (case v of
     PStr s \<Rightarrow> (case rd (replace_z s) of
         None \<Rightarrow> bad_manifest (''unparsable timestamp: '' @ repr_str s)
       | Some (aware, t) \<Rightarrow> if \<not> aware then bad_manifest (''naive timestamp rejected (timezone required): '' @ repr_str s) else Inr t)
   | _ \<Rightarrow> bad_manifest ''timestamp must be an ISO-8601 string'')"

fun need_strings :: "pydict \<Rightarrow> string list \<Rightarrow> exc + unit" where
  "need_strings m [] = Inr ()"
| "need_strings m (f # fs) = (if nonblank_str (dget m f) then need_strings m fs else bad_manifest (f @ '' must be a non-empty string''))"

definition nonnegative_number :: "pyval \<Rightarrow> bool" where
  "nonnegative_number v \<longleftrightarrow> (case as_num v of None \<Rightarrow> False | Some n \<Rightarrow> \<not> num_lt n (NInt 0))"

fun need_numbers :: "pydict \<Rightarrow> string list \<Rightarrow> exc + unit" where
  "need_numbers m [] = Inr ()"
| "need_numbers m (f # fs) = (if nonnegative_number (dget m f) then need_numbers m fs
     else bad_manifest (''resources.'' @ f @ '' must be a non-negative number''))"

fun need_booleans :: "pydict \<Rightarrow> string list \<Rightarrow> exc + unit" where
  "need_booleans m [] = Inr ()"
| "need_booleans m (f # fs) = (if is_bool (dget m f) then need_booleans m fs
     else bad_manifest (''contributions.'' @ f @ '' must be a boolean''))"

definition need_table :: "string \<Rightarrow> string list \<Rightarrow> pyval \<Rightarrow> exc + pydict" where
  "need_table name keys v = (case v of
     PDict d \<Rightarrow> if list_all (dhas d) keys then Inr d else bad_manifest (name @ '' must contain all of '' @ repr_strs keys)
   | _ \<Rightarrow> bad_manifest (name @ '' must contain all of '' @ repr_strs keys))"

definition validate_structure :: "runtime \<Rightarrow> iso_reader \<Rightarrow> pydict \<Rightarrow> exc + unit" where
  "validate_structure R rd m =
     (let missing = List.filter (\<lambda>k. \<not> dhas m k) required_manifest_fields in
      if missing \<noteq> [] then bad_manifest (''manifest is missing required fields: '' @ repr_strs missing)
      else if \<not> py_eq_int (dget m ''schema_version'') 1
      then bad_manifest (''unsupported schema_version: '' @ py_repr R (dget m ''schema_version''))
      else and_then (need_strings m [''node_id'', ''key_id'', ''software_version'', ''policy_version'']) (\<lambda>_.
        and_then (parse_instant rd (dget m ''issued_at'')) (\<lambda>_.
        and_then (parse_instant rd (dget m ''expires_at'')) (\<lambda>_.
        and_then (need_table ''resources'' required_resources (dget m ''resources'')) (\<lambda>r.
        and_then (need_numbers r required_resources) (\<lambda>_.
        and_then (need_table ''contributions'' required_contributions (dget m ''contributions'')) (\<lambda>c.
        need_booleans c required_contributions)))))))"

definition sign_manifest :: "runtime \<Rightarrow> crypto \<Rightarrow> iso_reader \<Rightarrow> pyval \<Rightarrow> pyval \<Rightarrow> exc + pydict" where
  "sign_manifest R C rd manifest private_key = (case manifest of
     PDict m \<Rightarrow>
       if dhas m ''signature'' then bad_manifest ''manifest already carries a signature''
       else and_then (validate_structure R rd m) (\<lambda>_.
         case private_key of
           PBytes k \<Rightarrow> if length k \<noteq> 32 then bad_manifest ''private signing key must be raw 32 bytes''
             else and_then (canonical_record_bytes R m) (\<lambda>b.
               Inr (dset ''signature'' (PDict [(''algorithm'', PStr signature_algorithm), (''value'', PStr (hex_of (ed_sign C k b)))]) m))
         | _ \<Rightarrow> bad_manifest ''private signing key must be raw 32 bytes'')
   | _ \<Rightarrow> bad_manifest ''manifest must be a dict'')"

definition signature_verifies :: "runtime \<Rightarrow> crypto \<Rightarrow> pyval \<Rightarrow> string \<Rightarrow> pydict \<Rightarrow> bool" where
  "signature_verifies R C public_key value unsigned = (case public_key of
     PBytes k \<Rightarrow> length k = 32 \<and> (case (from_hex value, canonical_record_bytes R unsigned) of
         (Some sig, Inr b) \<Rightarrow> ed_verify C k sig b | _ \<Rightarrow> False)
   | _ \<Rightarrow> False)"

definition is_revoked :: "string list option \<Rightarrow> pyval \<Rightarrow> bool" where
  "is_revoked ids v \<longleftrightarrow> (case ids of None \<Rightarrow> False | Some xs \<Rightarrow> v \<in> PStr ` set xs)"

text \<open>The time window and the revocation lists, once the signature has verified.\<close>

definition judge_manifest :: "runtime \<Rightarrow> iso_reader \<Rightarrow> pyval \<Rightarrow> string list option \<Rightarrow> string list option \<Rightarrow> pydict \<Rightarrow> exc + bool \<times> string" where
  "judge_manifest R rd now revoked_nodes revoked_keys m =
     and_then (parse_instant rd now) (\<lambda>t. and_then (parse_instant rd (dget m ''issued_at'')) (\<lambda>issued.
     and_then (parse_instant rd (dget m ''expires_at'')) (\<lambda>expires.
     if t < issued then Inr (False, ''manifest not yet valid (issued_at in the future)'')
     else if expires < t then Inr (False, ''manifest expired'')
     else if is_revoked revoked_nodes (dget m ''node_id'') then Inr (False, ''node_id revoked: '' @ py_str R (dget m ''node_id''))
     else if is_revoked revoked_keys (dget m ''key_id'') then Inr (False, ''key_id revoked: '' @ py_str R (dget m ''key_id''))
     else Inr (True, ''signed, fresh, unrevoked advertisement (no resource existence proof, no authorization)''))))"

definition verify_manifest :: "runtime \<Rightarrow> crypto \<Rightarrow> iso_reader \<Rightarrow> pyval \<Rightarrow> pyval \<Rightarrow> pyval \<Rightarrow> string list option \<Rightarrow> string list option
    \<Rightarrow> exc + bool \<times> string" where
  "verify_manifest R C rd signed_manifest public_key now revoked_nodes revoked_keys = (case signed_manifest of
     PDict m \<Rightarrow>
       if \<not> dhas m ''signature'' then Inr (False, ''manifest carries no signature'')
       else (case dget m ''signature'' of PDict sg \<Rightarrow>
         if dget sg ''algorithm'' \<noteq> PStr signature_algorithm then Inr (False, ''unsupported or missing signature algorithm'')
         else (case dget sg ''value'' of PStr value \<Rightarrow>
           if length value \<noteq> 128 then Inr (False, ''malformed signature value'')
           else (case validate_structure R rd (dremove ''signature'' m) of
               Inl e \<Rightarrow> if caught_by e [ManifestError] then Inr (False, ''structural validation failed: '' @ snd e) else Inl e
             | Inr _ \<Rightarrow> if \<not> signature_verifies R C public_key value (dremove ''signature'' m)
                 then Inr (False, ''signature verification failed'')
                 else judge_manifest R rd now revoked_nodes revoked_keys m)
           | _ \<Rightarrow> Inr (False, ''malformed signature value''))
         | _ \<Rightarrow> Inr (False, ''unsupported or missing signature algorithm''))
   | _ \<Rightarrow> Inr (False, ''manifest must be a dict''))"

text \<open>What a positive answer means.\<close>

definition fresh_advertisement :: "runtime \<Rightarrow> crypto \<Rightarrow> iso_reader \<Rightarrow> pyval \<Rightarrow> pyval \<Rightarrow> pyval \<Rightarrow> string list option \<Rightarrow> string list option \<Rightarrow> bool" where
  "fresh_advertisement R C rd manifest public_key now revoked_nodes revoked_keys \<longleftrightarrow>
     (\<exists>m sg value t i e. manifest = PDict m \<and> dget m ''signature'' = PDict sg \<and> dget sg ''algorithm'' = PStr signature_algorithm
        \<and> dget sg ''value'' = PStr value \<and> length value = 128 \<and> validate_structure R rd (dremove ''signature'' m) = Inr ()
        \<and> signature_verifies R C public_key value (dremove ''signature'' m)
        \<and> parse_instant rd now = Inr t \<and> parse_instant rd (dget m ''issued_at'') = Inr i \<and> parse_instant rd (dget m ''expires_at'') = Inr e
        \<and> i \<le> t \<and> t \<le> e \<and> \<not> is_revoked revoked_nodes (dget m ''node_id'') \<and> \<not> is_revoked revoked_keys (dget m ''key_id''))"

lemma judge_manifest_True: "judge_manifest R rd now rn rk m = Inr (True, why) \<longleftrightarrow>
    (\<exists>t i e. parse_instant rd now = Inr t \<and> parse_instant rd (dget m ''issued_at'') = Inr i \<and> parse_instant rd (dget m ''expires_at'') = Inr e
      \<and> i \<le> t \<and> t \<le> e \<and> \<not> is_revoked rn (dget m ''node_id'') \<and> \<not> is_revoked rk (dget m ''key_id''))
    \<and> why = ''signed, fresh, unrevoked advertisement (no resource existence proof, no authorization)''"
  by (cases "parse_instant rd now"; cases "parse_instant rd (dget m ''issued_at'')"; cases "parse_instant rd (dget m ''expires_at'')")
    (auto simp: judge_manifest_def)

lemma dget_dict_has: "dget m k = PDict d \<Longrightarrow> dhas m k"
  using dget_not_in [of m k] by (cases "dhas m k") auto

lemma verify_manifest_True: "(\<exists>why. verify_manifest R C rd manifest key now rn rk = Inr (True, why)) \<longleftrightarrow>
    fresh_advertisement R C rd manifest key now rn rk"
proof (cases manifest)
  case (PDict m)
  then show ?thesis unfolding verify_manifest_def fresh_advertisement_def
    by (auto simp: judge_manifest_True dget_dict_has split: pyval.splits sum.splits if_splits)
qed (auto simp: verify_manifest_def fresh_advertisement_def)

text \<open>
  C25: a manifest is accepted exactly when it is a fresh, unrevoked advertisement whose signature
  covers its canonical bytes; and what \<open>sign_manifest\<close> returns for a private key is judged, under
  the public key, by its time window and the revocation lists alone.
\<close>

theorem manifest_is_accepted_exactly_when_authentic:
  assumes "crypto_ok C"
  shows "((\<exists>why. verify_manifest R C rd manifest key now rn rk = Inr (True, why)) \<longleftrightarrow> fresh_advertisement R C rd manifest key now rn rk)
   \<and> (case sign_manifest R C rd (PDict m) (PBytes k) of Inl e \<Rightarrow> True
      | Inr s \<Rightarrow> verify_manifest R C rd (PDict s) (PBytes (ed_public C k)) now rn rk = judge_manifest R rd now rn rk m)"
proof (rule conjI [OF verify_manifest_True])
  show "case sign_manifest R C rd (PDict m) (PBytes k) of Inl e \<Rightarrow> True
      | Inr s \<Rightarrow> verify_manifest R C rd (PDict s) (PBytes (ed_public C k)) now rn rk = judge_manifest R rd now rn rk m"
  proof (cases "sign_manifest R C rd (PDict m) (PBytes k)")
    case (Inr s)
    then obtain b where fresh: "\<not> dhas m ''signature''" and ok: "validate_structure R rd m = Inr ()"
      and b: "canonical_record_bytes R m = Inr b"
      and s: "s = dset ''signature'' (PDict [(''algorithm'', PStr signature_algorithm), (''value'', PStr (hex_of (ed_sign C k b)))]) m"
      by (auto simp: sign_manifest_def and_then_Inr split: if_splits)
    have "signature_verifies R C (PBytes (ed_public C k)) (hex_of (ed_sign C k b)) m"
      using assms b by (simp add: signature_verifies_def crypto_ok_def)
    moreover have d: "dget s ''issued_at'' = dget m ''issued_at''" "dget s ''expires_at'' = dget m ''expires_at''"
      "dget s ''node_id'' = dget m ''node_id''" "dget s ''key_id'' = dget m ''key_id''" by (simp_all add: s)
    have "judge_manifest R rd now rn rk s = judge_manifest R rd now rn rk m" by (simp only: judge_manifest_def d)
    moreover have "length (ed_sign C k b) = 64" using assms by (simp add: crypto_ok_def)
    ultimately show ?thesis using Inr fresh ok by (simp add: verify_manifest_def s dremove_dset)
  qed simp
qed

definition sample_iso :: iso_reader where
  "sample_iso s = (if s = ''a+00:00'' then Some (True, 10) else if s = ''b+00:00'' then Some (True, 20)
     else if s = ''n'' then Some (False, 15) else None)"

definition sample_manifest :: pydict where
  "sample_manifest = [(''schema_version'', PInt 1), (''node_id'', PStr ''n''), (''key_id'', PStr ''k''), (''software_version'', PStr ''1''),
     (''issued_at'', PStr ''aZ''), (''expires_at'', PStr ''bZ''),
     (''resources'', PDict (List.map (\<lambda>f. (f, PInt 1)) required_resources)),
     (''contributions'', PDict (List.map (\<lambda>f. (f, PBool True)) required_contributions)), (''policy_version'', PStr ''1'')]"

lemma sample_manifest_valid: "validate_structure R sample_iso sample_manifest = Inr ()"
  by code_simp

theorem manifest_is_accepted_exactly_when_authentic_witness:
  "\<exists>s. sign_manifest sample_runtime sample_crypto sample_iso (PDict sample_manifest) (PBytes (replicate 32 (CHR ''x''))) = Inr s
     \<and> (\<exists>why. verify_manifest sample_runtime sample_crypto sample_iso (PDict s)
       (PBytes (ed_public sample_crypto (replicate 32 (CHR ''x'')))) (PStr ''bZ'') None None = Inr (True, why))"
proof -
  let ?k = "replicate 32 (CHR ''x'')"
  have "dumpable sample_manifest" "\<not> dhas sample_manifest ''signature''" by code_simp+
  moreover from this(1) obtain b where "canonical_record_bytes sample_runtime sample_manifest = Inr b"
    by (auto simp: canonical_record_bytes_def dumps_canonical_def dumps_checked_def dumpable_dict [symmetric])
  ultimately obtain s where s: "sign_manifest sample_runtime sample_crypto sample_iso (PDict sample_manifest) (PBytes ?k) = Inr s"
    using sample_manifest_valid by (auto simp: sign_manifest_def)
  have "\<exists>why. judge_manifest sample_runtime sample_iso (PStr ''bZ'') None None sample_manifest = Inr (True, why)"
    by (simp add: judge_manifest_def parse_instant_def sample_iso_def replace_z_def sample_manifest_def is_revoked_def)
  moreover have "verify_manifest sample_runtime sample_crypto sample_iso (PDict s) (PBytes (ed_public sample_crypto ?k)) (PStr ''bZ'') None None
      = judge_manifest sample_runtime sample_iso (PStr ''bZ'') None None sample_manifest"
    using conjunct2 [OF manifest_is_accepted_exactly_when_authentic [OF sample_crypto_ok, where m = sample_manifest and k = ?k
        and R = sample_runtime and rd = sample_iso and now = "PStr ''bZ''" and rn = None and rk = None]] s by simp
  ultimately show ?thesis using s by metis
qed

text \<open>A NaN passes for a non-negative number, and \<open>True\<close> for the schema version.\<close>

lemma lax_manifest_values: "nonnegative_number (PFloat NaN)" "py_eq_int (PBool True) 1"
  by (simp_all add: nonnegative_number_def num_lt_def)

end
