(* ===== verification/Observer.thy ===== *)
theory Observer
  imports PyText TextFile
begin

text \<open>
  \<open>controller/observer.py\<close>, which publishes a snapshot of the local queue and action log, and
  \<open>scripts/v91_dashboard.py\<close>, which reads it back. A published file is the value its text parses to
  (\<open>canon\<close>, since the text has sorted keys). Shown: when a snapshot says OBSERVED, that publishing
  never damages the previous snapshot, which log lines end the observer, that the dashboard
  confirms a snapshot exactly when it says OBSERVED, and that anything else stays UNKNOWN.
\<close>

section \<open>What the observer reads\<close>

text \<open>
  A directory listing is the exception of \<open>iterdir\<close> or \<open>is_file\<close>, or the names with \<open>is_file\<close>. A log
  is the exception of \<open>open\<close>, or the lines read before the end or before the exception of a read.
\<close>

type_synonym listing = "exc + (string \<times> bool) list"

datatype log_file = NotOpened exc | Stream "file_line list" "exc option"

definition queue_names :: "string list" where
  "queue_names = [''pending'', ''processing'', ''done'', ''failed'']"

text \<open>\<open>Path(n).suffix == ".json"\<close>: a name that is only the suffix has none.\<close>

definition json_suffix :: "string \<Rightarrow> bool" where
  "json_suffix n \<longleftrightarrow> ends_with ''.json'' n \<and> 5 < length n"

definition count_json_files :: "(string \<times> bool) list \<Rightarrow> nat" where
  "count_json_files es = length (List.filter (\<lambda>(n, regular). regular \<and> json_suffix n) es)"

definition count_tasks :: "listing \<Rightarrow> exc + pyval" where
  "count_tasks l = (case l of
     Inr es \<Rightarrow> Inr (PInt (int (count_json_files es)))
   | Inl e \<Rightarrow> if caught_by e [FileNotFoundError] then Inr (PInt 0)
              else if caught_by e [OSError] then Inr PNone else Inl e)"

definition last_event_of :: "pydict \<Rightarrow> pydict" where
  "last_event_of ev =
     [(''timestamp_utc'', dget ev ''timestamp_utc''), (''phase'', dget ev ''phase''),
      (''status'', por (dget ev ''status'') (dget ev ''action_status'')),
      (''task_id'', dget ev ''task_id''), (''action'', dget ev ''action'')]"

record log_summary =
  ls_events :: nat
  ls_errors :: nat
  ls_last :: pyval

fun read_log_line :: "file_line \<Rightarrow> log_summary \<Rightarrow> log_summary" where
  "read_log_line Blank s = s"
| "read_log_line (Parsed (PDict ev)) s = s\<lparr>ls_events := ls_events s + 1, ls_last := PDict (last_event_of ev)\<rparr>"
| "read_log_line l s = s\<lparr>ls_errors := ls_errors s + 1\<rparr>"

definition empty_summary :: log_summary where
  "empty_summary = \<lparr>ls_events = 0, ls_errors = 0, ls_last = PNone\<rparr>"

text \<open>A UnicodeDecodeError is not an OSError: it leaves the function.\<close>

definition log_failure :: "exc \<Rightarrow> log_summary \<Rightarrow> exc + log_summary" where
  "log_failure e s = (if caught_by e [FileNotFoundError] then Inr s
     else if caught_by e [OSError] then Inr (s\<lparr>ls_errors := ls_errors s + 1\<rparr>) else Inl e)"

fun inspect_action_log :: "log_file \<Rightarrow> exc + log_summary" where
  "inspect_action_log (NotOpened e) = log_failure e empty_summary"
| "inspect_action_log (Stream ls None) = Inr (fold read_log_line ls empty_summary)"
| "inspect_action_log (Stream ls (Some e)) = log_failure e (fold read_log_line ls empty_summary)"

definition summary_dict :: "log_summary \<Rightarrow> pydict" where
  "summary_dict s = [(''events'', PInt (int (ls_events s))), (''parse_errors'', PInt (int (ls_errors s))),
     (''last_event'', ls_last s)]"

fun count_all :: "(string \<Rightarrow> listing) \<Rightarrow> string list \<Rightarrow> exc + pydict" where
  "count_all dirs [] = Inr []"
| "count_all dirs (n # ns) = and_then (count_tasks (dirs n)) (\<lambda>c.
     and_then (count_all dirs ns) (\<lambda>rest. Inr ((n, c) # rest)))"

record observed_state =
  os_dirs :: "string \<Rightarrow> listing"
  os_log :: log_file
  os_time :: string

definition observer_note :: string where
  "observer_note = ''This is local queue/log state, not proof of model correctness or production availability.''"

definition snapshot_dict :: "string \<Rightarrow> pydict \<Rightarrow> log_summary \<Rightarrow> pydict" where
  "snapshot_dict now counts audit =
     (let known = list_all (\<lambda>(n, c). c \<noteq> PNone) counts; good = known \<and> ls_errors audit = 0 in
      [(''timestamp_utc'', PStr now), (''source'', PStr ''LOCAL_FILESYSTEM''),
       (''status'', PStr (if good then ''OBSERVED'' else ''PENDING_WITNESS'')),
       (''evidence_status'', PStr (if good then ''OBSERVED_LOCAL_STATE'' else ''INCOMPLETE_OR_CORRUPT'')),
       (''queue_counts'', PDict counts), (''audit'', PDict (summary_dict audit)),
       (''note'', PStr observer_note)])"

definition take_snapshot :: "observed_state \<Rightarrow> exc + pydict" where
  "take_snapshot w = and_then (count_all (os_dirs w) queue_names) (\<lambda>counts.
     and_then (inspect_action_log (os_log w)) (\<lambda>audit. Inr (snapshot_dict (os_time w) counts audit)))"

section \<open>Publishing\<close>

text \<open>
  The directory of the runtime files: the published snapshot as the value its text parses to, and
  whether a temporary file is left. A write may fail at each of its steps; \<open>json.dump\<close> raises on a
  value that \<open>allow_nan=False\<close> excludes, after it has begun to write.
\<close>

record publisher =
  published :: "pyval option"
  leftover :: bool
  announced :: "pydict list"

record write_outcome =
  wo_mkdir :: "exc option"
  wo_open :: "exc option"
  wo_stream :: "exc option"
  wo_replace :: "exc option"

fun failing :: "exc option \<Rightarrow> exc + unit" where
  "failing None = Inr ()"
| "failing (Some e) = Inl e"

definition dumps_plain :: "pydict \<Rightarrow> exc + unit" where
  "dumps_plain d = (if \<not> serialisable (PDict d) then raise TypeError ''Object is not JSON serializable''
     else if \<not> all_finite (PDict d) then raise ValueError ''Out of range float values are not JSON compliant''
     else Inr ())"

definition publish :: "write_outcome \<Rightarrow> pydict \<Rightarrow> publisher \<Rightarrow> publisher \<times> (exc + unit)" where
  "publish out d s =
     attempt s (failing (wo_mkdir out)) (\<lambda>_. attempt s (failing (wo_open out)) (\<lambda>_.
       let t = s\<lparr>leftover := True\<rparr> in
       attempt t (dumps_plain d) (\<lambda>_. attempt t (failing (wo_stream out)) (\<lambda>_.
         attempt t (failing (wo_replace out)) (\<lambda>_.
           (t\<lparr>published := Some (canon (PDict d)), leftover := False\<rparr>, Inr ()))))))"

text \<open>
  One pass of the loop of \<open>main\<close>, and the loop: the passes before the signal that stops it. The
  interval is checked, and the directories are made, before the first.
\<close>

definition observe_once :: "observed_state \<times> write_outcome \<Rightarrow> publisher \<Rightarrow> publisher \<times> (exc + unit)" where
  "observe_once p s = (case p of (w, out) \<Rightarrow> attempt s (take_snapshot w) (\<lambda>d.
     then_call (publish out d s) (\<lambda>s u. (s\<lparr>announced := announced s @ [d]\<rparr>, Inr ()))))"

fun observe_loop :: "(observed_state \<times> write_outcome) list \<Rightarrow> publisher \<Rightarrow> publisher \<times> (exc + int)" where
  "observe_loop [] s = (s, Inr 0)"
| "observe_loop (p # ps) s = then_call (observe_once p s) (\<lambda>s u. observe_loop ps s)"

definition observer_main :: "int \<Rightarrow> exc option \<Rightarrow> (observed_state \<times> write_outcome) list \<Rightarrow> publisher \<Rightarrow> publisher \<times> (exc + int)" where
  "observer_main poll setup passes s =
     (if \<not> (5 \<le> poll \<and> poll \<le> 3600) then (s, Inr 2)
      else attempt s (failing setup) (\<lambda>_. observe_loop passes s))"

section \<open>The dashboard\<close>

text \<open>\<open>read_json\<close>: what \<open>json.load\<close> of the opened file gave or raised.\<close>

definition read_json :: "exc + pyval \<Rightarrow> exc + (string + pydict)" where
  "read_json f = (case f of
     Inl e \<Rightarrow> if caught_by e [FileNotFoundError] then Inr (Inl ''file not found'')
       else if caught_by e [OSError, UnicodeDecodeError, JSONDecodeError]
       then Inr (Inl (''unreadable or invalid JSON ('' @ class_name (fst e) @ '')''))
       else Inl e
   | Inr (PDict d) \<Rightarrow> Inr (Inr d)
   | Inr other \<Rightarrow> Inr (Inl ''JSON root is not an object''))"

text \<open>\<open>isinstance(v, int)\<close> lets a boolean through; the queue counts exclude it.\<close>

fun int_or_bool :: "pyval \<Rightarrow> int option" where
  "int_or_bool (PInt i) = Some i"
| "int_or_bool (PBool b) = Some (of_bool b)"
| "int_or_bool _ = None"

definition good_count :: "pyval \<Rightarrow> bool" where
  "good_count v = (case v of PInt i \<Rightarrow> 0 \<le> i | _ \<Rightarrow> False)"

definition good_errors :: "pyval \<Rightarrow> bool" where
  "good_errors v = (case int_or_bool v of Some i \<Rightarrow> 0 \<le> i | None \<Rightarrow> False)"

definition unknown_observer :: "string \<Rightarrow> string \<Rightarrow> pydict" where
  "unknown_observer src reason = [(''status'', PStr ''UNKNOWN''), (''reason'', PStr reason), (''source'', PStr src)]"

definition dashboard_note :: string where
  "dashboard_note = ''Local queue/log state only; not proof of model correctness, API availability, backup recovery, or production health.''"

definition trusted_observer :: "pydict \<Rightarrow> pydict \<Rightarrow> pydict \<Rightarrow> pydict" where
  "trusted_observer data counts audit =
     [(''status'', PStr (if dget data ''status'' = PStr ''OBSERVED'' \<and> py_eq_int (dget audit ''parse_errors'') 0
         then ''OBSERVED'' else ''PENDING_WITNESS'')),
      (''timestamp_utc'', dget data ''timestamp_utc''),
      (''source'', dget_or data ''source'' (PStr ''UNKNOWN'')),
      (''queue_counts'', PDict (List.map (\<lambda>n. (n, dget counts n)) queue_names)),
      (''audit'', PDict
        [(''events'', if int_or_bool (dget audit ''events'') = None then PNone else dget audit ''events''),
         (''parse_errors'', dget audit ''parse_errors''),
         (''last_event'', if is_dict (dget audit ''last_event'') then dget audit ''last_event'' else PNone)]),
      (''note'', PStr dashboard_note)]"

definition read_observer :: "string \<Rightarrow> exc + pyval \<Rightarrow> exc + pydict" where
  "read_observer src f = and_then (read_json f) (\<lambda>r. Inr (case r of
     Inl reason \<Rightarrow> unknown_observer src reason
   | Inr data \<Rightarrow> (case (dget data ''queue_counts'', dget data ''audit'') of
       (PDict counts, PDict audit) \<Rightarrow>
         if list_ex (\<lambda>n. \<not> good_count (dget counts n)) queue_names
         then unknown_observer src ''queue counts are missing or invalid''
         else if \<not> good_errors (dget audit ''parse_errors'')
         then unknown_observer src ''audit parse-error count is missing or invalid''
         else trusted_observer data counts audit
     | _ \<Rightarrow> unknown_observer src ''required observer fields are missing'')))"

text \<open>\<open>shutil.disk_usage\<close>: total, used and free bytes; \<open>a / b\<close> of integers rounds the exact quotient.\<close>

definition disk_report :: "exc + (nat \<times> nat \<times> nat) \<Rightarrow> exc + pydict" where
  "disk_report u = (case u of
     Inl e \<Rightarrow> if caught_by e [OSError] then Inr [(''status'', PStr ''UNKNOWN''), (''reason'', PStr (class_name (fst e)))]
              else Inl e
   | Inr (tot, used, free) \<Rightarrow> Inr
      [(''status'', PStr ''OBSERVED''), (''total_bytes'', PInt (int tot)), (''used_bytes'', PInt (int used)),
       (''free_bytes'', PInt (int free)),
       (''used_percent'', if tot = 0 then PNone
          else PFloat (py_round 2 (fmul (to_pf (of_nat used / of_nat tot)) (Fin 100))))])"

definition directory_count :: "listing \<Rightarrow> exc + pyval" where
  "directory_count l = (case l of
     Inr es \<Rightarrow> Inr (PInt (int (count_json_files es)))
   | Inl e \<Rightarrow> if caught_by e [FileNotFoundError, OSError] then Inr (PStr ''UNKNOWN'') else Inl e)"

fun directory_counts :: "(string \<Rightarrow> listing) \<Rightarrow> string list \<Rightarrow> exc + pydict" where
  "directory_counts dirs [] = Inr []"
| "directory_counts dirs (n # ns) = and_then (directory_count (dirs n)) (\<lambda>c.
     and_then (directory_counts dirs ns) (\<lambda>rest. Inr ((n, c) # rest)))"

definition not_checked :: pydict where
  "not_checked = List.map (\<lambda>k. (k, PStr ''UNKNOWN''))
     [''service_liveness'', ''API_health'', ''backup_transfer_and_restore'', ''production_deployment'']"

record dashboard_input =
  di_source :: string
  di_file :: "exc + pyval"
  di_disk :: "exc + (nat \<times> nat \<times> nat)"
  di_dirs :: "string \<Rightarrow> listing"
  di_time :: string

definition status_is :: "pydict \<Rightarrow> string \<Rightarrow> bool" where
  "status_is d s \<longleftrightarrow> dget d ''status'' = PStr s"

definition build_report :: "dashboard_input \<Rightarrow> exc + pydict" where
  "build_report i = and_then (read_observer (di_source i) (di_file i)) (\<lambda>observer.
     and_then (disk_report (di_disk i)) (\<lambda>disk.
     and_then (directory_counts (di_dirs i) queue_names) (\<lambda>dirs. Inr
      [(''schema_version'', PInt 1), (''generated_at_utc'', PStr (di_time i)),
       (''overall_status'', PStr (if status_is observer ''OBSERVED'' \<and> status_is disk ''OBSERVED''
          then ''OBSERVED'' else ''UNKNOWN_OR_INCOMPLETE'')),
       (''observer'', PDict observer), (''queue_filesystem_counts'', PDict dirs), (''disk'', PDict disk),
       (''not_checked'', PDict not_checked), (''side_effects'', PStr ''NONE_READ_ONLY'')])))"

definition audit_lines :: "runtime \<Rightarrow> pydict \<Rightarrow> string list" where
  "audit_lines R audit =
     (''Audit events='' @ py_str R (dget_or audit ''events'' (PStr ''UNKNOWN''))
        @ ''; parse errors='' @ py_str R (dget_or audit ''parse_errors'' (PStr ''UNKNOWN'')))
     # (case dget audit ''last_event'' of
          PDict ev \<Rightarrow> [''Last audit event: phase='' @ py_str R (dget_or ev ''phase'' (PStr ''UNKNOWN''))
             @ ''; status='' @ py_str R (dget_or ev ''status'' (PStr ''UNKNOWN''))
             @ ''; task='' @ py_str R (dget_or ev ''task_id'' (PStr ''UNKNOWN''))]
        | _ \<Rightarrow> [])"

definition observer_lines :: "runtime \<Rightarrow> pydict \<Rightarrow> string list" where
  "observer_lines R observer =
     (''Observer: '' @ py_str R (dget_or observer ''status'' (PStr ''UNKNOWN'')))
     # (if truthy (dget observer ''reason'') then [''Observer detail: '' @ py_str R (dget observer ''reason'')] else [])
     @ (if truthy (dget observer ''timestamp_utc'')
        then [''Observer timestamp (UTC): '' @ py_str R (dget observer ''timestamp_utc'')] else [])
     @ (case dget observer ''queue_counts'' of
          PDict counts \<Rightarrow> [''Observer queue counts: '' @ join '', '' (List.map (\<lambda>(k, v). k @ ''='' @ py_str R v) counts)]
        | _ \<Rightarrow> [])
     @ (case dget observer ''audit'' of PDict audit \<Rightarrow> audit_lines R audit | _ \<Rightarrow> [])"

definition disk_line :: "runtime \<Rightarrow> pydict \<Rightarrow> string" where
  "disk_line R disk = (if status_is disk ''OBSERVED''
     then ''Disk: '' @ py_str R (dget disk ''used_percent'') @ ''% used; '' @ py_str R (dget disk ''free_bytes'') @ '' bytes free''
     else ''Disk: UNKNOWN ('' @ py_str R (dget_or disk ''reason'' (PStr ''no data'')) @ '')'')"

text \<open>\<open>sub\<close> is a dictionary in every report \<open>build_report\<close> makes.\<close>

definition sub_dict :: "pydict \<Rightarrow> string \<Rightarrow> pydict" where
  "sub_dict d k = (case dget d k of PDict e \<Rightarrow> e | _ \<Rightarrow> [])"

definition render_text :: "runtime \<Rightarrow> pydict \<Rightarrow> string" where
  "render_text R report = join [CHR 0x0A]
     ([''V91 LOCAL STATUS DASHBOARD (READ ONLY)'', ''Overall: '' @ py_str R (dget report ''overall_status'')]
      @ observer_lines R (sub_dict report ''observer'')
      @ [disk_line R (sub_dict report ''disk''),
         ''Not checked: service liveness, API health, backup/restore, production deployment.'',
         ''No services were started, stopped, scaled, repaired, or deployed.''])"

datatype dashboard_output = JsonReport pydict | TextReport string

definition dashboard_main :: "runtime \<Rightarrow> bool \<Rightarrow> dashboard_input \<Rightarrow> exc + dashboard_output \<times> int" where
  "dashboard_main R as_json i = and_then (build_report i) (\<lambda>report. Inr
     (if as_json then JsonReport report else TextReport (render_text R report),
      if dget report ''overall_status'' = PStr ''OBSERVED'' then 0 else 2))"

section \<open>When a snapshot says OBSERVED\<close>

lemma missing_is_os: "caught_by e [FileNotFoundError] \<Longrightarrow> caught_by e [OSError]"
  by (cases "fst e") (simp_all add: caught_by_def issubclass_def)

lemma caught_either: "caught_by e [FileNotFoundError, OSError] \<longleftrightarrow> caught_by e [OSError]"
  using missing_is_os [of e] by (auto simp: caught_by_def)

text \<open>What a read did: it returned, it failed in a way the code reports, or its exception escapes.\<close>

definition dir_readable :: "listing \<Rightarrow> bool" where
  "dir_readable l \<longleftrightarrow> (case l of Inr es \<Rightarrow> True | Inl e \<Rightarrow> caught_by e [FileNotFoundError])"

definition dir_returns :: "listing \<Rightarrow> bool" where
  "dir_returns l \<longleftrightarrow> (case l of Inr es \<Rightarrow> True | Inl e \<Rightarrow> caught_by e [OSError])"

definition json_count :: "listing \<Rightarrow> nat" where
  "json_count l = (case l of Inr es \<Rightarrow> count_json_files es | Inl e \<Rightarrow> 0)"

fun is_event :: "file_line \<Rightarrow> bool" where
  "is_event (Parsed v) \<longleftrightarrow> is_dict v"
| "is_event _ \<longleftrightarrow> False"

fun read_part :: "log_file \<Rightarrow> file_line list" where
  "read_part (NotOpened e) = []"
| "read_part (Stream ls r) = ls"

fun read_error :: "log_file \<Rightarrow> exc option" where
  "read_error (NotOpened e) = Some e"
| "read_error (Stream ls r) = r"

definition clean_line :: "file_line \<Rightarrow> bool" where
  "clean_line l \<longleftrightarrow> l = Blank \<or> is_event l"

definition log_clean :: "log_file \<Rightarrow> bool" where
  "log_clean f \<longleftrightarrow> list_all clean_line (read_part f)
     \<and> (case read_error f of None \<Rightarrow> True | Some e \<Rightarrow> caught_by e [FileNotFoundError])"

definition log_returns :: "log_file \<Rightarrow> bool" where
  "log_returns f \<longleftrightarrow> (case read_error f of None \<Rightarrow> True | Some e \<Rightarrow> caught_by e [OSError])"

definition all_read :: "observed_state \<Rightarrow> bool" where
  "all_read w \<longleftrightarrow> list_all (\<lambda>n. dir_readable (os_dirs w n)) queue_names \<and> log_clean (os_log w)"

definition reads_return :: "observed_state \<Rightarrow> bool" where
  "reads_return w \<longleftrightarrow> list_all (\<lambda>n. dir_returns (os_dirs w n)) queue_names \<and> log_returns (os_log w)"

text \<open>The last event a log holds, the count of its events and of its damaged lines\<close>

definition final_event :: "file_line list \<Rightarrow> pyval" where
  "final_event ls = (let evs = List.filter is_event ls in
     if evs = [] then PNone else (case last evs of Parsed (PDict ev) \<Rightarrow> PDict (last_event_of ev) | _ \<Rightarrow> PNone))"

definition damaged_lines :: "file_line list \<Rightarrow> nat" where
  "damaged_lines ls = length (List.filter (\<lambda>l. \<not> clean_line l) ls)"

lemma read_log_line_cases:
  "read_log_line l s = (if is_event l then s\<lparr>ls_events := ls_events s + 1, ls_last := final_event [l]\<rparr>
     else if l = Blank then s else s\<lparr>ls_errors := ls_errors s + 1\<rparr>)"
  by (cases "(l, s)" rule: read_log_line.cases) (simp_all add: final_event_def)

lemma final_event_snoc: "final_event (ls @ [l]) = (if is_event l then final_event [l] else final_event ls)"
  by (simp add: final_event_def Let_def)

lemma read_log_lines:
  "fold read_log_line ls empty_summary =
     \<lparr>ls_events = length (List.filter is_event ls), ls_errors = damaged_lines ls, ls_last = final_event ls\<rparr>"
proof (induction ls rule: rev_induct)
  case Nil
  show ?case by (simp add: empty_summary_def final_event_def damaged_lines_def)
next
  case (snoc l ls)
  then show ?case
    by (simp add: read_log_line_cases final_event_snoc) (auto simp: damaged_lines_def clean_line_def)
qed

definition log_result :: "log_file \<Rightarrow> log_summary" where
  "log_result f = \<lparr>ls_events = length (List.filter is_event (read_part f)),
     ls_errors = damaged_lines (read_part f)
       + (case read_error f of None \<Rightarrow> 0 | Some e \<Rightarrow> if caught_by e [FileNotFoundError] then 0 else 1),
     ls_last = final_event (read_part f)\<rparr>"

lemma inspect_action_log:
  "inspect_action_log f = (if log_returns f then Inr (log_result f) else Inl (the (read_error f)))"
proof (cases f)
  case (NotOpened e)
  have E: "empty_summary = \<lparr>ls_events = 0, ls_errors = damaged_lines [], ls_last = final_event []\<rparr>"
    using read_log_lines [of "[]"] by simp
  show ?thesis
    using NotOpened missing_is_os [of e]
    by (cases e) (auto simp: log_failure_def log_returns_def log_result_def E)
next
  case (Stream ls r)
  then show ?thesis
    by (cases r) (auto simp: log_failure_def log_returns_def log_result_def read_log_lines dest: missing_is_os)
qed

lemma log_result_sel [simp]:
  "ls_events (log_result f) = length (List.filter is_event (read_part f))"
  "ls_last (log_result f) = final_event (read_part f)"
  by (simp_all add: log_result_def)


lemma count_tasks_cases:
  "count_tasks l = (if dir_returns l then Inr (if dir_readable l then PInt (int (json_count l)) else PNone)
     else Inl (projl l))"
  by (cases l) (auto simp: count_tasks_def dir_returns_def dir_readable_def json_count_def dest: missing_is_os)

lemma count_all_cases:
  "(\<exists>counts. count_all dirs ns = Inr counts) \<longleftrightarrow> list_all (\<lambda>n. dir_returns (dirs n)) ns"
  "count_all dirs ns = Inr counts \<Longrightarrow>
     counts = List.map (\<lambda>n. (n, if dir_readable (dirs n) then PInt (int (json_count (dirs n))) else PNone)) ns"
proof (induction ns arbitrary: counts)
  case (Cons n ns)
  { case 1 show ?case using Cons.IH(1) by (auto simp: and_then_Inr count_tasks_cases) }
  { case 2 then show ?case using Cons.IH(2) by (auto simp: and_then_Inr count_tasks_cases split: if_splits) }
qed simp_all

definition observed_counts :: "observed_state \<Rightarrow> pydict" where
  "observed_counts w = List.map (\<lambda>n. (n, if dir_readable (os_dirs w n) then PInt (int (json_count (os_dirs w n))) else PNone))
     queue_names"

lemma take_snapshot_Inr:
  "take_snapshot w = Inr d \<longleftrightarrow>
     reads_return w \<and> d = snapshot_dict (os_time w) (observed_counts w) (log_result (os_log w))"
proof (cases "count_all (os_dirs w) queue_names")
  case (Inl e)
  then show ?thesis
    using count_all_cases(1) [of "os_dirs w" queue_names] by (simp add: take_snapshot_def reads_return_def)
next
  case (Inr c)
  then have "c = observed_counts w" "list_all (\<lambda>n. dir_returns (os_dirs w n)) queue_names"
    using count_all_cases [of "os_dirs w" queue_names] by (auto simp: observed_counts_def)
  then show ?thesis
    using Inr by (auto simp: take_snapshot_def inspect_action_log reads_return_def)
qed

lemma damaged_none: "damaged_lines ls = 0 \<longleftrightarrow> list_all clean_line ls"
  by (simp add: damaged_lines_def filter_empty_conv list_all_iff)

lemma log_result_clean: "ls_errors (log_result f) = 0 \<longleftrightarrow> log_clean f"
  by (auto simp: log_result_def log_clean_def damaged_none split: option.splits)

lemma counts_known: "list_all (\<lambda>(n, c). c \<noteq> PNone) (observed_counts w) \<longleftrightarrow> list_all (\<lambda>n. dir_readable (os_dirs w n)) queue_names"
  by (simp add: observed_counts_def list_all_iff)

lemma snapshot_status:
  "dget (snapshot_dict now (observed_counts w) (log_result (os_log w))) ''status'' = PStr ''OBSERVED'' \<longleftrightarrow> all_read w"
  by (simp add: snapshot_dict_def Let_def counts_known log_result_clean all_read_def)

text \<open>
  The observer returns a snapshot exactly when no read raised anything but an OSError. The snapshot
  says OBSERVED exactly when every queue directory was listed (or does not exist) and the log was read
  to its end with a JSON object on every line that is not blank; its counts are those of the
  directories, unknown where a listing failed, and its last event is the last object of the log.
\<close>

theorem snapshot_tells_what_was_read:
  "case take_snapshot w of
     Inl e \<Rightarrow> \<not> reads_return w
   | Inr d \<Rightarrow> reads_return w
       \<and> (dget d ''status'' = PStr ''OBSERVED'' \<longleftrightarrow> all_read w)
       \<and> dget d ''queue_counts'' = PDict (observed_counts w)
       \<and> get_in (dget d ''audit'') ''events'' = PInt (int (length (List.filter is_event (read_part (os_log w)))))
       \<and> get_in (dget d ''audit'') ''last_event'' = final_event (read_part (os_log w))"
proof (cases "take_snapshot w")
  case (Inl e)
  then show ?thesis using take_snapshot_Inr [of w] by auto
next
  case (Inr d)
  then have d: "reads_return w" "d = snapshot_dict (os_time w) (observed_counts w) (log_result (os_log w))"
    by (simp_all add: take_snapshot_Inr)
  moreover have "dget d ''queue_counts'' = PDict (observed_counts w)"
    "dget d ''audit'' = PDict (summary_dict (log_result (os_log w)))"
    by (simp_all add: d(2) snapshot_dict_def Let_def)
  ultimately show ?thesis
    using Inr by (simp add: snapshot_status summary_dict_def)
qed

section \<open>Publishing never damages the previous snapshot\<close>

definition write_ok :: "write_outcome \<Rightarrow> bool" where
  "write_ok out \<longleftrightarrow> wo_mkdir out = None \<and> wo_open out = None \<and> wo_stream out = None \<and> wo_replace out = None"

definition jsonable :: "pyval \<Rightarrow> bool" where
  "jsonable v \<longleftrightarrow> serialisable v \<and> all_finite v"

lemma failing_Inr [simp]: "failing x = Inr u \<longleftrightarrow> x = None"
  by (cases x) simp_all

lemma dumps_plain_Inr [simp]: "dumps_plain d = Inr u \<longleftrightarrow> jsonable (PDict d)"
  by (simp add: dumps_plain_def jsonable_def)

lemma attempt_Inr: "attempt s r f = (t, Inr y) \<longleftrightarrow> (\<exists>x. r = Inr x \<and> f x = (t, Inr y))"
  by (cases r) simp_all

lemma publish_Inr:
  "publish out d s = (t, Inr u) \<longleftrightarrow> write_ok out \<and> jsonable (PDict d)
     \<and> t = s\<lparr>published := Some (canon (PDict d)), leftover := False\<rparr>"
  by (auto simp: publish_def attempt_Inr write_ok_def Let_def simp del: canon.simps)

lemma publish_Inl: "publish out d s = (t, Inl e) \<Longrightarrow> published t = published s \<and> announced t = announced s"
  by (auto simp: publish_def Let_def elim!: attempt_cases)

lemma snapshot_jsonable:
  "jsonable (PDict (snapshot_dict now (observed_counts w) (log_result f))) \<longleftrightarrow> jsonable (final_event (read_part f))"
  by (simp add: jsonable_def snapshot_dict_def Let_def observed_counts_def queue_names_def summary_dict_def)

text \<open>A pass that publishes and prints its snapshot\<close>

definition pass_ok :: "observed_state \<times> write_outcome \<Rightarrow> bool" where
  "pass_ok p \<longleftrightarrow> reads_return (fst p) \<and> jsonable (final_event (read_part (os_log (fst p)))) \<and> write_ok (snd p)"

definition snapshot_of :: "observed_state \<Rightarrow> pydict" where
  "snapshot_of w = snapshot_dict (os_time w) (observed_counts w) (log_result (os_log w))"

lemma observe_once_cases:
  "if pass_ok p
   then observe_once p s = (\<lparr>published = Some (canon (PDict (snapshot_of (fst p)))), leftover = False,
     announced = announced s @ [snapshot_of (fst p)]\<rparr>, Inr ())
   else \<exists>t e. observe_once p s = (t, Inl e) \<and> published t = published s \<and> announced t = announced s"
proof (cases p)
  case (Pair w out)
  show ?thesis
  proof (cases "take_snapshot w")
    case (Inl e)
    then show ?thesis using take_snapshot_Inr [of w] by (auto simp: Pair observe_once_def pass_ok_def)
  next
    case (Inr d)
    then have d: "reads_return w" "d = snapshot_of w" by (simp_all add: take_snapshot_Inr snapshot_of_def)
    obtain t r where pub: "publish out d s = (t, r)" by (cases "publish out d s")
    have j: "jsonable (PDict d) \<longleftrightarrow> jsonable (final_event (read_part (os_log w)))"
      by (simp add: d(2) snapshot_of_def snapshot_jsonable)
    show ?thesis
    proof (cases r)
      case (Inl e)
      then have "\<not> (write_ok out \<and> jsonable (PDict d))"
        using pub publish_Inr [of out d s] by (metis Pair_inject sum.distinct(1))
      then show ?thesis using Pair Inr pub Inl d j publish_Inl [of out d s t e]
        by (auto simp: observe_once_def pass_ok_def)
    next
      case (Inr u)
      then have t: "write_ok out" "jsonable (PDict d)" "t = s\<lparr>published := Some (canon (PDict d)), leftover := False\<rparr>"
        using pub publish_Inr [of out d s t u] by simp_all
      have "observe_once p s = (t\<lparr>announced := announced t @ [d]\<rparr>, Inr ())"
        using Pair \<open>take_snapshot w = Inr d\<close> pub Inr by (simp add: observe_once_def)
      moreover have "t\<lparr>announced := announced t @ [d]\<rparr> = \<lparr>published = Some (canon (PDict d)), leftover = False,
          announced = announced s @ [d]\<rparr>"
        unfolding t(3) by (simp del: canon.simps)
      ultimately show ?thesis using Pair t(1,2) d j by (simp add: pass_ok_def del: canon.simps)
    qed
  qed
qed


text \<open>
  The observer keeps running exactly through the passes in which no read escapes, the last event of
  the log can be written as JSON, and the write succeeds; then it has published the snapshot of its
  last pass and printed one for each. A pass that fails leaves the published snapshot as it was.
\<close>

lemma observe_loop_cases:
  "snd (observe_loop ps s) = Inr 0 \<longleftrightarrow> list_all pass_ok ps"
  "list_all pass_ok ps \<Longrightarrow> announced (fst (observe_loop ps s)) = announced s @ List.map (snapshot_of \<circ> fst) ps
     \<and> published (fst (observe_loop ps s)) = (if ps = [] then published s else Some (canon (PDict (snapshot_of (fst (last ps))))))"
proof (induction ps arbitrary: s)
  case (Cons p ps)
  { case 1 show ?case
      using observe_once_cases [of p s] Cons.IH(1) by (cases "pass_ok p") (auto simp del: canon.simps) }
  { case 2 then show ?case
      using observe_once_cases [of p s] Cons.IH(2) by (auto simp del: canon.simps) }
qed simp_all

theorem observer_survives_exactly_good_passes:
  "(snd (observer_main poll None passes s) = Inr 0 \<longleftrightarrow> 5 \<le> poll \<and> poll \<le> 3600 \<and> list_all pass_ok passes)
   \<and> (case observe_once p s of
        (t, Inl e) \<Rightarrow> \<not> pass_ok p \<and> published t = published s
      | (t, Inr u) \<Rightarrow> pass_ok p \<and> published t = Some (canon (PDict (snapshot_of (fst p)))) \<and> \<not> leftover t)"
proof
  show "snd (observer_main poll None passes s) = Inr 0 \<longleftrightarrow> 5 \<le> poll \<and> poll \<le> 3600 \<and> list_all pass_ok passes"
    by (auto simp: observer_main_def observe_loop_cases(1))
  show "case observe_once p s of
     (t, Inl e) \<Rightarrow> \<not> pass_ok p \<and> published t = published s
   | (t, Inr u) \<Rightarrow> pass_ok p \<and> published t = Some (canon (PDict (snapshot_of (fst p)))) \<and> \<not> leftover t"
    using observe_once_cases [of p s] by (auto simp del: canon.simps split: if_splits)
qed

text \<open>A NaN in the last event of the log, or a log that is not UTF-8, ends the observer.\<close>

lemma nan_event_ends_observer:
  "\<not> pass_ok (w\<lparr>os_log := Stream [Parsed (PDict [(''phase'', PFloat NaN)])] None\<rparr>, out)"
  "\<not> pass_ok (w\<lparr>os_log := Stream ls (Some (UnicodeDecodeError, m))\<rparr>, out)"
  by (simp_all add: pass_ok_def final_event_def last_event_of_def jsonable_def reads_return_def log_returns_def
      caught_by_def issubclass_def)

section \<open>What the dashboard confirms\<close>

definition file_confirms :: "exc + pyval \<Rightarrow> bool" where
  "file_confirms f \<longleftrightarrow> (case f of
     Inr v \<Rightarrow> get_in v ''status'' = PStr ''OBSERVED''
       \<and> list_all (\<lambda>n. good_count (get_in (get_in v ''queue_counts'') n)) queue_names
       \<and> int_or_bool (get_in (get_in v ''audit'') ''parse_errors'') = Some 0
   | Inl e \<Rightarrow> False)"

lemma good_zero: "good_errors v \<and> py_eq_int v 0 \<longleftrightarrow> int_or_bool v = Some 0"
  by (cases v) (auto simp: good_errors_def)

lemma bad_errors: "\<not> is_dict v \<Longrightarrow> int_or_bool (get_in v k) \<noteq> Some i"
  by (cases v) simp_all

lemma bad_counts: "\<not> is_dict v \<Longrightarrow> \<not> list_all (\<lambda>n. good_count (get_in v n)) queue_names"
  by (cases v) (simp_all add: queue_names_def good_count_def)

lemma read_observer_observed:
  "(\<exists>r. read_observer src f = Inr r \<and> status_is r ''OBSERVED'') \<longleftrightarrow> file_confirms f"
proof (cases "\<exists>d counts audit. f = Inr (PDict d) \<and> dget d ''queue_counts'' = PDict counts \<and> dget d ''audit'' = PDict audit")
  case True
  then obtain d counts audit where d: "f = Inr (PDict d)" "dget d ''queue_counts'' = PDict counts" "dget d ''audit'' = PDict audit"
    by blast
  then show ?thesis
    using good_zero [of "dget audit ''parse_errors''"]
    by (auto simp: read_observer_def read_json_def file_confirms_def status_is_def unknown_observer_def trusted_observer_def
        list_ex_iff list_all_iff)
next
  case False
  note noshape = False
  have "\<not> file_confirms f"
  proof (cases f)
    case (Inr v)
    show ?thesis
    proof (cases "is_dict (get_in v ''queue_counts'') \<and> is_dict (get_in v ''audit'')")
      case True
      then have "\<exists>d. v = PDict d" by (cases v) auto
      then show ?thesis using True noshape Inr by (auto elim!: is_dict.elims)
    next
      case False
      then show ?thesis using bad_counts bad_errors by (auto simp: Inr file_confirms_def)
    qed
  qed (simp add: file_confirms_def)
  moreover have "\<not> status_is r ''OBSERVED''" if r: "read_observer src f = Inr r" for r
  proof (cases "\<exists>d. f = Inr (PDict d)")
    case True
    then obtain d where d: "f = Inr (PDict d)" by blast
    have "\<exists>why. r = unknown_observer src why"
      using r d noshape by (auto simp: read_observer_def read_json_def split: pyval.splits)
    then show ?thesis by (auto simp: status_is_def unknown_observer_def)
  next
    case False
    have "(\<exists>why. read_json f = Inr (Inl why)) \<or> (\<exists>e. read_json f = Inl e)"
      using False by (auto simp: read_json_def split: sum.splits pyval.splits)
    then show ?thesis using r by (auto simp: read_observer_def status_is_def unknown_observer_def)
  qed
  ultimately show ?thesis by blast
qed


lemma disk_observed: "(\<exists>d. disk_report u = Inr d \<and> status_is d ''OBSERVED'') \<longleftrightarrow> (\<exists>v. u = Inr v)"
  by (auto simp: disk_report_def status_is_def split: sum.splits prod.splits)

lemma directory_counts_return: "(\<exists>d. directory_counts dirs ns = Inr d) \<longleftrightarrow> list_all (\<lambda>n. dir_returns (dirs n)) ns"
proof -
  have "(\<exists>c. directory_count l = Inr c) \<longleftrightarrow> dir_returns l" for l
    by (cases l) (simp_all add: directory_count_def dir_returns_def caught_either)
  then show ?thesis by (induction ns) (auto simp: and_then_Inr)
qed

lemma dashboard_observed_base:
  "(\<exists>txt. dashboard_main R as_json i = Inr (txt, 0)) \<longleftrightarrow>
     file_confirms (di_file i) \<and> (\<exists>u. di_disk i = Inr u) \<and> list_all (\<lambda>n. dir_returns (di_dirs i n)) queue_names"
proof -
  have "(\<exists>txt. dashboard_main R as_json i = Inr (txt, 0)) \<longleftrightarrow>
      (\<exists>r disk dirs. read_observer (di_source i) (di_file i) = Inr r \<and> disk_report (di_disk i) = Inr disk
         \<and> directory_counts (di_dirs i) queue_names = Inr dirs \<and> status_is r ''OBSERVED'' \<and> status_is disk ''OBSERVED'')"
    by (cases "read_observer (di_source i) (di_file i)"; cases "disk_report (di_disk i)"; cases "directory_counts (di_dirs i) queue_names")
      (simp_all add: dashboard_main_def build_report_def)
  also have "\<dots> \<longleftrightarrow> file_confirms (di_file i) \<and> (\<exists>u. di_disk i = Inr u) \<and> list_all (\<lambda>n. dir_returns (di_dirs i n)) queue_names"
    unfolding read_observer_observed [of "di_source i", symmetric] disk_observed [symmetric] directory_counts_return [symmetric]
    by blast
  finally show ?thesis .
qed

text \<open>
  The dashboard exits with 0 exactly when the published file is an object that says OBSERVED, with
  four non-negative integer counts and no damaged line, the disk was read, and no listing escaped.
\<close>

theorem dashboard_observed_only_on_evidence:
  "(\<exists>txt. dashboard_main R as_json i = Inr (txt, 0)) \<longleftrightarrow>
     file_confirms (di_file i) \<and> (\<exists>u. di_disk i = Inr u) \<and> list_all (\<lambda>n. dir_returns (di_dirs i n)) queue_names"
  by (rule dashboard_observed_base)

lemma get_in_canon: "distinct (List.map fst d) \<Longrightarrow> get_in (canon (PDict d)) k = canon (dget d k)"
  using dget_canon [of d _ k] by simp

lemma snapshot_confirms: "file_confirms (Inr (canon (PDict (snapshot_of w)))) \<longleftrightarrow> all_read w"
proof -
  let ?d = "snapshot_of w"
  have dist: "distinct (List.map fst ?d)" by (simp add: snapshot_of_def snapshot_dict_def Let_def)
  have fields: "dget ?d ''queue_counts'' = PDict (observed_counts w)"
    "dget ?d ''audit'' = PDict (summary_dict (log_result (os_log w)))"
    "\<exists>st. dget ?d ''status'' = PStr st"
    by (simp_all add: snapshot_of_def snapshot_dict_def Let_def)
  have counts: "get_in (canon (PDict (observed_counts w))) n = canon (dget (observed_counts w) n)" for n
    by (rule get_in_canon) (simp add: observed_counts_def queue_names_def)
  have errors: "get_in (canon (PDict (summary_dict (log_result (os_log w))))) ''parse_errors'' = PInt (int (ls_errors (log_result (os_log w))))"
    by (subst get_in_canon) (simp_all add: summary_dict_def)
  have known: "list_all (\<lambda>n. good_count (canon (dget (observed_counts w) n))) queue_names
      \<longleftrightarrow> list_all (\<lambda>n. dir_readable (os_dirs w n)) queue_names"
    by (simp add: observed_counts_def queue_names_def good_count_def)
  have st: "canon (dget ?d ''status'') = dget ?d ''status''" using fields(3) by auto
  have "file_confirms (Inr (canon (PDict ?d))) \<longleftrightarrow> dget ?d ''status'' = PStr ''OBSERVED''
      \<and> list_all (\<lambda>n. dir_readable (os_dirs w n)) queue_names \<and> ls_errors (log_result (os_log w)) = 0"
    by (simp only: file_confirms_def sum.case get_in_canon [OF dist] fields st counts errors known int_or_bool.simps) simp
  also have "\<dots> \<longleftrightarrow> all_read w"
    unfolding snapshot_of_def snapshot_status by (auto simp: all_read_def log_result_clean)
  finally show ?thesis .
qed

text \<open>
  From the directories to the exit code: a pass that fails leaves the published file alone, and after
  one that succeeds the dashboard exits with 0 exactly when everything the observer looks at was read
  without damage and the dashboard's own reads succeed.
\<close>

theorem dashboard_confirms_the_observer:
  "case observe_once p s of
     (t, Inl e) \<Rightarrow> published t = published s
   | (t, Inr u) \<Rightarrow> (\<exists>txt. dashboard_main R as_json (i\<lparr>di_file := Inr (the (published t))\<rparr>) = Inr (txt, 0)) \<longleftrightarrow>
       all_read (fst p) \<and> (\<exists>d. di_disk i = Inr d) \<and> list_all (\<lambda>n. dir_returns (di_dirs i n)) queue_names"
proof (cases "pass_ok p")
  case True
  then have once: "observe_once p s = (\<lparr>published = Some (canon (PDict (snapshot_of (fst p)))), leftover = False,
     announced = announced s @ [snapshot_of (fst p)]\<rparr>, Inr ())"
    using observe_once_cases [of p s] by simp
  show ?thesis
    unfolding once by (simp add: dashboard_observed_base snapshot_confirms del: canon.simps)
next
  case False
  then show ?thesis using observe_once_cases [of p s] by auto
qed

end
