(* ===== verification/TaskQueue.thy ===== *)
theory TaskQueue
  imports Worker "HOL-Library.Multiset"
begin

text \<open>
  The queue of \<open>controller/worker.py\<close> over whole runs: a task file is in exactly one of the four
  directories, whatever fails (\<open>no_task_is_lost\<close>), and passes whose renames succeed settle every
  pending task (\<open>queue_is_drained\<close>). The passes of several workers may be interleaved in one list.
\<close>

section \<open>The tasks a queue holds\<close>

text \<open>A task is known by the id of its file name, which claiming keeps, and by its file.\<close>

definition directory_tasks :: "directory \<Rightarrow> (string \<times> task_file) multiset" where
  "directory_tasks d = image_mset (map_prod task_id_of id) (mset d)"

definition tasks :: "'w worker \<Rightarrow> (string \<times> task_file) multiset" where
  "tasks s = directory_tasks (pending s) + directory_tasks (processing s) + directory_tasks (finished s) + directory_tasks (failed s)"

definition claimed_names :: "'w worker \<Rightarrow> string list" where
  "claimed_names s = List.map fst (processing s @ finished s @ failed s)"

definition queue_ok :: "'w worker \<Rightarrow> bool" where
  "queue_ok s \<longleftrightarrow> distinct (List.map fst (pending s)) \<and> distinct (claimed_names s)"

text \<open>The random part of a claimed name (\<open>uuid.uuid4().hex\<close>) has not been used before.\<close>

definition fresh_pass :: "pass \<Rightarrow> 'w worker \<Rightarrow> bool" where
  "fresh_pass c s \<longleftrightarrow> list_all (\<lambda>n. claimed_name c n \<notin> set (claimed_names s)) (List.map fst (pending s))"

fun fresh_run :: "('w, 'x) host_scheme \<Rightarrow> pass list \<Rightarrow> 'w worker \<Rightarrow> bool" where
  "fresh_run E [] s \<longleftrightarrow> True"
| "fresh_run E (c # cs) s \<longleftrightarrow> fresh_pass c s \<and> fresh_run E cs (fst (process_one E c s))"

lemma directory_tasks_simps [simp]:
  "directory_tasks [] = {#}" "directory_tasks (p # d) = add_mset (map_prod task_id_of id p) (directory_tasks d)"
  "directory_tasks (d @ e) = directory_tasks d + directory_tasks e"
  by (simp_all add: directory_tasks_def)

lemma size_directory_tasks [simp]: "size (directory_tasks d) = length d"
  by (simp add: directory_tasks_def)

lemma directory_tasks_remove:
  assumes "distinct (List.map fst d)" and "map_of d n = Some t"
  shows "directory_tasks d = add_mset (task_id_of n, t) (directory_tasks (List.filter (\<lambda>p. fst p \<noteq> n) d))"
  using assms
proof (induction d)
  case (Cons p d)
  show ?case
  proof (cases "fst p = n")
    case True
    then have "n \<notin> fst ` set d" using Cons.prems(1) by simp
    then have "List.filter (\<lambda>p. fst p \<noteq> n) d = d" by (metis (mono_tags) filter_True image_eqI)
    then show ?thesis using True Cons.prems(2) by (cases p) (simp add: map_prod_def)
  qed (use Cons in \<open>auto split: if_splits\<close>)
qed simp

lemma task_id_of_claimed: "ends_with ''.json'' n \<Longrightarrow> task_id_of (claimed_name c n) = task_id_of n"
proof -
  assume "ends_with ''.json'' n"
  then have n: "n = stem n @ ''.json''"
    unfolding ends_with_def stem_def by (metis append_take_drop_id length_Cons list.size(3) numeral_nat)
  show ?thesis
    by (subst (2) n) (auto simp: claimed_name_def task_id_of_def takeWhile_append)
qed

section \<open>What a pass does to the directories\<close>

definition dirs :: "'w worker \<Rightarrow> directory \<times> directory \<times> directory \<times> directory" where
  "dirs s = (pending s, processing s, finished s, failed s)"

lemma worker_audit_dirs: "worker_audit E ev s = (s', r) \<Longrightarrow> dirs s' = dirs s"
  by (auto simp: worker_audit_def Let_def dirs_def split: prod.splits)

lemma atomic_result_dirs: "atomic_result c tid d s = (s', r) \<Longrightarrow> dirs s' = dirs s"
  by (auto simp: dirs_def elim!: atomic_result_cases)

lemma run_task_dirs:
  assumes "run_task E c name t tid s = (s', r)"
  shows "case r of Inl e \<Rightarrow> dirs s' = dirs s
    | Inr u \<Rightarrow> dirs s' = (pending s, List.filter (\<lambda>p. fst p \<noteq> name) (processing s), finished s @ [(name, t)], failed s)"
  using assms unfolding run_task_def
  by (auto elim!: then_call_cases attempt_cases dest!: worker_audit_dirs atomic_result_dirs
      simp: move_to_done_def dirs_def split: if_splits)

lemma fail_task_dirs:
  "dirs (fst (fail_task E c name t tid e s))
     = (if failed_ok c then (pending s, List.filter (\<lambda>p. fst p \<noteq> name) (processing s), finished s, failed s @ [(name, t)]) else dirs s)"
proof -
  obtain s1 r1 s2 r2 where s: "atomic_result c tid (failure_result c tid e) s = (s1, r1)"
    "worker_audit E (task_failed_event c tid e) s1 = (s2, r2)" by fastforce
  then have "dirs s2 = dirs s" using atomic_result_dirs worker_audit_dirs by metis
  then show ?thesis using s by (simp add: fail_task_def move_to_failed_def dirs_def)
qed

lemma claim_from_dirs:
  assumes "claim_from c ns s = (s', r)" and "set ns \<subseteq> set (List.map fst (pending s))"
  obtains (none) "dirs s' = dirs s" "(\<exists>e. r = Inl e) \<or> r = Inr None" "ns = [] \<or> claim_of c (hd ns) \<noteq> Claimed"
  | (claimed) n t where "n \<in> set ns" "map_of (pending s) n = Some t" "r = Inr (Some (claimed_name c n))"
     "dirs s' = (List.filter (\<lambda>p. fst p \<noteq> n) (pending s), processing s @ [(claimed_name c n, t)], finished s, failed s)"
  using assms
proof (induction ns arbitrary: thesis)
  case (Cons n ns)
  have "n \<in> fst ` set (pending s)" using Cons.prems(4) by simp
  then obtain t where t: "map_of (pending s) n = Some t" by (metis map_of_eq_None_iff option.exhaust)
  consider (won) "claim_of c n = Claimed" | (broken) cls where "claim_of c n = Claim_error cls"
    | (lost) "claim_of c n \<noteq> Claimed" "claim_from c (n # ns) s = claim_from c ns s"
    using t by (cases "claim_of c n") auto
  then show ?case
  proof cases
    case won
    then show ?thesis using Cons.prems(2) [of n t] Cons.prems(3) t by (auto simp: dirs_def)
  next
    case broken
    then show ?thesis using Cons.prems(1,3) t by (auto simp: dirs_def)
  next
    case lost
    then have r: "claim_from c ns s = (s', r)" "set ns \<subseteq> set (List.map fst (pending s))" using Cons.prems(3,4) by simp_all
    show ?thesis
    proof (rule Cons.IH [OF _ _ r], goal_cases)
      case 1
      with lost show ?case by (intro Cons.prems(1)) simp_all
    next
      case (2 m u)
      then show ?case by (intro Cons.prems(2)) simp_all
    qed
  qed
qed (auto simp: dirs_def)

text \<open>
  A pass that claims nothing leaves the directories alone. A pass that claims a task leaves it in
  processing, or moves it on to one of the two last directories; when renames succeed, it moves it on.
\<close>

lemma process_one_dirs:
  assumes "process_one E c s = (s', r)"
  obtains (none) "dirs s' = dirs s"
    "List.filter (ends_with ''.json'') (List.map fst (pending s)) = [] \<or> (\<exists>n. claim_of c n \<noteq> Claimed)"
  | (claimed) n t wins fails where "map_of (pending s) n = Some t" "ends_with ''.json'' n"
     "dirs s' = (List.filter (\<lambda>p. fst p \<noteq> n) (pending s),
        (if wins @ fails = [] then processing s @ [(claimed_name c n, t)]
         else List.filter (\<lambda>p. fst p \<noteq> claimed_name c n) (processing s @ [(claimed_name c n, t)])),
        finished s @ wins, failed s @ fails)"
     "wins @ fails = [(claimed_name c n, t)] \<or> wins @ fails = [] \<and> \<not> failed_ok c"
proof -
  let ?ns = "sort (List.filter (ends_with ''.json'') (List.map fst (pending s)))"
  obtain s1 r1 where cl: "claim_from c ?ns s = (s1, r1)" by fastforce
  then have one: "claim_one c s = (s1, r1)" by (simp add: claim_one_def)
  have "set ?ns \<subseteq> set (List.map fst (pending s))" by auto
  with cl show ?thesis
  proof (cases rule: claim_from_dirs)
    case none
    then have "dirs s' = dirs s" using assms one by (auto simp: process_one_def)
    moreover have "?ns = [] \<longleftrightarrow> List.filter (ends_with ''.json'') (List.map fst (pending s)) = []"
      by (metis set_empty set_sort)
    ultimately show ?thesis using none(3) that(1) by metis
  next
    case (claimed n t)
    let ?name = "claimed_name c n"
    have s1: "pending s1 = List.filter (\<lambda>p. fst p \<noteq> n) (pending s)" "processing s1 = processing s @ [(?name, t)]"
        "finished s1 = finished s" "failed s1 = failed s"
      using claimed(4) by (simp_all add: dirs_def)
    have json: "ends_with ''.json'' n" using claimed(1) by simp
    obtain s2 r2 where run: "run_task E c ?name t (task_id_of ?name) s1 = (s2, r2)" by fastforce
    show ?thesis
    proof (cases r2)
      case (Inr u)
      then have "s' = s2" using assms one claimed(3) run by (simp add: process_one_def s1)
      with run_task_dirs [OF run] Inr show ?thesis
        by (intro that(2) [OF claimed(2) json, where wins = "[(?name, t)]" and fails = "[]"]) (simp_all add: s1)
    next
      case (Inl e)
      have s': "s' = fst (fail_task E c ?name t (task_id_of ?name) e s2)"
        using assms one claimed(3) run Inl by (auto simp: process_one_def s1 elim!: then_call_cases)
      have s2: "dirs s2 = dirs s1" using run_task_dirs [OF run] Inl by simp
      show ?thesis
      proof (cases "failed_ok c")
        case True
        then show ?thesis using s2
          by (intro that(2) [OF claimed(2) json, where wins = "[]" and fails = "[(?name, t)]"])
            (simp_all add: s' fail_task_dirs, simp add: dirs_def s1)
      next
        case False
        then show ?thesis using s2
          by (intro that(2) [OF claimed(2) json, where wins = "[]" and fails = "[]"])
            (simp_all add: s' fail_task_dirs, simp add: dirs_def s1)
      qed
    qed
  qed
qed

section \<open>No task is lost\<close>

lemma dirs_D:
  "dirs s = (a, b, c, d) \<Longrightarrow> pending s = a \<and> processing s = b \<and> finished s = c \<and> failed s = d"
  by (simp add: dirs_def)

text \<open>With a fresh name, the directories after a pass that claimed a task are those the code means.\<close>

lemma fresh_name:
  assumes "fresh_pass c s" and "map_of (pending s) n = Some t"
  shows "claimed_name c n \<notin> set (claimed_names s)"
    and "List.filter (\<lambda>p. fst p \<noteq> claimed_name c n) (processing s) = processing s"
proof -
  have "n \<in> set (List.map fst (pending s))" using assms(2) by (metis map_of_eq_None_iff option.distinct(1) set_map)
  then show new: "claimed_name c n \<notin> set (claimed_names s)" using assms(1) unfolding fresh_pass_def list_all_iff by blast
  then show "List.filter (\<lambda>p. fst p \<noteq> claimed_name c n) (processing s) = processing s"
    unfolding claimed_names_def by (intro filter_True) force
qed

lemma pass_keeps_tasks:
  assumes "queue_ok s" and "fresh_pass c s"
  shows "queue_ok (fst (process_one E c s)) \<and> tasks (fst (process_one E c s)) = tasks s"
proof -
  obtain s' r where p: "process_one E c s = (s', r)" by fastforce
  then show ?thesis
  proof (cases rule: process_one_dirs)
    case none
    then show ?thesis using p assms(1) by (simp add: dirs_def queue_ok_def claimed_names_def tasks_def)
  next
    case (claimed n t wins fails)
    let ?name = "claimed_name c n"
    note new = fresh_name [OF assms(2) claimed(1)]
    have gone: "directory_tasks (pending s) = add_mset (task_id_of n, t) (directory_tasks (List.filter (\<lambda>p. fst p \<noteq> n) (pending s)))"
      using assms(1) claimed(1) by (intro directory_tasks_remove) (simp_all add: queue_ok_def)
    have dist: "distinct (List.map fst (List.filter (\<lambda>p. fst p \<noteq> n) (pending s)))"
      using assms(1) by (simp add: queue_ok_def distinct_map_filter)
    have old: "distinct (List.map fst (processing s @ finished s @ failed s))" "?name \<notin> fst ` set (processing s @ finished s @ failed s)"
      using assms(1) new(1) by (simp_all add: queue_ok_def claimed_names_def image_Un)
    consider "wins = [(?name, t)]" "fails = []" | "wins = []" "fails = [(?name, t)]" | "wins = []" "fails = []"
      using claimed(4) by (auto simp: append_eq_Cons_conv)
    then show ?thesis
      using dirs_D [OF claimed(3)] dist old p gone task_id_of_claimed [OF claimed(2), of c]
      by cases (auto simp: queue_ok_def claimed_names_def tasks_def new(2))
  qed
qed

abbreviation run_passes :: "('w, 'x) host_scheme \<Rightarrow> pass list \<Rightarrow> 'w worker \<Rightarrow> 'w worker" where
  "run_passes E cs s \<equiv> fold (\<lambda>c s. fst (process_one E c s)) cs s"

lemma no_task_run:
  assumes "queue_ok s" and "fresh_run E passes s"
  shows "queue_ok (run_passes E passes s)" "tasks (run_passes E passes s) = tasks s"
proof -
  have "queue_ok (run_passes E passes s) \<and> tasks (run_passes E passes s) = tasks s"
    using assms
  proof (induction passes arbitrary: s)
    case (Cons c cs)
    then show ?case using pass_keeps_tasks [of s c E] by simp
  qed simp
  then show "queue_ok (run_passes E passes s)" "tasks (run_passes E passes s) = tasks s"
    by simp_all
qed

text \<open>
  C17: Whatever fails in whatever passes, every submitted task stays in exactly one of the four
  directories, under its id and with its content; no file name is used twice. The passes may be those
  of several workers.
\<close>

theorem no_task_is_lost:
  assumes "queue_ok s" and "fresh_run E passes s"
  shows "let s' = fst (worker_main E poll passes s) in queue_ok s' \<and> tasks s' = tasks s"
  using no_task_run [OF assms] assms(1) by (simp add: worker_main_def)

section \<open>The queue is drained\<close>

definition willing :: "pass \<Rightarrow> bool" where
  "willing c \<longleftrightarrow> claim_of c = (\<lambda>_. Claimed) \<and> failed_ok c"

definition all_json :: "directory \<Rightarrow> bool" where
  "all_json d \<longleftrightarrow> list_all (ends_with ''.json'') (List.map fst d)"

lemma pass_settles:
  assumes "queue_ok s" "fresh_pass c s" "willing c" "all_json (pending s)"
    and s': "s' = fst (process_one E c s)"
  shows "length (pending s') = length (pending s) - 1 \<and> processing s' = processing s \<and> all_json (pending s')"
proof -
  obtain r where "process_one E c s = (s', r)" using s' by (metis prod.collapse)
  then show ?thesis
  proof (cases rule: process_one_dirs)
    case none
    then have "pending s = []" using assms(3,4) by (simp add: willing_def all_json_def list_all_iff)
    then show ?thesis using none(1) by (simp add: dirs_def all_json_def)
  next
    case (claimed n t wins fails)
    have "length (List.filter (\<lambda>p. fst p \<noteq> n) (pending s)) = length (pending s) - 1"
      using arg_cong [OF directory_tasks_remove [OF _ claimed(1)], where f = size] assms(1)
      by (simp add: queue_ok_def)
    moreover have "all_json (List.filter (\<lambda>p. fst p \<noteq> n) (pending s))"
      using assms(4) by (auto simp: all_json_def list_all_iff)
    moreover have "wins @ fails \<noteq> []" using claimed(4) assms(3) by (auto simp: willing_def)
    ultimately show ?thesis using dirs_D [OF claimed(3)] fresh_name(2) [OF assms(2) claimed(1)] by simp
  qed
qed

text \<open>
  C22: Passes that win every claim and can move a file to the failed directory settle every task:
  after as many of them as there are pending tasks, none is pending, no other is left in processing,
  and the finished and failed tasks are those there were and those that were pending. Nothing
  is asked of the task documents, the workspace, the audit log, the result files or the move to done.
\<close>

theorem queue_is_drained:
  assumes "queue_ok s" and "fresh_run E passes s" and "list_all willing passes"
    and "all_json (pending s)" and "length (pending s) \<le> length passes" and "poll_ok poll"
  shows "let s' = fst (worker_main E poll passes s) in pending s' = [] \<and> processing s' = processing s
     \<and> directory_tasks (finished s' @ failed s') = directory_tasks (finished s @ failed s @ pending s)"
proof -
  have "pending (run_passes E passes s) = [] \<and> processing (run_passes E passes s) = processing s" using assms(1-5)
  proof (induction passes arbitrary: s)
    case (Cons c cs)
    then show ?case using pass_settles [of s c _ E] pass_keeps_tasks [of s c E] by simp
  qed simp
  moreover have "tasks (run_passes E passes s) = tasks s"
    using no_task_run [OF assms(1,2)] by simp
  ultimately show ?thesis using assms(6) by (simp add: worker_main_def tasks_def ac_simps)
qed

section \<open>A queue with one task\<close>

lemma sample_queue: "queue_ok sample_worker" "fresh_pass sample_pass sample_worker" "willing sample_pass"
    "all_json (pending sample_worker)" "tasks sample_worker = {#(''t1'', sample_task)#}" "length (pending sample_worker) = 1"
  by (simp_all add: queue_ok_def claimed_names_def fresh_pass_def willing_def all_json_def tasks_def sample_worker_def sample_pass_def
      ends_with_def task_id_of_def)

theorem no_task_is_lost_witness:
  "tasks (fst (worker_main sample_host (Fin 1) [sample_pass] sample_worker)) = {#(''t1'', sample_task)#}"
  using no_task_is_lost [OF sample_queue(1), of sample_host "[sample_pass]" "Fin 1"] by (simp add: sample_queue Let_def)

lemma poll_ok_one: "poll_ok (Fin 1)"
proof -
  have one: "rnd 1 = (1 :: rat)" using rnd_small_int [of 1] by simp
  have "wf_float (Fin 1)" unfolding wf_float.simps f_limit_def using one by simp
  then have "to_pf (2/10) = Fin (rnd (2/10))" by (intro to_pf_bounded [of _ 1]) simp_all
  moreover have "rnd (2/10) \<le> 1" using rnd_le_repr [OF _ one, of "2/10"] by simp
  ultimately show ?thesis by (auto simp: poll_ok_def fle_def)
qed

theorem queue_is_drained_witness:
  "let s = fst (worker_main sample_host (Fin 1) [sample_pass] sample_worker) in
     pending s = [] \<and> processing s = [] \<and> directory_tasks (finished s @ failed s) = {#(''t1'', sample_task)#}"
  using queue_is_drained [OF sample_queue(1) _ _ sample_queue(4) _ poll_ok_one, where passes = "[sample_pass]" and E = sample_host]
  by (simp add: sample_queue Let_def) (simp add: sample_worker_def task_id_of_def)

end
