(* ===== verification/Pipeline.thy ===== *)
theory Pipeline
  imports TaskQueue Observer
begin

text \<open>
  The three local services that meet in files: \<open>controller/worker.py\<close> and \<open>controller/runtime_control.py\<close>
  append to one audit log, the worker moves task files between the queue directories, and
  \<open>controller/observer.py\<close> reads the log and the directories. A site is the state of the worker, whose
  \<open>base\<close> is the state of the controller. The log is the file that their writes leave, byte by byte:
  a write may be d_cut anywhere, by a full disk or because the process is killed, and the next one goes
  on where it stopped. Shown: whatever happens in whatever order, the observer returns, it reports
  every d_cut line, and its counts are those of the lines and of the tasks submitted.
\<close>

section \<open>The site\<close>

text \<open>
  A process that is killed while it appends a record has appended others before (\<open>d_whole\<close>), leaves the
  first \<open>d_bytes\<close> bytes of the line of \<open>d_cut\<close> and the lock, and everything else as it was then.
\<close>

record 'w death =
  d_whole :: "pydict list"
  d_cut :: pydict
  d_bytes :: nat
  d_world :: 'w

text \<open>
  \<open>Killed_pass\<close>: a worker dies after its claim, with the result files there are then; \<open>Killed_cycle\<close>:
  a controller dies, with the counter file there is then; \<open>Lock_removed\<close>: someone deletes the lock.
\<close>

datatype 'w site_event =
    Worker_pass pass
  | Control_cycle compose string bool bool bool
  | Killed_pass pass "(string \<times> pydict) list" "'w death"
  | Killed_cycle counter_file "'w death"
  | Lock_removed

definition die :: "'w death \<Rightarrow> 'w control \<Rightarrow> 'w control" where
  "die k b = (if audit_locked b \<or> \<not> list_all (\<lambda>d. jsonable (PDict d)) (d_cut k # d_whole k) then b
     else b\<lparr>outside := d_world k, trace := trace b @ List.map Audited (d_whole k) @ [Torn (d_cut k) (d_bytes k)], audit_locked := True\<rparr>)"

fun site_step :: "('w, 'x) host_scheme \<Rightarrow> 'w site_event \<Rightarrow> 'w worker \<Rightarrow> 'w worker" where
  "site_step E (Worker_pass c) s = fst (process_one E c s)"
| "site_step E (Control_cycle cf proj dir_absolute allow down) s =
     s\<lparr>base := fst (run_cycle E cf proj dir_absolute allow down (base s))\<rparr>"
| "site_step E (Killed_pass c rs k) s =
     (let t = fst (claim_one c s) in t\<lparr>base := die k (base t), results := rs\<rparr>)"
| "site_step E (Killed_cycle f k) s = s\<lparr>base := die k ((base s)\<lparr>counter := f\<rparr>)\<rparr>"
| "site_step E Lock_removed s = s\<lparr>base := (base s)\<lparr>audit_locked := False\<rparr>\<rparr>"

fun fresh_event :: "'w site_event \<Rightarrow> 'w worker \<Rightarrow> bool" where
  "fresh_event (Worker_pass c) s = fresh_pass c s"
| "fresh_event (Killed_pass c rs k) s = fresh_pass c s"
| "fresh_event _ s = True"

fun fresh_schedule :: "('w, 'x) host_scheme \<Rightarrow> 'w site_event list \<Rightarrow> 'w worker \<Rightarrow> bool" where
  "fresh_schedule E [] s \<longleftrightarrow> True"
| "fresh_schedule E (ev # evs) s \<longleftrightarrow> fresh_event ev s \<and> fresh_schedule E evs (site_step E ev s)"

text \<open>
  The log as the writes leave it. It does not exist before the first one. A line that holds a whole
  record parses to its canonical value.
\<close>

definition audit_text :: "('w, 'x) host_scheme \<Rightarrow> pydict \<Rightarrow> string" where
  "audit_text E d = json_text (pyrun E) True '','' '':'' (canon (PDict d))"

fun log_write :: "('w, 'x) host_scheme \<Rightarrow> effect \<Rightarrow> file_line list \<times> line_end \<Rightarrow> file_line list \<times> line_end" where
  "log_write E (Command c) f = f"
| "log_write E (Audited d) f = write_line (audit_text E d) (Parsed (canon (PDict d))) (Suc (length (audit_text E d))) f"
| "log_write E (Torn d n) f = write_line (audit_text E d) (Parsed (canon (PDict d))) n f"

definition site_lines :: "('w, 'x) host_scheme \<Rightarrow> 'w worker \<Rightarrow> file_line list \<times> line_end" where
  "site_lines E s = fold (log_write E) (trace (base s)) ([], Newline)"

definition site_log :: "('w, 'x) host_scheme \<Rightarrow> 'w worker \<Rightarrow> log_file" where
  "site_log E s = (if recordings (trace (base s)) = [] then NotOpened (FileNotFoundError, ''v91-actions.jsonl'')
     else case site_lines E s of (ls, e) \<Rightarrow>
       Stream ls (if e = Split_char then Some (UnicodeDecodeError, ''unexpected end of data'') else None))"

definition listing_of :: "directory \<Rightarrow> listing" where
  "listing_of d = Inr (List.map (\<lambda>p. (fst p, True)) d)"

definition site_dirs :: "'w worker \<Rightarrow> string \<Rightarrow> listing" where
  "site_dirs s n = listing_of (if n = ''pending'' then pending s else if n = ''processing'' then processing s
     else if n = ''done'' then finished s else failed s)"

definition site_view :: "('w, 'x) host_scheme \<Rightarrow> string \<Rightarrow> 'w worker \<Rightarrow> observed_state" where
  "site_view E now s = \<lparr>os_dirs = site_dirs s, os_log = site_log E s, os_time = now\<rparr>"

section \<open>Every audit event can be written\<close>

definition clean_trace :: "'w control \<Rightarrow> bool" where
  "clean_trace b \<longleftrightarrow> list_all (\<lambda>d. jsonable (PDict d)) (recordings (trace b))"

definition keeps_clean :: "'w control \<Rightarrow> 'w control \<Rightarrow> bool" where
  "keeps_clean b b' \<longleftrightarrow> (clean_trace b \<longrightarrow> clean_trace b')"

lemma keeps_clean_refl [simp]: "keeps_clean b b"
  by (simp add: keeps_clean_def)

lemma keeps_clean_trans: "keeps_clean a b \<Longrightarrow> keeps_clean b c \<Longrightarrow> keeps_clean a c"
  by (simp add: keeps_clean_def)

lemma keeps_then_call:
  assumes "keeps_clean (p s) (p (fst r))" and "\<And>s1 x. r = (s1, Inr x) \<Longrightarrow> keeps_clean (p s1) (p (fst (f s1 x)))"
  shows "keeps_clean (p s) (p (fst (then_call r f)))"
proof (cases "(r, f)" rule: then_call.cases)
  case (2 s1 x g)
  then show ?thesis using assms by (auto intro: keeps_clean_trans)
qed (use assms in auto)

lemma keeps_attempt: "(\<And>x. keeps_clean (p s) (p (fst (f x)))) \<Longrightarrow> keeps_clean (p s) (p (fst (attempt s r f)))"
  by (cases r) auto

lemmas keeps_clean_rules = keeps_then_call [where p = "\<lambda>b. b"] keeps_attempt [where p = "\<lambda>b. b"]
lemmas keeps_base_rules = keeps_then_call [where p = base] keeps_attempt [where p = base]

lemma append_audit_clean: "keeps_clean b (fst (append_audit E ev b))"
  by (cases rule: append_audit_cases [of E ev b])
    (auto simp: keeps_clean_def clean_trace_def jsonable_def simp del: serialisable.simps all_finite.simps)

lemma ran_clean: "ran b b' \<Longrightarrow> keeps_clean b b'"
  by (auto simp: ran_def keeps_clean_def clean_trace_def)

lemma write_state_clean: "keeps_clean b (fst (write_state E k b))"
  by (simp add: write_state_def) (simp add: keeps_clean_def clean_trace_def)

lemmas quiet_clean = ran_clean [OF scale_worker_ran] ran_clean [OF docker_snapshot_ran] write_state_clean

lemma try_action_clean: "keeps_clean b (fst (try_action E cf proj ident n act ev b))"
  unfolding try_action_def Let_def
  by (intro keeps_clean_rules quiet_clean) (auto intro!: keeps_clean_rules append_audit_clean)

lemma roll_back_clean: "keeps_clean b (fst (roll_back E cf proj ident n act ev e b))"
proof -
  have "keeps_clean b (fst (restore E cf proj n b))"
    unfolding restore_def by (intro keeps_clean_rules quiet_clean)
  then show ?thesis unfolding roll_back_def Let_def case_prod_beta
    by (intro keeps_clean_rules) (auto intro: keeps_clean_trans append_audit_clean)
qed

lemma perform_clean: "keeps_clean b (fst (perform E cf proj ident n act ev b))"
proof -
  obtain b1 r where tried: "try_action E cf proj ident n act ev b = (b1, r)" by fastforce
  have "keeps_clean b b1" using try_action_clean [of b E cf proj ident n act ev] tried by simp
  then show ?thesis
    by (cases r) (auto simp: perform_def tried intro: keeps_clean_trans [OF _ roll_back_clean])
qed

lemma run_cycle_clean: "keeps_clean b (fst (run_cycle E cf proj dir_absolute allow down b))"
proof -
  obtain b1 r where snap: "docker_snapshot E cf proj b = (b1, r)" by fastforce
  then have first: "keeps_clean b b1" using ran_clean [OF docker_snapshot_ran, of b E cf proj] by simp
  have "keeps_clean b1 (fst (attempt b1 (read_low_sample_count (counter b1)) (\<lambda>low.
      let (act, next_low, reason) = decide_scaling n low in
      then_call (write_state E next_low b1) (\<lambda>s _.
      let ident = new_id E (outside s); ev = decision_event ident (clock E (outside s)) proj n act reason allow down in
      then_call (append_audit E ev s) (\<lambda>s _.
      if \<not> permitted act allow down then (s, Inr ev) else perform E cf proj ident n (the act) ev s)))))" for n
    unfolding Let_def case_prod_beta
    by (intro keeps_clean_rules quiet_clean append_audit_clean) (auto intro: perform_clean)
  moreover have "keeps_clean b1 (fst (let ev = observation_event (new_id E (outside b1)) (clock E (outside b1)) proj e in
      then_call (append_audit E ev b1) (\<lambda>s _. (s, Inr ev))))" for e
    unfolding Let_def by (intro keeps_clean_rules append_audit_clean) simp
  ultimately show ?thesis
    using first unfolding run_cycle_def snap by (auto split: sum.splits intro: keeps_clean_trans)
qed

lemma worker_audit_clean: "keeps_clean (base s) (base (fst (worker_audit E ev s)))"
  by (simp add: worker_audit_def case_prod_beta Let_def append_audit_clean)

lemma atomic_result_clean: "keeps_clean (base s) (base (fst (atomic_result c tid d s)))"
  by (cases "atomic_result c tid d s") (auto elim!: atomic_result_cases)

lemma moves_clean: "keeps_clean (base s) (base (fst (move_to_done c n t s)))" "base (move_to_failed c n t s) = base s"
  by (simp_all add: move_to_done_def move_to_failed_def)

lemma run_task_clean: "keeps_clean (base s) (base (fst (run_task E c n t tid s)))"
  unfolding run_task_def case_prod_beta
  by (intro keeps_base_rules worker_audit_clean atomic_result_clean moves_clean)

lemma fail_task_clean: "keeps_clean (base s) (base (fst (fail_task E c n t tid e s)))"
  unfolding fail_task_def Let_def case_prod_beta fst_conv moves_clean(2)
  by (rule keeps_clean_trans [OF atomic_result_clean worker_audit_clean])

lemma process_one_clean: "keeps_clean (base s) (base (fst (process_one E c s)))"
proof -
  obtain s1 r1 where cl: "claim_one c s = (s1, r1)" by fastforce
  have b: "base s1 = base s" using claim_from_keeps cl unfolding claim_one_def by blast
  show ?thesis
  proof (cases "\<exists>name t. r1 = Inr (Some name) \<and> map_of (rev (processing s1)) name = Some t")
    case True
    then obtain name t where 1: "r1 = Inr (Some name)" "map_of (rev (processing s1)) name = Some t" by blast
    obtain s2 r2 where run: "run_task E c name t (task_id_of name) s1 = (s2, r2)" by fastforce
    have s2: "keeps_clean (base s) (base s2)" using run_task_clean [of s1 E c name t "task_id_of name"] run b by simp
    show ?thesis
    proof (cases r2)
      case (Inl e)
      have "keeps_clean (base s2) (base (fst (then_call (fail_task E c name t (task_id_of name) e s2) (\<lambda>s _. (s, Inr True)))))"
        by (intro keeps_base_rules fail_task_clean) simp
      then show ?thesis using cl 1 run Inl by (auto simp: process_one_def intro: keeps_clean_trans [OF s2])
    qed (use cl 1 run s2 in \<open>simp add: process_one_def\<close>)
  next
    case False
    then show ?thesis using cl b by (cases r1) (auto simp: process_one_def split: option.splits)
  qed
qed

lemma recordings_map [simp]: "recordings (List.map Audited ds) = ds"
  by (induction ds) simp_all

lemma die_clean: "keeps_clean b (die k b)"
  by (auto simp: die_def keeps_clean_def clean_trace_def)

lemma claim_one_base: "base (fst (claim_one c s)) = base s"
  using claim_from_keeps [of c "sort (List.filter (ends_with ''.json'') (List.map fst (pending s)))" s]
  by (cases "claim_one c s") (simp add: claim_one_def)

lemma site_step_clean: "clean_trace (base s) \<Longrightarrow> clean_trace (base (site_step E ev s))"
proof (cases ev)
  case (Killed_cycle f k)
  then show "clean_trace (base s) \<Longrightarrow> ?thesis"
    using die_clean [of "(base s)\<lparr>counter := f\<rparr>" k] by (simp add: keeps_clean_def clean_trace_def)
qed (use process_one_clean [of s E] run_cycle_clean [of "base s" E] die_clean [of "base s"] in
    \<open>auto simp: keeps_clean_def claim_one_base Let_def, simp add: clean_trace_def\<close>)

interpretation site: machine "site_step E" "\<lambda>s. clean_trace (base s)" for E
  by unfold_locales (rule site_step_clean)

section \<open>What the observer sees\<close>

text \<open>Every task file has a JSON name, so that the observer counts it.\<close>

definition json_names :: "'w worker \<Rightarrow> bool" where
  "json_names s \<longleftrightarrow> list_all (\<lambda>p. json_suffix (fst p)) (pending s @ processing s @ finished s @ failed s)"

definition site_ok :: "'w worker \<Rightarrow> bool" where
  "site_ok s \<longleftrightarrow> queue_ok s \<and> clean_trace (base s) \<and> json_names s"

lemma json_suffix_claimed: "json_suffix (claimed_name c n)"
  by (simp add: json_suffix_def ends_with_def claimed_name_def)

lemma process_one_json: "json_names s \<Longrightarrow> json_names (fst (process_one E c s))"
proof -
  assume j: "json_names s"
  obtain s' r where "process_one E c s = (s', r)" by fastforce
  then show ?thesis
  proof (cases rule: process_one_dirs)
    case none
    then show ?thesis using j \<open>process_one E c s = (s', r)\<close> by (simp add: dirs_def json_names_def)
  next
    case (claimed n t wins fails)
    then have "set wins \<union> set fails \<subseteq> {(claimed_name c n, t)}" by (auto simp: append_eq_Cons_conv)
    then show ?thesis
      using j dirs_D [OF claimed(3)] json_suffix_claimed [of c n] \<open>process_one E c s = (s', r)\<close>
      by (auto simp: json_names_def list_all_iff)
  qed
qed

lemma claim_one_ok:
  assumes "queue_ok s" and "json_names s" and "fresh_pass c s"
  shows "queue_ok (fst (claim_one c s)) \<and> json_names (fst (claim_one c s)) \<and> tasks (fst (claim_one c s)) = tasks s"
proof -
  let ?ns = "sort (List.filter (ends_with ''.json'') (List.map fst (pending s)))"
  obtain s' r where cl: "claim_from c ?ns s = (s', r)" by fastforce
  have "set ?ns \<subseteq> set (List.map fst (pending s))" by auto
  with cl show ?thesis
  proof (cases rule: claim_from_dirs)
    case none
    then show ?thesis using assms cl by (simp add: claim_one_def dirs_def queue_ok_def claimed_names_def json_names_def tasks_def)
  next
    case (claimed n t)
    have gone: "directory_tasks (pending s) = add_mset (task_id_of n, t) (directory_tasks (List.filter (\<lambda>p. fst p \<noteq> n) (pending s)))"
      using assms(1) claimed(2) by (intro directory_tasks_remove) (simp_all add: queue_ok_def)
    have "distinct (List.map fst (List.filter (\<lambda>p. fst p \<noteq> n) (pending s)))" "ends_with ''.json'' n"
      using assms(1) claimed(1) by (simp_all add: queue_ok_def distinct_map_filter)
    then show ?thesis
      using fresh_name(1) [OF assms(3) claimed(2)] dirs_D [OF claimed(4)] assms cl gone task_id_of_claimed [of n c] json_suffix_claimed [of c n]
      by (auto simp: claim_one_def queue_ok_def claimed_names_def json_names_def tasks_def list_all_iff)
  qed
qed

lemma site_step_ok:
  assumes "site_ok s" and "fresh_event ev s"
  shows "site_ok (site_step E ev s) \<and> tasks (site_step E ev s) = tasks s"
proof -
  have same: "site_ok t' \<and> tasks t' = tasks t"
    if "queue_ok t" "json_names t" "clean_trace (base t')" "dirs t' = dirs t" for t t' :: "'a worker"
    using that by (simp add: site_ok_def queue_ok_def claimed_names_def json_names_def tasks_def dirs_def)
  have clean: "clean_trace (base (site_step E ev s))" using assms(1) site_step_clean [of s E ev] by (simp add: site_ok_def)
  show ?thesis
  proof (cases ev)
    case (Worker_pass c)
    then show ?thesis
      using assms pass_keeps_tasks [of s c E] process_one_json [of s E c] clean by (simp add: site_ok_def)
  next
    case (Killed_pass c rs k)
    then have "queue_ok (fst (claim_one c s)) \<and> json_names (fst (claim_one c s)) \<and> tasks (fst (claim_one c s)) = tasks s"
      using assms claim_one_ok [of s c] by (simp add: site_ok_def)
    then show ?thesis
      using same [of "fst (claim_one c s)", OF _ _ clean] Killed_pass by (simp add: dirs_def Let_def)
  qed (use assms(1) same [of s, OF _ _ clean] in \<open>simp_all add: site_ok_def dirs_def\<close>)
qed

lemma site_run_ok:
  "\<lbrakk>site_ok s; fresh_schedule E evs s\<rbrakk> \<Longrightarrow> site_ok (fold (site_step E) evs s) \<and> tasks (fold (site_step E) evs s) = tasks s"
proof (induction evs arbitrary: s)
  case (Cons ev evs)
  then show ?case using site_step_ok [of s ev E] by simp
qed simp

lemma jsonable_fields: "jsonable (PDict d) \<longleftrightarrow> list_all (\<lambda>p. jsonable (snd p)) d"
  using dumpable_dict [of d] by (simp add: jsonable_def dumpable_def)

lemma jsonable_dget: "jsonable (PDict d) \<Longrightarrow> jsonable (dget d k)"
  by (cases "map_of d k") (simp add: dget_def jsonable_def, fastforce simp: jsonable_fields list_all_iff dget_def dest: map_of_SomeD)

lemma jsonable_last_event: "jsonable (PDict d) \<Longrightarrow> jsonable (PDict (last_event_of d))"
  by (simp add: last_event_of_def jsonable_fields por_def) (simp add: jsonable_fields [symmetric] jsonable_dget)

section \<open>What torn writes do to the log\<close>

text \<open>The text of a record is ASCII, so that a cut never splits a character.\<close>

lemma ascii_append [simp]: "is_ascii (s @ t) \<longleftrightarrow> is_ascii s \<and> is_ascii t"
  by (simp add: is_ascii_def)

lemma ascii_Cons [simp]: "is_ascii (c # s) \<longleftrightarrow> (of_char c :: nat) < 128 \<and> is_ascii s"
  by (simp add: is_ascii_def)

lemma ascii_Nil [simp]: "is_ascii []"
  by (simp add: is_ascii_def)

lemma ascii_digits: "set s \<subseteq> insert (CHR ''-'') digits \<Longrightarrow> is_ascii s"
  by (fastforce simp: is_ascii_def list_all_iff digits_def)

lemma ascii_escape: "is_ascii (escape_char True c)"
proof -
  have "list_all (\<lambda>p. (of_char (snd p) :: nat) < 128) short_escapes" by code_simp
  then have short: "map_of short_escapes c = Some x \<Longrightarrow> (of_char x :: nat) < 128" for x
    by (fastforce simp: list_all_iff dest: map_of_SomeD)
  have "list_all (\<lambda>i. (of_char (hex_digits ! i) :: nat) < 128) [0..<16]" by code_simp
  then have hex: "(of_char (hex_digits ! (i mod 16)) :: nat) < 128" for i by (simp add: list_all_iff)
  show ?thesis
    using short hex by (auto simp: escape_char_def hex4_def backslash_c_def Let_def split: option.splits)
qed

lemma ascii_string: "is_ascii (json_string True s)"
  using ascii_escape by (induction s) (simp_all add: json_string_def quote_c_def)

lemma ascii_join: "is_ascii sep \<Longrightarrow> list_all is_ascii xs \<Longrightarrow> is_ascii (join sep xs)"
  by (induction sep xs rule: join.induct) simp_all

lemma ascii_json:
  assumes "\<And>q. is_ascii (float_repr R q)"
  shows "is_ascii (json_text R True '','' '':'' v)"
proof (induction v)
  case (PFloat f)
  then show ?case using assms by (cases f) simp_all
next
  case (PDict d)
  then have "list_all is_ascii (List.map (\<lambda>(k, t). json_string True k @ '':'' @ t)
      (List.map (map_prod id (json_text R True '','' '':'')) d))"
    by (fastforce simp: list_all_iff ascii_string)
  then show ?case by (simp add: ascii_join)
qed (use ascii_digits [OF show_int_chars] in \<open>auto simp: ascii_string list_all_iff intro!: ascii_join\<close>)

lemma ascii_unsplit: "is_ascii s \<Longrightarrow> \<not> splits_char (take n s)"
  using last_in_set [of "take n s"] set_take_subset [of n s] by (fastforce simp: splits_char_def is_ascii_def list_all_iff)

text \<open>Records written whole, and writes that were cut.\<close>

fun is_whole :: "effect \<Rightarrow> bool" where
  "is_whole (Audited d) = True"
| "is_whole _ = False"

fun is_torn :: "effect \<Rightarrow> bool" where
  "is_torn (Torn d n) = True"
| "is_torn _ = False"

definition appended :: "effect list \<Rightarrow> nat" where
  "appended es = length (List.filter is_whole es)"

definition torn :: "effect list \<Rightarrow> nat" where
  "torn es = length (List.filter is_torn es)"

text \<open>A write that was cut inside its line\<close>

definition cuts :: "('w, 'x) host_scheme \<Rightarrow> effect \<Rightarrow> bool" where
  "cuts E x \<longleftrightarrow> (case x of Torn d n \<Rightarrow> 0 < n \<and> n < length (audit_text E d) | _ \<Rightarrow> False)"

definition line_ok :: "file_line \<Rightarrow> bool" where
  "line_ok l \<longleftrightarrow> l = Garbage \<or> (\<exists>d. l = Parsed (canon (PDict d)) \<and> jsonable (PDict d))"

definition events_in :: "file_line list \<Rightarrow> nat" where
  "events_in ls = length (List.filter is_event ls)"

text \<open>
  While the last line is open, the next write may still damage it (\<open>exposed\<close>) and will be lost itself.
\<close>

definition exposed :: "file_line list \<Rightarrow> line_end \<Rightarrow> nat" where
  "exposed ls e = (if e = Open_end \<and> last ls \<noteq> Garbage then 1 else 0)"

definition log_accounts :: "('w, 'x) host_scheme \<Rightarrow> effect list \<Rightarrow> file_line list \<Rightarrow> line_end \<Rightarrow> bool" where
  "log_accounts E es ls e \<longleftrightarrow> e \<noteq> Split_char \<and> (e = Open_end \<longrightarrow> ls \<noteq> []) \<and> list_all line_ok ls
     \<and> damaged_lines ls + exposed ls e \<le> torn es
     \<and> appended es + exposed ls e + (if e = Open_end then 1 else 0) \<le> events_in ls + torn es
     \<and> events_in ls \<le> appended es + torn es
     \<and> (list_ex (cuts E) es \<longrightarrow> 0 < damaged_lines ls)"

lemma canon_dict: "\<exists>d'. canon (PDict d) = PDict d'"
  by simp

lemma line_kinds [simp]:
  "is_dict (canon (PDict d))" "clean_line (Parsed (canon (PDict d)))" "\<not> clean_line Garbage"
  by (simp_all add: clean_line_def)

lemma line_counts [simp]:
  "damaged_lines [] = 0" "events_in [] = 0"
  "damaged_lines (ls @ [l]) = damaged_lines ls + (if clean_line l then 0 else 1)"
  "events_in (ls @ [l]) = events_in ls + (if is_event l then 1 else 0)"
  by (simp_all add: damaged_lines_def events_in_def)

lemma effect_counts [simp]:
  "appended [] = 0" "torn [] = 0"
  "appended (es @ [x]) = appended es + (if is_whole x then 1 else 0)"
  "torn (es @ [x]) = torn es + (if is_torn x then 1 else 0)"
  by (simp_all add: appended_def torn_def)

lemma log_write_accounts:
  assumes "log_accounts E es ls e" and "log_write E x (ls, e) = (ls', e')"
    and "list_all (\<lambda>d. jsonable (PDict d)) (recordings [x])" and "\<And>q. is_ascii (float_repr (pyrun E) q)"
  shows "log_accounts E (es @ [x]) ls' e'"
proof -
  have accounts: "log_accounts E (es @ [x]) ls' e'"
    if w: "write_line (audit_text E d) (Parsed (canon (PDict d))) n (ls, e) = (ls', e')" and j: "jsonable (PDict d)"
      and x: "is_whole x \<longleftrightarrow> \<not> is_torn x" "is_whole x \<longrightarrow> n = Suc (length (audit_text E d))"
        "cuts E x \<longleftrightarrow> is_torn x \<and> 0 < n \<and> n < length (audit_text E d)" for d n
  proof -
    have unsplit: "\<not> splits_char (take n (audit_text E d))"
      unfolding audit_text_def by (intro ascii_unsplit ascii_json assms(4))
    have ok: "line_ok (Parsed (canon (PDict d)))" "line_ok Garbage" using j by (auto simp: line_ok_def)
    show ?thesis
    proof (cases "e = Newline")
      case True
      then show ?thesis
        using assms(1) w x unsplit ok
        by (auto simp: log_accounts_def write_line_def exposed_def simp del: canon.simps split: if_splits)
    next
      case False
      then have op: "e = Open_end" "ls \<noteq> []" using assms(1) by (cases e; simp add: log_accounts_def)+
      then obtain ms l where ls: "ls = ms @ [l]" by (metis append_butlast_last_id)
      then have l: "line_ok l" using assms(1) by (simp add: log_accounts_def)
      show ?thesis
      proof (cases "l = Garbage")
        case True
        then show ?thesis using assms(1) w x unsplit ok op ls
          by (auto simp: log_accounts_def write_line_def exposed_def simp del: canon.simps split: if_splits)
      next
        case False
        then obtain d' where "l = Parsed (canon (PDict d'))" using l by (auto simp: line_ok_def)
        then show ?thesis using assms(1) w x unsplit ok op ls
          by (auto simp: log_accounts_def write_line_def exposed_def simp del: canon.simps split: if_splits)
      qed
    qed
  qed
  show ?thesis
  proof (cases x)
    case (Command c)
    then show ?thesis using assms(1,2) by (simp add: log_accounts_def cuts_def)
  next
    case (Audited d)
    then show ?thesis using assms(2,3) by (intro accounts [of d]) (simp_all add: cuts_def)
  next
    case (Torn d n)
    then show ?thesis using assms(2,3) by (intro accounts [of d n]) (simp_all add: cuts_def)
  qed
qed

lemma log_accounted:
  assumes "list_all (\<lambda>d. jsonable (PDict d)) (recordings es)" and "\<And>q. is_ascii (float_repr (pyrun E) q)"
  shows "case fold (log_write E) es ([], Newline) of (ls, e) \<Rightarrow> log_accounts E es ls e"
  using assms(1)
proof (induction es rule: rev_induct)
  case Nil
  show ?case by (simp add: log_accounts_def exposed_def)
next
  case (snoc x es)
  then show ?case
    using log_write_accounts [of E es "fst (fold (log_write E) es ([], Newline))" "snd (fold (log_write E) es ([], Newline))" x] assms(2)
    by (simp add: case_prod_beta)
qed

text \<open>The observer returns on such a log, with the last whole record as its last event.\<close>

lemma final_event_lines: "list_all line_ok ls \<Longrightarrow> jsonable (final_event ls)"
proof (induction ls rule: rev_induct)
  case (snoc l ls)
  show ?case
  proof (cases "l = Garbage")
    case False
    then obtain d where d: "l = Parsed (canon (PDict d))" "jsonable (PDict d)" using snoc.prems by (auto simp: line_ok_def)
    then have "jsonable (canon (PDict d))" by (simp add: jsonable_def del: canon.simps serialisable.simps all_finite.simps)
    then show ?thesis
      using canon_dict [of d] d(1) by (auto simp: final_event_snoc final_event_def jsonable_last_event simp del: canon.simps)
  qed (use snoc in \<open>simp add: final_event_snoc\<close>)
qed (simp add: final_event_def jsonable_def)

lemma none_recorded: "recordings es = [] \<Longrightarrow> fold (log_write E) es f = f"
  by (induction es arbitrary: f rule: recordings.induct) simp_all

lemma site_log_read:
  assumes "clean_trace (base s)" and "\<And>q. is_ascii (float_repr (pyrun E) q)"
  shows "read_part (site_log E s) = fst (site_lines E s)" and "log_returns (site_log E s)"
    and "log_clean (site_log E s) \<longleftrightarrow> damaged_lines (fst (site_lines E s)) = 0"
    and "list_all line_ok (fst (site_lines E s))"
    and "log_accounts E (trace (base s)) (fst (site_lines E s)) (snd (site_lines E s))"
proof -
  show a: "log_accounts E (trace (base s)) (fst (site_lines E s)) (snd (site_lines E s))"
    using log_accounted [of "trace (base s)" E] assms by (simp add: clean_trace_def site_lines_def case_prod_beta)
  then show "list_all line_ok (fst (site_lines E s))" by (simp add: log_accounts_def)
  have none: "recordings (trace (base s)) = [] \<Longrightarrow> site_lines E s = ([], Newline)" by (simp add: site_lines_def none_recorded)
  show "read_part (site_log E s) = fst (site_lines E s)" "log_returns (site_log E s)"
    "log_clean (site_log E s) \<longleftrightarrow> damaged_lines (fst (site_lines E s)) = 0"
    using a none by (auto simp: site_log_def log_accounts_def log_returns_def log_clean_def caught_by_def issubclass_def damaged_none
        split: prod.splits)
qed

lemma site_view_read:
  assumes "site_ok s" and "\<And>q. is_ascii (float_repr (pyrun E) q)" and "write_ok out"
  shows "all_read (site_view E now s) \<longleftrightarrow> damaged_lines (fst (site_lines E s)) = 0" and "pass_ok (site_view E now s, out)"
proof -
  have c: "clean_trace (base s)" using assms(1) by (simp add: site_ok_def)
  note r = site_log_read [OF c assms(2)]
  show "all_read (site_view E now s) \<longleftrightarrow> damaged_lines (fst (site_lines E s)) = 0" "pass_ok (site_view E now s, out)"
    using assms(3) r final_event_lines [OF r(4)]
    by (auto simp: all_read_def pass_ok_def reads_return_def site_view_def site_dirs_def listing_of_def
        dir_readable_def dir_returns_def list_all_iff)
qed

lemma lines_ok_kinds:
  assumes "list_all line_ok ls"
  shows "length (List.filter (\<lambda>l. \<not> is_event l) ls) = damaged_lines ls" and "list_all is_event ls \<longleftrightarrow> damaged_lines ls = 0"
proof -
  have "clean_line l \<longleftrightarrow> is_event l" if "l \<in> set ls" for l
    using assms that by (auto simp: list_all_iff line_ok_def clean_line_def simp del: canon.simps)
  then show "length (List.filter (\<lambda>l. \<not> is_event l) ls) = damaged_lines ls" "list_all is_event ls \<longleftrightarrow> damaged_lines ls = 0"
    by (auto simp: damaged_lines_def list_all_iff filter_empty_conv cong: filter_cong)
qed

lemma site_snapshot:
  assumes "site_ok s" and "\<And>q. is_ascii (float_repr (pyrun E) q)"
    and d_def: "d = snapshot_of (site_view E now s)" and ls_def: "ls = fst (site_lines E s)"
  shows "get_in (dget d ''audit'') ''events'' = PInt (int (events_in ls))"
    and "get_in (dget d ''audit'') ''parse_errors'' = PInt (int (damaged_lines ls))"
    and "dget d ''status'' = PStr (if damaged_lines ls = 0 then ''OBSERVED'' else ''PENDING_WITNESS'')"
proof -
  have "clean_trace (base s)" using assms(1) by (simp add: site_ok_def)
  note r = site_log_read [OF this assms(2)]
  have "read_error (site_log E s) = None \<or> (\<exists>e. read_error (site_log E s) = Some e \<and> caught_by e [FileNotFoundError])"
    using r(5) by (auto simp: site_log_def log_accounts_def split: prod.splits)
  then have res: "ls_errors (log_result (site_log E s)) = damaged_lines ls" "ls_events (log_result (site_log E s)) = events_in ls"
    using r(1) by (auto simp: log_result_def ls_def events_in_def)
  have known: "list_all (\<lambda>(n, c). c \<noteq> PNone) (observed_counts (site_view E now s))"
    unfolding counts_known by (simp add: site_view_def site_dirs_def listing_of_def dir_readable_def list_all_iff)
  show "get_in (dget d ''audit'') ''events'' = PInt (int (events_in ls))"
    "get_in (dget d ''audit'') ''parse_errors'' = PInt (int (damaged_lines ls))"
    "dget d ''status'' = PStr (if damaged_lines ls = 0 then ''OBSERVED'' else ''PENDING_WITNESS'')"
    using res known
    by (simp_all add: d_def snapshot_of_def snapshot_dict_def Let_def summary_dict_def site_view_def)
qed

lemma site_dirs_return: "list_all (\<lambda>n. dir_returns (site_dirs s n)) ns"
  by (simp add: site_dirs_def listing_of_def dir_returns_def list_all_iff)

lemma dashboard_returns:
  assumes "di_file i = Inr v" and "di_disk i = Inr u" and "list_all (\<lambda>n. dir_returns (di_dirs i n)) queue_names"
  shows "\<exists>txt. dashboard_main R as_json i = Inr (txt, if file_confirms (Inr v) then 0 else 2)"
proof -
  have "\<exists>r. read_observer (di_source i) (di_file i) = Inr r"
    using assms(1) by (cases v) (simp_all add: read_observer_def read_json_def)
  moreover have "\<exists>d. disk_report (di_disk i) = Inr d" using assms(2) disk_observed [of "di_disk i"] by blast
  moreover have "\<exists>d. directory_counts (di_dirs i) queue_names = Inr d" using assms(3) directory_counts_return by blast
  ultimately have "\<exists>txt k. dashboard_main R as_json i = Inr (txt, k) \<and> (k = 0 \<or> k = 2)"
    by (auto simp: dashboard_main_def build_report_def)
  then show ?thesis using dashboard_observed_base [of R as_json i] assms by (cases u) auto
qed

text \<open>The counts of the four directories, and their sum\<close>

definition counted :: "pydict \<Rightarrow> string \<Rightarrow> int" where
  "counted d n = (case get_in (dget d ''queue_counts'') n of PInt i \<Rightarrow> i | _ \<Rightarrow> 0)"

lemma counted_site:
  assumes "json_names s"
  shows "counted (snapshot_of (site_view E now s)) ''pending'' = int (length (pending s))"
    and "counted (snapshot_of (site_view E now s)) ''processing'' = int (length (processing s))"
    and "counted (snapshot_of (site_view E now s)) ''done'' = int (length (finished s))"
    and "counted (snapshot_of (site_view E now s)) ''failed'' = int (length (failed s))"
proof -
  have n: "count_json_files (List.map (\<lambda>p. (fst p, True)) d) = length d" if "list_all (\<lambda>p. json_suffix (fst p)) d" for d :: directory
    using that by (induction d) (simp_all add: count_json_files_def)
  have "observed_counts (site_view E now s) = [(''pending'', PInt (int (length (pending s)))), (''processing'', PInt (int (length (processing s)))),
      (''done'', PInt (int (length (finished s)))), (''failed'', PInt (int (length (failed s))))]"
    using assms by (simp add: observed_counts_def queue_names_def site_view_def site_dirs_def listing_of_def dir_readable_def
        json_count_def json_names_def n)
  then show "counted (snapshot_of (site_view E now s)) ''pending'' = int (length (pending s))"
    "counted (snapshot_of (site_view E now s)) ''processing'' = int (length (processing s))"
    "counted (snapshot_of (site_view E now s)) ''done'' = int (length (finished s))"
    "counted (snapshot_of (site_view E now s)) ''failed'' = int (length (failed s))"
    by (simp_all add: counted_def snapshot_of_def snapshot_dict_def Let_def)
qed

lemma tasks_size: "size (tasks s) = length (pending s) + length (processing s) + length (finished s) + length (failed s)"
  by (simp add: tasks_def)

end
