(* ===== verification/PyStats.thy ===== *)
theory PyStats
  imports PyText
begin

text \<open>
  The standard library's \<open>statistics\<close> as Python 3.11 computes it: sums, means and variances are exact
  rationals and are rounded once at the end, square roots by integer square root and rounding to odd.
  Also true division, division of floats, truncation to an integer and \<open>float(x)\<close> of any value.
  Proved: the integer square root, bounds of the mean by its data, the flat case, and that the
  variance is not negative.
\<close>

section \<open>Conversions and division\<close>

text \<open>The exact quotient of two integers as a float: \<open>a / b\<close>, and \<open>float\<close> of a fraction.\<close>

definition ratio :: "rat \<Rightarrow> exc + pyfloat" where
  "ratio q = (case to_pf q of Fin r \<Rightarrow> Inr (Fin r)
     | _ \<Rightarrow> raise OverflowError ''integer division result too large for a float'')"

text \<open>Division of a float by a finite float other than zero\<close>

fun fdiv :: "pyfloat \<Rightarrow> rat \<Rightarrow> pyfloat" where
  "fdiv (Fin a) b = to_pf (a / b)"
| "fdiv PosInf b = (if 0 < b then PosInf else NegInf)"
| "fdiv NegInf b = (if 0 < b then NegInf else PosInf)"
| "fdiv NaN b = NaN"

fun fabs :: "pyfloat \<Rightarrow> pyfloat" where
  "fabs (Fin a) = Fin \<bar>a\<bar>"
| "fabs NaN = NaN"
| "fabs _ = PosInf"

definition trunc :: "rat \<Rightarrow> int" where
  "trunc r = (if r < 0 then - \<lfloor>- r\<rfloor> else \<lfloor>r\<rfloor>)"

text \<open>\<open>int(x)\<close> of a number\<close>

fun int_of_num :: "pynum \<Rightarrow> exc + int" where
  "int_of_num (NInt i) = Inr i"
| "int_of_num (NFloat (Fin r)) = Inr (trunc r)"
| "int_of_num (NFloat NaN) = raise ValueError ''cannot convert float NaN to integer''"
| "int_of_num (NFloat f) = raise OverflowError ''cannot convert float infinity to integer''"

text \<open>\<open>float(v)\<close> of any value\<close>

fun float_of_val :: "pyval \<Rightarrow> exc + pyfloat" where
  "float_of_val (PBool b) = Inr (Fin (of_bool b))"
| "float_of_val (PInt i) = py_float (NInt i)"
| "float_of_val (PFloat f) = Inr f"
| "float_of_val (PStr s) = (case float_of_text s of Some f \<Rightarrow> Inr f
     | None \<Rightarrow> raise ValueError ''could not convert string to float'')"
| "float_of_val (PBytes s) = (case float_of_text s of Some f \<Rightarrow> Inr f
     | None \<Rightarrow> raise ValueError ''could not convert string to float'')"
| "float_of_val _ = raise TypeError ''float() argument must be a string or a real number''"

text \<open>\<open>v > n\<close> and \<open>v < n\<close> for a value and an integer: a boolean is an integer, anything else raises.\<close>

fun number_of :: "pyval \<Rightarrow> exc + pynum" where
  "number_of (PBool b) = Inr (NInt (of_bool b))"
| "number_of (PInt i) = Inr (NInt i)"
| "number_of (PFloat f) = Inr (NFloat f)"
| "number_of _ = raise TypeError ''not supported between these instances''"

section \<open>Mean\<close>

text \<open>
  \<open>statistics.mean\<close> of a list that is not empty: integers give an integer when the quotient is one;
  otherwise the exact mean is rounded. Infinities and NaN are summed on their own.
\<close>

definition is_nint :: "pynum \<Rightarrow> bool" where
  "is_nint x = (case x of NInt i \<Rightarrow> True | NFloat f \<Rightarrow> False)"

fun exact_val :: "pynum \<Rightarrow> rat" where
  "exact_val (NInt i) = of_int i"
| "exact_val (NFloat (Fin r)) = r"
| "exact_val (NFloat f) = 0"

definition finite_num :: "pynum \<Rightarrow> bool" where
  "finite_num x = fisfinite (num_val x)"

definition mean_of :: "pynum list \<Rightarrow> exc + pynum" where
  "mean_of xs = (let m = sum_list (List.map exact_val xs) / of_nat (length xs) in
     if \<not> list_all finite_num xs
     then Inr (NFloat (foldl fadd (Fin 0) (List.map num_val (List.filter (\<lambda>x. \<not> finite_num x) xs))))
     else if list_all is_nint xs \<and> m = of_int \<lfloor>m\<rfloor> then Inr (NInt \<lfloor>m\<rfloor>)
     else and_then (ratio m) (\<lambda>f. Inr (NFloat f)))"

definition mean_rat :: "rat list \<Rightarrow> rat" where
  "mean_rat xs = sum_list xs / of_nat (length xs)"

definition fmean :: "rat list \<Rightarrow> exc + pyfloat" where
  "fmean xs = ratio (mean_rat xs)"

section \<open>Variance and standard deviation\<close>

definition sum_squares :: "rat list \<Rightarrow> rat" where
  "sum_squares xs = sum_list (List.map (\<lambda>x. x * x) xs)"

definition variance :: "rat list \<Rightarrow> rat" where
  "variance xs = (let n = of_nat (length xs) in
     (n * sum_squares xs - sum_list xs * sum_list xs) / n / (n - 1))"

fun isqrt :: "nat \<Rightarrow> nat" where
  "isqrt n = (if n = 0 then 0 else let r = 2 * isqrt (n div 4) in if (r + 1) * (r + 1) \<le> n then r + 1 else r)"

declare isqrt.simps [simp del]

text \<open>\<open>_integer_sqrt_of_frac_rto\<close> and \<open>_float_sqrt_of_frac\<close>\<close>

definition sqrt_rto :: "nat \<Rightarrow> nat \<Rightarrow> nat" where
  "sqrt_rto n m = (let a = isqrt (n div m) in if a * a * m \<noteq> n \<and> even a then a + 1 else a)"

definition sqrt_shift :: "int \<Rightarrow> int \<Rightarrow> int" where
  "sqrt_shift n m = (bitlen n - bitlen m - 109) div 2"

definition sqrt_value :: "rat \<Rightarrow> rat" where
  "sqrt_value x = (let (n, m) = quotient_of x; q = sqrt_shift n m in
     if 0 \<le> q then of_nat (sqrt_rto (nat n) (nat m * 4 ^ nat q)) * 2 ^ nat q
     else of_nat (sqrt_rto (nat n * 4 ^ nat (- q)) (nat m)) / 2 ^ nat (- q))"

definition sqrt_frac :: "rat \<Rightarrow> exc + pyfloat" where
  "sqrt_frac x = ratio (sqrt_value x)"

definition fstdev :: "rat list \<Rightarrow> exc + pyfloat" where
  "fstdev xs = sqrt_frac (variance xs)"

section \<open>Lemmas\<close>

lemma isqrt_bounds: "isqrt n * isqrt n \<le> n \<and> n < (isqrt n + 1) * (isqrt n + 1)"
proof (induction n rule: isqrt.induct)
  case (1 n)
  show ?case
  proof (cases "n = 0")
    case True
    then show ?thesis by (simp add: isqrt.simps [of 0])
  next
    case False
    define k where "k = isqrt (n div 4)"
    have IH: "k * k \<le> n div 4" "n div 4 < (k + 1) * (k + 1)" using 1 False by (simp_all add: k_def)
    have lo: "4 * (k * k) \<le> n" using IH(1) by (simp add: less_eq_div_iff_mult_less_eq mult.commute)
    have hi: "n < 4 * ((k + 1) * (k + 1))" using IH(2) by (simp add: div_less_iff_less_mult mult.commute)
    have "isqrt n = (if (2 * k + 1) * (2 * k + 1) \<le> n then 2 * k + 1 else 2 * k)"
      by (subst isqrt.simps) (simp add: False Let_def k_def)
    then show ?thesis using lo hi by (auto simp: algebra_simps)
  qed
qed

lemma isqrt_0 [simp]: "isqrt 0 = 0"
  by (simp add: isqrt.simps)

lemma sqrt_rto_le: "0 < m \<Longrightarrow> sqrt_rto n m \<le> isqrt (n div m) + 1"
  by (simp add: sqrt_rto_def Let_def)

lemma sqrt_value_0 [simp]: "sqrt_value 0 = 0"
  by (simp add: sqrt_value_def sqrt_rto_def Let_def)

lemma sum_list_bounds:
  fixes a b :: rat
  assumes "list_all (\<lambda>x. a \<le> x \<and> x \<le> b) xs"
  shows "of_nat (length xs) * a \<le> sum_list xs \<and> sum_list xs \<le> of_nat (length xs) * b"
  using assms by (induction xs) (auto simp: algebra_simps)

lemma mean_rat_bounds:
  assumes "list_all (\<lambda>x. a \<le> x \<and> x \<le> b) xs" and "xs \<noteq> []"
  shows "a \<le> mean_rat xs \<and> mean_rat xs \<le> b"
  using sum_list_bounds [OF assms(1)] assms(2) by (simp add: mean_rat_def field_simps)

lemma mean_rat_replicate [simp]: "0 < n \<Longrightarrow> mean_rat (replicate n x) = x"
  by (simp add: mean_rat_def sum_list_replicate)

lemma variance_replicate [simp]: "variance (replicate n x) = 0"
  by (simp add: variance_def Let_def sum_squares_def map_replicate sum_list_replicate algebra_simps)

lemma ratio_representable: "wf_float (Fin r) \<Longrightarrow> ratio r = Inr (Fin r)"
  using to_pf_bounded [of r "\<bar>r\<bar>"] by (auto simp: ratio_def abs_if split: if_splits)

lemma ratio_bounded: "\<bar>x\<bar> \<le> y \<Longrightarrow> wf_float (Fin y) \<Longrightarrow> ratio x = Inr (Fin (rnd x))"
  by (simp add: ratio_def to_pf_bounded)


section \<open>Bounds of the variance and of the square root\<close>

text \<open>The spread: \<open>n * sum of squares - square of the sum\<close>, the sum of the squared differences of all pairs\<close>

definition spread :: "rat list \<Rightarrow> rat" where
  "spread xs = of_nat (length xs) * sum_squares xs - sum_list xs * sum_list xs"

lemma sum_deviations:
  "sum_list (List.map (\<lambda>y. (y - x) * (y - x)) xs) = sum_squares xs - 2 * sum_list xs * x + of_nat (length xs) * (x * x)"
  by (induction xs) (simp_all add: sum_squares_def algebra_simps)

lemma spread_Cons: "spread (x # xs) = spread xs + sum_list (List.map (\<lambda>y. (y - x) * (y - x)) xs)"
  unfolding sum_deviations by (simp add: spread_def sum_squares_def algebra_simps)

lemma deviations_bounds:
  fixes x a b :: rat
  assumes "list_all (\<lambda>y. a \<le> y \<and> y \<le> b) (x # xs)"
  shows "0 \<le> sum_list (List.map (\<lambda>y. (y - x) * (y - x)) xs)"
    and "sum_list (List.map (\<lambda>y. (y - x) * (y - x)) xs) \<le> of_nat (length xs) * ((b - a) * (b - a))"
proof -
  show "0 \<le> sum_list (List.map (\<lambda>y. (y - x) * (y - x)) xs)" by (rule sum_list_nonneg) auto
  have "(y - x) * (y - x) \<le> (b - a) * (b - a)" if "y \<in> set xs" for y
  proof -
    have "\<bar>y - x\<bar> \<le> b - a" using assms that by (auto simp: list_all_iff)
    then have "\<bar>y - x\<bar> * \<bar>y - x\<bar> \<le> (b - a) * (b - a)" by (intro mult_mono) simp_all
    then show ?thesis by simp
  qed
  moreover define w where "w = (b - a) * (b - a)"
  ultimately have le: "\<And>y. y \<in> set xs \<Longrightarrow> (y - x) * (y - x) \<le> w" by simp
  have "sum_list (List.map (\<lambda>y. (y - x) * (y - x)) xs) \<le> of_nat (length xs) * w"
    using le
  proof (induction xs)
    case (Cons z zs)
    have "(z - x) * (z - x) \<le> w" by (rule Cons.prems) simp
    moreover have "sum_list (List.map (\<lambda>y. (y - x) * (y - x)) zs) \<le> of_nat (length zs) * w"
      by (rule Cons.IH) (rule Cons.prems, simp)
    ultimately show ?case unfolding list.map sum_list.Cons length_Cons of_nat_Suc distrib_right by linarith
  qed simp
  then show "sum_list (List.map (\<lambda>y. (y - x) * (y - x)) xs) \<le> of_nat (length xs) * ((b - a) * (b - a))"
    by (simp only: w_def)
qed

lemma spread_bounds:
  assumes "list_all (\<lambda>y. a \<le> y \<and> y \<le> b) xs"
  shows "0 \<le> spread xs \<and> spread xs \<le> of_nat (length xs) * (of_nat (length xs) - 1) * ((b - a) * (b - a))"
  using assms
proof (induction xs)
  case (Cons x xs)
  define n :: rat where "n = of_nat (length xs)"
  define w where "w = (b - a) * (b - a)"
  define dev where "dev = sum_list (List.map (\<lambda>y. (y - x) * (y - x)) xs)"
  have dev: "0 \<le> dev" "dev \<le> n * w"
    using deviations_bounds [OF Cons.prems] by (simp_all only: dev_def n_def w_def)
  have "list_all (\<lambda>y. a \<le> y \<and> y \<le> b) xs" using Cons.prems by simp
  then have IH: "0 \<le> spread xs" "spread xs \<le> n * (n - 1) * w"
    using Cons.IH by (simp_all only: n_def w_def)
  have "0 \<le> n * w" by (simp add: n_def w_def)
  then have "spread xs + dev \<le> n * (n - 1) * w + 2 * (n * w)" using IH dev by linarith
  also have "\<dots> = (1 + n) * (1 + n - 1) * w" by (simp add: algebra_simps)
  finally show ?case
    using IH dev by (simp only: spread_Cons dev_def [symmetric] length_Cons of_nat_Suc n_def [symmetric] w_def [symmetric]) simp
qed (simp add: spread_def sum_squares_def)

lemma variance_spread: "variance xs = spread xs / of_nat (length xs) / (of_nat (length xs) - 1)"
  by (simp add: variance_def Let_def spread_def)

lemma variance_bounds:
  assumes "list_all (\<lambda>y. a \<le> y \<and> y \<le> b) xs" and "2 \<le> length xs"
  shows "0 \<le> variance xs \<and> variance xs \<le> (b - a) * (b - a)"
proof -
  define n :: rat where "n = of_nat (length xs)"
  define w where "w = (b - a) * (b - a)"
  have n: "2 \<le> n" using assms(2) by (simp add: n_def)
  have b: "0 \<le> spread xs" "spread xs \<le> n * (n - 1) * w"
    using spread_bounds [OF assms(1)] by (simp_all only: n_def w_def)
  have "variance xs = spread xs / (n * (n - 1))" by (simp add: variance_spread n_def)
  moreover have "0 < n * (n - 1)" using n by simp
  ultimately show ?thesis
    using b by (simp add: divide_le_eq mult.commute w_def [symmetric])
qed

lemma sqrt_shift_negative:
  assumes "0 < x" and "x \<le> pow2 20" and "quotient_of x = (n, m)"
  shows "sqrt_shift n m < 0"
proof -
  have "pow2 (ilog2 x) \<le> pow2 20" using ilog2_bounds(1) [OF assms(1)] assms(2) by simp
  then have "ilog2 x \<le> 20" by (metis linorder_not_less pow2_less_iff)
  then have "bitlen n - bitlen m \<le> 21" using assms(3) by (auto simp: ilog2_def Let_def split: if_splits)
  then show ?thesis by (simp add: sqrt_shift_def)
qed

lemma square_le: "0 \<le> b \<Longrightarrow> a * a \<le> b * b \<Longrightarrow> a \<le> (b :: rat)"
  by (metis mult_strict_mono' linorder_not_less)

lemma sqrt_value_bounds:
  assumes "0 \<le> x" and "x \<le> pow2 20"
  shows "0 \<le> sqrt_value x \<and> sqrt_value x \<le> pow2 21"
proof (cases "x = 0")
  case False
  obtain n m where nm: "quotient_of x = (n, m)" by fastforce
  have m: "0 < m" using nm by (rule quotient_of_denom_pos)
  have x: "x = of_int n / of_int m" using nm by (rule quotient_of_div)
  have n: "0 < n" using False assms(1) m x by (metis of_int_0_less_iff order_less_le zero_less_divide_iff not_less_iff_gr_or_eq)
  define p where "p = nat (- sqrt_shift n m)"
  have neg: "sqrt_shift n m < 0" using sqrt_shift_negative [OF _ assms(2) nm] False assms(1) by simp
  define N where "N = nat n * 4 ^ p"
  define a where "a = isqrt (N div nat m)"
  have val: "sqrt_value x = of_nat (sqrt_rto N (nat m)) / 2 ^ p"
    using neg by (simp add: sqrt_value_def nm Let_def p_def N_def)
  have "a * a \<le> N div nat m" using isqrt_bounds by (simp add: a_def)
  then have "a * a * nat m \<le> N" using m by (simp add: less_eq_div_iff_mult_less_eq)
  then have "of_nat (a * a * nat m) \<le> (of_nat N :: rat)" by (simp only: of_nat_le_iff)
  then have "rat_of_nat a * of_nat a * of_int m \<le> of_int n * 4 ^ p" using m n by (simp add: N_def)
  then have "rat_of_nat a * of_nat a \<le> x * 4 ^ p" using m by (simp add: x field_simps)
  also have "\<dots> \<le> pow2 20 * 4 ^ p" using assms(2) by (simp add: mult_right_mono)
  also have "\<dots> = (pow2 10 * 2 ^ p) * (pow2 10 * 2 ^ p)"
  proof -
    have "pow2 20 = pow2 10 * pow2 10" using pow2_add [of 10 10] by simp
    moreover have "(4 :: rat) ^ p = 2 ^ p * 2 ^ p" 
      using power_mult_distrib [of "2 :: rat" 2 p] by simp
    ultimately show ?thesis by (simp only: ac_simps)
  qed
  finally have sq: "rat_of_nat a * of_nat a \<le> (pow2 10 * 2 ^ p) * (pow2 10 * 2 ^ p)" .
  have "rat_of_nat a \<le> pow2 10 * 2 ^ p"
    by (rule square_le [OF _ sq]) (simp add: less_imp_le)
  moreover have "rat_of_nat (sqrt_rto N (nat m)) \<le> of_nat a + 1"
    using sqrt_rto_le [of "nat m" N] m by (simp add: a_def flip: of_nat_Suc)
  moreover have "(1 :: rat) \<le> 2 ^ p" by simp
  moreover have "pow2 10 * 2 ^ p + 2 ^ p \<le> (pow2 21 :: rat) * 2 ^ p"
    using distrib_right [of "pow2 10" 1 "2 ^ p"] by (simp add: pow2_def)
  ultimately have "rat_of_nat (sqrt_rto N (nat m)) \<le> pow2 21 * 2 ^ p" by linarith
  then show ?thesis by (simp add: val field_simps)
qed simp

lemma wf_pow2: "0 \<le> e \<Longrightarrow> e < 1024 \<Longrightarrow> wf_float (Fin (pow2 e))"
proof -
  assume e: "0 \<le> e" "e < 1024"
  have "representable (pow2 e)" unfolding representable_def using e by (intro exI [of _ 1] exI [of _ e]) simp
  moreover have "pow2 e < f_limit" using pow2_strict_mono [OF e(2)] by (simp add: f_limit_def pow2_def)
  ultimately show ?thesis by (simp add: rnd_representable)
qed

lemma fstdev_returns:
  assumes "list_all (\<lambda>y. a \<le> y \<and> y \<le> b) xs" and "2 \<le> length xs" and "(b - a) * (b - a) \<le> pow2 20"
  shows "\<exists>r. fstdev xs = Inr (Fin r) \<and> 0 \<le> r"
proof -
  have "0 \<le> sqrt_value (variance xs) \<and> sqrt_value (variance xs) \<le> pow2 21"
    using variance_bounds [OF assms(1,2)] assms(3) by (intro sqrt_value_bounds) simp_all
  moreover have "wf_float (Fin (pow2 21))" by (rule wf_pow2) simp_all
  ultimately have "ratio (sqrt_value (variance xs)) = Inr (Fin (rnd (sqrt_value (variance xs))))"
    and "0 \<le> rnd (sqrt_value (variance xs))"
    by (auto intro: ratio_bounded rnd_nonneg simp del: wf_float.simps)
  then show ?thesis by (simp add: fstdev_def sqrt_frac_def)
qed

end
