(* ===== verification/ControlPlane.thy ===== *)
theory ControlPlane
  imports PyStats
begin

text \<open>
  The simulated control plane: \<open>controller/anomaly.py\<close>, \<open>metrics.py\<close>, \<open>feedback.py\<close>, \<open>chaos.py\<close>,
  \<open>real_metrics.py\<close> and \<open>controller.py\<close> that composes them. Random draws, clocks and host reads are
  inputs. Shown: nothing is ever executed and every store is bounded, whatever events come; what a
  flat baseline flags; and that the simulation loop never raises, while one of its rules and
  three of its four strategies can never fire.
\<close>

section \<open>Anomaly detector\<close>

text \<open>A window holds finite floats only, so it is a list of the rationals they denote.\<close>

record detector =
  window_size :: nat
  z_threshold :: pynum
  windows :: "string \<Rightarrow> rat list option"

definition metric_types :: "string list" where
  "metric_types = [''latency'', ''errors'', ''events'']"

definition new_detector :: "pyval \<Rightarrow> pyval \<Rightarrow> exc + detector" where
  "new_detector w z = (case as_int w of
     None \<Rightarrow> raise ValueError ''window_size must be an integer of at least 5''
   | Some n \<Rightarrow> if n < 5 then raise ValueError ''window_size must be an integer of at least 5''
     else (case as_num z of
       None \<Rightarrow> raise ValueError ''z_threshold must be a finite positive number''
     | Some t \<Rightarrow> and_then (py_isfinite t) (\<lambda>fin.
         if \<not> fin \<or> num_le t (NInt 0) then raise ValueError ''z_threshold must be a finite positive number''
         else Inr \<lparr>window_size = nat n, z_threshold = t,
                   windows = (\<lambda>m. if m \<in> set metric_types then Some [] else None)\<rparr>)))"

text \<open>The verdict on a candidate against the values that were there before it\<close>

definition deviates :: "pynum \<Rightarrow> rat list \<Rightarrow> rat \<Rightarrow> exc + bool" where
  "deviates z vals c = and_then (fmean vals) (\<lambda>m. and_then (fstdev vals) (\<lambda>sd. Inr (case sd of
     Fin s \<Rightarrow> if s = 0 then \<not> feq (Fin c) m else num_lt z (NFloat (fabs (fdiv (fsub (Fin c) m) s)))
   | _ \<Rightarrow> False)))"

definition judge_value :: "pynum \<Rightarrow> rat list \<Rightarrow> rat \<Rightarrow> exc + bool" where
  "judge_value z win c = (if 5 \<le> length win then deviates z win c else Inr False)"

text \<open>The value of the candidate: \<open>None\<close> where \<open>detect\<close> ignores it.\<close>

definition candidate_of :: "pyval \<Rightarrow> exc + rat option" where
  "candidate_of v = (if is_bool v then Inr None else case float_of_val v of
     Inl e \<Rightarrow> if caught_by e [TypeError, ValueError] then Inr None else Inl e
   | Inr (Fin c) \<Rightarrow> Inr (Some c)
   | Inr f \<Rightarrow> Inr None)"

definition detect :: "detector \<Rightarrow> pyval \<Rightarrow> pyval \<Rightarrow> detector \<times> (exc + bool)" where
  "detect d metric_type v = (case as_str metric_type of None \<Rightarrow> (d, Inr False) | Some m \<Rightarrow>
     (case windows d m of None \<Rightarrow> (d, Inr False) | Some win \<Rightarrow>
       attempt d (candidate_of v) (\<lambda>c. case c of None \<Rightarrow> (d, Inr False) | Some c \<Rightarrow>
         attempt d (judge_value (z_threshold d) win c) (\<lambda>anomaly.
           (d\<lparr>windows := (windows d)(m \<mapsto> deque_append (window_size d) win c)\<rparr>, Inr anomaly)))))"

definition get_stats :: "detector \<Rightarrow> string \<Rightarrow> exc + pydict option" where
  "get_stats d m = (case windows d m of
     None \<Rightarrow> Inr None
   | Some [] \<Rightarrow> Inr (Some [(''count'', PInt 0), (''mean'', PInt 0), (''stdev'', PInt 0), (''min'', PNone), (''max'', PNone)])
   | Some vals \<Rightarrow> and_then (fmean vals) (\<lambda>mu.
       and_then (if 1 < length vals then and_then (fstdev vals) (\<lambda>s. Inr (PFloat s)) else Inr (PInt 0)) (\<lambda>sd. Inr (Some
         [(''count'', PInt (int (length vals))), (''mean'', PFloat mu), (''stdev'', sd),
          (''min'', PFloat (Fin (Min (set vals)))), (''max'', PFloat (Fin (Max (set vals))))]))))"

section \<open>Metrics feed\<close>

record sample =
  sm_time :: pyfloat
  sm_latency :: pyfloat
  sm_error :: bool

record feed =
  max_history :: nat
  events :: nat
  errors :: nat
  latency :: "pyfloat option"
  history :: "sample list"
  start_time :: pyfloat

definition new_feed :: "pyval \<Rightarrow> pyfloat \<Rightarrow> exc + feed" where
  "new_feed n now = (case as_int n of
     Some k \<Rightarrow> if k < 1 then raise ValueError ''max_history must be a positive integer''
       else Inr \<lparr>max_history = nat k, events = 0, errors = 0, latency = None, history = [], start_time = now\<rparr>
   | None \<Rightarrow> raise ValueError ''max_history must be a positive integer'')"

definition record_event :: "pyfloat \<Rightarrow> pyval \<Rightarrow> pyval \<Rightarrow> feed \<Rightarrow> feed \<times> (exc + unit)" where
  "record_event now lat err f =
     attempt f (case as_num lat of None \<Rightarrow> raise ValueError ''latency must be a finite non-negative number''
       | Some n \<Rightarrow> py_float n) (\<lambda>v.
       if \<not> fisfinite v \<or> flt v (Fin 0) then (f, raise ValueError ''latency must be a finite non-negative number'')
       else case err of
         PBool b \<Rightarrow> (f\<lparr>events := events f + 1, latency := Some v, errors := errors f + (if b then 1 else 0),
           history := deque_append (max_history f) (history f) \<lparr>sm_time = now, sm_latency = v, sm_error = b\<rparr>\<rparr>, Inr ())
       | _ \<Rightarrow> (f, raise ValueError ''error must be a boolean''))"

definition get_error_rate :: "feed \<Rightarrow> pyval" where
  "get_error_rate f = (if events f = 0 then PNone else PFloat (to_pf (of_nat (errors f) / of_nat (events f))))"

definition metrics_snapshot :: "pyfloat \<Rightarrow> feed \<Rightarrow> exc + pydict" where
  "metrics_snapshot now f = and_then (int_of_num (NFloat (fsub now (start_time f)))) (\<lambda>up. Inr
     [(''events'', PInt (int (events f))), (''errors'', PInt (int (errors f))),
      (''latency'', case latency f of None \<Rightarrow> PNone | Some v \<Rightarrow> PFloat v),
      (''latency_status'', PStr (if latency f \<noteq> None then ''DATA_AVAILABLE'' else ''UNKNOWN'')),
      (''error_rate'', get_error_rate f),
      (''error_rate_status'', PStr (if events f \<noteq> 0 then ''DATA_AVAILABLE'' else ''UNKNOWN'')),
      (''uptime_sec'', PInt (max 0 up))])"

definition recent_average :: "pyval \<Rightarrow> feed \<Rightarrow> exc + pyval" where
  "recent_average window f = (case as_int window of
     Some n \<Rightarrow> if n < 1 then raise ValueError ''window must be a positive integer''
       else if history f = [] then Inr PNone
       else (let recent = last_n (nat n) (history f) in
         Inr (PFloat (fdiv (foldl fadd (Fin 0) (List.map sm_latency recent)) (of_nat (length recent)))))
   | None \<Rightarrow> raise ValueError ''window must be a positive integer'')"

section \<open>Feedback loop\<close>

record feedback =
  strategy :: string
  strategy_history :: "(pyfloat \<times> string) list"
  action_count :: nat
  last_strategy_change :: pyfloat

definition new_feedback :: "pyfloat \<Rightarrow> feedback" where
  "new_feedback now = \<lparr>strategy = ''stable'', strategy_history = [], action_count = 0, last_strategy_change = now\<rparr>"

definition record_action :: "feedback \<Rightarrow> feedback" where
  "record_action f = f\<lparr>action_count := action_count f + 1\<rparr>"

definition choose_strategy :: "pydict \<Rightarrow> exc + string" where
  "choose_strategy m =
     and_then (number_of (dget_or m ''errors'' (PInt 0))) (\<lambda>e.
     if num_lt (NInt 10) e then Inr ''reduce_load''
     else and_then (number_of (dget_or m ''latency'' (PInt 0))) (\<lambda>l.
       if num_lt (NInt 300) l then Inr ''scale_up''
       else and_then (number_of (dget_or m ''events'' (PInt 0))) (\<lambda>n.
         if num_lt n (NInt 5) then Inr ''conserve_resources'' else Inr ''stable'')))"

text \<open>The two calls of the clock: for the last change and for the history entry\<close>

definition adjust_strategy :: "pyfloat \<Rightarrow> pyfloat \<Rightarrow> pydict \<Rightarrow> feedback \<Rightarrow> feedback \<times> (exc + string)" where
  "adjust_strategy t1 t2 m f = attempt f (choose_strategy m) (\<lambda>new.
     if new \<noteq> strategy f
     then (f\<lparr>strategy := new, last_strategy_change := t1, strategy_history := strategy_history f @ [(t2, new)]\<rparr>, Inr new)
     else (f, Inr (strategy f)))"

definition optimization_score :: "feedback \<Rightarrow> pyfloat" where
  "optimization_score f = (if action_count f = 0 then Fin 0
     else fmin (Fin 1) (to_pf ((100 - of_nat (length (strategy_history f))) / 100)))"

section \<open>Chaos simulator\<close>

text \<open>A draw of \<open>random.random()\<close> is a float; \<open>random.uniform(a, b)\<close> is \<open>a + (b - a) * random()\<close>.\<close>

record chaos =
  failure_rate :: pynum
  failures_injected :: nat
  recoveries :: nat

definition uniform :: "rat \<Rightarrow> rat \<Rightarrow> pyfloat \<Rightarrow> pyfloat" where
  "uniform a b r = fadd (Fin a) (fmul (Fin (b - a)) r)"

definition should_fail :: "chaos \<Rightarrow> pyfloat \<Rightarrow> bool" where
  "should_fail c r = num_lt (NFloat r) (failure_rate c)"

definition inject_failure :: "chaos \<Rightarrow> chaos \<times> string" where
  "inject_failure c = (c\<lparr>failures_injected := failures_injected c + 1\<rparr>,
     ''[CHAOS] Injected failure #'' @ show_nat (failures_injected c + 1))"

definition slow_down :: "rat \<Rightarrow> chaos \<Rightarrow> pyfloat \<Rightarrow> pyfloat \<Rightarrow> pynum \<Rightarrow> exc + pynum" where
  "slow_down hi c r u base = (if should_fail c r
     then and_then (py_float base) (\<lambda>b. Inr (NFloat (fmul b (uniform 2 hi u)))) else Inr base)"

definition simulate_degradation :: "chaos \<Rightarrow> pyfloat \<Rightarrow> pyfloat \<Rightarrow> pynum \<Rightarrow> exc + pynum" where
  "simulate_degradation c r u base_latency = slow_down 5 c r u base_latency"

definition simulate_errors :: "chaos \<Rightarrow> pyfloat \<Rightarrow> pyfloat \<Rightarrow> pynum \<Rightarrow> exc + pynum" where
  "simulate_errors c r u base_error_rate = slow_down 10 c r u base_error_rate"

definition record_recovery :: "chaos \<Rightarrow> chaos" where
  "record_recovery c = c\<lparr>recoveries := recoveries c + 1\<rparr>"

definition chaos_stats :: "chaos \<Rightarrow> pydict" where
  "chaos_stats c = [(''failures_injected'', PInt (int (failures_injected c))), (''recoveries'', PInt (int (recoveries c))),
     (''recovery_rate'', PFloat (to_pf (of_nat (recoveries c) / of_nat (max 1 (failures_injected c)))))]"

section \<open>Host metrics\<close>

text \<open>\<open>psutil\<close> is missing, raises, or gives the CPU percentage and the memory's total, available and percent.\<close>

datatype psutil_probe = NoPsutil | PsutilFails | PsutilGives pyval pyval pyval pyval

definition telemetry_ok :: "pynum \<Rightarrow> pynum \<Rightarrow> pynum \<Rightarrow> pynum \<Rightarrow> bool" where
  "telemetry_ok cpu tot avail used \<longleftrightarrow>
     num_le (NInt 0) cpu \<and> num_le cpu (NInt 100) \<and> num_lt (NInt 0) tot \<and> num_le (NInt 0) avail \<and> num_le avail tot
     \<and> num_le (NInt 0) used \<and> num_le used (NInt 100)"

definition finite_value :: "pynum \<Rightarrow> bool" where
  "finite_value x \<longleftrightarrow> py_isfinite x = Inr True"

definition no_data :: "string \<Rightarrow> pyval \<Rightarrow> string \<Rightarrow> pydict" where
  "no_data reason src now = [(''status'', PStr ''NO_DATA_AVAILABLE''), (''reason'', PStr reason), (''source'', src),
     (''timestamp_utc'', PStr now)]"

definition float_val :: "pynum \<Rightarrow> pyval" where
  "float_val x = (case py_float x of Inr f \<Rightarrow> PFloat f | Inl e \<Rightarrow> PNone)"

definition int_val :: "pynum \<Rightarrow> pyval" where
  "int_val x = (case int_of_num x of Inr i \<Rightarrow> PInt i | Inl e \<Rightarrow> PNone)"

definition collect_host_metrics :: "psutil_probe \<Rightarrow> string \<Rightarrow> pyfloat \<Rightarrow> pydict" where
  "collect_host_metrics pr now tick = (case pr of
     NoPsutil \<Rightarrow> no_data ''psutil_not_installed'' PNone now
   | PsutilFails \<Rightarrow> no_data ''telemetry_read_failed'' (PStr ''psutil.host'') now
   | PsutilGives c t a u \<Rightarrow> (case (as_num c, as_num t, as_num a, as_num u) of
       (Some cpu, Some tot, Some avail, Some used) \<Rightarrow>
         if list_all finite_value [cpu, tot, avail, used] \<and> telemetry_ok cpu tot avail used
         then [(''status'', PStr ''DATA_AVAILABLE''), (''source'', PStr ''psutil.host''), (''timestamp_utc'', PStr now),
               (''monotonic_sample_seconds'', PFloat tick), (''cpu_percent'', float_val cpu),
               (''memory_total_bytes'', int_val tot), (''memory_available_bytes'', int_val avail),
               (''memory_used_percent'', float_val used)]
         else no_data ''telemetry_read_failed'' (PStr ''psutil.host'') now
     | _ \<Rightarrow> no_data ''telemetry_read_failed'' (PStr ''psutil.host'') now))"

section \<open>The control plane\<close>

record plane_metric =
  mt_time :: pyfloat
  mt_latency :: pynum
  mt_errors :: pynum
  mt_events :: pynum
  mt_source :: string

record control_plane =
  detector :: detector
  feed :: feed
  feedback :: feedback
  metrics_history :: "plane_metric list"
  last_action :: "string option"
  last_action_status :: string
  metrics_mode :: string
  last_host_metrics :: pydict

definition allowed_proposals :: "string list" where
  "allowed_proposals = [''scale_up_workers'', ''scale_down_workers'', ''activate_chaos_mode'', ''conserve_resources'']"

definition new_control_plane :: "pyfloat \<Rightarrow> pyfloat \<Rightarrow> exc + control_plane" where
  "new_control_plane t1 t2 = and_then (new_detector (PInt 20) (PFloat (Fin (5 / 2)))) (\<lambda>d.
     and_then (new_feed (PInt 1000) t1) (\<lambda>f. Inr
       \<lparr>detector = d, feed = f, feedback = new_feedback t2, metrics_history = [], last_action = None,
        last_action_status = ''NO_ACTION'', metrics_mode = ''SIMULATION'',
        last_host_metrics = [(''status'', PStr ''NO_DATA_AVAILABLE''), (''reason'', PStr ''not_sampled_yet'')]\<rparr>))"

definition finite_metric :: "string \<Rightarrow> pyval \<Rightarrow> exc + pynum" where
  "finite_metric name v = (case as_num v of None \<Rightarrow> raise ValueError (name @ '' must be a finite number'')
     | Some n \<Rightarrow> and_then (py_isfinite n) (\<lambda>fin.
         if \<not> fin then raise ValueError (name @ '' must be a finite number'')
         else if num_lt n (NInt 0) then raise ValueError (name @ '' must not be negative'') else Inr n))"

definition whole :: "pynum \<Rightarrow> bool" where
  "whole x \<longleftrightarrow> (case py_float x of Inr (Fin r) \<Rightarrow> r = of_int \<lfloor>r\<rfloor> | _ \<Rightarrow> False)"

definition ingest_metric :: "pyfloat \<Rightarrow> pyfloat \<Rightarrow> pyval \<Rightarrow> pyval \<Rightarrow> pyval \<Rightarrow> control_plane \<Rightarrow> control_plane \<times> (exc + unit)" where
  "ingest_metric t1 t2 lat err evs s =
     attempt s (finite_metric ''latency'' lat) (\<lambda>l. attempt s (finite_metric ''errors'' err) (\<lambda>e. attempt s (finite_metric ''events'' evs) (\<lambda>n.
       if \<not> whole e \<or> \<not> whole n then (s, raise ValueError ''errors and events must be whole numbers'')
       else let t = s\<lparr>metrics_history := deque_append 100 (metrics_history s)
                \<lparr>mt_time = t1, mt_latency = l, mt_errors = e, mt_events = n, mt_source = metrics_mode s\<rparr>\<rparr> in
         (case record_event t2 lat (PBool (num_lt (NInt 0) e)) (feed t) of (f, r) \<Rightarrow> (t\<lparr>feed := f\<rparr>, r)))))"

definition num_pyval :: "pynum \<Rightarrow> pyval" where
  "num_pyval x = (case x of NInt i \<Rightarrow> PInt i | NFloat f \<Rightarrow> PFloat f)"

text \<open>One call of \<open>self.anomaly_detector.detect\<close>\<close>

definition detect_in :: "string \<Rightarrow> pynum \<Rightarrow> control_plane \<Rightarrow> control_plane \<times> (exc + bool)" where
  "detect_in m x s = (case detect (detector s) (PStr m) (num_pyval x) of (d, r) \<Rightarrow> (s\<lparr>detector := d\<rparr>, r))"

definition propose :: "pynum \<Rightarrow> pynum \<Rightarrow> pynum \<Rightarrow> bool \<Rightarrow> bool \<Rightarrow> string option" where
  "propose lat err evs latency_anomaly error_anomaly =
     (if latency_anomaly \<and> num_lt (NInt 200) lat then Some ''scale_up_workers''
      else if num_lt evs (NInt 10) \<and> \<not> error_anomaly then Some ''scale_down_workers''
      else if error_anomaly \<and> num_lt (NInt 5) err then Some ''activate_chaos_mode''
      else if num_lt lat (NInt 50) \<and> num_eq err (NInt 0) then Some ''conserve_resources''
      else None)"

definition evaluate_rules :: "control_plane \<Rightarrow> control_plane \<times> (exc + string option)" where
  "evaluate_rules s = (if length (metrics_history s) < 5 then (s, Inr None) else
     let recent = last_n 5 (metrics_history s) in
     attempt s (mean_of (List.map mt_latency recent)) (\<lambda>lat.
     attempt s (mean_of (List.map mt_errors recent)) (\<lambda>err.
     attempt s (mean_of (List.map mt_events recent)) (\<lambda>evs.
       then_call (detect_in ''latency'' lat s) (\<lambda>s la.
       then_call (detect_in ''errors'' err s) (\<lambda>s ea. (s, Inr (propose lat err evs la ea))))))))"

text \<open>\<open>action not in ALLOWED_ACTIONS\<close>: a list or dictionary cannot be hashed.\<close>

definition execute_action :: "pyval \<Rightarrow> control_plane \<Rightarrow> control_plane \<times> (exc + bool)" where
  "execute_action action s =
     (if is_list action \<or> is_dict action then (s, raise TypeError ''unhashable type'')
      else case action of
        PStr a \<Rightarrow> if a \<in> set allowed_proposals
          then (s\<lparr>last_action := Some a, last_action_status := ''SIMULATED_NOT_EXECUTED''\<rparr>, Inr False)
          else (s\<lparr>last_action := None, last_action_status := ''REJECTED_UNKNOWN_ACTION''\<rparr>, Inr False)
      | _ \<Rightarrow> (s\<lparr>last_action := None, last_action_status := ''REJECTED_UNKNOWN_ACTION''\<rparr>, Inr False))"

definition sample_host_metrics :: "psutil_probe \<Rightarrow> string \<Rightarrow> pyfloat \<Rightarrow> control_plane \<Rightarrow> control_plane \<times> pydict" where
  "sample_host_metrics pr now tick s = (let m = collect_host_metrics pr now tick in (s\<lparr>last_host_metrics := m\<rparr>, m))"

text \<open>One turn of the loop of \<open>run\<close>: the draws of latency, errors and events, and the clock\<close>

record draws =
  dr_latency :: pyfloat
  dr_errors :: int
  dr_events :: int
  dr_times :: "pyfloat \<times> pyfloat \<times> pyfloat \<times> pyfloat"

definition drawn_latency :: "draws \<Rightarrow> pyfloat" where
  "drawn_latency d = uniform 50 300 (dr_latency d)"

definition drawn_metrics :: "draws \<Rightarrow> pydict" where
  "drawn_metrics d = [(''errors'', PInt (dr_errors d)), (''latency'', PFloat (drawn_latency d)), (''events'', PInt (dr_events d))]"

definition sim_turn :: "draws \<Rightarrow> control_plane \<Rightarrow> control_plane \<times> (exc + string)" where
  "sim_turn d s = (case dr_times d of (t1, t2, t3, t4) \<Rightarrow>
     then_call (ingest_metric t1 t2 (PFloat (drawn_latency d)) (PInt (dr_errors d)) (PInt (dr_events d)) s) (\<lambda>s u.
     then_call (evaluate_rules s) (\<lambda>s action.
     then_call (case action of None \<Rightarrow> (s, Inr False) | Some a \<Rightarrow> execute_action (PStr a) s) (\<lambda>s b.
       (case adjust_strategy t3 t4 (drawn_metrics d) (feedback s) of (f, r) \<Rightarrow> (s\<lparr>feedback := f\<rparr>, r))))))"

fun sim_run :: "draws list \<Rightarrow> control_plane \<Rightarrow> control_plane \<times> (exc + string list)" where
  "sim_run [] s = (s, Inr [])"
| "sim_run (d # ds) s = then_call (sim_turn d s) (\<lambda>s st. then_call (sim_run ds s) (\<lambda>s sts. (s, Inr (st # sts))))"

section \<open>Nothing is executed, and every store but the strategy history is bounded\<close>

definition detector_ok :: "detector \<Rightarrow> bool" where
  "detector_ok d \<longleftrightarrow> window_size d = 20
     \<and> (\<forall>m. case windows d m of None \<Rightarrow> m \<notin> set metric_types | Some win \<Rightarrow> m \<in> set metric_types \<and> length win \<le> 20)"

definition feed_ok :: "feed \<Rightarrow> bool" where
  "feed_ok f \<longleftrightarrow> max_history f = 1000 \<and> length (history f) = min 1000 (events f) \<and> errors f \<le> events f
     \<and> (latency f = None \<longleftrightarrow> events f = 0)
     \<and> list_all (\<lambda>x. fisfinite (sm_latency x) \<and> fle (Fin 0) (sm_latency x)) (history f)"

definition metric_ok :: "plane_metric \<Rightarrow> bool" where
  "metric_ok m \<longleftrightarrow> mt_source m = ''SIMULATION''
     \<and> list_all (\<lambda>x. finite_value x \<and> num_le (NInt 0) x) [mt_latency m, mt_errors m, mt_events m]
     \<and> whole (mt_errors m) \<and> whole (mt_events m)"

definition action_ok :: "string option \<Rightarrow> string \<Rightarrow> bool" where
  "action_ok action status \<longleftrightarrow> (case action of
     Some a \<Rightarrow> a \<in> set allowed_proposals \<and> status = ''SIMULATED_NOT_EXECUTED''
   | None \<Rightarrow> status \<in> {''NO_ACTION'', ''REJECTED_UNKNOWN_ACTION''})"

definition strategies :: "string list" where
  "strategies = [''stable'', ''reduce_load'', ''scale_up'', ''conserve_resources'']"

text \<open>The strategy history is the changes: each entry differs from the one before, and the last is in force.\<close>

definition feedback_ok :: "feedback \<Rightarrow> bool" where
  "feedback_ok f \<longleftrightarrow> set (strategy f # List.map snd (strategy_history f)) \<subseteq> set strategies
     \<and> distinct_adj (''stable'' # List.map snd (strategy_history f))
     \<and> strategy f = last (''stable'' # List.map snd (strategy_history f))"

definition plane_ok :: "control_plane \<Rightarrow> bool" where
  "plane_ok s \<longleftrightarrow> detector_ok (detector s) \<and> feed_ok (feed s) \<and> feedback_ok (feedback s)
     \<and> length (metrics_history s) \<le> 100 \<and> list_all metric_ok (metrics_history s)
     \<and> metrics_mode s = ''SIMULATION'' \<and> action_ok (last_action s) (last_action_status s)"

datatype cp_event =
    Ingest pyfloat pyfloat pyval pyval pyval
  | Evaluate
  | Propose pyval
  | Sample_host psutil_probe string pyfloat
  | Adjust pyfloat pyfloat pydict
  | Turn draws

fun cp_step :: "cp_event \<Rightarrow> control_plane \<Rightarrow> control_plane" where
  "cp_step (Ingest t1 t2 l e n) s = fst (ingest_metric t1 t2 l e n s)"
| "cp_step Evaluate s = fst (evaluate_rules s)"
| "cp_step (Propose a) s = fst (execute_action a s)"
| "cp_step (Sample_host pr now tick) s = fst (sample_host_metrics pr now tick s)"
| "cp_step (Adjust t1 t2 m) s = s\<lparr>feedback := fst (adjust_strategy t1 t2 m (feedback s))\<rparr>"
| "cp_step (Turn d) s = fst (sim_turn d s)"

lemma then_call_inv: "P (fst r) \<Longrightarrow> (\<And>s x. P s \<Longrightarrow> P (fst (f s x))) \<Longrightarrow> P (fst (then_call r f))"
  by (cases "(r, f)" rule: then_call.cases) auto

lemma attempt_inv: "P s \<Longrightarrow> (\<And>x. r = Inr x \<Longrightarrow> P (fst (f x))) \<Longrightarrow> P (fst (attempt s r f))"
  by (cases r) auto

lemma detect_ok: "detector_ok d \<Longrightarrow> detector_ok (fst (detect d mt v))"
proof -
  assume ok: "detector_ok d"
  have "detector_ok (d\<lparr>windows := (windows d)(m \<mapsto> deque_append (window_size d) win c)\<rparr>)" if "windows d m = Some win" for m win c
    using ok that by (auto simp: detector_ok_def length_deque_append split: option.splits)
  then show ?thesis
    using ok by (auto simp: detect_def split: option.splits intro!: attempt_inv [where P = detector_ok])
qed

lemma record_event_ok: "feed_ok f \<Longrightarrow> feed_ok (fst (record_event now lat err f))"
proof -
  assume ok: "feed_ok f"
  have "feed_ok (f\<lparr>events := events f + 1, latency := Some v, errors := errors f + (if b then 1 else 0),
       history := deque_append (max_history f) (history f) \<lparr>sm_time = now, sm_latency = v, sm_error = b\<rparr>\<rparr>)"
    if "fisfinite v" "\<not> flt v (Fin 0)" for v b
  proof -
    have "fle (Fin 0) v" using that not_flt_fle [of v "Fin 0"] by (cases v) auto
    then show ?thesis
      using ok that set_deque_append [of "max_history f" "history f" "\<lparr>sm_time = now, sm_latency = v, sm_error = b\<rparr>"]
      by (auto simp: feed_ok_def length_deque_append list_all_iff)
  qed
  then show ?thesis
    using ok by (auto simp: record_event_def intro!: attempt_inv [where P = feed_ok] split: pyval.splits)
qed

lemma finite_metric_Inr: "finite_metric name v = Inr n \<Longrightarrow> finite_value n \<and> num_le (NInt 0) n"
proof -
  assume "finite_metric name v = Inr n"
  then have f: "py_isfinite n = Inr True" "\<not> num_lt n (NInt 0)"
    by (auto simp: finite_metric_def and_then_Inr split: option.splits if_splits)
  then obtain r where "num_val n = Fin r"
    by (cases n; cases "num_val n") (auto simp: py_isfinite_def)
  then show ?thesis using f by (auto simp: finite_value_def num_lt_def num_le_def fle_def)
qed

lemma record_event_result: "record_event now lat err f = (f', r) \<Longrightarrow> feed_ok f \<Longrightarrow> feed_ok f'"
  using record_event_ok [of f now lat err] by simp

lemma ingest_metric_ok: "plane_ok s \<Longrightarrow> plane_ok (fst (ingest_metric t1 t2 lat err evs s))"
  unfolding ingest_metric_def
  by (intro attempt_inv [where P = plane_ok])
    (auto simp: Let_def plane_ok_def metric_ok_def length_deque_append list_all_iff split: prod.splits
      dest!: finite_metric_Inr set_deque_append [THEN subsetD] record_event_result)

lemma evaluate_rules_ok: "plane_ok s \<Longrightarrow> plane_ok (fst (evaluate_rules s))"
proof -
  have detect: "plane_ok (fst (detect_in m x t))" if "plane_ok t" for m x t
    using that detect_ok [of "detector t" "PStr m" "num_pyval x"]
    by (auto simp: detect_in_def plane_ok_def split: prod.splits)
  assume "plane_ok s"
  then show ?thesis
    unfolding evaluate_rules_def Let_def
    by (auto intro!: attempt_inv [where P = plane_ok] then_call_inv [where P = plane_ok] detect)
qed

lemma execute_action_ok: "plane_ok s \<Longrightarrow> plane_ok (fst (execute_action a s))"
  by (cases a) (auto simp: execute_action_def plane_ok_def, auto simp: action_ok_def)

lemma choose_strategy_in: "choose_strategy m = Inr st \<Longrightarrow> st \<in> set strategies"
  by (auto simp: choose_strategy_def and_then_Inr strategies_def split: if_splits)

lemma feedback_change:
  assumes "feedback_ok f" and "new \<in> set strategies" and "new \<noteq> strategy f"
  shows "feedback_ok (f\<lparr>strategy := new, last_strategy_change := t1, strategy_history := strategy_history f @ [(t2, new)]\<rparr>)"
  using assms distinct_adj_append_iff [of "''stable'' # List.map snd (strategy_history f)" "[new]"]
    last_snoc [of "''stable'' # List.map snd (strategy_history f)" new]
  by (auto simp: feedback_ok_def simp del: last.simps last_snoc)

lemma adjust_strategy_ok: "feedback_ok f \<Longrightarrow> feedback_ok (fst (adjust_strategy t1 t2 m f))"
  unfolding adjust_strategy_def
  by (rule attempt_inv [where P = feedback_ok]) (auto intro: feedback_change dest: choose_strategy_in)

lemma plane_feedback: "plane_ok s \<Longrightarrow> plane_ok (s\<lparr>feedback := fst (adjust_strategy t1 t2 m (feedback s))\<rparr>)"
  using adjust_strategy_ok [of "feedback s"] by (auto simp: plane_ok_def)

lemma plane_adjust: "adjust_strategy t1 t2 m (feedback s) = (f, r) \<Longrightarrow> plane_ok s \<Longrightarrow> plane_ok (s\<lparr>feedback := f\<rparr>)"
  using plane_feedback [of s t1 t2 m] by simp

lemma sim_turn_ok: "plane_ok s \<Longrightarrow> plane_ok (fst (sim_turn d s))"
  unfolding sim_turn_def
  by (auto intro!: then_call_inv [where P = plane_ok] ingest_metric_ok evaluate_rules_ok execute_action_ok
      split: prod.splits option.splits dest: plane_adjust)

interpretation plane: machine cp_step plane_ok
proof
  fix s :: control_plane and e :: cp_event
  assume "plane_ok s"
  then show "plane_ok (cp_step e s)"
    by (cases e) (simp_all add: ingest_metric_ok evaluate_rules_ok execute_action_ok sim_turn_ok plane_feedback,
      auto simp: sample_host_metrics_def Let_def plane_ok_def)
qed

lemma finite_literal: "py_isfinite (NFloat (Fin r)) = Inr True"
  by (simp add: py_isfinite_def)

lemma new_control_plane_Inr:
  "new_control_plane t1 t2 = Inr
     \<lparr>detector = \<lparr>window_size = 20, z_threshold = NFloat (Fin (5 / 2)),
        windows = (\<lambda>m. if m \<in> set metric_types then Some [] else None)\<rparr>,
      feed = \<lparr>max_history = 1000, events = 0, errors = 0, latency = None, history = [], start_time = t1\<rparr>,
      feedback = new_feedback t2, metrics_history = [], last_action = None, last_action_status = ''NO_ACTION'',
      metrics_mode = ''SIMULATION'',
      last_host_metrics = [(''status'', PStr ''NO_DATA_AVAILABLE''), (''reason'', PStr ''not_sampled_yet'')]\<rparr>"
  by (simp add: new_control_plane_def new_detector_def new_feed_def finite_literal num_le_def fle_def)

lemma new_control_plane_ok: "new_control_plane t1 t2 = Inr s \<Longrightarrow> plane_ok s"
  unfolding new_control_plane_Inr
  by (auto simp: plane_ok_def detector_ok_def feed_ok_def action_ok_def feedback_ok_def new_feedback_def strategies_def)

text \<open>An event records at most one change of strategy.\<close>

definition changes :: "control_plane \<Rightarrow> nat" where
  "changes s = length (strategy_history (feedback s))"

lemma adjust_strategy_changes: "length (strategy_history (fst (adjust_strategy t1 t2 m f))) \<le> Suc (length (strategy_history f))"
  unfolding adjust_strategy_def
  by (rule attempt_inv [where P = "\<lambda>g. length (strategy_history g) \<le> Suc (length (strategy_history f))"]) auto

lemma adjust_result_changes: "adjust_strategy t1 t2 m (feedback s) = (f, r) \<Longrightarrow> length (strategy_history f) \<le> Suc (changes s)"
  using adjust_strategy_changes [of t1 t2 m "feedback s"] by (simp add: changes_def)

lemma ingest_metric_feedback: "feedback (fst (ingest_metric t1 t2 lat err evs s)) = feedback s"
  unfolding ingest_metric_def
  by (intro attempt_inv [where P = "\<lambda>t. feedback t = feedback s"]) (auto simp: Let_def split: prod.splits)

lemma evaluate_rules_feedback: "feedback (fst (evaluate_rules s)) = feedback s"
  unfolding evaluate_rules_def Let_def
  by (auto intro!: attempt_inv [where P = "\<lambda>t. feedback t = feedback s"] then_call_inv [where P = "\<lambda>t. feedback t = feedback s"]
      simp: detect_in_def split: prod.splits)

lemma execute_action_feedback: "feedback (fst (execute_action a s)) = feedback s"
  by (cases a) (auto simp: execute_action_def)

lemma sim_turn_changes: "changes (fst (sim_turn d s)) \<le> Suc (changes s)"
proof -
  obtain t1 t2 t3 t4 where d: "dr_times d = (t1, t2, t3, t4)" by (cases "dr_times d")
  let ?P = "\<lambda>t. feedback t = feedback s" and ?Q = "\<lambda>t. changes t \<le> Suc (changes s)"
  have weak: "?P t \<Longrightarrow> ?Q t" for t by (simp add: changes_def)
  obtain sa ra where a: "ingest_metric t1 t2 (PFloat (drawn_latency d)) (PInt (dr_errors d)) (PInt (dr_events d)) s = (sa, ra)" by fastforce
  obtain sb rb where b: "evaluate_rules sa = (sb, rb)" by fastforce
  define c where "c = (case rb of Inr (Some x) \<Rightarrow> execute_action (PStr x) sb | _ \<Rightarrow> (sb, Inr False))"
  have P: "?P sa" "?P sb" "?P (fst c)"
    using ingest_metric_feedback [of t1 t2 "PFloat (drawn_latency d)" "PInt (dr_errors d)" "PInt (dr_events d)" s]
      evaluate_rules_feedback [of sa] execute_action_feedback [of _ sb] a b
    by (auto simp: c_def split: sum.splits option.splits)
  obtain sc rc where c2: "c = (sc, rc)" by fastforce
  obtain f r where f: "adjust_strategy t3 t4 (drawn_metrics d) (feedback sc) = (f, r)" by fastforce
  have last: "length (strategy_history f) \<le> Suc (changes s)"
    using adjust_result_changes [OF f] P(3) c2 by (simp add: changes_def)
  show ?thesis
  proof (cases "\<exists>u v w. ra = Inr u \<and> rb = Inr v \<and> rc = Inr w")
    case True
    then have "fst (sim_turn d s) = sc\<lparr>feedback := f\<rparr>"
      using a b c2 f d unfolding sim_turn_def c_def by (auto split: option.splits)
    then show ?thesis using last by (simp add: changes_def)
  next
    case False
    then have "fst (sim_turn d s) \<in> {sa, sb, sc}"
      using a b c2 d unfolding sim_turn_def c_def by (cases ra; cases rb; cases rc) (auto split: option.splits)
    then show ?thesis using P c2 weak by auto
  qed
qed

lemma cp_step_changes: "changes (cp_step e s) \<le> Suc (changes s)"
proof (cases e)
  case (Adjust t1 t2 m)
  then show ?thesis using adjust_strategy_changes [of t1 t2 m "feedback s"] by (simp add: changes_def)
next
  case (Turn d)
  then show ?thesis by (simp add: sim_turn_changes)
qed (simp_all add: changes_def ingest_metric_feedback evaluate_rules_feedback execute_action_feedback sample_host_metrics_def Let_def)

lemma run_changes: "changes (fold cp_step es s) \<le> length es + changes s"
proof (induction es arbitrary: s)
  case (Cons e es)
  have "changes (fold cp_step es (cp_step e s)) \<le> length es + changes (cp_step e s)" by (rule Cons)
  then show ?case using cp_step_changes [of e s] by simp
qed simp

text \<open>Errors above and below the threshold in turn: the strategy changes at every event.\<close>

fun swing :: "nat \<Rightarrow> cp_event list" where
  "swing 0 = []"
| "swing (Suc n) = swing n @ [Adjust (Fin 0) (Fin 0) [(''errors'', PInt (if even n then 11 else 0)), (''events'', PInt 5)]]"

lemma swing_changes:
  assumes "strategy (feedback s) = ''stable''" and "changes s = 0"
  shows "length (swing n) = n \<and> changes (fold cp_step (swing n) s) = n
    \<and> strategy (feedback (fold cp_step (swing n) s)) = (if even n then ''stable'' else ''reduce_load'')"
proof (induction n)
  case (Suc n)
  have up: "choose_strategy [(''errors'', PInt 11), (''events'', PInt 5)] = Inr ''reduce_load''"
    and down: "choose_strategy [(''errors'', PInt 0), (''events'', PInt 5)] = Inr ''stable''"
    by (simp_all add: choose_strategy_def dget_or_def num_lt_def)
  show ?case using Suc up down by (auto simp: adjust_strategy_def changes_def)
qed (use assms in simp)


section \<open>Flat baselines\<close>

text \<open>
  After at least five equal values, exactly a different value is flagged; before, nothing is.
\<close>

lemma flat_deviates: "5 \<le> n \<Longrightarrow> wf_float (Fin x) \<Longrightarrow> deviates z (replicate n x) c = Inr (c \<noteq> x)"
proof -
  assume "5 \<le> n" "wf_float (Fin x)"
  then have "fmean (replicate n x) = Inr (Fin x)"
    unfolding fmean_def by (simp add: ratio_representable del: wf_float.simps)
  moreover have "fstdev (replicate n x) = Inr (Fin 0)"
    using ratio_bounded [of 0 1] wf_pow2 [of 0] by (simp add: fstdev_def sqrt_frac_def pow2_def)
  ultimately show ?thesis by (simp add: deviates_def)
qed

theorem flat_baseline_flags_any_change:
  assumes "wf_float (Fin x)" and "windows d m = Some (replicate n x)"
  shows "detect d (PStr m) (PFloat (Fin c)) =
    (d\<lparr>windows := (windows d)(m \<mapsto> deque_append (window_size d) (replicate n x) c)\<rparr>, Inr (5 \<le> n \<and> c \<noteq> x))"
  using assms by (simp add: detect_def candidate_of_def judge_value_def flat_deviates)

definition flat_detector :: detector where
  "flat_detector = \<lparr>window_size = 20, z_threshold = NInt 3, windows = (\<lambda>m. Some (replicate 6 1))\<rparr>"

theorem flat_baseline_flags_any_change_witness:
  "snd (detect flat_detector (PStr ''latency'') (PFloat (Fin 2))) = Inr True"
proof -
  have "wf_float (Fin 1)" using wf_pow2 [of 0] by (simp add: pow2_def)
  then show ?thesis
    using flat_baseline_flags_any_change [where x = 1 and d = flat_detector and m = "''latency''" and n = 6 and c = 2]
    by (simp add: flat_detector_def)
qed

section \<open>The simulation loop\<close>

definition draws_ok :: "draws \<Rightarrow> bool" where
  "draws_ok d \<longleftrightarrow> (case dr_latency d of Fin r \<Rightarrow> 0 \<le> r \<and> r < 1 | _ \<Rightarrow> False)
     \<and> 0 \<le> dr_errors d \<and> dr_errors d \<le> 10 \<and> 5 \<le> dr_events d \<and> dr_events d \<le> 100"

definition between :: "int \<Rightarrow> int \<Rightarrow> pynum \<Rightarrow> bool" where
  "between a b x \<longleftrightarrow> (case num_val x of Fin r \<Rightarrow> of_int a \<le> r \<and> r \<le> of_int b | _ \<Rightarrow> False)"

lemma rnd_between: "of_int a \<le> x \<Longrightarrow> x \<le> of_int b \<Longrightarrow> \<bar>a\<bar> < 2 ^ 53 \<Longrightarrow> \<bar>b\<bar> < 2 ^ 53 \<Longrightarrow>
    of_int a \<le> rnd x \<and> rnd x \<le> of_int b"
  using rnd_le_repr [of x "of_int b"] rnd_ge_repr [of "of_int a" x] by (simp add: rnd_small_int)

lemma to_pf_between: "of_int a \<le> x \<Longrightarrow> x \<le> of_int b \<Longrightarrow> \<bar>a\<bar> < 2 ^ 53 \<Longrightarrow> \<bar>b\<bar> < 2 ^ 53 \<Longrightarrow> to_pf x = Fin (rnd x)"
proof -
  assume a: "of_int a \<le> x" "x \<le> of_int b" "\<bar>a\<bar> < 2 ^ 53" "\<bar>b\<bar> < 2 ^ 53"
  have "\<bar>max \<bar>a\<bar> \<bar>b\<bar>\<bar> < 2 ^ 53" using a(3,4) by simp
  then have "wf_float (Fin (of_int (max \<bar>a\<bar> \<bar>b\<bar>)))"
    using wf_to_pf [of "of_int (max \<bar>a\<bar> \<bar>b\<bar>)"] to_pf_small_int by metis
  moreover have "\<bar>x\<bar> \<le> of_int (max \<bar>a\<bar> \<bar>b\<bar>)"
  proof -
    have "rat_of_int b \<le> of_int (max \<bar>a\<bar> \<bar>b\<bar>)" "rat_of_int (- a) \<le> of_int (max \<bar>a\<bar> \<bar>b\<bar>)"
      by (simp_all only: of_int_le_iff)
    then have "x \<le> of_int (max \<bar>a\<bar> \<bar>b\<bar>)" "- x \<le> of_int (max \<bar>a\<bar> \<bar>b\<bar>)"
      using a(1,2) unfolding of_int_minus by linarith+
    then show ?thesis by (rule abs_leI)
  qed
  ultimately show ?thesis by (intro to_pf_bounded)
qed

lemma ratio_between: "of_int a \<le> x \<Longrightarrow> x \<le> of_int b \<Longrightarrow> \<bar>a\<bar> < 2 ^ 53 \<Longrightarrow> \<bar>b\<bar> < 2 ^ 53 \<Longrightarrow> ratio x = Inr (Fin (rnd x))"
  by (simp add: ratio_def to_pf_between)

lemma mean_between:
  assumes "list_all (between a b) xs" and "xs \<noteq> []" and "\<bar>a\<bar> < 2 ^ 53" and "\<bar>b\<bar> < 2 ^ 53"
  shows "\<exists>y. mean_of xs = Inr y \<and> between a b y"
proof -
  define m where "m = mean_rat (List.map exact_val xs)"
  have vals: "of_int a \<le> exact_val x \<and> exact_val x \<le> of_int b \<and> finite_num x" if "between a b x" for x
    using that by (cases x rule: exact_val.cases) (auto simp: between_def finite_num_def)
  then have "list_all (\<lambda>r. of_int a \<le> r \<and> r \<le> of_int b) (List.map exact_val xs)" "list_all finite_num xs"
    using assms(1) by (auto simp: list_all_iff)
  then have m: "of_int a \<le> m" "m \<le> of_int b" and fin: "list_all finite_num xs"
    using mean_rat_bounds assms(2) by (auto simp: m_def)
  have mean: "mean_of xs = (if list_all is_nint xs \<and> m = of_int \<lfloor>m\<rfloor> then Inr (NInt \<lfloor>m\<rfloor>)
      else and_then (ratio m) (\<lambda>f. Inr (NFloat f)))"
    using fin by (simp add: mean_of_def Let_def m_def mean_rat_def)
  have "between a b (NFloat (Fin (rnd m)))" using rnd_between [OF m assms(3,4)] by (simp add: between_def)
  moreover have "between a b (NInt \<lfloor>m\<rfloor>)" if "m = of_int \<lfloor>m\<rfloor>"
    using m that by (simp add: between_def)
  ultimately show ?thesis
    using ratio_between [OF m assms(3,4)] by (simp add: mean)
qed


definition window_between :: "int \<Rightarrow> int \<Rightarrow> rat list option \<Rightarrow> bool" where
  "window_between a b w \<longleftrightarrow> (case w of Some win \<Rightarrow> list_all (\<lambda>r. of_int a \<le> r \<and> r \<le> of_int b) win | None \<Rightarrow> False)"

lemma candidate_between:
  assumes "between a b y" and "\<bar>a\<bar> < 2 ^ 53" and "\<bar>b\<bar> < 2 ^ 53"
  shows "\<exists>c. candidate_of (num_pyval y) = Inr (Some c) \<and> of_int a \<le> c \<and> c \<le> of_int b"
proof (cases y)
  case (NInt i)
  then have i: "a \<le> i" "i \<le> b" using assms(1) by (simp_all add: between_def)
  then have "\<bar>i\<bar> < 2 ^ 53" using assms(2,3) by linarith
  then have "py_float (NInt i) = Inr (Fin (of_int i))" by (rule py_float_small)
  then show ?thesis using i by (simp add: NInt candidate_of_def num_pyval_def del: py_float.simps)
next
  case (NFloat f)
  then obtain r where "f = Fin r" "of_int a \<le> r" "r \<le> of_int b"
    using assms(1) by (cases f) (auto simp: between_def)
  then show ?thesis by (simp add: NFloat candidate_of_def num_pyval_def)
qed

lemma judge_between:
  assumes "list_all (\<lambda>r. of_int a \<le> r \<and> r \<le> of_int b) win" and "\<bar>a\<bar> < 2 ^ 53" and "\<bar>b\<bar> < 2 ^ 53"
    and "(b - a) * (b - a) \<le> 2 ^ 20"
  shows "\<exists>v. judge_value z win c = Inr v"
proof (cases "5 \<le> length win")
  case True
  then have ne: "win \<noteq> []" by auto
  have "fmean win = Inr (Fin (rnd (mean_rat win)))"
    using mean_rat_bounds [OF assms(1) ne] assms(2,3) by (auto simp: fmean_def intro: ratio_between)
  moreover have "rat_of_int ((b - a) * (b - a)) \<le> of_int (2 ^ 20)" using assms(4) by (simp only: of_int_le_iff)
  then have "(rat_of_int b - of_int a) * (of_int b - of_int a) \<le> pow2 20" by (simp add: pow2_def)
  then have "\<exists>r. fstdev win = Inr (Fin r) \<and> 0 \<le> r" using assms(1) True by (intro fstdev_returns) simp_all
  ultimately show ?thesis using True by (auto simp: judge_value_def deviates_def)
qed (auto simp: judge_value_def)

text \<open>A detection inside the bounds returns, and keeps the window inside them.\<close>

lemma detect_in_between:
  assumes "between a b y" and "window_between a b (windows (detector s) m)" and "\<bar>a\<bar> < 2 ^ 53" and "\<bar>b\<bar> < 2 ^ 53"
    and "(b - a) * (b - a) \<le> 2 ^ 20"
  shows "\<exists>w v. detect_in m y s = (s\<lparr>detector := (detector s)\<lparr>windows := (windows (detector s))(m := w)\<rparr>\<rparr>, Inr v)
    \<and> window_between a b w"
proof -
  obtain c where c: "candidate_of (num_pyval y) = Inr (Some c)" "of_int a \<le> c" "c \<le> of_int b"
    using candidate_between [OF assms(1,3,4)] by blast
  obtain win where win: "windows (detector s) m = Some win" "list_all (\<lambda>r. of_int a \<le> r \<and> r \<le> of_int b) win"
    using assms(2) by (auto simp: window_between_def split: option.splits)
  obtain v where v: "judge_value (z_threshold (detector s)) win c = Inr v"
    using judge_between [OF win(2) assms(3,4,5)] by blast
  have "window_between a b (Some (deque_append (window_size (detector s)) win c))"
    using win(2) c(2,3) set_deque_append [of "window_size (detector s)" win c]
    by (auto simp: window_between_def list_all_iff)
  then show ?thesis by (auto simp: detect_in_def detect_def c v win(1))
qed

text \<open>What holds of a plane that has only been fed by the loop\<close>

definition drawn_metric :: "plane_metric \<Rightarrow> bool" where
  "drawn_metric m \<longleftrightarrow> between 50 300 (mt_latency m) \<and> between 0 10 (mt_errors m) \<and> between 5 100 (mt_events m)"

definition simulated :: "control_plane \<Rightarrow> bool" where
  "simulated s \<longleftrightarrow> list_all drawn_metric (metrics_history s)
     \<and> window_between 50 300 (windows (detector s) ''latency'') \<and> window_between 0 10 (windows (detector s) ''errors'')
     \<and> strategy (feedback s) = ''stable'' \<and> strategy_history (feedback s) = []
     \<and> last_action s \<noteq> Some ''conserve_resources''"

lemma drawn_latency_between: "draws_ok d \<Longrightarrow> \<exists>r. drawn_latency d = Fin r \<and> 50 \<le> r \<and> r \<le> 300"
proof -
  assume "draws_ok d"
  then obtain u where u: "dr_latency d = Fin u" "0 \<le> u" "u < 1" by (auto simp: draws_ok_def split: pyfloat.splits)
  have p: "to_pf (250 * u) = Fin (rnd (250 * u))" using u to_pf_between [of 0 "250 * u" 250] by simp
  have b: "0 \<le> rnd (250 * u)" "rnd (250 * u) \<le> 250" using u rnd_between [of 0 "250 * u" 250] by simp_all
  then have "to_pf (50 + rnd (250 * u)) = Fin (rnd (50 + rnd (250 * u)))"
    using to_pf_between [of 50 "50 + rnd (250 * u)" 300] by simp
  moreover have "50 \<le> rnd (50 + rnd (250 * u))" "rnd (50 + rnd (250 * u)) \<le> 300"
    using b rnd_between [of 50 "50 + rnd (250 * u)" 300] by simp_all
  ultimately show ?thesis using u p by (simp add: drawn_latency_def uniform_def)
qed

lemma ingest_simulated:
  assumes "simulated s" and "draws_ok d"
  shows "\<exists>t. ingest_metric t1 t2 (PFloat (drawn_latency d)) (PInt (dr_errors d)) (PInt (dr_events d)) s = (t, Inr ())
    \<and> simulated t \<and> metrics_history t \<noteq> []"
proof -
  obtain r where r: "drawn_latency d = Fin r" "50 \<le> r" "r \<le> 300" using drawn_latency_between [OF assms(2)] by blast
  have ranges: "0 \<le> dr_errors d" "dr_errors d \<le> 10" "5 \<le> dr_events d" "dr_events d \<le> 100"
    using assms(2) by (simp_all add: draws_ok_def)
  have lat: "finite_metric ''latency'' (PFloat (drawn_latency d)) = Inr (NFloat (Fin r))"
    using r by (simp add: finite_metric_def finite_literal num_lt_def)
  have ints: "finite_metric nm (PInt i) = Inr (NInt i) \<and> whole (NInt i)" if "0 \<le> i" "i \<le> 100" for i nm
  proof -
    have "py_float (NInt i) = Inr (Fin (of_int i))" using that by (intro py_float_small) simp
    then show ?thesis using that by (simp add: finite_metric_def py_isfinite_def whole_def del: py_float.simps)
  qed
  let ?m = "\<lparr>mt_time = t1, mt_latency = NFloat (Fin r), mt_errors = NInt (dr_errors d), mt_events = NInt (dr_events d),
     mt_source = metrics_mode s\<rparr>"
  have "drawn_metric ?m" using r ranges by (simp add: drawn_metric_def between_def)
  then have "list_all drawn_metric (deque_append 100 (metrics_history s) ?m)"
    using assms(1) set_deque_append [of 100 "metrics_history s" ?m] by (auto simp: simulated_def list_all_iff)
  moreover have "deque_append 100 (metrics_history s) ?m \<noteq> []" by (metis length_0_conv length_deque_append min_0_1(1) min_def numeral_eq_Suc old.nat.distinct(1))
  ultimately show ?thesis
    using assms(1) lat ints [of "dr_errors d"] ints [of "dr_events d"] ranges r
    by (simp add: ingest_metric_def record_event_def simulated_def Let_def)
qed


lemma evaluate_simulated:
  assumes "simulated s" and "metrics_history s \<noteq> []"
  shows "\<exists>t a. evaluate_rules s = (t, Inr a) \<and> simulated t
    \<and> (case a of None \<Rightarrow> True | Some p \<Rightarrow> p \<in> set allowed_proposals \<and> p \<noteq> ''conserve_resources'')"
proof (cases "length (metrics_history s) < 5")
  case False
  define recent where "recent = last_n 5 (metrics_history s)"
  have "list_all drawn_metric recent" "recent \<noteq> []"
    using assms set_last_n [of 5 "metrics_history s"] False
    by (auto simp: simulated_def list_all_iff recent_def last_n_def)
  then have bounds: "list_all (between 50 300) (List.map mt_latency recent)" "list_all (between 0 10) (List.map mt_errors recent)"
    "list_all (between 5 100) (List.map mt_events recent)" and ne: "recent \<noteq> []"
    by (auto simp: list_all_iff drawn_metric_def)
  obtain lat err evs where m: "mean_of (List.map mt_latency recent) = Inr lat" "between 50 300 lat"
    "mean_of (List.map mt_errors recent) = Inr err" "between 0 10 err" "mean_of (List.map mt_events recent) = Inr evs"
    using mean_between [OF bounds(1)] mean_between [OF bounds(2)] mean_between [OF bounds(3)] ne by auto
  have w: "window_between 50 300 (windows (detector s) ''latency'')" "window_between 0 10 (windows (detector s) ''errors'')"
    using assms(1) by (simp_all add: simulated_def)
  obtain w1 la where d1: "detect_in ''latency'' lat s
        = (s\<lparr>detector := (detector s)\<lparr>windows := (windows (detector s))(''latency'' := w1)\<rparr>\<rparr>, Inr la)" "window_between 50 300 w1"
    using detect_in_between [OF m(2) w(1)] by auto
  define t where "t = s\<lparr>detector := (detector s)\<lparr>windows := (windows (detector s))(''latency'' := w1)\<rparr>\<rparr>"
  have w2: "window_between 0 10 (windows (detector t) ''errors'')" using w(2) by (simp add: t_def)
  obtain w2 ea where d2: "detect_in ''errors'' err t
        = (t\<lparr>detector := (detector t)\<lparr>windows := (windows (detector t))(''errors'' := w2)\<rparr>\<rparr>, Inr ea)" "window_between 0 10 w2"
    using detect_in_between [OF m(4) w2] by auto
  define u where "u = t\<lparr>detector := (detector t)\<lparr>windows := (windows (detector t))(''errors'' := w2)\<rparr>\<rparr>"
  have eval: "evaluate_rules s = (u, Inr (propose lat err evs la ea))"
    using False m d1(1) d2(1) by (simp add: evaluate_rules_def Let_def recent_def [symmetric] t_def [symmetric] u_def [symmetric])
  have "simulated u" using assms(1) d1(2) d2(2) by (simp add: simulated_def u_def t_def)
  moreover have "\<not> num_lt lat (NInt 50)"
    using m(2) by (cases "num_val lat") (auto simp: between_def num_lt_def)
  ultimately show ?thesis using eval by (auto simp: propose_def allowed_proposals_def)
qed (simp add: evaluate_rules_def assms)

lemma sim_turn_simulated:
  assumes "simulated s" and "draws_ok d"
  shows "\<exists>t. sim_turn d s = (t, Inr ''stable'') \<and> simulated t"
proof -
  obtain t1 t2 t3 t4 where times: "dr_times d = (t1, t2, t3, t4)" by (cases "dr_times d") blast
  obtain s1 where s1: "ingest_metric t1 t2 (PFloat (drawn_latency d)) (PInt (dr_errors d)) (PInt (dr_events d)) s = (s1, Inr ())"
      "simulated s1" "metrics_history s1 \<noteq> []"
    using ingest_simulated [OF assms] by blast
  obtain s2 a where s2: "evaluate_rules s1 = (s2, Inr a)" "simulated s2"
      "case a of None \<Rightarrow> True | Some p \<Rightarrow> p \<in> set allowed_proposals \<and> p \<noteq> ''conserve_resources''"
    using evaluate_simulated [OF s1(2,3)] by blast
  obtain s3 b where s3: "(case a of None \<Rightarrow> (s2, Inr False) | Some p \<Rightarrow> execute_action (PStr p) s2) = (s3, Inr b)" "simulated s3"
    using s2(2,3) by (cases a) (auto simp: execute_action_def simulated_def)
  obtain r where r: "drawn_latency d = Fin r" "50 \<le> r" "r \<le> 300" using drawn_latency_between [OF assms(2)] by blast
  have "choose_strategy (drawn_metrics d) = Inr ''stable''"
    using r assms(2) by (simp add: choose_strategy_def drawn_metrics_def dget_or_def num_lt_def draws_ok_def)
  moreover have "strategy (feedback s3) = ''stable''" using s3(2) by (simp add: simulated_def)
  ultimately have "adjust_strategy t3 t4 (drawn_metrics d) (feedback s3) = (feedback s3, Inr ''stable'')"
    by (simp add: adjust_strategy_def)
  then show ?thesis using s1(1) s2(1) s3 by (simp add: sim_turn_def times simulated_def)
qed

lemma sim_run_simulated:
  "list_all draws_ok ds \<Longrightarrow> simulated s \<Longrightarrow> \<exists>t. sim_run ds s = (t, Inr (replicate (length ds) ''stable'')) \<and> simulated t"
proof (induction ds arbitrary: s)
  case (Cons d ds)
  then obtain t where t: "sim_turn d s = (t, Inr ''stable'')" "simulated t"
    using sim_turn_simulated [of s d] by auto
  then show ?case using Cons.IH [OF _ t(2)] Cons.prems by auto
qed simp

text \<open>
  The simulation loop never raises, for any length and any draws within the ranges of the random
  module: no mean, deviation or comparison overflows. In it the strategy is always \<open>stable\<close> and the
  proposal \<open>conserve_resources\<close> is never made: both need values that are never drawn.
\<close>

theorem simulation_never_raises:
  assumes "list_all draws_ok ds"
  shows "case new_control_plane now start of Inl e \<Rightarrow> False | Inr s \<Rightarrow>
    (case sim_run ds s of (t, Inl e) \<Rightarrow> False
     | (t, Inr out) \<Rightarrow> out = replicate (length ds) ''stable'' \<and> strategy_history (feedback t) = []
         \<and> last_action t \<noteq> Some ''conserve_resources'')"
proof -
  obtain s where s: "new_control_plane now start = Inr s" using new_control_plane_Inr by blast
  then have "simulated s"
    unfolding new_control_plane_Inr by (auto simp: simulated_def window_between_def metric_types_def new_feedback_def)
  then show ?thesis using sim_run_simulated [OF assms] s by (fastforce simp: simulated_def)
qed

definition sample_draws :: "draws list" where
  "sample_draws = replicate 7 \<lparr>dr_latency = Fin (1 / 2), dr_errors = 3, dr_events = 5, dr_times = (Fin 0, Fin 0, Fin 0, Fin 0)\<rparr>"

theorem simulation_never_raises_witness:
  "\<exists>t. (case new_control_plane (Fin 0) (Fin 0) of Inl e \<Rightarrow> False | Inr s \<Rightarrow> sim_run sample_draws s = (t, Inr (replicate 7 ''stable'')))"
proof -
  have "list_all draws_ok sample_draws" "length sample_draws = 7"
    by (simp_all add: sample_draws_def draws_ok_def list_all_iff)
  then show ?thesis
    using simulation_never_raises [where ds = sample_draws and now = "Fin 0" and start = "Fin 0"]
    by (cases "new_control_plane (Fin 0) (Fin 0)") (auto split: prod.splits sum.splits)
qed

section \<open>Host metrics and the optimisation score\<close>

definition valid_probe :: "psutil_probe \<Rightarrow> bool" where
  "valid_probe pr = (case pr of
     PsutilGives c t a u \<Rightarrow> (case (as_num c, as_num t, as_num a, as_num u) of
       (Some cpu, Some tot, Some avail, Some used) \<Rightarrow>
         list_all finite_value [cpu, tot, avail, used] \<and> telemetry_ok cpu tot avail used
     | _ \<Rightarrow> False)
   | _ \<Rightarrow> False)"

definition percent_value :: "pyval \<Rightarrow> bool" where
  "percent_value v = (case v of PFloat f \<Rightarrow> fle (Fin 0) f \<and> fle f (Fin 100) | _ \<Rightarrow> False)"

definition memory_values :: "pyval \<Rightarrow> pyval \<Rightarrow> bool" where
  "memory_values t a = (case (t, a) of (PInt tot, PInt avail) \<Rightarrow> 0 \<le> avail \<and> avail \<le> tot | _ \<Rightarrow> False)"

lemma percent_float: "finite_value x \<Longrightarrow> num_le (NInt 0) x \<Longrightarrow> num_le x (NInt 100) \<Longrightarrow> percent_value (float_val x)"
proof (cases x)
  case (NInt i)
  assume "num_le (NInt 0) x" "num_le x (NInt 100)"
  then have i: "0 \<le> i" "i \<le> 100" by (simp_all add: NInt)
  then have "py_float (NInt i) = Inr (Fin (of_int i))" by (intro py_float_small) simp
  then show ?thesis using i
    by (simp add: NInt percent_value_def float_val_def fle_def order_le_less del: py_float.simps)
next
  case (NFloat f)
  assume "num_le (NInt 0) x" "num_le x (NInt 100)"
  then show ?thesis by (simp add: NFloat percent_value_def float_val_def num_le_def)
qed

lemma trunc_mono: "0 \<le> a \<Longrightarrow> a \<le> b \<Longrightarrow> trunc a \<le> trunc b"
  by (simp add: trunc_def floor_mono)

lemma finite_int_val: "finite_value x \<Longrightarrow> num_le (NInt 0) x \<Longrightarrow> \<exists>r. num_val x = Fin r \<and> 0 \<le> r \<and> int_val x = PInt (trunc r)"
proof (cases x)
  case (NInt i)
  assume "num_le (NInt 0) x"
  then show ?thesis by (simp add: NInt int_val_def trunc_def)
next
  case (NFloat f)
  assume "finite_value x" "num_le (NInt 0) x"
  then show ?thesis by (cases f) (auto simp: NFloat int_val_def finite_value_def py_isfinite_def num_le_def fle_def)
qed

text \<open>
  A host reading is reported exactly when all four values are finite numbers within bounds; then the
  percentages reported are floats from 0 to 100 and the memory sizes integers in order. Otherwise the
  status says that there is no data, and no value is reported.
\<close>

theorem host_metrics_only_when_valid:
  "let m = collect_host_metrics pr now tick in
   if valid_probe pr
   then dget m ''status'' = PStr ''DATA_AVAILABLE'' \<and> percent_value (dget m ''cpu_percent'')
     \<and> percent_value (dget m ''memory_used_percent'')
     \<and> memory_values (dget m ''memory_total_bytes'') (dget m ''memory_available_bytes'')
   else dget m ''status'' = PStr ''NO_DATA_AVAILABLE'' \<and> dkeys m = [''status'', ''reason'', ''source'', ''timestamp_utc'']"
proof (cases "valid_probe pr")
  case True
  then obtain c t a u cpu tot avail used where pr: "pr = PsutilGives c t a u"
    and nums: "as_num c = Some cpu" "as_num t = Some tot" "as_num a = Some avail" "as_num u = Some used"
    and fin: "finite_value cpu" "finite_value tot" "finite_value avail" "finite_value used"
    and ok: "telemetry_ok cpu tot avail used"
    by (auto simp: valid_probe_def split: psutil_probe.splits option.splits)
  obtain p q where pq: "num_val avail = Fin p" "0 \<le> p" "int_val avail = PInt (trunc p)"
      "num_val tot = Fin q" "int_val tot = PInt (trunc q)"
    using finite_int_val [OF fin(3)] finite_int_val [OF fin(2)] ok
    by (auto simp: telemetry_ok_def num_lt_def num_le_def fle_def)
  then have "p \<le> q" using ok by (auto simp: telemetry_ok_def num_le_def fle_def)
  then have "memory_values (int_val tot) (int_val avail)"
    using pq trunc_mono [of p q] trunc_mono [of 0 p] by (simp add: memory_values_def trunc_def)
  moreover have "percent_value (float_val cpu)" "percent_value (float_val used)"
    using ok fin by (auto simp: telemetry_ok_def intro!: percent_float)
  ultimately show ?thesis
    using True fin ok nums by (simp add: pr Let_def collect_host_metrics_def)
next
  case False
  then show ?thesis
    by (auto simp: valid_probe_def collect_host_metrics_def no_data_def dkeys_def split: psutil_probe.splits option.splits)
qed

lemma score_sign: "flt (optimization_score f) (Fin 0) \<longleftrightarrow> action_count f \<noteq> 0 \<and> 100 < length (strategy_history f)"
proof -
  define x :: rat where "x = (100 - of_nat (length (strategy_history f))) / 100"
  have neg: "flt (to_pf x) (Fin 0)" if "100 < length (strategy_history f)"
  proof -
    have "rat_of_nat 101 \<le> of_nat (length (strategy_history f))" using that by (simp only: of_nat_le_iff)
    then have "x \<le> - (1 / 128)" by (simp add: x_def)
    moreover have "rnd (- (1 / 128)) = - (1 / 128)"
      by (rule rnd_representable, unfold representable_def, rule exI [of _ "-1"], rule exI [of _ "-7"]) (simp add: pow2_def)
    ultimately have "rnd x \<le> - (1 / 128)" by (rule rnd_le_repr)
    then show ?thesis by (simp add: to_pf_def Let_def f_limit_def)
  qed
  have pos: "\<not> flt (to_pf x) (Fin 0)" if "\<not> 100 < length (strategy_history f)"
  proof -
    have "rat_of_nat (length (strategy_history f)) \<le> of_nat 100" using that by (simp only: of_nat_le_iff)
    then have "0 \<le> x" by (simp add: x_def)
    then have "0 \<le> rnd x" by (rule rnd_nonneg)
    then show ?thesis by (auto simp: to_pf_def Let_def f_limit_def)
  qed
  show ?thesis
    unfolding optimization_score_def x_def [symmetric] fmin_def
    using neg pos flt_trans [of "to_pf x" "Fin 0" "Fin 1"] by (cases "100 < length (strategy_history f)") auto
qed

end
