(* ===== verification/Evidence.thy ===== *)
theory Evidence
  imports PyStats ModelRuns
begin

text \<open>
  The checkers of written evidence: the release gate (\<open>controller/legacy_gate.py\<close>), status entries
  (\<open>v91_state_check.py\<close>), the guideline digest (\<open>v91_guideline_hash.py\<close>), isolated timings
  (\<open>controller/self_study_metrics.py\<close>) and the shipped service definitions (\<open>v99/os/services.py\<close>).
  Shown: exactly which records pass each of them, and that none reports more than it was given.
\<close>

section \<open>Release gate\<close>

definition required_questions :: "string list" where
  "required_questions = [''q1'', ''q2'', ''q3'', ''q4'', ''q5'', ''q6'', ''q7'']"

definition required_record :: "string list" where
  "required_record = [''change_id'', ''scope'', ''owner'', ''authorized'', ''irreversible'', ''baseline'', ''evidence'',
     ''legal_review'', ''safety_review'', ''tests'', ''rollback'', ''seven_questions'']"

definition missing_keys :: "pydict \<Rightarrow> string list \<Rightarrow> string list" where
  "missing_keys d ks = List.filter (\<lambda>k. \<not> dhas d k) ks"

definition str_list :: "string list \<Rightarrow> pyval" where
  "str_list ss = PList (List.map PStr ss)"

definition gate_answer :: "string \<Rightarrow> string \<Rightarrow> pydict" where
  "gate_answer decision reason = [(''decision'', PStr decision), (''reason'', PStr reason)]"

definition gate_list :: "string \<Rightarrow> string \<Rightarrow> string \<Rightarrow> string list \<Rightarrow> pydict" where
  "gate_list decision reason key names = gate_answer decision reason @ [(key, str_list names)]"

text \<open>\<open>isinstance(v, dict) and v.get(k) is True\<close>\<close>

definition flag_set :: "pyval \<Rightarrow> string \<Rightarrow> bool" where
  "flag_set v k \<longleftrightarrow> get_in v k = PBool True"

definition judge_questions :: "pydict \<Rightarrow> pydict" where
  "judge_questions questions = (let bad = List.filter (\<lambda>q. dget questions q \<noteq> PBool True) required_questions in
     if bad \<noteq> [] then gate_list ''NEEDS_REFORM'' ''QUESTION_FAILED'' ''failed_questions'' bad
     else gate_answer ''READY'' ''AUTHORIZED_CHANGE_ALLOWED'')"

definition judge_reviews :: "pydict \<Rightarrow> pydict \<Rightarrow> pydict" where
  "judge_reviews rec questions =
     (if dget rec ''authorized'' \<noteq> PBool True then gate_answer ''REJECTED'' ''UNAUTHORIZED''
      else if \<not> flag_set (dget rec ''tests'') ''regression_ok'' then gate_answer ''BLOCKED'' ''REGRESSION_NOT_PROVEN''
      else if \<not> flag_set (dget rec ''legal_review'') ''approved'' then gate_answer ''BLOCKED'' ''LEGAL_REVIEW_MISSING''
      else if \<not> flag_set (dget rec ''safety_review'') ''approved'' then gate_answer ''BLOCKED'' ''SAFETY_REVIEW_MISSING''
      else if \<not> flag_set (dget rec ''rollback'') ''documented'' then gate_answer ''BLOCKED'' ''ROLLBACK_MISSING''
      else if dget rec ''irreversible'' = PBool True \<and> \<not> flag_set (dget rec ''safety_review'') ''independent_review''
      then gate_answer ''BLOCKED'' ''INDEPENDENT_REVIEW_REQUIRED''
      else judge_questions questions)"

definition evaluate_record :: "pydict \<Rightarrow> pydict" where
  "evaluate_record rec = (let absent = missing_keys rec required_record in
     if absent \<noteq> [] then gate_list ''UNKNOWN'' ''MISSING_FIELDS'' ''missing_fields'' absent
     else case dget rec ''seven_questions'' of
       PDict questions \<Rightarrow> (let open_qs = missing_keys questions required_questions in
         if open_qs \<noteq> [] then gate_list ''UNKNOWN'' ''MISSING_QUESTIONS'' ''missing_fields'' open_qs
         else judge_reviews rec questions)
     | _ \<Rightarrow> gate_list ''UNKNOWN'' ''INVALID_QUESTIONS'' ''missing_fields'' required_questions)"

text \<open>\<open>load_record\<close>: what opening and \<open>json.load\<close> gave\<close>

definition load_record :: "exc + pyval \<Rightarrow> exc + pydict" where
  "load_record f = and_then f (\<lambda>v. case v of PDict d \<Rightarrow> Inr d | _ \<Rightarrow> raise ValueError ''record must be a JSON object'')"

definition record_complete :: "pydict \<Rightarrow> bool" where
  "record_complete rec \<longleftrightarrow> list_all (dhas rec) required_record \<and> is_dict (dget rec ''seven_questions'')
     \<and> (case dget rec ''seven_questions'' of PDict q \<Rightarrow> list_all (dhas q) required_questions | _ \<Rightarrow> False)"

text \<open>Tests, reviews and rollback affirmed with \<open>True\<close> itself, and a change marked irreversible with \<open>True\<close> itself reviewed independently\<close>

definition safeguards_affirmed :: "pydict \<Rightarrow> bool" where
  "safeguards_affirmed rec \<longleftrightarrow>
     flag_set (dget rec ''tests'') ''regression_ok'' \<and> flag_set (dget rec ''legal_review'') ''approved''
     \<and> flag_set (dget rec ''safety_review'') ''approved'' \<and> flag_set (dget rec ''rollback'') ''documented''
     \<and> (dget rec ''irreversible'' \<noteq> PBool True \<or> flag_set (dget rec ''safety_review'') ''independent_review'')"

definition questions_affirmed :: "pydict \<Rightarrow> bool" where
  "questions_affirmed rec \<longleftrightarrow> list_all (flag_set (dget rec ''seven_questions'')) required_questions"

lemma missing_none: "missing_keys d ks = [] \<longleftrightarrow> list_all (dhas d) ks"
  by (simp add: missing_keys_def filter_empty_conv list_all_iff)

lemma gate_answers [simp]:
  "dget (gate_answer a b) ''decision'' = PStr a" "dget (gate_list a b k ns) ''decision'' = PStr a"
  by (simp_all add: gate_answer_def gate_list_def)

lemma judge_questions_decision:
  "dget (judge_questions q) ''decision'' =
     PStr (if list_all (\<lambda>k. dget q k = PBool True) required_questions then ''READY'' else ''NEEDS_REFORM'')"
  by (simp add: judge_questions_def Let_def filter_empty_conv list_all_iff)

lemma complete_judged:
  assumes "record_complete rec" and "dget rec ''seven_questions'' = PDict q"
  shows "evaluate_record rec = judge_reviews rec q"
  using assms by (simp add: evaluate_record_def Let_def missing_none record_complete_def)

text \<open>The gate does not look at what the baseline and the evidence say.\<close>

lemma unread_fields:
  assumes "record_complete rec"
  shows "evaluate_record (dset ''evidence'' y (dset ''baseline'' x rec)) = evaluate_record rec"
proof -
  let ?rec = "dset ''evidence'' y (dset ''baseline'' x rec)"
  obtain q where q: "dget rec ''seven_questions'' = PDict q" using assms by (auto simp: record_complete_def elim: is_dict.elims)
  have same: "dget ?rec k = dget rec k" if "k \<noteq> ''baseline''" "k \<noteq> ''evidence''" for k
    using that by (simp add: dget_dset)
  have "dhas ?rec k" if "dhas rec k" for k using that by (simp add: dhas_dset)
  then have "record_complete ?rec" using assms by (auto simp: record_complete_def list_all_iff same)
  then show ?thesis
    using complete_judged [OF assms q] complete_judged [of ?rec q] q by (simp add: same judge_reviews_def)
qed


text \<open>
  The document asks for a documented baseline and evidence before a release, and for an independent review of every
  irreversible step. This record has neither and is READY.
\<close>

definition bare_record :: pydict where
  "bare_record = [(''change_id'', PNone), (''scope'', PNone), (''owner'', PNone), (''authorized'', PBool True),
     (''irreversible'', PStr ''yes''), (''baseline'', PNone), (''evidence'', PNone),
     (''legal_review'', PDict [(''approved'', PBool True)]), (''safety_review'', PDict [(''approved'', PBool True)]),
     (''tests'', PDict [(''regression_ok'', PBool True)]), (''rollback'', PDict [(''documented'', PBool True)]),
     (''seven_questions'', PDict (List.map (\<lambda>k. (k, PBool True)) required_questions))]"

lemma ready_without_evidence: "evaluate_record bare_record = gate_answer ''READY'' ''AUTHORIZED_CHANGE_ALLOWED''"
  by (simp add: evaluate_record_def missing_keys_def required_record_def required_questions_def bare_record_def
      judge_reviews_def judge_questions_def flag_set_def)

section \<open>Status entries\<close>

definition allowed_states :: "string list" where
  "allowed_states = [''UNBEKANNT'', ''DOKUMENTIERT'', ''IMPLEMENTIERT'', ''VERIFIZIERT'', ''PRODUKTIV'']"

definition proven_states :: "string list" where
  "proven_states = [''VERIFIZIERT'', ''PRODUKTIV'']"

definition all_strings :: "pyval \<Rightarrow> string list \<Rightarrow> bool" where
  "all_strings v ks \<longleftrightarrow> is_dict v \<and> list_all (\<lambda>k. nonblank_str (get_in v k)) ks"

definition anchor_fields :: "string list" where
  "anchor_fields = [''provider'', ''reference'', ''verification_method'']"

definition measurement_fields :: "string list" where
  "measurement_fields = [''metric'', ''value'', ''unit'', ''source'', ''timestamp_utc'']"

definition state_errors :: "runtime \<Rightarrow> pydict \<Rightarrow> string list" where
  "state_errors R entry = (let state = dget entry ''state'' in
     (case state of PStr st \<Rightarrow> if st \<in> set allowed_states then [] else [''invalid state: '' @ py_repr R state]
      | _ \<Rightarrow> [''invalid state: '' @ py_repr R state])
     @ (case state of PStr st \<Rightarrow>
          if st \<in> set proven_states \<and> \<not> nonblank_str (dget entry ''evidence_log_id'')
          then [st @ '' requires a non-empty evidence_log_id''] else []
        | _ \<Rightarrow> []))"

definition anchor_errors :: "pydict \<Rightarrow> string list" where
  "anchor_errors entry = (if dget entry ''storage_type'' = PStr ''WORM''
       \<and> \<not> all_strings (dget entry ''external_anchor'') anchor_fields
     then [''WORM requires external_anchor with provider, reference, and verification_method; a hash alone is not WORM proof'']
     else [])"

definition hash_errors :: "pydict \<Rightarrow> string list" where
  "hash_errors entry = (case dget entry ''guideline_hash_sha256'' of
     PNone \<Rightarrow> []
   | PStr h \<Rightarrow> if is_sha256_hex h then [] else [''guideline_hash_sha256 must be 64 lowercase hexadecimal characters'']
   | _ \<Rightarrow> [''guideline_hash_sha256 must be 64 lowercase hexadecimal characters''])"

fun measurement_errors :: "nat \<Rightarrow> pyval list \<Rightarrow> string list" where
  "measurement_errors i [] = []"
| "measurement_errors i (m # ms) =
     (if all_strings m measurement_fields then []
      else [''ecological_measurements['' @ show_nat i @ ''] requires metric, value, unit, source, and timestamp_utc str_list''])
     @ measurement_errors (i + 1) ms"

definition eco_errors :: "pydict \<Rightarrow> string list" where
  "eco_errors entry = (if dget entry ''eco_impact_data'' = PStr ''MEASURED'' then
     (case dget entry ''ecological_measurements'' of
        PList (m # ms) \<Rightarrow> measurement_errors 0 (m # ms)
      | _ \<Rightarrow> [''MEASURED eco impact requires a non-empty measurement list'']) else [])"

definition validate_telemetry_entry :: "runtime \<Rightarrow> pyval \<Rightarrow> bool \<times> string list" where
  "validate_telemetry_entry R v = (case v of
     PDict entry \<Rightarrow> (let errs = state_errors R entry @ anchor_errors entry @ hash_errors entry @ eco_errors entry
        in (errs = [], errs))
   | _ \<Rightarrow> (False, [''entry must be a JSON object'']))"

text \<open>What a valid entry backs up: each claim with the field the claim needs\<close>

definition claims_backed :: "pydict \<Rightarrow> bool" where
  "claims_backed e \<longleftrightarrow>
     dget e ''state'' \<in> set (List.map PStr allowed_states)
     \<and> (dget e ''state'' \<notin> set (List.map PStr proven_states) \<or> nonblank_str (dget e ''evidence_log_id''))
     \<and> (dget e ''storage_type'' \<noteq> PStr ''WORM'' \<or> all_strings (dget e ''external_anchor'') anchor_fields)
     \<and> (dget e ''guideline_hash_sha256'' = PNone \<or> (case dget e ''guideline_hash_sha256'' of PStr h \<Rightarrow> is_sha256_hex h | _ \<Rightarrow> False))
     \<and> (dget e ''eco_impact_data'' \<noteq> PStr ''MEASURED'' \<or> (case dget e ''ecological_measurements'' of
          PList ms \<Rightarrow> ms \<noteq> [] \<and> list_all (\<lambda>m. all_strings m measurement_fields) ms | _ \<Rightarrow> False))"

lemma measurement_errors_none: "measurement_errors i ms = [] \<longleftrightarrow> list_all (\<lambda>m. all_strings m measurement_fields) ms"
  by (induction ms arbitrary: i) auto

lemma eco_errors_none: "eco_errors e = [] \<longleftrightarrow> (dget e ''eco_impact_data'' \<noteq> PStr ''MEASURED'' \<or> (case dget e ''ecological_measurements'' of
      PList ms \<Rightarrow> ms \<noteq> [] \<and> list_all (\<lambda>m. all_strings m measurement_fields) ms | _ \<Rightarrow> False))"
proof (cases "dget e ''ecological_measurements''")
  case (PList ms)
  then show ?thesis using measurement_errors_none [of 0 ms] by (cases ms) (auto simp: eco_errors_def)
qed (simp_all add: eco_errors_def)

lemma hash_errors_none: "hash_errors e = [] \<longleftrightarrow> (dget e ''guideline_hash_sha256'' = PNone \<or>
    (case dget e ''guideline_hash_sha256'' of PStr h \<Rightarrow> is_sha256_hex h | _ \<Rightarrow> False))"
  by (cases "dget e ''guideline_hash_sha256''") (simp_all add: hash_errors_def)

lemma state_errors_none: "state_errors R e = [] \<longleftrightarrow> dget e ''state'' \<in> set (List.map PStr allowed_states)
     \<and> (dget e ''state'' \<notin> set (List.map PStr proven_states) \<or> nonblank_str (dget e ''evidence_log_id''))"
  by (cases "dget e ''state''") (auto simp: state_errors_def Let_def)

text \<open>
  An entry passes exactly when it is an object all of whose claims are backed: a listed state, evidence
  for a proven one, an anchor for WORM, a well-formed digest, and complete measurements for MEASURED.
\<close>

theorem valid_entries_back_their_claims:
  "fst (validate_telemetry_entry R v) \<longleftrightarrow> (case v of PDict e \<Rightarrow> claims_backed e | _ \<Rightarrow> False)"
proof (cases v)
  case (PDict e)
  then show ?thesis
    by (simp add: validate_telemetry_entry_def Let_def claims_backed_def state_errors_none hash_errors_none eco_errors_none)
      (auto simp: anchor_errors_def)
qed (simp_all add: validate_telemetry_entry_def)

section \<open>Guideline digest\<close>

definition guideline_axioms :: "string list" where
  "guideline_axioms =
     [''Schutz menschlichen Lebens und friedliche Zusammenarbeit haben Vorrang.'',
      ''Dankbarkeit gegen'' @ [CHR 0xFC] @ ''ber Natur und Sch'' @ [CHR 0xF6] @ ''pfung ist ein dokumentierter Leitwert.'',
      [CHR 0xD6] @ ''kologische Entscheidungen ben'' @ [CHR 0xF6] @ ''tigen vergleichbare Messwerte.'',
      ''CLAIM != EVIDENCE; REQUEST != AUTHORIZATION; DETECTION != AUTHORIZATION.'']"

definition guidelines_data :: pydict where
  "guidelines_data = [(''version'', PStr ''3.1''), (''axioms'', str_list guideline_axioms),
     (''operational_rules'', PStr (''Keine unaufgeforderte '' @ [CHR 0xC4] @ ''nderung an externen Systemen, ''
        @ ''keine automatischen irreversiblen Aktionen.''))]"

definition canonical_guideline_bytes :: "runtime \<Rightarrow> string" where
  "canonical_guideline_bytes R = utf8 (canonical_text R (PDict guidelines_data))"

definition guideline_hash :: "runtime \<Rightarrow> string" where
  "guideline_hash R = sha256_hex R (canonical_guideline_bytes R)"

text \<open>A payload with the bytes of the guidelines is the guidelines, up to the order of its keys.\<close>

lemma guideline_bytes_pin_the_payload:
  assumes "runtime_ok R" and "json_ok v" and "utf8 (canonical_text R v) = canonical_guideline_bytes R"
  shows "canon v = canon (PDict guidelines_data)"
proof (rule canonical_text_inj [OF assms(1,2)])
  show "json_ok (PDict guidelines_data)"
    by (simp add: guidelines_data_def guideline_axioms_def str_list_def)
  show "canonical_text R v = canonical_text R (PDict guidelines_data)"
    using assms(3) by (simp add: canonical_guideline_bytes_def utf8_inj)
qed

section \<open>Isolated timings\<close>

text \<open>\<open>a - b\<close> and \<open>a / b\<close> on numbers, with b finite and not zero\<close>

fun num_sub :: "pynum \<Rightarrow> pynum \<Rightarrow> exc + pynum" where
  "num_sub (NInt a) (NInt b) = Inr (NInt (a - b))"
| "num_sub a b = and_then (py_float a) (\<lambda>x. and_then (py_float b) (\<lambda>y. Inr (NFloat (fsub x y))))"

fun num_div :: "pynum \<Rightarrow> pynum \<Rightarrow> exc + pyfloat" where
  "num_div (NInt a) (NInt b) = ratio (of_int a / of_int b)"
| "num_div a b = and_then (py_float a) (\<lambda>x. and_then (py_float b) (\<lambda>y. Inr (case y of Fin r \<Rightarrow> fdiv x r | _ \<Rightarrow> NaN)))"

definition unknown_timing :: pydict where
  "unknown_timing = [(''measurement_status'', PStr ''UNKNOWN''), (''reason'', PStr ''Missing or invalid isolated timing inputs.''),
     (''production_status'', PStr ''UNKNOWN'')]"

definition timing_reason :: string where
  "timing_reason = ''Caller-supplied isolated timings only; this result does not prove causation, generalization, or production impact.''"

definition gain_percent :: "pynum \<Rightarrow> pynum \<Rightarrow> exc + pyfloat" where
  "gain_percent b c = and_then (num_sub b c) (\<lambda>d. and_then (num_div d b) (\<lambda>q. Inr (py_round 2 (fmul q (Fin 100)))))"

definition evaluate_efficiency :: "pyval \<Rightarrow> pyval \<Rightarrow> pyval \<Rightarrow> exc + pydict" where
  "evaluate_efficiency baseline candidate samples =
     (case (as_num baseline, as_num candidate, as_int samples) of
       (Some b, Some c, Some n) \<Rightarrow>
         if n < 1 then Inr unknown_timing
         else and_then (py_isfinite b) (\<lambda>bf. if \<not> bf then Inr unknown_timing
           else and_then (py_isfinite c) (\<lambda>cf. if \<not> cf \<or> num_le b (NInt 0) \<or> num_lt c (NInt 0) then Inr unknown_timing
             else and_then (py_float b) (\<lambda>bv. and_then (py_float c) (\<lambda>cv. and_then (gain_percent b c) (\<lambda>g. Inr
               [(''measurement_status'', PStr ''MEASURED_NOT_VERIFIED''), (''baseline_seconds'', PFloat bv),
                (''candidate_seconds'', PFloat cv), (''sample_count'', PInt n), (''efficiency_gain_percent'', PFloat g),
                (''production_status'', PStr ''UNKNOWN''), (''reason'', PStr timing_reason)])))))
     | _ \<Rightarrow> Inr unknown_timing)"

section \<open>Service definitions\<close>

text \<open>
  \<open>configparser\<close> and \<open>xml.etree\<close> are parameters: the parsed unit file tells its sections and the
  options of a section (an option may have no value), the parsed document is a tree of elements.
\<close>

record ini =
  ini_section :: "string \<Rightarrow> bool"
  ini_option :: "string \<Rightarrow> string \<Rightarrow> string option option"

datatype element = Element (e_tag: string) (e_text: "string option") (e_kids: "element list")

record parsers =
  read_ini :: "string \<Rightarrow> string + ini"
  read_xml :: "string \<Rightarrow> string + element"

definition required_service_keys :: "(string \<times> string list) list" where
  "required_service_keys = [(''Unit'', [''Description'']),
     (''Service'', [''Type'', ''ExecStart'', ''NoNewPrivileges'', ''ProtectSystem'', ''PrivateTmp'']), (''Install'', [''WantedBy''])]"

definition required_timer_keys :: "(string \<times> string list) list" where
  "required_timer_keys = [(''Unit'', [''Description'']), (''Timer'', [''OnCalendar'', ''Unit'']), (''Install'', [''WantedBy''])]"

definition section_errors :: "ini \<Rightarrow> string \<times> string list \<Rightarrow> string list" where
  "section_errors p sk = (case sk of (sec, ks) \<Rightarrow>
     if \<not> ini_section p sec then [''missing section ['' @ sec @ '']'']
     else List.map (\<lambda>k. ''missing key '' @ k @ '' in ['' @ sec @ '']'') (List.filter (\<lambda>k. ini_option p sec k = None) ks))"

text \<open>\<open>parser.get(...).strip().lower() != want\<close>; an option without a value is \<open>None\<close>, which has no \<open>strip\<close>.\<close>

definition hardening_errors :: "ini \<Rightarrow> string \<Rightarrow> string \<Rightarrow> exc + string list" where
  "hardening_errors p k want = (case ini_option p ''Service'' k of
     None \<Rightarrow> Inr []
   | Some None \<Rightarrow> raise AttributeError ''NoneType object has no attribute strip''
   | Some (Some v) \<Rightarrow> Inr (if lower (strip v) \<noteq> want then [k @ '' must be '' @ want] else []))"

definition validate_systemd_unit :: "parsers \<Rightarrow> pyval \<Rightarrow> (string \<times> string list) list \<Rightarrow> exc + string list" where
  "validate_systemd_unit P v required = (case v of
     PStr txt0 \<Rightarrow>
       if blank txt0 then Inr [''unit file is empty'']
       else (case read_ini P txt0 of
         Inl why \<Rightarrow> Inr [''ini parse error: '' @ why]
       | Inr p \<Rightarrow> and_then (hardening_errors p ''NoNewPrivileges'' ''true'') (\<lambda>a.
           and_then (hardening_errors p ''ProtectSystem'' ''strict'') (\<lambda>b.
             Inr (concat (List.map (section_errors p) required) @ a @ b))))
   | _ \<Rightarrow> Inr [''unit file is empty''])"

text \<open>The dictionary of the plist: each key with the element after it, the last one of a name kept.\<close>

fun plist_pairs :: "element list \<Rightarrow> (string option \<times> element) list" where
  "plist_pairs (k # v # es) = (if e_tag k = ''key'' then [(e_text k, v)] else []) @ plist_pairs (v # es)"
| "plist_pairs _ = []"

definition plist_get :: "element list \<Rightarrow> string \<Rightarrow> element option" where
  "plist_get es k = map_of (rev (plist_pairs es)) (Some k)"

definition interval_errors :: "element option \<Rightarrow> string list" where
  "interval_errors e = (case e of
     None \<Rightarrow> []
   | Some el \<Rightarrow> (case Option.bind (e_text el) int_of_text of
       None \<Rightarrow> [''StartInterval must be an integer'']
     | Some n \<Rightarrow> if n < 60 then [''StartInterval must be at least 60 seconds''] else []))"

definition program_errors :: "element option \<Rightarrow> string list" where
  "program_errors e = (case e of
     Some el \<Rightarrow> if e_tag el \<noteq> ''array'' \<or> e_kids el = [] then [''ProgramArguments must be a non-empty array''] else []
   | None \<Rightarrow> [''ProgramArguments must be a non-empty array''])"

definition plist_keys :: "string list" where
  "plist_keys = [''Label'', ''ProgramArguments'', ''StartInterval'']"

definition validate_launchd_plist :: "parsers \<Rightarrow> string \<Rightarrow> string list" where
  "validate_launchd_plist P txt0 = (case read_xml P txt0 of
     Inl why \<Rightarrow> [''xml parse error: '' @ why]
   | Inr doc \<Rightarrow>
       if e_tag doc \<noteq> ''plist'' then [''root element must be <plist>'']
       else (case List.find (\<lambda>e. e_tag e = ''dict'') (e_kids doc) of
         None \<Rightarrow> [''plist must contain a <dict>'']
       | Some d \<Rightarrow>
           List.map (\<lambda>k. ''missing plist key '' @ k) (List.filter (\<lambda>k. plist_get (e_kids d) k = None) plist_keys)
           @ program_errors (plist_get (e_kids d) ''ProgramArguments'')
           @ interval_errors (plist_get (e_kids d) ''StartInterval'')))"

text \<open>\<open>tag.split("}")[-1]\<close> and \<open>root.iter()\<close>\<close>

definition local_name :: "string \<Rightarrow> string" where
  "local_name tag = last (split_on (CHR ''}'') tag)"

fun iter_elements :: "element \<Rightarrow> element list" where
  "iter_elements (Element t x ks) = Element t x ks # concat (List.map iter_elements ks)"

definition elements_named :: "element \<Rightarrow> string \<Rightarrow> element list" where
  "elements_named e n = List.filter (\<lambda>x. local_name (e_tag x) = n) (iter_elements e)"

definition has_command :: "element \<Rightarrow> bool" where
  "has_command doc \<longleftrightarrow> list_ex (\<lambda>c. case e_text c of None \<Rightarrow> False | Some t \<Rightarrow> \<not> blank t) (elements_named doc ''Command'')"

definition validate_windows_task :: "parsers \<Rightarrow> string \<Rightarrow> string list" where
  "validate_windows_task P txt0 = (case read_xml P txt0 of
     Inl why \<Rightarrow> [''xml parse error: '' @ why]
   | Inr doc \<Rightarrow>
       (if local_name (e_tag doc) \<noteq> ''Task'' then [''root element must be <Task>''] else [])
       @ (if elements_named doc ''Actions'' = [] then [''missing <Actions>''] else [])
       @ (if \<not> has_command doc then [''missing <Command> inside <Actions>''] else [])
       @ (if elements_named doc ''TimeTrigger'' = [] then [''missing <TimeTrigger> for scheduled repetition''] else [])
       @ (if elements_named doc ''Repetition'' = [] then [''missing <Repetition> interval''] else []))"

definition install_status :: string where
  "install_status = ''FILES_PRESENT_NOT_INSTALLED''"

text \<open>The bundle: a file is missing, or its read raises or gives its text.\<close>

definition bundle_checks :: "parsers \<Rightarrow> (string \<times> (string \<Rightarrow> exc + string list)) list" where
  "bundle_checks P =
     [(''systemd/v91-cycle.service'', \<lambda>t. validate_systemd_unit P (PStr t) required_service_keys),
      (''systemd/v91-cycle.timer'', \<lambda>t. validate_systemd_unit P (PStr t) required_timer_keys),
      (''launchd/com.v91.cycle.plist'', \<lambda>t. Inr (validate_launchd_plist P t)),
      (''windows/V91-Cycle-Task.xml'', \<lambda>t. Inr (validate_windows_task P t))]"

definition check_file :: "(string \<Rightarrow> exc + string list) \<Rightarrow> (exc + string) option \<Rightarrow> exc + string list" where
  "check_file validator f = (case f of None \<Rightarrow> Inr [''file missing from bundle''] | Some r \<Rightarrow> and_then r validator)"

fun check_files :: "(string \<times> (string \<Rightarrow> exc + string list)) list \<Rightarrow> (string \<Rightarrow> (exc + string) option) \<Rightarrow> exc + (string \<times> string list) list" where
  "check_files [] files = Inr []"
| "check_files ((n, validator) # cs) files = and_then (check_file validator (files n)) (\<lambda>errs.
     and_then (check_files cs files) (\<lambda>rest. Inr ((n, errs) # rest)))"

definition validate_bundle :: "parsers \<Rightarrow> (string \<Rightarrow> (exc + string) option) \<Rightarrow> exc + pydict" where
  "validate_bundle P files = and_then (check_files (bundle_checks P) files) (\<lambda>rs. Inr
     [(''bundle_validation'', PStr (if list_all (\<lambda>(n, errs). errs = []) rs then ''ALL_FILES_VALID'' else ''VALIDATION_FAILED'')),
      (''install_status'', PStr install_status),
      (''files'', PDict (List.map (\<lambda>(n, errs). (n, PDict [(''valid'', PBool (errs = [])), (''errors'', str_list errs)])) rs))])"

section \<open>A gain is only claimed for a faster candidate\<close>

definition timing_ok :: "pyval \<Rightarrow> pyval \<Rightarrow> pyval \<Rightarrow> bool" where
  "timing_ok baseline candidate samples \<longleftrightarrow> (case (as_num baseline, as_num candidate, as_int samples) of
     (Some b, Some c, Some n) \<Rightarrow> 1 \<le> n \<and> py_isfinite b = Inr True \<and> py_isfinite c = Inr True
       \<and> num_lt (NInt 0) b \<and> num_le (NInt 0) c
   | _ \<Rightarrow> False)"

definition faster :: "pyval \<Rightarrow> pyval \<Rightarrow> bool" where
  "faster candidate baseline \<longleftrightarrow> (case (as_num candidate, as_num baseline) of (Some c, Some b) \<Rightarrow> num_lt c b | _ \<Rightarrow> False)"

lemma to_pf_nonpos: "x \<le> 0 \<Longrightarrow> fle (to_pf x) (Fin 0)"
  using rnd_nonneg [of "- x"] by (auto simp: to_pf_def Let_def fle_def f_limit_def)

lemma to_pf_not_NaN [simp]: "to_pf x \<noteq> NaN"
  by (simp add: to_pf_def Let_def)

lemma ratio_nonpos: "x \<le> 0 \<Longrightarrow> ratio x = Inr f \<Longrightarrow> fle f (Fin 0)"
  using to_pf_nonpos [of x] by (auto simp: ratio_def split: pyfloat.splits)

lemma ratio_not_NaN: "ratio x = Inr f \<Longrightarrow> f \<noteq> NaN"
  by (auto simp: ratio_def split: pyfloat.splits)

lemma rhe_nonpos: "x \<le> 0 \<Longrightarrow> rhe x \<le> 0"
  using rhe_mono [of x 0] rhe_of_int [of 0] by simp

lemma py_round_nonpos: "fle f (Fin 0) \<Longrightarrow> fle (py_round n f) (Fin 0)"
  using rhe_nonpos by (cases f) (auto simp: py_round_def fle_def divide_nonpos_pos mult_nonpos_nonneg
      intro!: to_pf_nonpos [unfolded fle_def])

lemma percent_nonpos: "fle q (Fin 0) \<Longrightarrow> fle (py_round 2 (fmul q (Fin 100))) (Fin 0)"
proof -
  assume "fle q (Fin 0)"
  then have "fle (fmul q (Fin 100)) (Fin 0)"
    by (cases q) (auto simp: fle_def intro!: to_pf_nonpos [unfolded fle_def])
  then show ?thesis by (rule py_round_nonpos)
qed

lemma percent_not_NaN: "q \<noteq> NaN \<Longrightarrow> py_round 2 (fmul q (Fin 100)) \<noteq> NaN"
proof -
  assume "q \<noteq> NaN"
  then have "fmul q (Fin 100) \<noteq> NaN" by (cases q) auto
  then show ?thesis by (cases "fmul q (Fin 100)") (auto simp: py_round_def)
qed

lemma finite_float: "wf_num a \<Longrightarrow> py_isfinite a = Inr True \<Longrightarrow>
    \<exists>x. num_val a = Fin x \<and> py_float a = Inr (Fin (rnd x)) \<and> wf_float (Fin (rnd x))"
proof (cases a)
  case (NInt i)
  assume "py_isfinite a = Inr True"
  then have f: "py_float a = Inr (Fin (rnd (of_int i)))"
    using to_pf_Fin by (auto simp: NInt py_isfinite_def split: pyfloat.splits)
  then have "wf_float (Fin (rnd (of_int i)))" using py_float_wf [of a] by (auto simp: NInt)
  with f show ?thesis by (simp add: NInt)
next
  case (NFloat f)
  assume "wf_num a" "py_isfinite a = Inr True"
  then show ?thesis by (cases f) (auto simp: NFloat py_isfinite_def)
qed

lemma difference_of_timings:
  assumes "wf_num b" "wf_num c" "py_isfinite b = Inr True" "py_isfinite c = Inr True"
    and "num_lt (NInt 0) b" "num_le (NInt 0) c" and "num_sub b c = Inr d"
  shows "\<exists>r. num_val d = Fin r \<and> (num_lt c b \<or> r \<le> 0)"
proof -
  obtain x y where b: "num_val b = Fin x" "py_float b = Inr (Fin (rnd x))" "wf_float (Fin (rnd x))"
    and c: "num_val c = Fin y" "py_float c = Inr (Fin (rnd y))" "wf_float (Fin (rnd y))"
    using finite_float [OF assms(1,3)] finite_float [OF assms(2,4)] by blast
  have pos: "0 < x" "0 \<le> y" using assms(5,6) b(1) c(1) by (auto simp: num_lt_def num_le_def fle_def)
  then have nn: "0 \<le> rnd x" "0 \<le> rnd y" by (simp_all add: rnd_nonneg)
  have fin: "to_pf (rnd x - rnd y) = Fin (rnd (rnd x - rnd y))"
  proof (cases "rnd x \<le> rnd y")
    case True
    then show ?thesis using nn c(3) by (intro to_pf_bounded [where y = "rnd y"]) simp_all
  next
    case False
    then show ?thesis using nn b(3) by (intro to_pf_bounded [where y = "rnd x"]) simp_all
  qed
  have le: "rnd (rnd x - rnd y) \<le> 0" if "x \<le> y"
    using rnd_mono [OF that] rnd_mono [of "rnd x - rnd y" 0] by simp
  have less: "num_lt c b \<longleftrightarrow> y < x" by (simp add: num_lt_def b(1) c(1))
  show ?thesis
  proof (cases "(b, c)" rule: num_sub.cases)
    case (1 i j)
    then show ?thesis using assms(7) by auto
  qed (use assms(7) b c fin le less in \<open>auto simp: fsub_def simp del: py_float.simps\<close>)
qed

lemma float_value: "py_float d = Inr g \<Longrightarrow> num_val d = Fin r \<Longrightarrow> g = Fin r \<or> g = Fin (rnd r)"
proof (cases d)
  case (NInt i)
  assume "py_float d = Inr g" "num_val d = Fin r"
  then show ?thesis using to_pf_Fin [of r] by (cases "to_pf r") (auto simp: NInt)
qed simp

lemma quotient_of_difference:
  assumes "num_val d = Fin r" and "num_div d b = Inr q" and "wf_num b" "py_isfinite b = Inr True" and "num_lt (NInt 0) b"
  shows "q \<noteq> NaN \<and> (r \<le> 0 \<longrightarrow> fle q (Fin 0))"
proof -
  obtain x where b: "num_val b = Fin x" "py_float b = Inr (Fin (rnd x))" using finite_float [OF assms(3,4)] by blast
  have x: "0 < x" using assms(5) b(1) by (simp add: num_lt_def)
  then have "0 \<le> rnd x" by (simp add: rnd_nonneg)
  then have float: "fdiv (Fin s) (rnd x) \<noteq> NaN \<and> (s \<le> 0 \<longrightarrow> fle (fdiv (Fin s) (rnd x)) (Fin 0))" for s
    by (auto intro: to_pf_nonpos simp: divide_nonpos_nonneg)
  have conv: "\<exists>t. g = Fin t \<and> (r \<le> 0 \<longrightarrow> t \<le> 0)" if "py_float d = Inr g" for g
    using float_value [OF that assms(1)] rnd_mono [of r 0] by auto
  show ?thesis
  proof (cases "(d, b)" rule: num_div.cases)
    case (1 i j)
    then show ?thesis
      using assms(1,2) b(1) x ratio_nonpos [of "of_int i / of_int j" q] ratio_not_NaN [of "of_int i / of_int j" q]
      by (auto simp: divide_nonpos_pos)
  qed (use assms(2) b float conv in \<open>auto simp: and_then_Inr simp del: py_float.simps fdiv.simps\<close>)
qed


lemma isfinite_raises: "py_isfinite x = Inl e \<Longrightarrow> fst e = OverflowError"
  by (cases x) (auto simp: py_isfinite_def split: pyfloat.splits)

lemma finite_orders:
  assumes "py_isfinite x = Inr True"
  shows "num_le x (NInt 0) \<longleftrightarrow> \<not> num_lt (NInt 0) x" and "num_lt x (NInt 0) \<longleftrightarrow> \<not> num_le (NInt 0) x"
proof -
  obtain r where "num_val x = Fin r"
    using assms by (cases "num_val x"; cases x) (auto simp: py_isfinite_def)
  then show "num_le x (NInt 0) \<longleftrightarrow> \<not> num_lt (NInt 0) x" "num_lt x (NInt 0) \<longleftrightarrow> \<not> num_le (NInt 0) x"
    by (auto simp: num_le_def num_lt_def fle_def)
qed

lemma float_raises: "py_float x = Inl e \<Longrightarrow> fst e = OverflowError"
  by (cases x) (auto split: pyfloat.splits)

lemma ratio_raises: "ratio x = Inl e \<Longrightarrow> fst e = OverflowError"
  by (auto simp: ratio_def split: pyfloat.splits)

lemma num_sub_raises: "num_sub x y = Inl e \<Longrightarrow> fst e = OverflowError"
  by (cases "(x, y)" rule: num_sub.cases) (auto simp: and_then_Inl simp del: py_float.simps dest: float_raises)

lemma num_div_raises: "num_div x y = Inl e \<Longrightarrow> fst e = OverflowError"
  by (cases "(x, y)" rule: num_div.cases) (auto simp: and_then_Inl simp del: py_float.simps dest: float_raises ratio_raises)

lemma gain_raises: "gain_percent b c = Inl e \<Longrightarrow> fst e = OverflowError"
  unfolding gain_percent_def and_then_Inl using num_sub_raises [of b c e] num_div_raises [of _ b e] by blast

text \<open>
  For floats as Python has them, a result is measured exactly when both timings are finite numbers, the
  baseline positive and the candidate not negative, over at least one sample; a positive gain is only
  reported for a candidate that was faster; the production status is UNKNOWN in every case.
\<close>

theorem gain_only_for_faster_candidate:
  assumes "list_all wf_num (List.map_filter as_num [b, c])"
  shows "case evaluate_efficiency b c n of
     Inl e \<Rightarrow> fst e = OverflowError
   | Inr d \<Rightarrow> dget d ''production_status'' = PStr ''UNKNOWN''
       \<and> (case dget d ''efficiency_gain_percent'' of
            PFloat g \<Rightarrow> timing_ok b c n \<and> (if flt (Fin 0) g then faster c b else fle g (Fin 0))
          | _ \<Rightarrow> \<not> timing_ok b c n \<and> dget d ''measurement_status'' = PStr ''UNKNOWN'')"
proof (cases "timing_ok b c n")
  case False
  then have "evaluate_efficiency b c n = Inr unknown_timing \<or> (\<exists>m. evaluate_efficiency b c n = Inl (OverflowError, m))"
  proof (cases "as_num b = None \<or> as_num c = None \<or> (case as_int n of None \<Rightarrow> True | Some k \<Rightarrow> k < 1)")
    case True
    then show ?thesis by (auto simp: evaluate_efficiency_def split: option.splits)
  next
    case False
    then obtain x y k where v: "as_num b = Some x" "as_num c = Some y" "as_int n = Some k" "1 \<le> k"
      by (auto split: option.splits)
    show ?thesis
    proof (cases "py_isfinite x = Inr True \<and> py_isfinite y = Inr True")
      case True
      then show ?thesis using v \<open>\<not> timing_ok b c n\<close> finite_orders [of x] finite_orders [of y]
        by (auto simp: evaluate_efficiency_def timing_ok_def)
    next
      case False
      then show ?thesis using v isfinite_raises
        by (cases "py_isfinite x"; cases "py_isfinite y") (force simp: evaluate_efficiency_def)+
    qed
  qed
  then show ?thesis using False by (auto simp: unknown_timing_def)
next
  case True
  then obtain x y k where v: "as_num b = Some x" "as_num c = Some y" "as_int n = Some k" "1 \<le> k"
    and ok: "py_isfinite x = Inr True" "py_isfinite y = Inr True" "num_lt (NInt 0) x" "num_le (NInt 0) y"
    by (auto simp: timing_ok_def split: option.splits)
  have wf: "wf_num x" "wf_num y" using assms v by (simp_all add: List.map_filter_def)
  obtain fx fy where f: "py_float x = Inr fx" "py_float y = Inr fy"
    using finite_float [OF wf(1) ok(1)] finite_float [OF wf(2) ok(2)] by blast
  have eval: "evaluate_efficiency b c n = and_then (gain_percent x y) (\<lambda>g. Inr
               [(''measurement_status'', PStr ''MEASURED_NOT_VERIFIED''), (''baseline_seconds'', PFloat fx),
                (''candidate_seconds'', PFloat fy), (''sample_count'', PInt k), (''efficiency_gain_percent'', PFloat g),
                (''production_status'', PStr ''UNKNOWN''), (''reason'', PStr timing_reason)])"
    using v ok f finite_orders [OF ok(1)] finite_orders [OF ok(2)] by (simp add: evaluate_efficiency_def)
  show ?thesis
  proof (cases "gain_percent x y")
    case (Inl e)
    then show ?thesis using gain_raises [of x y e] by (simp add: eval)
  next
    case (Inr g)
    then obtain d q where d: "num_sub x y = Inr d" "num_div d x = Inr q" "g = py_round 2 (fmul q (Fin 100))"
      by (auto simp: gain_percent_def and_then_Inr)
    obtain r where r: "num_val d = Fin r" "num_lt y x \<or> r \<le> 0"
      using difference_of_timings [OF wf ok d(1)] by blast
    have q: "q \<noteq> NaN" "r \<le> 0 \<longrightarrow> fle q (Fin 0)" using quotient_of_difference [OF r(1) d(2) wf(1) ok(1,3)] by simp_all
    have "g \<noteq> NaN" using percent_not_NaN [OF q(1)] d(3) by simp
    moreover have "fle g (Fin 0)" if "\<not> num_lt y x" using percent_nonpos [of q] q(2) r(2) that d(3) by simp
    ultimately have "if flt (Fin 0) g then faster c b else fle g (Fin 0)"
      using v not_flt_fle [of "Fin 0" g] by (auto simp: faster_def)
    then show ?thesis using True Inr by (simp add: eval)
  qed
qed

definition sample_timing :: pyval where
  "sample_timing = PInt 4"

theorem gain_only_for_faster_candidate_witness:
  "case evaluate_efficiency sample_timing (PInt 1) (PInt 3) of
     Inl e \<Rightarrow> fst e = OverflowError
   | Inr d \<Rightarrow> dget d ''production_status'' = PStr ''UNKNOWN''"
  using gain_only_for_faster_candidate [where b = sample_timing and c = "PInt 1" and n = "PInt 3"]
  by (auto simp: sample_timing_def List.map_filter_def split: sum.splits)

section \<open>What a valid bundle contains\<close>

definition option_is :: "ini \<Rightarrow> string \<Rightarrow> string \<Rightarrow> bool" where
  "option_is p k want \<longleftrightarrow> (case ini_option p ''Service'' k of
     None \<Rightarrow> True | Some None \<Rightarrow> False | Some (Some v) \<Rightarrow> lower (strip v) = want)"

definition unit_ok :: "parsers \<Rightarrow> (string \<times> string list) list \<Rightarrow> string \<Rightarrow> bool" where
  "unit_ok P required t \<longleftrightarrow> \<not> blank t \<and> (case read_ini P t of
     Inl why \<Rightarrow> False
   | Inr p \<Rightarrow> list_all (\<lambda>(sec, ks). ini_section p sec \<and> list_all (\<lambda>k. ini_option p sec k \<noteq> None) ks) required
       \<and> option_is p ''NoNewPrivileges'' ''true'' \<and> option_is p ''ProtectSystem'' ''strict'')"

definition minute_apart :: "element option \<Rightarrow> bool" where
  "minute_apart e \<longleftrightarrow> (case e of None \<Rightarrow> False | Some el \<Rightarrow>
     (case Option.bind (e_text el) int_of_text of None \<Rightarrow> False | Some n \<Rightarrow> 60 \<le> n))"

definition plist_ok :: "parsers \<Rightarrow> string \<Rightarrow> bool" where
  "plist_ok P t \<longleftrightarrow> (case read_xml P t of
     Inl why \<Rightarrow> False
   | Inr doc \<Rightarrow> e_tag doc = ''plist'' \<and> (case List.find (\<lambda>e. e_tag e = ''dict'') (e_kids doc) of
       None \<Rightarrow> False
     | Some d \<Rightarrow> plist_get (e_kids d) ''Label'' \<noteq> None
         \<and> (case plist_get (e_kids d) ''ProgramArguments'' of None \<Rightarrow> False | Some el \<Rightarrow> e_tag el = ''array'' \<and> e_kids el \<noteq> [])
         \<and> minute_apart (plist_get (e_kids d) ''StartInterval'')))"

definition task_ok :: "parsers \<Rightarrow> string \<Rightarrow> bool" where
  "task_ok P t \<longleftrightarrow> (case read_xml P t of
     Inl why \<Rightarrow> False
   | Inr doc \<Rightarrow> local_name (e_tag doc) = ''Task'' \<and> has_command doc
       \<and> list_all (\<lambda>n. elements_named doc n \<noteq> []) [''Actions'', ''TimeTrigger'', ''Repetition''])"

lemma hardening_none: "hardening_errors p k want = Inr [] \<longleftrightarrow> option_is p k want"
  by (auto simp: hardening_errors_def option_is_def split: option.splits)

lemma section_none: "section_errors p sk = [] \<longleftrightarrow> (case sk of (sec, ks) \<Rightarrow> ini_section p sec \<and> list_all (\<lambda>k. ini_option p sec k \<noteq> None) ks)"
  by (auto simp: section_errors_def filter_empty_conv list_all_iff split: prod.splits)

lemma unit_valid: "validate_systemd_unit P (PStr t) required = Inr [] \<longleftrightarrow> unit_ok P required t"
proof (cases "read_ini P t")
  case (Inl why)
  then show ?thesis by (simp add: validate_systemd_unit_def unit_ok_def)
next
  case (Inr p)
  have "list_all (\<lambda>x. section_errors p x = []) required \<longleftrightarrow>
      list_all (\<lambda>(sec, ks). ini_section p sec \<and> list_all (\<lambda>k. ini_option p sec k \<noteq> None) ks) required"
    by (simp only: section_none)
  then have "list_all (\<lambda>(sec, ks). ini_section p sec \<and> list_all (\<lambda>k. ini_option p sec k \<noteq> None) ks) required \<longleftrightarrow>
      (\<forall>x \<in> set required. section_errors p x = [])"
    by (simp add: list_all_iff)
  then show ?thesis
    using Inr hardening_none [of p "''NoNewPrivileges''" "''true''"] hardening_none [of p "''ProtectSystem''" "''strict''"]
    by (auto simp: validate_systemd_unit_def unit_ok_def and_then_Inr)
qed

lemma interval_none: "interval_errors (Some el) = [] \<longleftrightarrow> minute_apart (Some el)"
  by (simp add: interval_errors_def minute_apart_def split: option.splits)

lemma plist_valid: "validate_launchd_plist P t = [] \<longleftrightarrow> plist_ok P t"
proof (cases "read_xml P t")
  case (Inl why)
  then show ?thesis by (simp add: validate_launchd_plist_def plist_ok_def)
next
  case (Inr doc)
  show ?thesis
  proof (cases "List.find (\<lambda>e. e_tag e = ''dict'') (e_kids doc)")
    case None
    then show ?thesis using Inr by (simp add: validate_launchd_plist_def plist_ok_def)
  next
    case (Some d)
    show ?thesis
      using Inr Some interval_none
      by (cases "plist_get (e_kids d) ''StartInterval''"; cases "plist_get (e_kids d) ''ProgramArguments''")
        (auto simp: validate_launchd_plist_def plist_ok_def plist_keys_def program_errors_def minute_apart_def)
  qed
qed

lemma task_valid: "validate_windows_task P t = [] \<longleftrightarrow> task_ok P t"
  by (auto simp: validate_windows_task_def task_ok_def split: sum.splits)

lemma check_files_valid:
  "(\<exists>rs. check_files cs files = Inr rs \<and> list_all (\<lambda>(n, errs). errs = []) rs) \<longleftrightarrow>
   list_all (\<lambda>(n, validator). \<exists>t. files n = Some (Inr t) \<and> validator t = Inr []) cs"
proof (induction cs)
  case (Cons c cs)
  have one: "check_file validator f = Inr [] \<longleftrightarrow> (\<exists>t. f = Some (Inr t) \<and> validator t = Inr [])" for validator f
    by (auto simp: check_file_def and_then_Inr split: option.splits)
  obtain n validator where c: "c = (n, validator)" by (cases c)
  have "(\<exists>rs. check_files (c # cs) files = Inr rs \<and> list_all (\<lambda>(n, errs). errs = []) rs) \<longleftrightarrow>
      check_file validator (files n) = Inr [] \<and> (\<exists>rs. check_files cs files = Inr rs \<and> list_all (\<lambda>(n, errs). errs = []) rs)"
    by (auto simp: c and_then_Inr)
  then show ?case by (simp add: Cons.IH one c)
qed simp

text \<open>
  The bundle is reported valid exactly when its four files are there and can be read, both unit files
  have every required key and no weaker setting than the two hardening options, the property list
  starts a non-empty program at most once a minute, and the task has its action, command, trigger and
  repetition. The install status never says more than that the files are present.
\<close>

theorem valid_bundle_is_complete:
  "((\<exists>d. validate_bundle P files = Inr d \<and> dget d ''bundle_validation'' = PStr ''ALL_FILES_VALID'') \<longleftrightarrow>
      (\<exists>t. files ''systemd/v91-cycle.service'' = Some (Inr t) \<and> unit_ok P required_service_keys t)
      \<and> (\<exists>t. files ''systemd/v91-cycle.timer'' = Some (Inr t) \<and> unit_ok P required_timer_keys t)
      \<and> (\<exists>t. files ''launchd/com.v91.cycle.plist'' = Some (Inr t) \<and> plist_ok P t)
      \<and> (\<exists>t. files ''windows/V91-Cycle-Task.xml'' = Some (Inr t) \<and> task_ok P t))
   \<and> (case validate_bundle P files of Inl e \<Rightarrow> (\<exists>n. files n \<noteq> None)
      | Inr d \<Rightarrow> dget d ''install_status'' = PStr ''FILES_PRESENT_NOT_INSTALLED'')"
proof
  have "(\<exists>d. validate_bundle P files = Inr d \<and> dget d ''bundle_validation'' = PStr ''ALL_FILES_VALID'') \<longleftrightarrow>
      (\<exists>rs. check_files (bundle_checks P) files = Inr rs \<and> list_all (\<lambda>(n, errs). errs = []) rs)"
    by (cases "check_files (bundle_checks P) files") (simp_all add: validate_bundle_def)
  then show "(\<exists>d. validate_bundle P files = Inr d \<and> dget d ''bundle_validation'' = PStr ''ALL_FILES_VALID'') \<longleftrightarrow>
      (\<exists>t. files ''systemd/v91-cycle.service'' = Some (Inr t) \<and> unit_ok P required_service_keys t)
      \<and> (\<exists>t. files ''systemd/v91-cycle.timer'' = Some (Inr t) \<and> unit_ok P required_timer_keys t)
      \<and> (\<exists>t. files ''launchd/com.v91.cycle.plist'' = Some (Inr t) \<and> plist_ok P t)
      \<and> (\<exists>t. files ''windows/V91-Cycle-Task.xml'' = Some (Inr t) \<and> task_ok P t)"
    unfolding check_files_valid by (simp add: bundle_checks_def unit_valid plist_valid task_valid)
  show "case validate_bundle P files of Inl e \<Rightarrow> (\<exists>n. files n \<noteq> None)
      | Inr d \<Rightarrow> dget d ''install_status'' = PStr ''FILES_PRESENT_NOT_INSTALLED''"
  proof (cases "\<forall>n. files n = None")
    case True
    then have "check_files cs files = Inr (List.map (\<lambda>(n, v). (n, [''file missing from bundle''])) cs)" for cs
      by (induction cs) (auto simp: check_file_def)
    then show ?thesis by (simp add: validate_bundle_def install_status_def)
  next
    case False
    then show ?thesis
      by (cases "check_files (bundle_checks P) files") (simp_all add: validate_bundle_def install_status_def)
  qed
qed

lemma bare_option_raises:
  "\<exists>m. validate_systemd_unit \<lparr>read_ini = (\<lambda>t. Inr \<lparr>ini_section = (\<lambda>s. True), ini_option = (\<lambda>s k. Some None)\<rparr>),
     read_xml = (\<lambda>t. Inl [])\<rparr> (PStr ''x'') required = Inl (AttributeError, m)"
  by (simp add: validate_systemd_unit_def hardening_errors_def blank_def is_space_def)

end
