(* ===== verification/Impact.thy ===== *)
theory Impact
  imports PyStats Stewardship Evidence "HOL-Library.Word"
begin

text \<open>
  Impact measurement and the command line: local samples (\<open>controller/collector.py\<close>), the comparison of two
  measured periods and the verified totals (\<open>controller/impact.py\<close>), and the commands that share one
  ledger file (\<open>controller/v91_cli.py\<close>). Shown: when an impact is VALID, that only such impacts count,
  and that the commands keep the ledger a valid chain on which the report always succeeds.
\<close>

section \<open>Local samples\<close>

fun split_once :: "char \<Rightarrow> string \<Rightarrow> (string \<times> string) option" where
  "split_once c [] = None"
| "split_once c (x # s) = (if x = c then Some ([], s) else map_option (\<lambda>(a, b). (x # a, b)) (split_once c s))"

text \<open>The lines of \<open>/proc/meminfo\<close> into the dictionary \<open>info\<close>\<close>

fun read_meminfo :: "(string \<Rightarrow> pyfloat option) \<Rightarrow> string list \<Rightarrow> exc + (string \<Rightarrow> pyfloat option)" where
  "read_meminfo info [] = Inr info"
| "read_meminfo info (l # ls) = (case split_once (CHR '':'') l of
     None \<Rightarrow> raise ValueError ''not enough values to unpack''
   | Some (k, v) \<Rightarrow> (case split_words v of
       [] \<Rightarrow> raise IndexError ''list index out of range''
     | w # ws \<Rightarrow> and_then (float_of_val (PStr w)) (\<lambda>x. read_meminfo (info(k \<mapsto> x)) ls)))"

text \<open>
  What the system tells: the lines of \<open>/proc/meminfo\<close>, or on Windows the fields \<open>ullTotalPhys\<close> and
  \<open>ullAvailPhys\<close> (64 bits, unsigned) that \<open>GlobalMemoryStatusEx\<close> fills in, \<open>None\<close> when it fails. Their
  difference is one of Python integers, so it does not wrap.
\<close>

datatype memory_source = Meminfo "string list" | Memory_status "(64 word \<times> 64 word) option"

fun memory_used_mb :: "memory_source \<Rightarrow> exc + pyfloat" where
  "memory_used_mb (Memory_status None) = raise OSError ''GlobalMemoryStatusEx failed''"
| "memory_used_mb (Memory_status (Some (tot, avail))) =
     and_then (ratio ((of_int (uint tot) - of_int (uint avail)) / 1024)) (\<lambda>kb. Inr (fdiv kb 1024))"
| "memory_used_mb (Meminfo ls) = and_then (read_meminfo Map.empty ls) (\<lambda>info.
     case info ''MemTotal'' of None \<Rightarrow> raise KeyError ''MemTotal''
   | Some tot \<Rightarrow> (case info ''MemAvailable'' of None \<Rightarrow> raise KeyError ''MemAvailable''
     | Some avail \<Rightarrow> Inr (fdiv (fsub tot avail) 1024)))"

definition csv_header :: "string list" where
  "csv_header = [''timestamp'', ''value'', ''source_type'']"

text \<open>A CSV file is its rows of fields; the writer prints a float with \<open>repr\<close>. One reading per sample.\<close>

type_synonym csv_file = "string list list option"

fun write_samples :: "runtime \<Rightarrow> (string \<times> memory_source) list \<Rightarrow> string list list \<Rightarrow> string list list \<times> (exc + unit)" where
  "write_samples R [] rows = (rows, Inr ())"
| "write_samples R ((now, src) # ss) rows = attempt rows (memory_used_mb src) (\<lambda>m.
     write_samples R ss (rows @ [[now, py_str R (PFloat (py_round 2 m)), ''direct_sensor'']]))"

definition collect :: "runtime \<Rightarrow> (string \<times> memory_source) list \<Rightarrow> csv_file \<Rightarrow> csv_file \<times> (exc + unit)" where
  "collect R samples f = (case write_samples R samples (case f of None \<Rightarrow> [csv_header] | Some rows \<Rightarrow> rows) of
     (rows, r) \<Rightarrow> (Some rows, r))"

section \<open>Reading measurements\<close>

text \<open>
  \<open>csv.DictReader\<close>: the first row names the columns, even an empty one; later empty rows are skipped. A
  row becomes a dictionary by setting one column after the other, so the last of several columns of one name
  wins; a missing field is \<open>None\<close>. Surplus fields go under the key \<open>None\<close>, which nothing looks up.
\<close>

fun row_fields :: "string list \<Rightarrow> string list \<Rightarrow> pydict" where
  "row_fields (k # ks) (v # vs) = (k, PStr v) # row_fields ks vs"
| "row_fields (k # ks) [] = (k, PNone) # row_fields ks []"
| "row_fields [] vs = []"

definition zip_row :: "string list \<Rightarrow> string list \<Rightarrow> pydict" where
  "zip_row ks vs = dupdate [] (row_fields ks vs)"

definition dict_rows :: "string list list \<Rightarrow> pydict list" where
  "dict_rows rows = (case rows of
     [] \<Rightarrow> [] | h # rs \<Rightarrow> List.map (zip_row h) (List.filter (\<lambda>r. r \<noteq> []) rs))"

definition load_csv :: "csv_file \<Rightarrow> exc + pydict list" where
  "load_csv f = (case f of None \<Rightarrow> raise FileNotFoundError ''No such file or directory'' | Some rows \<Rightarrow> Inr (dict_rows rows))"

definition source_confidence :: "(string \<times> pyfloat) list" where
  "source_confidence = [(''direct_sensor'', Fin 1), (''calculated'', to_pf (9/10)), (''estimated'', to_pf (7/10)),
     (''manual_entry'', to_pf (6/10))]"

definition min_samples :: nat where "min_samples = 5"
definition dqi_min :: pyfloat where "dqi_min = to_pf (85/100)"
definition noise_factor :: pyfloat where "noise_factor = Fin 2"

record measured =
  ms_aware :: bool
  ms_time :: int
  ms_value :: rat
  ms_source :: string

text \<open>A row is a sample, is rejected (\<open>None\<close>), or raises what \<open>_parse\<close> does not catch.\<close>

definition parse_value :: "iso_reader \<Rightarrow> runtime \<Rightarrow> pydict \<Rightarrow> exc + measured" where
  "parse_value rd R row = and_then (item (PDict row) ''timestamp'') (\<lambda>tv.
     case rd (replace_z (py_str R tv)) of None \<Rightarrow> raise ValueError ''Invalid isoformat string''
   | Some (aware, t) \<Rightarrow> and_then (item (PDict row) ''value'') (\<lambda>v. and_then (float_of_val v) (\<lambda>f.
       let src = strip (py_str R (dget_or row ''source_type'' (PStr []))) in
       (case f of
          Fin x \<Rightarrow> if map_of source_confidence src = None then raise ValueError []
            else Inr \<lparr>ms_aware = aware, ms_time = t, ms_value = x, ms_source = src\<rparr>
        | _ \<Rightarrow> raise ValueError []))))"

definition parse_row :: "iso_reader \<Rightarrow> runtime \<Rightarrow> pydict \<Rightarrow> exc + measured option" where
  "parse_row rd R row = (case parse_value rd R row of
     Inr s \<Rightarrow> Inr (Some s)
   | Inl e \<Rightarrow> if caught_by e [KeyError, ValueError, TypeError] then Inr None else Inl e)"

fun parse_rows :: "iso_reader \<Rightarrow> runtime \<Rightarrow> pydict list \<Rightarrow> exc + (measured list \<times> nat)" where
  "parse_rows rd R [] = Inr ([], 0)"
| "parse_rows rd R (row # rows) = and_then (parse_row rd R row) (\<lambda>r. and_then (parse_rows rd R rows) (\<lambda>(good, bad).
     Inr (case r of Some s \<Rightarrow> (s # good, bad) | None \<Rightarrow> (good, bad + 1))))"

definition confidence_of :: "measured \<Rightarrow> rat" where
  "confidence_of s = (case map_of source_confidence (ms_source s) of Some (Fin c) \<Rightarrow> c | _ \<Rightarrow> 0)"

definition dqi_of :: "measured list \<Rightarrow> nat \<Rightarrow> exc + pyfloat" where
  "dqi_of samples rejected = (if samples = [] then Inr (Fin 0) else
     and_then (ratio (of_nat (length samples) / of_nat (length samples + rejected))) (\<lambda>completeness.
     and_then (fmean (List.map confidence_of samples)) (\<lambda>confidence.
       Inr (py_round 4 (fmul completeness confidence)))))"

section \<open>Comparing two periods\<close>

text \<open>Comparing an aware with a naive datetime raises, in \<open>max\<close>, in \<open>min\<close> and between the two.\<close>

definition same_kind :: "measured list \<Rightarrow> bool" where
  "same_kind xs = list_all (\<lambda>x. ms_aware x = ms_aware (hd xs)) xs"

definition overlapping :: "measured list \<Rightarrow> measured list \<Rightarrow> exc + bool" where
  "overlapping base after = (if base = [] \<or> after = [] then Inr False
     else if \<not> same_kind (base @ after) then raise TypeError ''can't compare offset-naive and offset-aware datetimes''
     else Inr (Min (set (List.map ms_time after)) \<le> Max (set (List.map ms_time base))))"

text \<open>\<open>math.sqrt\<close> of a float that is not negative\<close>

definition fsqrt :: "pyfloat \<Rightarrow> exc + pyfloat" where
  "fsqrt x = (case x of Fin r \<Rightarrow> sqrt_frac r | _ \<Rightarrow> Inr x)"

definition mean_variance :: "rat list \<Rightarrow> exc + pyfloat" where
  "mean_variance xs = and_then (ratio (variance xs)) (\<lambda>v. Inr (fdiv v (of_nat (length xs))))"

record comparison =
  cm_base :: pyfloat
  cm_after :: pyfloat
  cm_diff :: pyfloat
  cm_noise :: pyfloat

definition compare_periods :: "bool \<Rightarrow> rat list \<Rightarrow> rat list \<Rightarrow> exc + comparison" where
  "compare_periods higher_is_worse b a =
     and_then (fmean b) (\<lambda>bm. and_then (fmean a) (\<lambda>am.
     and_then (mean_variance b) (\<lambda>vb. and_then (mean_variance a) (\<lambda>va. and_then (fsqrt (fadd vb va)) (\<lambda>noise.
       Inr \<lparr>cm_base = bm, cm_after = am, cm_diff = (if higher_is_worse then fsub bm am else fsub am bm), cm_noise = noise\<rparr>)))))"

definition significant :: "comparison \<Rightarrow> bool" where
  "significant c \<longleftrightarrow> \<not> fle (fabs (cm_diff c)) (fmul noise_factor (cm_noise c))"

definition flags_of :: "measured list \<Rightarrow> measured list \<Rightarrow> bool \<Rightarrow> pyfloat \<Rightarrow> comparison option \<Rightarrow> string list" where
  "flags_of base after overlap dqi c =
     (if length base < min_samples \<or> length after < min_samples then [''TOO_FEW_SAMPLES''] else [])
     @ (if overlap then [''TEMPORAL_ERROR''] else [])
     @ (if flt dqi dqi_min then [''LOW_DQI''] else [])
     @ (case c of None \<Rightarrow> [] | Some c \<Rightarrow> if significant c then [] else [''NOT_SIGNIFICANT''])"

text \<open>The CO2 factor and its source, both or neither needed\<close>

record impact_request =
  rq_measure :: string
  rq_unit :: string
  rq_factor :: "pynum option"
  rq_source :: "string option"
  rq_worse :: bool

definition check_factor :: "impact_request \<Rightarrow> exc + unit" where
  "check_factor q = (case rq_factor q of
     None \<Rightarrow> Inr ()
   | Some f \<Rightarrow>
       if (case rq_source q of None \<Rightarrow> True | Some s \<Rightarrow> blank s)
       then raise ValueError ''co2_source is required when a CO2 factor is given''
       else and_then (py_isfinite f) (\<lambda>fin. if \<not> fin \<or> num_lt f (NInt 0)
         then raise ValueError ''co2 factor must be a finite non-negative number'' else Inr ()))"

definition number_value :: "pynum \<Rightarrow> pyval" where
  "number_value x = (case x of NInt i \<Rightarrow> PInt i | NFloat f \<Rightarrow> PFloat f)"

definition co2_fields :: "impact_request \<Rightarrow> comparison \<Rightarrow> exc + pydict" where
  "co2_fields q c = (case rq_factor q of
     None \<Rightarrow> Inr []
   | Some f \<Rightarrow> and_then (py_float f) (\<lambda>fv. Inr
       [(''co2_saved_kg_per_sample'', PFloat (py_round 6 (fmul (cm_diff c) fv))), (''co2_factor_kg_per_unit'', number_value f),
        (''co2_factor_source'', PStr (strip (case rq_source q of Some s \<Rightarrow> s | None \<Rightarrow> [])))]))"

definition comparison_fields :: "impact_request \<Rightarrow> comparison \<Rightarrow> exc + pydict" where
  "comparison_fields q c = and_then (co2_fields q c) (\<lambda>co2. Inr
     ([(''baseline_mean'', PFloat (py_round 6 (cm_base c))), (''after_mean'', PFloat (py_round 6 (cm_after c))),
       (''saved_per_sample'', PFloat (py_round 6 (cm_diff c))), (''noise_stderr'', PFloat (py_round 6 (cm_noise c)))] @ co2))"

definition comparable :: "measured list \<Rightarrow> measured list \<Rightarrow> bool" where
  "comparable base after \<longleftrightarrow> 2 \<le> length base \<and> 2 \<le> length after"

definition maybe_compare :: "bool \<Rightarrow> measured list \<Rightarrow> measured list \<Rightarrow> exc + comparison option" where
  "maybe_compare worse base after = (if comparable base after
     then and_then (compare_periods worse (List.map ms_value base) (List.map ms_value after)) (\<lambda>c. Inr (Some c)) else Inr None)"

text \<open>Without a comparison there are too few samples, so a flag is set and the last branch is not reached.\<close>

definition status_of :: "string list \<Rightarrow> comparison option \<Rightarrow> string" where
  "status_of flags c = (if flags \<noteq> [] then ''QUARANTINE''
     else case c of Some c \<Rightarrow> if flt (Fin 0) (py_round 6 (cm_diff c)) then ''VALID'' else ''NO_IMPROVEMENT''
       | None \<Rightarrow> ''NO_IMPROVEMENT'')"

definition compute_impact :: "iso_reader \<Rightarrow> runtime \<Rightarrow> impact_request \<Rightarrow> pydict list \<Rightarrow> pydict list \<Rightarrow> exc + pydict" where
  "compute_impact rd R q baseline_rows after_rows =
     and_then (check_factor q) (\<lambda>_.
     and_then (parse_rows rd R baseline_rows) (\<lambda>(base, base_bad).
     and_then (parse_rows rd R after_rows) (\<lambda>(after, after_bad).
     and_then (overlapping base after) (\<lambda>overlap.
     and_then (dqi_of base base_bad) (\<lambda>db. and_then (dqi_of after after_bad) (\<lambda>da.
     let dqi = py_round 4 (fmin db da) in
     and_then (maybe_compare (rq_worse q) base after) (\<lambda>c.
     and_then (case c of None \<Rightarrow> Inr [] | Some c \<Rightarrow> comparison_fields q c) (\<lambda>fields.
     let flags = flags_of base after overlap dqi c in Inr
       ([(''measure'', PStr (rq_measure q)), (''unit'', PStr (rq_unit q)), (''n_baseline'', PInt (int (length base))),
         (''n_after'', PInt (int (length after))), (''rejected_rows'', PInt (int (base_bad + after_bad))), (''dqi'', PFloat dqi)]
        @ fields @ [(''status'', PStr (status_of flags c)), (''flags'', str_list flags)])))))))))"

section \<open>Recorded impacts\<close>

text \<open>\<open>{"type": "impact", **impact}\<close> and its entry\<close>

definition impact_payload :: "pydict \<Rightarrow> pydict" where
  "impact_payload impact = dupdate [(''type'', PStr ''impact'')] impact"

definition record_impact :: "runtime \<Rightarrow> pydict \<Rightarrow> string \<Rightarrow> ledger \<Rightarrow> ledger \<times> (exc + pydict)" where
  "record_impact R impact now l = append_entry R (PDict (impact_payload impact)) now l"

record totals =
  tt_total :: nat
  tt_valid :: nat
  tt_co2 :: pyfloat

definition count_payload :: "pydict \<Rightarrow> totals \<Rightarrow> exc + totals" where
  "count_payload p t = (if dget p ''type'' \<noteq> PStr ''impact'' then Inr t
     else and_then (item (PDict p) ''status'') (\<lambda>st.
       if st = PStr ''VALID''
       then and_then (number_of (dget_or p ''co2_saved_kg_per_sample'' (PFloat (Fin 0)))) (\<lambda>n. and_then (py_float n) (\<lambda>x.
         Inr \<lparr>tt_total = tt_total t + 1, tt_valid = tt_valid t + 1, tt_co2 = fadd (tt_co2 t) x\<rparr>))
       else Inr (t\<lparr>tt_total := tt_total t + 1\<rparr>)))"

text \<open>Every line is parsed, a blank one too.\<close>

fun sum_lines :: "file_line list \<Rightarrow> totals \<Rightarrow> exc + totals" where
  "sum_lines [] t = Inr t"
| "sum_lines (Parsed v # ls) t = and_then (item v ''payload'') (\<lambda>p. case p of
     PDict d \<Rightarrow> and_then (count_payload d t) (sum_lines ls)
   | _ \<Rightarrow> raise AttributeError ''object has no attribute get'')"
| "sum_lines (l # ls) t = raise JSONDecodeError ''Expecting value''"

definition verified_summary :: "text_file \<Rightarrow> exc + pydict" where
  "verified_summary f = (case f of
     Absent \<Rightarrow> raise FileNotFoundError ''No such file or directory''
   | NotUtf8 \<Rightarrow> raise UnicodeDecodeError ''invalid start byte''
   | Lines ls \<Rightarrow> and_then (sum_lines ls \<lparr>tt_total = 0, tt_valid = 0, tt_co2 = Fin 0\<rparr>) (\<lambda>t. Inr
      [(''impacts_total'', PInt (int (tt_total t))), (''impacts_valid'', PInt (int (tt_valid t))),
       (''verification_rate'', if tt_total t = 0 then PNone
          else PFloat (py_round 4 (to_pf (of_nat (tt_valid t) / of_nat (tt_total t))))),
       (''verified_co2_saved_kg_per_sample'', PFloat (py_round 6 (tt_co2 t)))]))"

section \<open>The command line\<close>

text \<open>
  The commands that work on the ledger file, with what they read elsewhere as inputs. A command
  gives the new ledger file and its exit code, or lets an exception escape. \<open>collect-local\<close> writes its
  samples to any path; the first argument tells whether that is the ledger file, the last is the file
  there is otherwise.
\<close>

datatype command =
    Cmd_evaluate string pyfloat pyfloat pyfloat pyfloat
  | Cmd_verify
  | Cmd_impact impact_request csv_file csv_file
  | Cmd_report
  | Cmd_stewardship_report
  | Cmd_collect bool "(string \<times> memory_source) list" csv_file
  | Cmd_legacy_gate "exc + pyval"

definition exit_error :: "exc_class list \<Rightarrow> exc \<Rightarrow> exc + int" where
  "exit_error cs e = (if caught_by e cs then Inr 1 else Inl e)"

definition cli_evaluate :: "runtime \<Rightarrow> string \<Rightarrow> string \<Rightarrow> pyfloat list \<Rightarrow> text_file \<Rightarrow> text_file \<times> (exc + int)" where
  "cli_evaluate R now target vals f = (case open_ledger R f of
     Inl e \<Rightarrow> (f, exit_error [ValueError] e)
   | Inr l \<Rightarrow> (case evaluate R (PStr target) (zip gate_keys (List.map PFloat vals)) now \<lparr>gate_ledger = l, active = False\<rparr> of
       (g, Inl e) \<Rightarrow> (log_file (gate_ledger g), exit_error [ValueError] e)
     | (g, Inr v) \<Rightarrow> (log_file (gate_ledger g), Inr (if decision v = ''REJECTED_HUMAN_IMPACT'' then 2 else 0))))"

definition cli_impact :: "iso_reader \<Rightarrow> runtime \<Rightarrow> string \<Rightarrow> impact_request \<Rightarrow> csv_file \<Rightarrow> csv_file \<Rightarrow> text_file \<Rightarrow> text_file \<times> (exc + int)" where
  "cli_impact rd R now q base after f =
     (case and_then (load_csv base) (\<lambda>b. and_then (load_csv after) (compute_impact rd R q b)) of
        Inl e \<Rightarrow> (f, exit_error [OSError, ValueError] e)
      | Inr d \<Rightarrow> (case open_ledger R f of
          Inl e \<Rightarrow> (f, exit_error [OSError, ValueError] e)
        | Inr l \<Rightarrow> (case record_impact R d now l of
            (l', Inl e) \<Rightarrow> (log_file l', exit_error [OSError, ValueError] e)
          | (l', Inr rec) \<Rightarrow> (log_file l', Inr (if dget d ''status'' \<in> {PStr ''VALID'', PStr ''NO_IMPROVEMENT''} then 0 else 3)))))"

definition cli_report :: "runtime \<Rightarrow> text_file \<Rightarrow> exc + int" where
  "cli_report R f = and_then (verify_chain R f) (\<lambda>r.
     if \<not> chain_valid r then Inr 1 else and_then (verified_summary f) (\<lambda>d. Inr 0))"

definition cli_legacy_gate :: "exc + pyval \<Rightarrow> exc + int" where
  "cli_legacy_gate r = (case load_record r of
     Inl e \<Rightarrow> exit_error [OSError, ValueError, JSONDecodeError] e
   | Inr rec \<Rightarrow> Inr (if dget (evaluate_record rec) ''decision'' = PStr ''READY'' then 0 else 3))"

text \<open>Rows of a CSV file appended to the ledger file; none of them is JSON.\<close>

definition collect_into :: "runtime \<Rightarrow> (string \<times> memory_source) list \<Rightarrow> text_file \<Rightarrow> text_file \<times> (exc + unit)" where
  "collect_into R samples f = (case write_samples R samples (if f = Absent then [csv_header] else []) of
     (rows, r) \<Rightarrow> (if f = NotUtf8 then f else Lines (file_lines f @ replicate (length rows) Garbage), r))"

definition cli_collect :: "runtime \<Rightarrow> bool \<Rightarrow> (string \<times> memory_source) list \<Rightarrow> csv_file \<Rightarrow> text_file \<Rightarrow> text_file \<times> (exc + int)" where
  "cli_collect R into_ledger samples out f =
     (case (if into_ledger then collect_into R samples f else (f, snd (collect R samples out))) of
       (f', r) \<Rightarrow> (f', and_then r (\<lambda>_. Inr 0)))"

fun cli_main :: "iso_reader \<Rightarrow> runtime \<Rightarrow> string \<Rightarrow> command \<Rightarrow> text_file \<Rightarrow> text_file \<times> (exc + int)" where
  "cli_main rd R now (Cmd_evaluate target a b c h) f = cli_evaluate R now target [a, b, c, h] f"
| "cli_main rd R now (Cmd_impact q base after) f = cli_impact rd R now q base after f"
| "cli_main rd R now Cmd_verify f = (f, and_then (verify_chain R f) (\<lambda>r. Inr (if chain_valid r then 0 else 1)))"
| "cli_main rd R now Cmd_report f = (f, cli_report R f)"
| "cli_main rd R now Cmd_stewardship_report f = (f, and_then (summarize R f) (\<lambda>s. Inr (if chain_valid (chain s) then 0 else 1)))"
| "cli_main rd R now (Cmd_collect into_ledger samples out) f = cli_collect R into_ledger samples out f"
| "cli_main rd R now (Cmd_legacy_gate r) f = (f, cli_legacy_gate r)"

section \<open>When an impact is VALID\<close>

definition means_improve :: "bool \<Rightarrow> rat list \<Rightarrow> rat list \<Rightarrow> bool" where
  "means_improve worse b a \<longleftrightarrow> (if worse then mean_rat a < mean_rat b else mean_rat b < mean_rat a)"

definition good_quality :: "measured list \<Rightarrow> nat \<Rightarrow> measured list \<Rightarrow> nat \<Rightarrow> bool" where
  "good_quality base bad after bad' \<longleftrightarrow> (case (dqi_of base bad, dqi_of after bad') of
     (Inr x, Inr y) \<Rightarrow> \<not> flt (py_round 4 (fmin x y)) dqi_min | _ \<Rightarrow> False)"

definition proven_improvement :: "iso_reader \<Rightarrow> runtime \<Rightarrow> bool \<Rightarrow> pydict list \<Rightarrow> pydict list \<Rightarrow> bool" where
  "proven_improvement rd R worse brows arows \<longleftrightarrow> (case (parse_rows rd R brows, parse_rows rd R arows) of
     (Inr (base, bad), Inr (after, bad')) \<Rightarrow>
        min_samples \<le> length base \<and> min_samples \<le> length after
        \<and> list_all (\<lambda>x. list_all (\<lambda>y. ms_time x < ms_time y) after) base
        \<and> good_quality base bad after bad'
        \<and> means_improve worse (List.map ms_value base) (List.map ms_value after)
        \<and> (case compare_periods worse (List.map ms_value base) (List.map ms_value after) of
             Inr c \<Rightarrow> significant c \<and> flt (Fin 0) (py_round 6 (cm_diff c)) | Inl e \<Rightarrow> False)
   | _ \<Rightarrow> False)"

lemma ratio_value: "ratio q = Inr f \<Longrightarrow> f = Fin (rnd q)"
  using to_pf_Fin [of q] by (cases "to_pf q") (auto simp: ratio_def)

lemma flt_fle_contra: "fle f (Fin 0) \<Longrightarrow> \<not> flt (Fin 0) f"
  by (cases f) (auto simp: fle_def)

lemma compare_improves:
  assumes "compare_periods worse b a = Inr c" and "flt (Fin 0) (py_round 6 (cm_diff c))"
  shows "means_improve worse b a"
proof (rule ccontr)
  assume "\<not> means_improve worse b a"
  moreover have f: "fmean b = Inr (cm_base c)" "fmean a = Inr (cm_after c)"
    and d: "cm_diff c = (if worse then fsub (cm_base c) (cm_after c) else fsub (cm_after c) (cm_base c))"
    using assms(1) by (auto simp: compare_periods_def and_then_Inr)
  moreover have "cm_base c = Fin (rnd (mean_rat b))" "cm_after c = Fin (rnd (mean_rat a))"
    using f by (simp_all add: fmean_def ratio_value)
  ultimately have "fle (cm_diff c) (Fin 0)"
    using rnd_mono [of "mean_rat b" "mean_rat a"] rnd_mono [of "mean_rat a" "mean_rat b"]
    by (auto simp: means_improve_def fsub_def intro!: to_pf_nonpos split: if_splits)
  then have "\<not> flt (Fin 0) (py_round 6 (cm_diff c))" by (intro flt_fle_contra py_round_nonpos)
  then show False using assms(2) by simp
qed

lemma overlapping_order:
  assumes "overlapping base after = Inr v" and "base \<noteq> []" and "after \<noteq> []"
  shows "v \<longleftrightarrow> \<not> list_all (\<lambda>x. list_all (\<lambda>y. ms_time x < ms_time y) after) base"
proof -
  have "v \<longleftrightarrow> Min (ms_time ` set after) \<le> Max (ms_time ` set base)"
    using assms by (auto simp: overlapping_def split: if_splits)
  also have "\<dots> \<longleftrightarrow> \<not> Max (ms_time ` set base) < Min (ms_time ` set after)" by (simp add: not_less)
  also have "Max (ms_time ` set base) < Min (ms_time ` set after) \<longleftrightarrow>
      list_all (\<lambda>x. list_all (\<lambda>y. ms_time x < ms_time y) after) base"
    using assms(2,3) by (auto simp: list_all_iff)
  finally show ?thesis .
qed

text \<open>The steps of a comparison that returned\<close>

lemma compute_impact_Inr:
  assumes "compute_impact rd R q brows arows = Inr d"
  obtains base bad after bad' overlap db da c flds where
    "parse_rows rd R brows = Inr (base, bad)" "parse_rows rd R arows = Inr (after, bad')"
    "overlapping base after = Inr overlap" "dqi_of base bad = Inr db" "dqi_of after bad' = Inr da"
    "maybe_compare (rq_worse q) base after = Inr c"
    "(case c of None \<Rightarrow> Inr [] | Some c \<Rightarrow> comparison_fields q c) = Inr flds"
    "d = [(''measure'', PStr (rq_measure q)), (''unit'', PStr (rq_unit q)), (''n_baseline'', PInt (int (length base))),
         (''n_after'', PInt (int (length after))), (''rejected_rows'', PInt (int (bad + bad'))),
         (''dqi'', PFloat (py_round 4 (fmin db da)))]
        @ flds @ [(''status'', PStr (status_of (flags_of base after overlap (py_round 4 (fmin db da)) c) c)),
          (''flags'', str_list (flags_of base after overlap (py_round 4 (fmin db da)) c))]"
  using assms unfolding compute_impact_def and_then_Inr case_prod_beta Let_def
  by (metis Inr_inject prod.collapse)

definition impact_keys :: "string list" where
  "impact_keys = [''measure'', ''unit'', ''n_baseline'', ''n_after'', ''rejected_rows'', ''dqi'', ''baseline_mean'', ''after_mean'',
     ''saved_per_sample'', ''noise_stderr'', ''co2_saved_kg_per_sample'', ''co2_factor_kg_per_unit'', ''co2_factor_source'',
     ''status'', ''flags'']"

lemma comparison_fields_shape:
  "(case c of None \<Rightarrow> Inr [] | Some c \<Rightarrow> comparison_fields q c) = Inr flds \<Longrightarrow>
    flds = [] \<or> (\<exists>a b e f. flds = [(''baseline_mean'', a), (''after_mean'', b), (''saved_per_sample'', e), (''noise_stderr'', f)])
    \<or> (\<exists>a b e f g h k. flds = [(''baseline_mean'', a), (''after_mean'', b), (''saved_per_sample'', e), (''noise_stderr'', f),
         (''co2_saved_kg_per_sample'', PFloat g), (''co2_factor_kg_per_unit'', h), (''co2_factor_source'', k)])"
  by (auto simp: comparison_fields_def co2_fields_def and_then_Inr split: option.splits)


lemma impact_dict:
  assumes "compute_impact rd R q brows arows = Inr d"
  shows "distinct (List.map fst d)" and "\<not> dhas d ''type''" and "\<exists>st. dget d ''status'' = PStr st"
    and "dhas d ''status''"
    and "dget_or d ''co2_saved_kg_per_sample'' (PFloat (Fin 0)) \<in> range PFloat"
proof -
  from assms obtain flds pre post where d: "d = pre @ flds @ post"
    "\<exists>a b e f g h. pre = [(''measure'', a), (''unit'', b), (''n_baseline'', e), (''n_after'', f), (''rejected_rows'', g), (''dqi'', h)]"
    "\<exists>st k. post = [(''status'', PStr st), (''flags'', k)]"
    and shape: "flds = [] \<or> (\<exists>a b e f. flds = [(''baseline_mean'', a), (''after_mean'', b), (''saved_per_sample'', e), (''noise_stderr'', f)])
    \<or> (\<exists>a b e f g h k. flds = [(''baseline_mean'', a), (''after_mean'', b), (''saved_per_sample'', e), (''noise_stderr'', f),
         (''co2_saved_kg_per_sample'', PFloat g), (''co2_factor_kg_per_unit'', h), (''co2_factor_source'', k)])"
    by (elim compute_impact_Inr) (drule comparison_fields_shape, metis)
  show "distinct (List.map fst d)" using d shape by auto
  show "\<not> dhas d ''type''" using d shape by (auto simp: dhas_def)
  show "\<exists>st. dget d ''status'' = PStr st" using d shape by auto
  show "dhas d ''status''" using d shape by auto
  show "dget_or d ''co2_saved_kg_per_sample'' (PFloat (Fin 0)) \<in> range PFloat" using d shape by (auto simp: dget_or_def)
qed

lemma impact_status:
  assumes "compute_impact rd R q brows arows = Inr d" 
  shows "\<exists>base bad after bad' overlap db da c. parse_rows rd R brows = Inr (base, bad) \<and> parse_rows rd R arows = Inr (after, bad')
    \<and> overlapping base after = Inr overlap \<and> dqi_of base bad = Inr db \<and> dqi_of after bad' = Inr da
    \<and> maybe_compare (rq_worse q) base after = Inr c
    \<and> dget d ''status'' = PStr (status_of (flags_of base after overlap (py_round 4 (fmin db da)) c) c)"
  using assms
proof (rule compute_impact_Inr)
  fix base bad after bad' overlap db da c flds
  assume a: "parse_rows rd R brows = Inr (base, bad)" "parse_rows rd R arows = Inr (after, bad')"
    "overlapping base after = Inr overlap" "dqi_of base bad = Inr db" "dqi_of after bad' = Inr da"
    "maybe_compare (rq_worse q) base after = Inr c"
    and f: "(case c of None \<Rightarrow> Inr [] | Some c \<Rightarrow> comparison_fields q c) = Inr flds"
    and d: "d = [(''measure'', PStr (rq_measure q)), (''unit'', PStr (rq_unit q)), (''n_baseline'', PInt (int (length base))),
         (''n_after'', PInt (int (length after))), (''rejected_rows'', PInt (int (bad + bad'))),
         (''dqi'', PFloat (py_round 4 (fmin db da)))]
        @ flds @ [(''status'', PStr (status_of (flags_of base after overlap (py_round 4 (fmin db da)) c) c)),
          (''flags'', str_list (flags_of base after overlap (py_round 4 (fmin db da)) c))]"
  have "dget d ''status'' = PStr (status_of (flags_of base after overlap (py_round 4 (fmin db da)) c) c)"
    using comparison_fields_shape [OF f] unfolding d by (elim disjE exE) simp_all
  then show ?thesis using a by blast
qed

lemma parse_rows_raises: "parse_rows rd R rows = Inl e \<Longrightarrow> fst e = OverflowError"
proof (induction rows)
  case (Cons row rows)
  have float: "float_of_val v = Inl e \<Longrightarrow> caught_by e [KeyError, ValueError, TypeError] \<or> fst e = OverflowError" for v e
    by (cases v) (auto simp: caught_by_def split: pyfloat.splits option.splits)
  have item: "item (PDict row) k = Inl e \<Longrightarrow> caught_by e [KeyError, ValueError, TypeError]" for k e
    by (auto simp: item_def split: option.splits)
  have body: "(case f of Fin x \<Rightarrow> if map_of source_confidence src = None then raise ValueError [] else Inr (g x)
      | _ \<Rightarrow> raise ValueError []) = Inl e \<Longrightarrow> caught_by e [KeyError, ValueError, TypeError]" for f src e and g :: "rat \<Rightarrow> measured"
    by (cases f) (auto split: if_splits)
  have "parse_value rd R row = Inl e \<Longrightarrow> caught_by e [KeyError, ValueError, TypeError] \<or> fst e = OverflowError" for e
    unfolding parse_value_def and_then_Inl Let_def
    by (auto split: option.splits simp: and_then_Inl dest: item float body)
  then have row: "parse_row rd R row = Inl e \<Longrightarrow> fst e = OverflowError" for e
    by (auto simp: parse_row_def split: sum.splits if_splits)
  show ?case using Cons.prems by (auto simp: and_then_Inl split: prod.splits dest: row Cons.IH)
qed simp

definition impact_errors :: "exc_class list" where
  "impact_errors = [ValueError, TypeError, OverflowError]"

lemma compute_impact_raises: "compute_impact rd R q brows arows = Inl e \<Longrightarrow> fst e \<in> set impact_errors"
proof -
  have factor: "check_factor q = Inl e \<Longrightarrow> fst e \<in> set impact_errors" for e
    by (auto simp: check_factor_def impact_errors_def and_then_Inl dest: isfinite_raises split: option.splits if_splits)
  have overlap: "overlapping b a = Inl e \<Longrightarrow> fst e = TypeError" for b a e
    by (auto simp: overlapping_def impact_errors_def split: if_splits)
  have dqi: "dqi_of b n = Inl e \<Longrightarrow> fst e = OverflowError" for b n e
    by (auto simp: dqi_of_def and_then_Inl fmean_def dest: ratio_raises split: if_splits)
  have sqrt: "fsqrt x = Inl e \<Longrightarrow> fst e = OverflowError" for x e
    by (auto simp: fsqrt_def sqrt_frac_def dest: ratio_raises split: pyfloat.splits)
  have var: "mean_variance x = Inl e \<Longrightarrow> fst e = OverflowError" for x e
    by (auto simp: mean_variance_def and_then_Inl dest: ratio_raises)
  have cmp: "compare_periods w b a = Inl e \<Longrightarrow> fst e = OverflowError" for w b a e
    unfolding compare_periods_def and_then_Inl fmean_def by (auto dest: ratio_raises var sqrt)
  have maybe: "maybe_compare w b a = Inl e \<Longrightarrow> fst e = OverflowError" for w b a e
    by (auto simp: maybe_compare_def and_then_Inl split: if_splits dest: cmp)
  have fields: "(case c of None \<Rightarrow> Inr [] | Some c \<Rightarrow> comparison_fields q c) = Inl e \<Longrightarrow> fst e = OverflowError" for c e
    by (auto simp: comparison_fields_def co2_fields_def and_then_Inl dest: float_raises split: option.splits)
  assume "compute_impact rd R q brows arows = Inl e"
  then show ?thesis
    unfolding compute_impact_def and_then_Inl case_prod_beta Let_def
    by (auto dest: factor, auto simp: impact_errors_def dest: overlap dqi maybe fields parse_rows_raises)
qed

text \<open>
  C32: An impact is VALID exactly when both periods have five accepted samples, every sample of the first
  precedes every one of the second, the data quality is high enough, the mean has moved in the right
  direction, and the difference exceeds twice its standard error and does not round to zero.
\<close>

theorem valid_impact_is_proven:
  "case compute_impact rd R q brows arows of
     Inl e \<Rightarrow> fst e \<in> set impact_errors
   | Inr d \<Rightarrow> dget d ''status'' = PStr ''VALID'' \<longleftrightarrow> proven_improvement rd R (rq_worse q) brows arows"
proof (cases "compute_impact rd R q brows arows")
  case (Inl e)
  then show ?thesis by (simp add: compute_impact_raises)
next
  case (Inr d)
  obtain base bad after bad' overlap db da c where
    p: "parse_rows rd R brows = Inr (base, bad)" "parse_rows rd R arows = Inr (after, bad')"
    and o: "overlapping base after = Inr overlap" "dqi_of base bad = Inr db" "dqi_of after bad' = Inr da"
    and m: "maybe_compare (rq_worse q) base after = Inr c"
    and st: "dget d ''status'' = PStr (status_of (flags_of base after overlap (py_round 4 (fmin db da)) c) c)"
    using impact_status [OF Inr] by blast
  show ?thesis
  proof (cases "min_samples \<le> length base \<and> min_samples \<le> length after")
    case False
    then show ?thesis using p st Inr
      by (auto simp: proven_improvement_def status_of_def flags_of_def)
  next
    case True
    then have two: "comparable base after" "base \<noteq> []" "after \<noteq> []"
      by (auto simp: comparable_def min_samples_def)
    then obtain k where k: "c = Some k" "compare_periods (rq_worse q) (List.map ms_value base) (List.map ms_value after) = Inr k"
      using m by (auto simp: maybe_compare_def and_then_Inr)
    have "dget d ''status'' = PStr ''VALID'' \<longleftrightarrow> \<not> overlap \<and> \<not> flt (py_round 4 (fmin db da)) dqi_min \<and> significant k
        \<and> flt (Fin 0) (py_round 6 (cm_diff k))"
      using st True by (auto simp: status_of_def flags_of_def k(1))
    also have "\<dots> \<longleftrightarrow> proven_improvement rd R (rq_worse q) brows arows"
      using True p o k overlapping_order [OF o(1) two(2,3)] compare_improves [OF k(2)]
      by (auto simp: proven_improvement_def good_quality_def)
    finally show ?thesis using Inr by simp
  qed
qed

lemma mixed_zones_raise:
  assumes "parse_rows rd R brows = Inr (b # bs, bad)" and "parse_rows rd R arows = Inr (a # as, bad')"
    and "ms_aware a \<noteq> ms_aware b" and "rq_factor q = None"
  shows "\<exists>m. compute_impact rd R q brows arows = Inl (TypeError, m)"
proof -
  have "\<not> same_kind ((b # bs) @ (a # as))" using assms(3) by (simp add: same_kind_def)
  then show ?thesis using assms(1,2,4)
    by (simp add: compute_impact_def check_factor_def overlapping_def del: append_Cons)
qed

section \<open>The commands keep the ledger a valid chain\<close>

definition countable_payload :: "pydict \<Rightarrow> bool" where
  "countable_payload p \<longleftrightarrow> dget p ''type'' \<noteq> PStr ''impact''
     \<or> (dhas p ''status'' \<and> dget_or p ''co2_saved_kg_per_sample'' (PFloat (Fin 0)) \<in> range PFloat)"

fun payload_of :: "file_line \<Rightarrow> pyval" where
  "payload_of (Parsed v) = get_in v ''payload''"
| "payload_of l = PNone"

fun entry_line :: "file_line \<Rightarrow> bool" where
  "entry_line (Parsed (PDict d)) \<longleftrightarrow> (case dget d ''payload'' of PDict p \<Rightarrow> countable_payload p | _ \<Rightarrow> False)"
| "entry_line l \<longleftrightarrow> False"

definition is_impact :: "file_line \<Rightarrow> bool" where
  "is_impact l \<longleftrightarrow> get_in (payload_of l) ''type'' = PStr ''impact''"

definition is_valid_impact :: "file_line \<Rightarrow> bool" where
  "is_valid_impact l \<longleftrightarrow> is_impact l \<and> get_in (payload_of l) ''status'' = PStr ''VALID''"

lemma dget_or_dhas: "dget_or d k x = (if dhas d k then dget d k else x)"
  by (auto simp: dget_or_def dhas_def dget_def split: option.splits)

lemma payload_item: "dget d ''payload'' = PDict p \<Longrightarrow> item (PDict d) ''payload'' = Inr (PDict p)"
  by (auto simp: item_def dget_def split: option.splits)

lemma count_payload_Inr:
  assumes "countable_payload p"
  shows "\<exists>c. count_payload p t = Inr \<lparr>tt_total = tt_total t + (if dget p ''type'' = PStr ''impact'' then 1 else 0),
    tt_valid = tt_valid t + (if dget p ''type'' = PStr ''impact'' \<and> dget p ''status'' = PStr ''VALID'' then 1 else 0), tt_co2 = c\<rparr>"
proof (cases "dget p ''type'' = PStr ''impact''")
  case True
  then obtain f where "dhas p ''status''" "dget_or p ''co2_saved_kg_per_sample'' (PFloat (Fin 0)) = PFloat f"
    using assms by (auto simp: countable_payload_def)
  moreover have "item (PDict p) ''status'' = Inr (dget p ''status'')"
    using \<open>dhas p ''status''\<close> by (auto simp: item_def dhas_def dget_def)
  ultimately show ?thesis using True by (cases t) (auto simp: count_payload_def)
next
  case False
  then show ?thesis by (cases t) (auto simp: count_payload_def)
qed

lemma sum_lines_Inr:
  "list_all entry_line ls \<Longrightarrow> \<exists>c. sum_lines ls t = Inr \<lparr>tt_total = tt_total t + length (List.filter is_impact ls),
     tt_valid = tt_valid t + length (List.filter is_valid_impact ls), tt_co2 = c\<rparr>"
proof (induction ls arbitrary: t)
  case Nil
  show ?case by (cases t) simp
next
  case (Cons l ls)
  then obtain d p where l: "l = Parsed (PDict d)" "dget d ''payload'' = PDict p" "countable_payload p"
    by (cases l rule: entry_line.cases) (auto split: pyval.splits)
  obtain c where c: "count_payload p t = Inr \<lparr>tt_total = tt_total t + (if dget p ''type'' = PStr ''impact'' then 1 else 0),
    tt_valid = tt_valid t + (if dget p ''type'' = PStr ''impact'' \<and> dget p ''status'' = PStr ''VALID'' then 1 else 0), tt_co2 = c\<rparr>"
    using count_payload_Inr [OF l(3)] by blast
  have "sum_lines (l # ls) t = and_then (count_payload p t) (sum_lines ls)"
    using payload_item [OF l(2)] by (simp add: l(1))
  then show ?case
    using Cons.IH [of "projr (count_payload p t)"] Cons.prems c l by (auto simp: is_impact_def is_valid_impact_def)
qed

definition cli_ok :: "runtime \<Rightarrow> text_file \<Rightarrow> bool" where
  "cli_ok R f \<longleftrightarrow> list_all entry_line (file_lines f) \<and> (\<exists>l. ledger_inv R l \<and> log_file l = f)"

lemma append_keeps:
  assumes "ledger_inv R l" and "list_all entry_line (file_lines (log_file l))"
    and "distinct (List.map fst p)" and "countable_payload p"
  shows "cli_ok R (log_file (fst (append_entry R (PDict p) now l)))"
proof -
  have "list_all entry_line (file_lines (log_file (fst (append_entry R (PDict p) now l))))"
  proof (cases rule: append_entry_cases [of R "PDict p" now l])
    case (refused e)
    then show ?thesis using assms(2) by simp
  next
    case (added r digest d)
    have "distinct (List.map fst r)" by (simp add: added(2) ledger_record_def)
    from dget_canon [OF this added(3), of "''payload''"] have "dget d ''payload'' = canon (PDict p)"
      by (simp add: added(2) ledger_record_def del: canon.simps)
    then obtain p' where p': "dget d ''payload'' = PDict p'" "canon (PDict p) = PDict p'" by simp
    note c = dget_canon [OF assms(3) p'(2)]
    have st: "canon (dget p ''type'') = PStr ''impact'' \<Longrightarrow> dget p ''type'' = PStr ''impact''"
      by (cases "dget p ''type''") auto
    have "countable_payload p'"
      using assms(4) c [of "''type''"] c [of "''status''"] c [of "''co2_saved_kg_per_sample''"] st
      by (auto simp: countable_payload_def dget_or_dhas)
    then show ?thesis using assms(2) added(1) p'(1) by simp
  qed
  then show ?thesis using append_entry_inv [OF assms(1)] by (auto simp: cli_ok_def)
qed

lemma dupdate_fresh: "distinct (List.map fst (a @ d)) \<Longrightarrow> dupdate a d = a @ d"
proof (induction d arbitrary: a)
  case (Cons x d)
  obtain k v where x: "x = (k, v)" by (cases x)
  have "\<not> dhas a k" using Cons.prems by (auto simp: x dhas_iff dkeys_def)
  then have "dupdate a (x # d) = dupdate (a @ [x]) d" by (simp add: x dupdate_def dset_new)
  also have "\<dots> = a @ x # d" using Cons.IH [of "a @ [x]"] Cons.prems by simp
  finally show ?case .
qed (simp add: dupdate_def)

lemma impact_payload_ok:
  assumes "compute_impact rd R q brows arows = Inr d"
  shows "distinct (List.map fst (impact_payload d)) \<and> countable_payload (impact_payload d)"
proof -
  note d = impact_dict [OF assms]
  have "distinct (List.map fst ((''type'', PStr ''impact'') # d))"
    using d(1,2) by (auto simp: dhas_iff dkeys_def)
  then have "impact_payload d = (''type'', PStr ''impact'') # d"
    using dupdate_fresh [of "[(''type'', PStr ''impact'')]" d] by (simp add: impact_payload_def)
  then show ?thesis
    using \<open>distinct (List.map fst ((''type'', PStr ''impact'') # d))\<close> d(4,5)
    by (auto simp: countable_payload_def dget_or_dhas)
qed

lemma decision_payload_ok:
  "distinct (List.map fst (decision_payload target payload sc dec)) \<and> countable_payload (decision_payload target payload sc dec)"
  by (simp add: decision_payload_def countable_payload_def)

fun collects_into_ledger :: "command \<Rightarrow> bool" where
  "collects_into_ledger (Cmd_collect into_ledger samples out) \<longleftrightarrow> into_ledger"
| "collects_into_ledger c \<longleftrightarrow> False"

lemma cli_main_ok:
  assumes "cli_ok R f" and "\<not> collects_into_ledger c"
  shows "cli_ok R (fst (cli_main rd R now c f))"
proof -
  obtain l where l: "ledger_inv R l" "log_file l = f" "list_all entry_line (file_lines f)"
    using assms by (auto simp: cli_ok_def)
  then have opens: "open_ledger R f = Inr l" using reopen_ledger_inv by blast
  show ?thesis
  proof (cases c)
    case (Cmd_evaluate target a b u h)
    let ?g = "\<lparr>gate_ledger = l, active = False\<rparr>"
    let ?vals = "zip gate_keys (List.map PFloat [a, b, u, h])"
    have "cli_ok R (log_file (gate_ledger (fst (evaluate R (PStr target) ?vals now ?g))))"
    proof (cases rule: evaluate_cases [of R "PStr target" ?vals now ?g])
      case (invalid e)
      then show ?thesis using assms l by simp
    next
      case (decided ns sc dec act l' r)
      have "cli_ok R (log_file (fst (append_entry R (PDict (decision_payload (PStr target) ?vals sc dec)) now l)))"
        using l decision_payload_ok by (intro append_keeps) simp_all
      then show ?thesis using decided(4,5) by simp
    qed
    then show ?thesis using opens by (simp add: Cmd_evaluate cli_evaluate_def case_prod_beta split: sum.splits)
  next
    case (Cmd_impact q base after)
    show ?thesis
    proof (cases "and_then (load_csv base) (\<lambda>b. and_then (load_csv after) (compute_impact rd R q b))")
      case (Inl e)
      then show ?thesis using assms by (simp add: Cmd_impact cli_impact_def)
    next
      case (Inr d)
      then obtain brows arows where "compute_impact rd R q brows arows = Inr d" by (auto simp: and_then_Inr)
      then have "cli_ok R (log_file (fst (record_impact R d now l)))"
        unfolding record_impact_def using l impact_payload_ok by (intro append_keeps) simp_all
      then show ?thesis using Inr opens by (simp add: Cmd_impact cli_impact_def case_prod_beta split: sum.splits)
    qed
  next
    case (Cmd_collect into_ledger samples out)
    then show ?thesis using assms by (simp add: cli_collect_def)
  qed (use assms in simp_all)
qed

definition cli_step :: "iso_reader \<Rightarrow> runtime \<Rightarrow> string \<times> command \<Rightarrow> text_file \<Rightarrow> text_file" where
  "cli_step rd R e f = (case e of (now, c) \<Rightarrow> fst (cli_main rd R now c f))"

text \<open>
  Only \<open>collect-local\<close> pointed at the ledger file writes lines that are no entries. From then on the chain
  is invalid and the other commands leave the file as it is.
\<close>

definition unbroken :: "text_file \<Rightarrow> bool" where
  "unbroken f \<longleftrightarrow> Garbage \<notin> set (file_lines f)"

lemma chain_ok_intact: "chain_ok R p n ls \<Longrightarrow> Garbage \<notin> set ls"
  by (induction R p n ls rule: chain_ok.induct) auto

lemma verify_damaged:
  "\<lbrakk>runtime_ok R; f \<noteq> NotUtf8; \<not> unbroken f\<rbrakk> \<Longrightarrow> \<exists>r. verify_chain R f = Inr r \<and> \<not> chain_valid r"
  using verify_chain_Lines [of R "file_lines f"] chain_ok_intact [of R "PStr genesis" 0 "file_lines f"]
  by (cases f) (auto simp: unbroken_def)

lemma open_damaged:
  "\<lbrakk>runtime_ok R; f \<noteq> NotUtf8; \<not> unbroken f\<rbrakk> \<Longrightarrow> \<exists>e. open_ledger R f = Inl e"
  using verify_damaged [of R f] by (auto simp: open_ledger_def)

definition cli_inv :: "runtime \<Rightarrow> text_file \<Rightarrow> bool" where
  "cli_inv R f \<longleftrightarrow> runtime_ok R \<longrightarrow> f \<noteq> NotUtf8 \<and> (unbroken f \<longrightarrow> cli_ok R f)"

lemma cli_ok_intact: "cli_ok R f \<Longrightarrow> f \<noteq> NotUtf8 \<and> unbroken f"
proof -
  assume ok: "cli_ok R f"
  then have "f \<noteq> NotUtf8" by (auto simp: cli_ok_def ledger_inv_def)
  moreover have "entry_line l \<Longrightarrow> l \<noteq> Garbage" for l by (cases l) simp_all
  ultimately show ?thesis using ok by (auto simp: cli_ok_def unbroken_def list_all_iff)
qed

lemma cli_collect_damages:
  assumes "f \<noteq> NotUtf8"
  shows "fst (cli_collect R b ss out f) = f \<or> fst (cli_collect R b ss out f) \<noteq> NotUtf8 \<and> \<not> unbroken (fst (cli_collect R b ss out f))"
proof -
  obtain rows r where rows: "write_samples R ss (if f = Absent then [csv_header] else []) = (rows, r)" by fastforce
  have grows: "write_samples R xs ys = (zs, q) \<Longrightarrow> length ys \<le> length zs" for xs ys zs q
  proof (induction xs arbitrary: ys)
    case (Cons x xs)
    then show ?case by (cases x; cases "memory_used_mb (snd x)") fastforce+
  qed simp
  have "f = Absent \<Longrightarrow> rows \<noteq> []" using grows [OF rows] by auto
  then show ?thesis using assms rows
    by (cases f; cases "rows = []") (auto simp: cli_collect_def collect_into_def unbroken_def)
qed

lemma cli_main_inv:
  assumes "cli_inv R f"
  shows "cli_inv R (fst (cli_main rd R now c f))"
  unfolding cli_inv_def
proof
  assume R: "runtime_ok R"
  then have f: "f \<noteq> NotUtf8" "unbroken f \<longrightarrow> cli_ok R f" using assms by (simp_all add: cli_inv_def)
  show "fst (cli_main rd R now c f) \<noteq> NotUtf8 \<and> (unbroken (fst (cli_main rd R now c f)) \<longrightarrow> cli_ok R (fst (cli_main rd R now c f)))"
  proof (cases "collects_into_ledger c")
    case True
    then obtain ss out where "c = Cmd_collect True ss out" by (cases c) auto
    then show ?thesis using f cli_collect_damages [OF f(1), of R True ss out] by auto
  next
    case False
    show ?thesis
    proof (cases "unbroken f")
      case True
      then have "cli_ok R (fst (cli_main rd R now c f))" using cli_main_ok f False by blast
      then show ?thesis using cli_ok_intact by blast
    next
      case damaged: False
      then obtain e where e: "open_ledger R f = Inl e" using open_damaged R f by blast
      have "fst (cli_main rd R now c f) = f"
        using False by (cases c) (simp_all add: cli_evaluate_def cli_impact_def cli_collect_def e split: sum.splits)
      then show ?thesis using f damaged by simp
    qed
  qed
qed

interpretation cli_runs: machine "cli_step rd R" "cli_inv R" for rd R
  by unfold_locales (simp add: cli_step_def cli_main_inv split: prod.splits)

lemma cli_runs_intact:
  "cli_ok R f \<Longrightarrow> list_all (\<lambda>(now, c). \<not> collects_into_ledger c) cmds \<Longrightarrow> cli_ok R (fold (cli_step rd R) cmds f)"
  by (induction cmds arbitrary: f) (auto simp: cli_step_def cli_main_ok)

lemma cli_absent_ok: "runtime_ok R \<Longrightarrow> cli_ok R Absent"
  by (auto simp: cli_ok_def ledger_inv_def genesis_def is_ascii_def list_all_iff
      intro!: exI [of _ "\<lparr>log_file = Absent, log_seq = 0, log_head = PStr genesis\<rparr>"])

lemma payloads_return: "list_all entry_line ls \<Longrightarrow> \<exists>ps. payloads ls = Inr ps"
proof (induction ls)
  case (Cons l ls)
  then obtain d p where "l = Parsed (PDict d)" "dget d ''payload'' = PDict p"
    by (cases l rule: entry_line.cases) (auto split: pyval.splits)
  moreover have "dhas d ''payload''" using calculation(2) by (auto simp: dget_def dhas_def split: option.splits)
  moreover obtain ps where "payloads ls = Inr ps" using Cons by auto
  ultimately show ?case by simp
qed simp

lemma cli_ok_verifies: "cli_ok R f \<Longrightarrow> \<exists>r. verify_chain R f = Inr r \<and> chain_valid r \<and> f \<noteq> NotUtf8"
  using verify_ledger_inv by (auto simp: cli_ok_def ledger_inv_def)



lemma blank_line_stops_the_report:
  "sum_lines (Blank # ls) t = raise JSONDecodeError ''Expecting value''"
  "chain_ok R p n (Blank # ls) = chain_ok R p n ls"
  by simp_all

section \<open>Collected samples are accepted\<close>

definition sample_mb :: "memory_source \<Rightarrow> pyfloat option" where
  "sample_mb ls = (case memory_used_mb ls of Inr f \<Rightarrow> Some (py_round 2 f) | Inl e \<Rightarrow> None)"

text \<open>What the clock and \<open>repr\<close> must do for a reading to come back: a time that parses, a float that does.\<close>

definition readable :: "iso_reader \<Rightarrow> runtime \<Rightarrow> string \<times> memory_source \<Rightarrow> bool" where
  "readable rd R s \<longleftrightarrow> rd (replace_z (fst s)) \<noteq> None \<and> (case sample_mb (snd s) of
     Some (Fin x) \<Rightarrow> float_of_text (float_repr R x) = Some (Fin x) | _ \<Rightarrow> False)"

definition measured_of :: "iso_reader \<Rightarrow> string \<times> memory_source \<Rightarrow> measured" where
  "measured_of rd s = \<lparr>ms_aware = fst (the (rd (replace_z (fst s)))), ms_time = snd (the (rd (replace_z (fst s)))),
     ms_value = (case sample_mb (snd s) of Some (Fin x) \<Rightarrow> x | _ \<Rightarrow> 0), ms_source = ''direct_sensor''\<rparr>"

definition sample_row :: "runtime \<Rightarrow> string \<times> memory_source \<Rightarrow> string list" where
  "sample_row R s = [fst s, (case sample_mb (snd s) of Some f \<Rightarrow> py_str R (PFloat f) | None \<Rightarrow> []), ''direct_sensor'']"

lemma write_samples_rows:
  "list_all (readable rd R) ss \<Longrightarrow> write_samples R ss rows = (rows @ List.map (sample_row R) ss, Inr ())"
proof (induction ss arbitrary: rows)
  case (Cons s ss)
  obtain now info where s: "s = (now, info)" by (cases s)
  obtain m where m: "memory_used_mb info = Inr m"
    using Cons.prems by (cases "memory_used_mb info") (auto simp: s readable_def sample_mb_def)
  then have "sample_row R s = [now, py_str R (PFloat (py_round 2 m)), ''direct_sensor'']"
    by (simp add: s sample_row_def sample_mb_def)
  then show ?case using Cons m by (simp add: s)
qed simp

lemma parse_sample_row:
  assumes "readable rd R s"
  shows "parse_row rd R (zip_row csv_header (sample_row R s)) = Inr (Some (measured_of rd s))"
proof -
  obtain aware t where t: "rd (replace_z (fst s)) = Some (aware, t)" using assms by (auto simp: readable_def)
  obtain x where x: "sample_mb (snd s) = Some (Fin x)" "float_of_text (float_repr R x) = Some (Fin x)"
    using assms by (auto simp: readable_def split: option.splits pyfloat.splits)
  have src: "strip ''direct_sensor'' = ''direct_sensor''" by (simp add: strip_def is_space_def)
  show ?thesis
    using t x src
    by (simp add: parse_row_def parse_value_def csv_header_def sample_row_def item_def dget_or_def measured_of_def
        source_confidence_def zip_row_def dupdate_def dset_def)
qed

text \<open>
  Samples collected into a new file are read back by the impact measurement, every one of them
  accepted with its rounded value, none rejected.
\<close>

theorem collected_samples_are_accepted:
  assumes "list_all (readable rd R) ss"
  shows "case load_csv (fst (collect R ss None)) of Inl e \<Rightarrow> False
    | Inr rows \<Rightarrow> parse_rows rd R rows = Inr (List.map (measured_of rd) ss, 0)"
proof -
  have rows: "fst (collect R ss None) = Some (csv_header # List.map (sample_row R) ss)"
    using write_samples_rows [OF assms, of "[csv_header]"] by (simp add: collect_def)
  have "List.filter (\<lambda>r. r \<noteq> []) (List.map (sample_row R) ss) = List.map (sample_row R) ss"
    by (simp add: sample_row_def filter_id_conv)
  then have "load_csv (fst (collect R ss None)) = Inr (List.map (\<lambda>s. zip_row csv_header (sample_row R s)) ss)"
    unfolding rows by (simp add: load_csv_def dict_rows_def csv_header_def comp_def)
  moreover have "parse_rows rd R (List.map (\<lambda>s. zip_row csv_header (sample_row R s)) ss) = Inr (List.map (measured_of rd) ss, 0)"
    using assms by (induction ss) (simp_all add: parse_sample_row)
  ultimately show ?thesis by simp
qed

definition plain_runtime :: runtime where
  "plain_runtime = sample_runtime\<lparr>float_repr := (\<lambda>r. show_int \<lfloor>r\<rfloor> @ ''.0'')\<rparr>"

definition sample_meminfo :: memory_source where
  "sample_meminfo = Meminfo [''MemTotal: 2048 kB'', ''MemAvailable: 1024 kB'']"


definition sample_now :: string where
  "sample_now = ''2024-01-01T00:00:00+00:00''"

lemmas text_evaluation = strip_def is_space_def float_of_text_def take_sign_def Let_def lower_def lower_char_def
  read_decimal_def read_exponent_def digits_def read_nat_def pow10_def split_words_def

lemma plain_repr: "float_of_text ''1.0'' = Some (Fin 1)" "float_of_text ''2048'' = Some (Fin 2048)"
    "float_of_text ''1024'' = Some (Fin 1024)"
  by (simp_all add: text_evaluation)

lemma sample_words: "split_words '' 2048 kB'' = [''2048'', ''kB'']" "split_words '' 1024 kB'' = [''1024'', ''kB'']"
  by (simp_all add: text_evaluation)

lemma sample_memory: "memory_used_mb sample_meminfo = Inr (Fin 1)"
  by (simp add: sample_meminfo_def sample_words plain_repr fsub_def)

lemma sample_reading: "sample_mb sample_meminfo = Some (Fin 1)"
  using rhe_of_int [of 100] by (simp add: sample_mb_def sample_memory py_round_def)

lemma plain_one: "float_repr plain_runtime 1 = ''1.0''"
proof -
  have "digit_char 1 = CHR ''1''" by code_simp
  then show ?thesis by (simp add: plain_runtime_def show_int_def show_nat.simps [of "Suc 0"])
qed

theorem collected_samples_are_accepted_witness:
  "\<exists>rows. load_csv (fst (collect plain_runtime [(sample_now, sample_meminfo), (sample_now, sample_meminfo)] None)) = Inr rows"
proof -
  have "list_all (readable (\<lambda>s. Some (True, 0)) plain_runtime) [(sample_now, sample_meminfo), (sample_now, sample_meminfo)]"
    by (simp add: readable_def sample_reading plain_repr plain_one)
  from collected_samples_are_accepted [OF this] show ?thesis by (auto split: sum.splits)
qed

end
