(* ===== verification/Spec2Isabelle.thy ===== *)
theory Spec2Isabelle
  imports LeaseLock Stewardship Measurement PeerSync Stores RuntimeControl Listener ResourceAdmission Worker GlobalGuard SourceQuality Guardrail V99Core V99Recovery ModelRuns Observer Pipeline ControlPlane Evidence Impact
begin

text \<open>
  Verification library of the V91 core system, a set of local controllers written in Python that
  measure a host, decide within fixed bounds, record what they decide and refuse in doubt. This
  theory imports all the others; each of them opens with a text on the file it models.

  \<^bold>\<open>The program and its parts.\<close> The parts share records on disk rather than calls. The hash-chained
  ledger (\<open>controller/ledger.py\<close>) is written by the stewardship gate (\<open>enforcement.py\<close>) and read by
  its report (\<open>stewardship_report.py\<close>); the measurement core (\<open>measurement_core.py\<close>) has a chained
  file of its own. The runtime controller (\<open>runtime_control.py\<close>) observes a Docker Compose service and
  scales it; the offline worker (\<open>worker.py\<close>) uses its path, audit and JSON helpers. The listener
  (\<open>v91_listener.py\<close>) turns signed inbox files into database rows. Peers exchange heartbeats
  (\<open>peer_sync.py\<close>), and objects with receipts (\<open>peer_store.py\<close>, \<open>crypto_receipts.py\<close>,
  \<open>encrypted_store.py\<close>); leases (\<open>lease_lock.py\<close>) and the admission gate (\<open>resource_admission.py\<close>) guard
  shared resources. The packages \<open>global_guard\<close>, \<open>addons/v91_guardrail\<close> and \<open>v99/filter\<close> judge requests,
  proposals and data points. The package \<open>v99/core\<close> registers modules, inspects them in bounded cycles
  (driven by \<open>v99/agent_shim.py\<close> and \<open>main.py\<close>) and runs only what is reversible and approved;
  \<open>v99/recovery\<close> and \<open>v99/security\<close> keep backups and secrets. Model runs are pinned and replayed
  (\<open>model_run_manifest.py\<close>, \<open>model_runner.py\<close>, \<open>replay_session.py\<close>) and models admitted by
  \<open>model_gate.py\<close>. The observer (\<open>observer.py\<close>) publishes the state of queues and log, which
  \<open>scripts/v91_dashboard.py\<close> reads back. The simulated control plane (\<open>controller.py\<close>) composes an
  anomaly detector, a metrics feed and a feedback loop. The command line (\<open>v91_cli.py\<close>) drives gate,
  impact measurement (\<open>impact.py\<close>, fed by \<open>collector.py\<close>) and reports over one ledger file.

  \<^bold>\<open>The theories.\<close>
  \<^item> \<open>Prelude\<close>: exceptions as values (\<open>exc + 'a\<close>), the sequencing of calls that may raise with and
    without a state, bounded lists, and the locales \<open>machine\<close> and \<open>growing_machine\<close>: what each step
    keeps, each run keeps. Every component with state interprets one of them on its own step.
  \<^item> \<open>PyFloat\<close>, \<open>PyVal\<close>, \<open>PyText\<close>, \<open>Json\<close>, \<open>JsonCanon\<close>, \<open>TextFile\<close>: the Python the code is written in. Binary64
    with rounding to nearest even, infinities and NaN; values and ordered dictionaries; the string
    operations used; canonical JSON, which is proved injective; files as lists of lines.
  \<^item> \<open>HashChain\<close>: the locale of a hash-chained log, with the argument that equal heads have equal
    contents; \<open>Ledger\<close> (\<open>ledger.py\<close>) and \<open>Measurement\<close> (\<open>measurement_core.py\<close>) interpret it.
  \<^item> \<open>Stewardship\<close> (\<open>enforcement.py\<close>, \<open>stewardship_report.py\<close>), \<open>LeaseLock\<close>, \<open>PeerSync\<close>, \<open>RuntimeControl\<close>,
    \<open>Listener\<close>, \<open>ResourceAdmission\<close>, \<open>Worker\<close>, \<open>SourceQuality\<close>: one module each, named after it.
  \<^item> \<open>Stores\<close>: the plain store, the receipts and the encrypted store; both stores interpret the locale
    \<open>content_store\<close>.
  \<^item> \<open>GlobalGuard\<close> (\<open>policy.py\<close>, \<open>feedback.py\<close>, \<open>scenario_runner.py\<close>, both commands of \<open>cli.py\<close>) and
    \<open>Guardrail\<close> (\<open>core.py\<close>, \<open>guarded_runner.py\<close>, \<open>scenario_runner.py\<close>, \<open>demo.py\<close>).
  \<^item> \<open>V99Core\<close> (\<open>status.py\<close>, \<open>module_standard.py\<close>, \<open>lifecycle.py\<close>, \<open>registry.py\<close>, \<open>agent.py\<close>,
    \<open>scheduler.py\<close>, \<open>agent_shim.py\<close>, \<open>main.py\<close>) and \<open>V99Recovery\<close> (\<open>integrity.py\<close>, \<open>backup.py\<close>,
    \<open>secret_store.py\<close>, \<open>key_rotation.py\<close>); both secret stores interpret the locale \<open>secret_store\<close>.
  \<^item> \<open>ModelRuns\<close> (\<open>model_gate.py\<close>, \<open>model_run_manifest.py\<close>, \<open>model_runner.py\<close>, \<open>replay_session.py\<close>,
    \<open>signed_manifest.py\<close>, \<open>trusted_peer_registry.py\<close>).
  \<^item> \<open>PyStats\<close>: the \<open>statistics\<close> module (exact sums, one rounding, square root by rounding to odd) and the
    conversions of numbers; \<open>ControlPlane\<close> (\<open>anomaly.py\<close>, \<open>metrics.py\<close>, \<open>feedback.py\<close>, \<open>chaos.py\<close>,
    \<open>real_metrics.py\<close>, \<open>controller.py\<close>) rests on it.
  \<^item> \<open>Observer\<close> (\<open>observer.py\<close>, \<open>v91_dashboard.py\<close>), \<open>Evidence\<close> (\<open>legacy_gate.py\<close>, \<open>v91_state_check.py\<close>,
    \<open>v91_guideline_hash.py\<close>, \<open>self_study_metrics.py\<close>, \<open>v99/os/services.py\<close>) and \<open>Impact\<close> (\<open>collector.py\<close>,
    \<open>impact.py\<close>, \<open>v91_cli.py\<close>), which builds on \<open>Ledger\<close>, \<open>Stewardship\<close> and \<open>Evidence\<close>.
  \<^item> \<open>TaskQueue\<close> follows the four directories of \<open>Worker\<close> through d_whole runs, as multisets of tasks;
    \<open>Pipeline\<close> puts worker and runtime controller on the audit log they share, with the observer of
    \<open>Observer\<close> reading both, as an interpretation of \<open>machine\<close>. The property at the end of this theory
    is about the three together.

  \<^bold>\<open>How state and operations are modelled.\<close> The attributes of an object, or the files and tables a
  module works on, are a record; a method is a function that returns the new record with the result or
  the exception. A call into code of others or into the operating system is an argument: a function
  on an outside d_world \<open>'w\<close> (Docker, module adapters, tools, key providers, the clock), or the outcome it
  had (a failed write, rename or removal, the d_bytes read). Cryptographic and formatting primitives are
  the records \<open>runtime\<close>, \<open>codec\<close> and \<open>crypto\<close>; properties that need more of them than their type name
  it (\<open>runtime_ok\<close>: digests are 64 hexadecimal digits, \<open>repr\<close> of floats is injective) and show a
  concrete instance. Collision resistance is never assumed: where it matters the property says
  that two records agree or that a collision has been found.

  \<^bold>\<open>What the lemmas show.\<close> Each theory proves what its operations do on every path, the invariant of its
  state under every operation, faults included, and then the properties numbered C\<open>n\<close>: chains decide
  their contract and only grow; leases exclude and fence; replays, forged and stale messages change
  nothing; receipts and files cannot be exchanged; a scaling action is authorised, recorded and verified or
  rolled back; events and tasks are recorded once, no task is lost and the queue is drained by passes that
  may write, and the observer accounts for every audit record and every task; admission, permission and tool calls are exactly
  their conditions; modules never gain rights and unapproved repairs never run; backups are not
  overwritten, restores are verified and an old key is revoked last; a runner never verifies itself and
  a manifest is accepted exactly when authentic; the dashboard confirms exactly what the observer read
  without damage; the control plane executes nothing; an impact is valid only when its means moved,
  and the commands keep their ledger a chain on which the reports succeed. Where the code departs from
  its own description, a lemma shows the input.

  \<^bold>\<open>Bounds and loops.\<close> Python integers are unbounded, so they are \<open>int\<close>; durations and scores are binary64
  as in the code, with the overflow to \<open>OverflowError\<close>. Texts hold code points below 256. A loop over
  data is structural recursion; the search for a free backup name and the reading of files in blocks
  have termination proofs; a service that runs for ever is the list of its passes, polls or cycles, of
  any length, and the watch loop of the runtime controller takes the number of its rounds as fuel: each
  statement holds for every such number.

  \<^bold>\<open>Not modelled.\<close> Printing, logging, argument parsing and signal handlers; threads and \<open>fsync\<close> (a call is
  atomic up to the faults given to it); symbolic links and path aliases outside the worker; the
  package markers, which have no logic of their own. Packages that are only imported, and the validity of
  cryptographic algorithms, stay outside.
\<close>

section \<open>Properties of the services together\<close>


text \<open>A worker pass, a controller killed inside a record, and a worker pass after the lock was removed.\<close>

definition sample_death :: "nat death" where
  "sample_death = \<lparr>d_whole = [], d_cut = [(''phase'', PStr ''DECISION'')], d_bytes = 5, d_world = 1\<rparr>"

abbreviation sample_schedule :: "nat site_event list" where
  "sample_schedule \<equiv> [Worker_pass sample_pass, Killed_cycle NoFile sample_death, Lock_removed,
     Control_cycle sample_compose ''p'' True True False]"

lemma sample_site: "site_ok sample_worker"
  using sample_queue by (simp add: site_ok_def clean_trace_def json_names_def)
    (simp add: sample_worker_def sample_control_def json_suffix_def ends_with_def)


end
